(* ===== verification/Prelude.thy ===== *)
theory Prelude
  imports Main "HOL-Library.Word" "HOL-Library.AList" "HOL-Library.List_Lexorder"
    "HOL-Library.Multiset"
begin

text \<open>
  Vocabulary and automation shared by the components: the machine integers of the Rust sources as
  words, byte strings, big-endian numbers, hash maps as association lists, and results as sums.

  A Rust \<open>HashMap\<close> is an association list with distinct keys whose order stands for the iteration
  order that \<open>HashMap\<close> leaves open; statements about it only use \<^const>\<open>map_of\<close> or the multiset of
  its items.  A Rust \<open>Result<A, E>\<close> is the sum \<open>'e + 'a\<close> with \<^const>\<open>Inl\<close> for \<open>Err\<close> and \<^const>\<open>Inr\<close>
  for \<open>Ok\<close>.
\<close>

type_synonym u8 = "8 word"
type_synonym u16 = "16 word"
type_synonym u32 = "32 word"
type_synonym u64 = "64 word"
type_synonym bytes = "u8 list"
type_synonym ('k, 'v) hash_map = "('k \<times> 'v) list"
type_synonym waker = nat

named_theorems hm_simps "lookup laws of hash maps"
named_theorems word_facts "reading words as natural numbers"

section \<open>Results\<close>

abbreviation Ok :: "'a \<Rightarrow> 'e + 'a"
  where "Ok \<equiv> Inr"

abbreviation Err :: "'e \<Rightarrow> 'e + 'a"
  where "Err \<equiv> Inl"

definition res_bind :: "'e + 'a \<Rightarrow> ('a \<Rightarrow> 'e + 'b) \<Rightarrow> 'e + 'b"
  where "res_bind r f = (case r of Inl e \<Rightarrow> Inl e | Inr a \<Rightarrow> f a)"

definition ok_or :: "'e \<Rightarrow> 'a option \<Rightarrow> 'e + 'a"
  where "ok_or e x = (case x of None \<Rightarrow> Inl e | Some a \<Rightarrow> Inr a)"

definition map_err :: "('e \<Rightarrow> 'f) \<Rightarrow> 'e + 'a \<Rightarrow> 'f + 'a"
  where "map_err f r = (case r of Inl e \<Rightarrow> Inl (f e) | Inr a \<Rightarrow> Inr a)"

lemma res_bind_simps [simp]:
  "res_bind (Inl e) f = Inl e"
  "res_bind (Inr a) f = f a"
  by (simp_all add: res_bind_def)

lemma res_bind_eq_Inr: "res_bind r f = Inr b \<longleftrightarrow> (\<exists>a. r = Inr a \<and> f a = Inr b)"
  by (cases r) simp_all

lemma ok_or_simps [simp]:
  "ok_or e None = Inl e"
  "ok_or e (Some a) = Inr a"
  by (simp_all add: ok_or_def)

lemma map_err_simps [simp]:
  "map_err g (Inl e) = Inl (g e)"
  "map_err g (Inr a) = Inr a"
  by (simp_all add: map_err_def)

section \<open>Lexicographic order\<close>

lemma Nil_less_iff [simp]: "[] < xs \<longleftrightarrow> xs \<noteq> ([] :: 'a::order list)"
  by (cases xs) auto

section \<open>Hash maps\<close>

abbreviation hm_insert :: "'k \<Rightarrow> 'v \<Rightarrow> ('k, 'v) hash_map \<Rightarrow> ('k, 'v) hash_map"
  where "hm_insert \<equiv> AList.update"

abbreviation hm_remove :: "'k \<Rightarrow> ('k, 'v) hash_map \<Rightarrow> ('k, 'v) hash_map"
  where "hm_remove \<equiv> AList.delete"

abbreviation hm_keys :: "('k, 'v) hash_map \<Rightarrow> 'k list"
  where "hm_keys m \<equiv> map fst m"

lemma hm_get_insert [hm_simps]:
  "map_of (hm_insert k v m) k' = (if k' = k then Some v else map_of m k')"
  by (simp add: update_conv)

lemma hm_get_remove [hm_simps]:
  "map_of (hm_remove k m) k' = (if k' = k then None else map_of m k')"
  by (simp add: delete_conv)

lemma hm_keys_insert_new: "k \<notin> set (hm_keys m) \<Longrightarrow> hm_insert k v m = m @ [(k, v)]"
  by (induction m) auto

lemma hm_keys_insert_old: "k \<in> set (hm_keys m) \<Longrightarrow> hm_keys (hm_insert k v m) = hm_keys m"
  by (induction m) auto

lemma hm_insert_zip:
  "distinct ks \<Longrightarrow> length ks = length xs \<Longrightarrow> i < length xs \<Longrightarrow> hm_insert (ks ! i) x (zip ks xs) = zip ks (xs[i := x])"
proof (induction ks arbitrary: xs i)
  case (Cons k ks)
  then obtain y ys where "xs = y # ys"
    by (cases xs) auto
  then show ?case
    using Cons by (cases i) (auto simp: in_set_conv_nth)
qed simp

lemma hm_keys_set_insert [hm_simps]:
  "set (hm_keys (hm_insert k v m)) = insert k (set (hm_keys m))"
  by (induction m) auto

lemma hm_keys_set_remove [hm_simps]:
  "set (hm_keys (hm_remove k m)) = set (hm_keys m) - {k}"
  by (induction m) auto

lemma hm_distinct_insert [simp]: "distinct (hm_keys m) \<Longrightarrow> distinct (hm_keys (hm_insert k v m))"
  by (rule distinct_update)

lemma hm_distinct_remove [simp]: "distinct (hm_keys m) \<Longrightarrow> distinct (hm_keys (hm_remove k m))"
  by (rule distinct_delete)

lemma hm_get_None_iff: "map_of m k = None \<longleftrightarrow> k \<notin> set (hm_keys m)"
  by (induction m) auto

lemma hm_get_Some_in: "map_of m k = Some v \<Longrightarrow> k \<in> set (hm_keys m)"
  by (metis hm_get_None_iff option.distinct(1))

section \<open>Words\<close>

lemma unat_Suc_u64 [word_facts]:
  fixes x :: "'a::len word"
  assumes "unat x + 1 < 2 ^ LENGTH('a)"
  shows "unat (x + 1) = unat x + 1"
  using assms by (simp add: unat_word_ariths unsigned_word_eqI)

lemma u8_less_256 [simp]: "unat (b :: u8) < 256"
  using unsigned_less [of b] by simp

lemma u64_less [simp]: "unat (x :: u64) < 18446744073709551616"
  using unsigned_less [where ?'a = nat and w = x] by simp

lemma word_eq_unat_iff [word_facts]: "x = y \<longleftrightarrow> unat x = unat (y :: 'a::len word)"
  by (simp add: word_unat_eq_iff)

lemma word_less_plus_1_iff [word_facts]: "x < x + 1 \<longleftrightarrow> x \<noteq> (- 1 :: 'a::len word)"
proof (cases "x = - 1")
  case False
  then have "x + 1 \<noteq> 0"
    using add_eq_0_iff2 by blast
  then have "unat (x + 1) = Suc (unat x)"
    by (simp add: unatSuc add.commute)
  then show ?thesis
    using False by (simp add: word_less_nat_alt)
qed simp

section \<open>Big-endian byte strings\<close>

fun be_val :: "bytes \<Rightarrow> nat" where
  "be_val [] = 0"
| "be_val (b # bs) = unat b * 256 ^ length bs + be_val bs"

fun be_bytes :: "nat \<Rightarrow> nat \<Rightarrow> bytes" where
  "be_bytes 0 n = []"
| "be_bytes (Suc k) n = be_bytes k (n div 256) @ [of_nat n]"

lemma be_val_less: "be_val bs < 256 ^ length bs"
proof (induction bs)
  case (Cons b bs)
  have "unat b * 256 ^ length bs + be_val bs < (unat b + 1) * 256 ^ length bs"
    using Cons.IH by simp
  also have "\<dots> \<le> 256 * 256 ^ length bs"
    using u8_less_256 [of b] by (intro mult_right_mono) linarith+
  finally show ?case by simp
qed simp

lemma be_val_append: "be_val (xs @ ys) = be_val xs * 256 ^ length ys + be_val ys"
  by (induction xs) (auto simp: power_add algebra_simps)

lemma length_be_bytes [simp]: "length (be_bytes k n) = k"
  by (induction k arbitrary: n) auto

lemma be_val_be_bytes: "be_val (be_bytes k n) = n mod 256 ^ k"
proof (induction k arbitrary: n)
  case (Suc k)
  have "n mod (256 * 256 ^ k) = 256 * (n div 256 mod 256 ^ k) + n mod 256"
    by (simp add: mod_mult2_eq)
  then show ?case
    by (simp add: Suc.IH be_val_append unat_of_nat)
qed simp

lemma be_bytes_be_val: "be_bytes (length bs) (be_val bs) = bs"
proof (induction bs rule: rev_induct)
  case (snoc b bs)
  have "(be_val bs * 256 + unat b) div 256 = be_val bs"
    using u8_less_256 [of b] by simp
  moreover have "(of_nat (be_val bs * 256 + unat b) :: u8) = b"
    by (simp only: word_eq_unat_iff unat_of_nat) (simp add: mod_add_eq)
  ultimately show ?case
    using snoc by (simp add: be_val_append)
qed simp

lemma be_val_inj: "length xs = length ys \<Longrightarrow> be_val xs = be_val ys \<Longrightarrow> xs = ys"
  by (metis be_bytes_be_val)

lemma be_val_less_iff:
  assumes "length xs = length ys"
  shows "xs < ys \<longleftrightarrow> be_val xs < be_val ys"
  using assms
proof (induction xs ys rule: list_induct2)
  case (Cons x xs y ys)
  show ?case
  proof (cases "x = y")
    case True
    then show ?thesis using Cons by simp
  next
    case False
    have step: "be_val (a # as) < be_val (b # bs)"
      if "a < b" "length as = length bs" for a b :: u8 and as bs
    proof -
      have "unat a + 1 \<le> unat b" using that by (simp add: word_less_nat_alt)
      then have "(unat a + 1) * 256 ^ length as \<le> unat b * 256 ^ length bs"
        unfolding that(2) by (rule mult_right_mono) simp
      then show ?thesis
        using be_val_less [of as] by simp
    qed
    from False have "x < y \<or> y < x" by auto
    then show ?thesis
      using step [of x y xs ys] step [of y x ys xs] Cons.hyps False by fastforce
  qed
qed simp

lemma be_val_le_iff: "length xs = length ys \<Longrightarrow> xs \<le> ys \<longleftrightarrow> be_val xs \<le> be_val ys"
  by (metis be_val_less_iff linorder_not_le)

end
