(* ===== verification/Util_Bytes.thy ===== *)
theory Util_Bytes
  imports Prelude
begin

text \<open>
  The byte utilities: \<open>increment_by_one\<close> of \<open>util.rs\<close>, and the compact-width integers and the
  \<open>Encoder\<close> trait of \<open>util/codec.rs\<close>.  The trait is the locale \<open>encoder\<close>; its provided method
  \<open>encode\<close> is proved there to return a vector of the announced length, and the locale is interpreted
  on \<open>CompactWidth\<close>.
\<close>

section \<open>Incrementing a byte string\<close>

text \<open>The loop over \<open>out.iter_mut().rev()\<close>, on the reversed byte string.\<close>

fun increment_rev :: "bytes \<Rightarrow> bytes option" where
  "increment_rev [] = None"
| "increment_rev (c # cs) =
     (if c \<noteq> 255 then Some ((c + 1) # cs) else map_option ((#) 0) (increment_rev cs))"

definition increment_by_one :: "bytes \<Rightarrow> bytes option"
  where "increment_by_one value = map_option rev (increment_rev (rev value))"

section \<open>Compact-width integers\<close>

definition compact_width :: "u64 \<Rightarrow> u8" where
  "compact_width value =
     (if value < 256 then 1 else if value < 256 ^ 2 then 2 else if value < 256 ^ 4 then 4 else 8)"

datatype CompactWidth = CompactWidth u64

fun cw_value :: "CompactWidth \<Rightarrow> u64"
  where "cw_value (CompactWidth v) = v"

definition cw_len :: "CompactWidth \<Rightarrow> u8"
  where "cw_len c = compact_width (cw_value c)"

definition cw_encoded_len :: "CompactWidth \<Rightarrow> nat"
  where "cw_encoded_len c = unat (cw_len c)"

text \<open>The casts \<open>as u8\<close>, \<open>as u16\<close> and \<open>as u32\<close> truncate; \<open>None\<close> is the \<open>unreachable!\<close> branch.\<close>

definition cw_encode_into :: "CompactWidth \<Rightarrow> bytes \<Rightarrow> bytes option" where
  "cw_encode_into c out =
     (if cw_len c = 1 then Some (out @ be_bytes 1 (unat (ucast (cw_value c) :: u8)))
      else if cw_len c = 2 then Some (out @ be_bytes 2 (unat (ucast (cw_value c) :: u16)))
      else if cw_len c = 4 then Some (out @ be_bytes 4 (unat (ucast (cw_value c) :: u32)))
      else if cw_len c = 8 then Some (out @ be_bytes 8 (unat (cw_value c)))
      else None)"

definition encode :: "('a \<Rightarrow> bytes \<Rightarrow> bytes option) \<Rightarrow> 'a \<Rightarrow> bytes option"
  where "encode encode_into x = encode_into x []"

section \<open>Lemmas\<close>

lemma increment_rev_None_iff: "increment_rev cs = None \<longleftrightarrow> (\<forall>c \<in> set cs. c = 255)"
  by (induction cs) auto

lemma increment_rev_value:
  "increment_rev cs = Some ds \<Longrightarrow> length ds = length cs \<and> be_val (rev ds) = be_val (rev cs) + 1"
proof (induction cs arbitrary: ds)
  case (Cons c cs)
  show ?case
  proof (cases "c = 255")
    case True
    then show ?thesis
      using Cons by (auto simp: be_val_append)
  next
    case False
    then have "unat c \<noteq> 255"
      by (simp add: word_eq_unat_iff)
    then have "unat c < 255"
      using u8_less_256 [of c] by linarith
    then have "unat (c + 1) = unat c + 1"
      using unat_Suc_u64 [of c] by simp
    then show ?thesis
      using Cons.prems False by (auto simp: be_val_append)
  qed
qed simp

lemma increment_by_one_None_iff: "increment_by_one bs = None \<longleftrightarrow> (\<forall>b \<in> set bs. b = 255)"
  by (simp add: increment_by_one_def increment_rev_None_iff)

lemma increment_by_one_value:
  assumes "increment_by_one bs = Some cs"
  shows "length cs = length bs" "be_val cs = be_val bs + 1"
  using assms increment_rev_value [of "rev bs"] by (auto simp: increment_by_one_def)

section \<open>The encoder interface\<close>

text \<open>
  An \<open>Encoder\<close> appends exactly \<open>encoded_len\<close> bytes to the output, which do not depend on what the
  output already holds.
\<close>

locale encoder =
  fixes encoded_len :: "'a \<Rightarrow> nat"
    and encode_into :: "'a \<Rightarrow> bytes \<Rightarrow> bytes option"
  assumes encode_into_appends:
    "\<exists>bs. length bs = encoded_len x \<and> (\<forall>out. encode_into x out = Some (out @ bs))"
begin

lemma encode_Some:
  obtains bs where "encode encode_into x = Some bs" "length bs = encoded_len x"
    "\<And>out. encode_into x out = Some (out @ bs)"
  using encode_into_appends [of x] by (auto simp: encode_def)

lemma encode_into_eq: "encode_into x out = map_option (append out) (encode encode_into x)"
  using encode_into_appends [of x] by (auto simp: encode_def)

lemma encode_length: "\<exists>bs. encode encode_into x = Some bs \<and> length bs = encoded_len x"
  by (rule encode_Some [of x]) blast

end

lemma cw_len_cases: "cw_len c = 1 \<or> cw_len c = 2 \<or> cw_len c = 4 \<or> cw_len c = 8"
  by (simp add: cw_len_def compact_width_def)

interpretation cw: encoder cw_encoded_len cw_encode_into
proof
  fix c :: CompactWidth
  show "\<exists>bs. length bs = cw_encoded_len c \<and> (\<forall>out. cw_encode_into c out = Some (out @ bs))"
    using cw_len_cases [of c]
    by (elim disjE) (simp_all add: cw_encode_into_def cw_encoded_len_def)
qed

lemma compact_width_bound: "unat v < 256 ^ unat (compact_width v)"
proof -
  have "unat v < 256 ^ 8"
    using u64_less [of v] by simp
  then show ?thesis
    by (simp add: compact_width_def word_less_nat_alt)
qed

lemma compact_width_minimal:
  assumes "unat v < 256 ^ w" "w = 1 \<or> w = 2 \<or> w = 4 \<or> w = 8"
  shows "unat (compact_width v) \<le> w"
  using assms by (auto simp: compact_width_def word_less_nat_alt)

lemma unat_ucast_fits:
  fixes v :: "'a::len word"
  assumes "unat v < 2 ^ LENGTH('b::len)"
  shows "unat (ucast v :: 'b word) = unat v"
  using assms by (simp add: unsigned_ucast_eq take_bit_eq_mod)

lemma cw_encode_eq:
  "encode cw_encode_into (CompactWidth v) = Some (be_bytes (unat (compact_width v)) (unat v))"
  using compact_width_bound [of v]
  by (auto simp: encode_def cw_encode_into_def cw_len_def compact_width_def unat_ucast_fits)

text \<open>
  Encoding a 64-bit integer in compact width never reaches the \<open>unreachable!\<close> branch, yields
  the smallest of the four widths that holds the value, and the big-endian value of the bytes is
  the integer again, although the code casts to narrower types on the way.
\<close>

theorem compact_width_roundtrip:
  "\<exists>bs. encode cw_encode_into (CompactWidth v) = Some bs \<and>
        be_val bs = unat v \<and>
        length bs = cw_encoded_len (CompactWidth v) \<and>
        length bs \<in> {1, 2, 4, 8} \<and>
        {w \<in> {1, 2, 4, 8}. unat v < 256 ^ w \<and> w < length bs} = {}"
proof (intro exI conjI)
  show "encode cw_encode_into (CompactWidth v) = Some (be_bytes (unat (compact_width v)) (unat v))"
    by (rule cw_encode_eq)
  show "be_val (be_bytes (unat (compact_width v)) (unat v)) = unat v"
    using compact_width_bound [of v] by (simp add: be_val_be_bytes)
  show "length (be_bytes (unat (compact_width v)) (unat v)) = cw_encoded_len (CompactWidth v)"
    by (simp add: cw_encoded_len_def cw_len_def)
  show "length (be_bytes (unat (compact_width v)) (unat v)) \<in> {1, 2, 4, 8}"
    by (simp add: compact_width_def)
  show "{w \<in> {1, 2, 4, 8}. unat v < 256 ^ w \<and>
      w < length (be_bytes (unat (compact_width v)) (unat v))} = {}"
    using compact_width_minimal [of v] by fastforce
qed

text \<open>
  \<open>increment_by_one\<close> returns the successor in the lexicographic order on byte strings of the
  same length: no byte string of that length lies strictly between the input and the output.
\<close>

theorem increment_by_one_successor:
  assumes "increment_by_one bs = Some cs"
  shows "length cs = length bs \<and> bs < cs \<and>
         (\<forall>ds. length ds = length bs \<longrightarrow> bs < ds \<longrightarrow> cs \<le> ds)"
  using increment_by_one_value [OF assms] by (auto simp: be_val_less_iff be_val_le_iff)

theorem increment_by_one_successor_witness:
  "increment_by_one [0, 255] = Some [1, 0] \<and> [0, 255 :: u8] < [1, 0] \<and> [1, 0 :: u8] \<le> [1, 7]"
proof -
  have i: "increment_by_one [0, 255] = Some [1, 0]"
    by (simp add: increment_by_one_def)
  have "[0, 255 :: u8] < [1, 7]"
    by simp
  then show ?thesis
    using increment_by_one_successor [OF i] i by force
qed

end
