(* ===== verification/Keys.thy ===== *)
theory Keys
  imports Util_Bytes
begin

text \<open>
  The key types of \<open>proto/keys.rs\<close>.  The signature scheme comes from \<open>ed25519_dalek\<close> and the string
  codec from \<open>data_encoding\<close>; both are parameters: the record \<open>ed25519\<close> holds the functions of the
  scheme that the code calls, and \<open>ed25519_laws\<close> names what their documentation promises.
  A \<open>UserId\<close> or \<open>NamespaceId\<close> is a byte string; \<open>[u8; 32]\<close> is a byte list of length 32.
\<close>

section \<open>The signature scheme\<close>

record ('sk, 'vk, 'sg, 'rng) ed25519 =
  dalek_generate :: "'rng \<Rightarrow> 'sk \<times> 'rng"
  dalek_sk_from_bytes :: "bytes \<Rightarrow> 'sk"
  dalek_sk_to_bytes :: "'sk \<Rightarrow> bytes"
  dalek_verifying_key :: "'sk \<Rightarrow> 'vk"
  dalek_vk_as_bytes :: "'vk \<Rightarrow> bytes"
  dalek_vk_from_bytes :: "bytes \<Rightarrow> 'vk option"
  dalek_sign :: "'sk \<Rightarrow> bytes \<Rightarrow> 'sg"
  dalek_verify_strict :: "'vk \<Rightarrow> bytes \<Rightarrow> 'sg \<Rightarrow> bool"
  dalek_verify :: "'vk \<Rightarrow> bytes \<Rightarrow> 'sg \<Rightarrow> bool"
  dalek_sg_to_bytes :: "'sg \<Rightarrow> bytes"
  dalek_sg_from_bytes :: "bytes \<Rightarrow> 'sg"

definition ed25519_laws :: "('sk, 'vk, 'sg, 'rng) ed25519 \<Rightarrow> bool" where
  "ed25519_laws d \<longleftrightarrow>
     (\<forall>vk. length (dalek_vk_as_bytes d vk) = 32 \<and>
           dalek_vk_from_bytes d (dalek_vk_as_bytes d vk) = Some vk) \<and>
     (\<forall>bs vk. dalek_vk_from_bytes d bs = Some vk \<longrightarrow> dalek_vk_as_bytes d vk = bs) \<and>
     (\<forall>sk msg. dalek_verify_strict d (dalek_verifying_key d sk) msg (dalek_sign d sk msg)) \<and>
     (\<forall>vk msg sg. dalek_verify_strict d vk msg sg \<longrightarrow> dalek_verify d vk msg sg) \<and>
     (\<forall>sg. length (dalek_sg_to_bytes d sg) = 64 \<and>
           dalek_sg_from_bytes d (dalek_sg_to_bytes d sg) = sg)"

datatype SignatureError = SignatureError

definition PUBLIC_KEY_LENGTH :: nat where "PUBLIC_KEY_LENGTH = 32"
definition SECRET_KEY_LENGTH :: nat where "SECRET_KEY_LENGTH = 32"
definition SIGNATURE_LENGTH :: nat where "SIGNATURE_LENGTH = 64"

section \<open>Key types\<close>

datatype NamespaceKind = Communal | Owned

datatype NamespaceId = NamespaceId (ns_as_bytes: bytes)
datatype UserId = UserId (user_as_bytes: bytes)

datatype 'sk NamespaceSecretKey = NamespaceSecretKey (ns_signing_key: 'sk)
datatype 'vk NamespacePublicKey = NamespacePublicKey (ns_verifying_key: 'vk)
datatype 'sk UserSecretKey = UserSecretKey (user_signing_key: 'sk)
datatype 'vk UserPublicKey = UserPublicKey (user_verifying_key: 'vk)
datatype 'sg NamespaceSignature = NamespaceSignature (ns_sig: 'sg)
datatype 'sg UserSignature = UserSignature (user_sig: 'sg)

text \<open>The derived \<open>Ord\<close> of the id types compares the byte arrays lexicographically.\<close>

instantiation UserId :: linorder
begin

definition less_eq_UserId :: "UserId \<Rightarrow> UserId \<Rightarrow> bool"
  where "less_eq_UserId a b \<longleftrightarrow> user_as_bytes a \<le> user_as_bytes b"

definition less_UserId :: "UserId \<Rightarrow> UserId \<Rightarrow> bool"
  where "less_UserId a b \<longleftrightarrow> user_as_bytes a < user_as_bytes b"

instance
  by standard (auto simp: less_eq_UserId_def less_UserId_def UserId.expand)

end

instantiation NamespaceId :: linorder
begin

definition less_eq_NamespaceId :: "NamespaceId \<Rightarrow> NamespaceId \<Rightarrow> bool"
  where "less_eq_NamespaceId a b \<longleftrightarrow> ns_as_bytes a \<le> ns_as_bytes b"

definition less_NamespaceId :: "NamespaceId \<Rightarrow> NamespaceId \<Rightarrow> bool"
  where "less_NamespaceId a b \<longleftrightarrow> ns_as_bytes a < ns_as_bytes b"

instance
  by standard (auto simp: less_eq_NamespaceId_def less_NamespaceId_def NamespaceId.expand)

end

section \<open>Namespace keys\<close>

text \<open>Indexing the array at 31 is in range for a 32-byte id.\<close>

definition ns_is_communal :: "NamespaceId \<Rightarrow> bool"
  where "ns_is_communal ns \<longleftrightarrow> ns_as_bytes ns ! 31 = 0"

definition nsk_from_bytes :: "('sk, 'vk, 'sg, 'rng) ed25519 \<Rightarrow> bytes \<Rightarrow> 'sk NamespaceSecretKey"
  where "nsk_from_bytes d bs = NamespaceSecretKey (dalek_sk_from_bytes d bs)"

definition nsk_to_bytes :: "('sk, 'vk, 'sg, 'rng) ed25519 \<Rightarrow> 'sk NamespaceSecretKey \<Rightarrow> bytes"
  where "nsk_to_bytes d k = dalek_sk_to_bytes d (ns_signing_key k)"

definition nsk_public_key ::
  "('sk, 'vk, 'sg, 'rng) ed25519 \<Rightarrow> 'sk NamespaceSecretKey \<Rightarrow> 'vk NamespacePublicKey"
  where "nsk_public_key d k = NamespacePublicKey (dalek_verifying_key d (ns_signing_key k))"

definition npk_id :: "('sk, 'vk, 'sg, 'rng) ed25519 \<Rightarrow> 'vk NamespacePublicKey \<Rightarrow> NamespaceId"
  where "npk_id d k = NamespaceId (dalek_vk_as_bytes d (ns_verifying_key k))"

definition npk_is_communal :: "('sk, 'vk, 'sg, 'rng) ed25519 \<Rightarrow> 'vk NamespacePublicKey \<Rightarrow> bool"
  where "npk_is_communal d k \<longleftrightarrow> ns_is_communal (npk_id d k)"

definition npk_kind :: "('sk, 'vk, 'sg, 'rng) ed25519 \<Rightarrow> 'vk NamespacePublicKey \<Rightarrow> NamespaceKind"
  where "npk_kind d k = (if npk_is_communal d k then Communal else Owned)"

definition nsk_id :: "('sk, 'vk, 'sg, 'rng) ed25519 \<Rightarrow> 'sk NamespaceSecretKey \<Rightarrow> NamespaceId"
  where "nsk_id d k = npk_id d (nsk_public_key d k)"

definition nsk_sign ::
  "('sk, 'vk, 'sg, 'rng) ed25519 \<Rightarrow> 'sk NamespaceSecretKey \<Rightarrow> bytes \<Rightarrow> 'sg NamespaceSignature"
  where "nsk_sign d k msg = NamespaceSignature (dalek_sign d (ns_signing_key k) msg)"

definition npk_verify ::
  "('sk, 'vk, 'sg, 'rng) ed25519 \<Rightarrow> 'vk NamespacePublicKey \<Rightarrow> bytes \<Rightarrow> 'sg NamespaceSignature
   \<Rightarrow> SignatureError + unit"
  where "npk_verify d k msg s =
    (if dalek_verify_strict d (ns_verifying_key k) msg (ns_sig s) then Ok () else Err SignatureError)"

definition npk_from_bytes ::
  "('sk, 'vk, 'sg, 'rng) ed25519 \<Rightarrow> bytes \<Rightarrow> SignatureError + 'vk NamespacePublicKey"
  where "npk_from_bytes d bs =
    (case dalek_vk_from_bytes d bs of None \<Rightarrow> Err SignatureError | Some vk \<Rightarrow> Ok (NamespacePublicKey vk))"

definition ns_into_public_key ::
  "('sk, 'vk, 'sg, 'rng) ed25519 \<Rightarrow> NamespaceId \<Rightarrow> SignatureError + 'vk NamespacePublicKey"
  where "ns_into_public_key d ns = npk_from_bytes d (ns_as_bytes ns)"

text \<open>
  \<open>NamespaceSecretKey::generate\<close> draws signing keys until one has the wanted kind; \<open>None\<close> is the
  loop that never ends.
\<close>

partial_function (option) nsk_generate ::
  "('sk, 'vk, 'sg, 'rng) ed25519 \<Rightarrow> 'rng \<Rightarrow> NamespaceKind \<Rightarrow> ('sk NamespaceSecretKey \<times> 'rng) option"
  where
  "nsk_generate d rng typ =
     (let (signing_key, rng') = dalek_generate d rng;
          secret_key = NamespaceSecretKey signing_key
      in if npk_kind d (nsk_public_key d secret_key) = typ then Some (secret_key, rng')
         else nsk_generate d rng' typ)"

section \<open>User keys\<close>

definition usk_generate :: "('sk, 'vk, 'sg, 'rng) ed25519 \<Rightarrow> 'rng \<Rightarrow> 'sk UserSecretKey \<times> 'rng"
  where "usk_generate d rng = (let (sk, rng') = dalek_generate d rng in (UserSecretKey sk, rng'))"

definition usk_from_bytes :: "('sk, 'vk, 'sg, 'rng) ed25519 \<Rightarrow> bytes \<Rightarrow> 'sk UserSecretKey"
  where "usk_from_bytes d bs = UserSecretKey (dalek_sk_from_bytes d bs)"

definition usk_to_bytes :: "('sk, 'vk, 'sg, 'rng) ed25519 \<Rightarrow> 'sk UserSecretKey \<Rightarrow> bytes"
  where "usk_to_bytes d k = dalek_sk_to_bytes d (user_signing_key k)"

definition usk_public_key ::
  "('sk, 'vk, 'sg, 'rng) ed25519 \<Rightarrow> 'sk UserSecretKey \<Rightarrow> 'vk UserPublicKey"
  where "usk_public_key d k = UserPublicKey (dalek_verifying_key d (user_signing_key k))"

definition upk_id :: "('sk, 'vk, 'sg, 'rng) ed25519 \<Rightarrow> 'vk UserPublicKey \<Rightarrow> UserId"
  where "upk_id d k = UserId (dalek_vk_as_bytes d (user_verifying_key k))"

definition usk_id :: "('sk, 'vk, 'sg, 'rng) ed25519 \<Rightarrow> 'sk UserSecretKey \<Rightarrow> UserId"
  where "usk_id d k = upk_id d (usk_public_key d k)"

definition usk_sign ::
  "('sk, 'vk, 'sg, 'rng) ed25519 \<Rightarrow> 'sk UserSecretKey \<Rightarrow> bytes \<Rightarrow> 'sg UserSignature"
  where "usk_sign d k msg = UserSignature (dalek_sign d (user_signing_key k) msg)"

definition upk_verify ::
  "('sk, 'vk, 'sg, 'rng) ed25519 \<Rightarrow> 'vk UserPublicKey \<Rightarrow> bytes \<Rightarrow> 'sg UserSignature
   \<Rightarrow> SignatureError + unit"
  where "upk_verify d k msg s =
    (if dalek_verify_strict d (user_verifying_key k) msg (user_sig s) then Ok () else Err SignatureError)"

definition upk_from_bytes ::
  "('sk, 'vk, 'sg, 'rng) ed25519 \<Rightarrow> bytes \<Rightarrow> SignatureError + 'vk UserPublicKey"
  where "upk_from_bytes d bs =
    (case dalek_vk_from_bytes d bs of None \<Rightarrow> Err SignatureError | Some vk \<Rightarrow> Ok (UserPublicKey vk))"

definition user_into_public_key ::
  "('sk, 'vk, 'sg, 'rng) ed25519 \<Rightarrow> UserId \<Rightarrow> SignatureError + 'vk UserPublicKey"
  where "user_into_public_key d u = upk_from_bytes d (user_as_bytes u)"

text \<open>\<open>impl Verifier for UserId\<close> and \<open>NamespaceId\<close>, which use the non-strict check.\<close>

definition user_verifier ::
  "('sk, 'vk, 'sg, 'rng) ed25519 \<Rightarrow> UserId \<Rightarrow> bytes \<Rightarrow> 'sg UserSignature \<Rightarrow> SignatureError + unit"
  where "user_verifier d u msg s =
    res_bind (user_into_public_key d u) (\<lambda>key.
      if dalek_verify d (user_verifying_key key) msg (user_sig s) then Ok () else Err SignatureError)"

definition ns_verifier ::
  "('sk, 'vk, 'sg, 'rng) ed25519 \<Rightarrow> NamespaceId \<Rightarrow> bytes \<Rightarrow> 'sg NamespaceSignature
   \<Rightarrow> SignatureError + unit"
  where "ns_verifier d ns msg s =
    res_bind (ns_into_public_key d ns) (\<lambda>key.
      if dalek_verify d (ns_verifying_key key) msg (ns_sig s) then Ok () else Err SignatureError)"

section \<open>Ids as subspace ids\<close>

definition user_min_value :: UserId
  where "user_min_value = UserId (replicate 32 0)"

definition user_is_min_value :: "UserId \<Rightarrow> bool"
  where "user_is_min_value u \<longleftrightarrow> u = user_min_value"

definition user_successor :: "UserId \<Rightarrow> UserId option"
  where "user_successor u = map_option UserId (increment_by_one (user_as_bytes u))"

definition upk_successor :: "('sk, 'vk, 'sg, 'rng) ed25519 \<Rightarrow> 'vk UserPublicKey \<Rightarrow> 'vk UserPublicKey option"
  where "upk_successor d k =
    (case increment_by_one (dalek_vk_as_bytes d (user_verifying_key k)) of
       Some bs \<Rightarrow> (case upk_from_bytes d bs of Inr k' \<Rightarrow> Some k' | Inl _ \<Rightarrow> None)
     | None \<Rightarrow> None)"

section \<open>String and byte encodings\<close>

datatype ParseError = BadBase32 | IncorrectSize nat | BadKey SignatureError

text \<open>The common part of the four \<open>FromStr\<close> instances: base32, then \<open>try_into\<close> a 32-byte array.\<close>

definition decode_key_bytes :: "(string \<Rightarrow> bytes option) \<Rightarrow> string \<Rightarrow> ParseError + bytes" where
  "decode_key_bytes base32 s =
     res_bind (ok_or BadBase32 (base32 s)) (\<lambda>bs.
       if length bs = 32 then Ok bs else Err (IncorrectSize (length bs)))"

definition usk_from_str ::
  "('sk, 'vk, 'sg, 'rng) ed25519 \<Rightarrow> (string \<Rightarrow> bytes option) \<Rightarrow> string \<Rightarrow> ParseError + 'sk UserSecretKey"
  where "usk_from_str d base32 s =
    res_bind (decode_key_bytes base32 s) (\<lambda>bs. Ok (usk_from_bytes d bs))"

definition nsk_from_str ::
  "('sk, 'vk, 'sg, 'rng) ed25519 \<Rightarrow> (string \<Rightarrow> bytes option) \<Rightarrow> string
   \<Rightarrow> ParseError + 'sk NamespaceSecretKey"
  where "nsk_from_str d base32 s =
    res_bind (decode_key_bytes base32 s) (\<lambda>bs. Ok (nsk_from_bytes d bs))"

definition upk_from_str ::
  "('sk, 'vk, 'sg, 'rng) ed25519 \<Rightarrow> (string \<Rightarrow> bytes option) \<Rightarrow> string \<Rightarrow> ParseError + 'vk UserPublicKey"
  where "upk_from_str d base32 s =
    res_bind (decode_key_bytes base32 s) (\<lambda>bs. map_err BadKey (upk_from_bytes d bs))"

definition npk_from_str ::
  "('sk, 'vk, 'sg, 'rng) ed25519 \<Rightarrow> (string \<Rightarrow> bytes option) \<Rightarrow> string
   \<Rightarrow> ParseError + 'vk NamespacePublicKey"
  where "npk_from_str d base32 s =
    res_bind (decode_key_bytes base32 s) (\<lambda>bs. map_err BadKey (npk_from_bytes d bs))"

definition user_from_str ::
  "('sk, 'vk, 'sg, 'rng) ed25519 \<Rightarrow> (string \<Rightarrow> bytes option) \<Rightarrow> string \<Rightarrow> ParseError + UserId"
  where "user_from_str d base32 s = res_bind (upk_from_str d base32 s) (\<lambda>x. Ok (upk_id d x))"

definition ns_from_str ::
  "('sk, 'vk, 'sg, 'rng) ed25519 \<Rightarrow> (string \<Rightarrow> bytes option) \<Rightarrow> string \<Rightarrow> ParseError + NamespaceId"
  where "ns_from_str d base32 s = res_bind (npk_from_str d base32 s) (\<lambda>x. Ok (npk_id d x))"

text \<open>
  The \<open>Encodable\<close> and \<open>Decodable\<close> instances, over an in-memory consumer (the bytes written) and
  producer (the bytes left); \<open>None\<close> is the error of a producer that ends too early.
\<close>

definition overwrite_full_slice :: "nat \<Rightarrow> bytes \<Rightarrow> (bytes \<times> bytes) option" where
  "overwrite_full_slice n p = (if length p < n then None else Some (take n p, drop n p))"

definition user_encode :: "UserId \<Rightarrow> bytes \<Rightarrow> bytes"
  where "user_encode u consumer = consumer @ user_as_bytes u"

definition user_decode :: "bytes \<Rightarrow> (UserId \<times> bytes) option"
  where "user_decode p = map_option (apfst UserId) (overwrite_full_slice PUBLIC_KEY_LENGTH p)"

definition ns_encode :: "NamespaceId \<Rightarrow> bytes \<Rightarrow> bytes"
  where "ns_encode ns consumer = consumer @ ns_as_bytes ns"

definition ns_decode :: "bytes \<Rightarrow> (NamespaceId \<times> bytes) option"
  where "ns_decode p = map_option (apfst NamespaceId) (overwrite_full_slice PUBLIC_KEY_LENGTH p)"

definition user_sig_encode :: "('sk, 'vk, 'sg, 'rng) ed25519 \<Rightarrow> 'sg UserSignature \<Rightarrow> bytes \<Rightarrow> bytes"
  where "user_sig_encode d s consumer = consumer @ dalek_sg_to_bytes d (user_sig s)"

definition user_sig_decode ::
  "('sk, 'vk, 'sg, 'rng) ed25519 \<Rightarrow> bytes \<Rightarrow> ('sg UserSignature \<times> bytes) option"
  where "user_sig_decode d p =
    map_option (apfst (UserSignature \<circ> dalek_sg_from_bytes d)) (overwrite_full_slice SIGNATURE_LENGTH p)"

definition ns_sig_encode :: "('sk, 'vk, 'sg, 'rng) ed25519 \<Rightarrow> 'sg NamespaceSignature \<Rightarrow> bytes \<Rightarrow> bytes"
  where "ns_sig_encode d s consumer = consumer @ dalek_sg_to_bytes d (ns_sig s)"

definition ns_sig_decode ::
  "('sk, 'vk, 'sg, 'rng) ed25519 \<Rightarrow> bytes \<Rightarrow> ('sg NamespaceSignature \<times> bytes) option"
  where "ns_sig_decode d p =
    map_option (apfst (NamespaceSignature \<circ> dalek_sg_from_bytes d)) (overwrite_full_slice SIGNATURE_LENGTH p)"

definition upk_encode :: "('sk, 'vk, 'sg, 'rng) ed25519 \<Rightarrow> 'vk UserPublicKey \<Rightarrow> bytes \<Rightarrow> bytes"
  where "upk_encode d k consumer = consumer @ dalek_vk_as_bytes d (user_verifying_key k)"

definition npk_encode :: "('sk, 'vk, 'sg, 'rng) ed25519 \<Rightarrow> 'vk NamespacePublicKey \<Rightarrow> bytes \<Rightarrow> bytes"
  where "npk_encode d k consumer = consumer @ dalek_vk_as_bytes d (ns_verifying_key k)"

text \<open>\<open>to_vec\<close> and \<open>from_bytes\<close> of \<open>util/codec2.rs\<close>, over the two instances of a type.\<close>

definition to_vec :: "('a \<Rightarrow> bytes \<Rightarrow> bytes) \<Rightarrow> 'a \<Rightarrow> bytes"
  where "to_vec enc item = enc item []"

definition from_bytes :: "(bytes \<Rightarrow> ('a \<times> bytes) option) \<Rightarrow> bytes \<Rightarrow> 'a option"
  where "from_bytes dec data = map_option fst (dec data)"

section \<open>Encodings round trip\<close>

text \<open>
  The contract of a pair of \<open>Encodable\<close> and \<open>Decodable\<close> instances: encoding appends, and decoding
  what was encoded returns the item and leaves the rest of the input.
\<close>

locale codable =
  fixes wf :: "'a \<Rightarrow> bool"
    and enc :: "'a \<Rightarrow> bytes \<Rightarrow> bytes"
    and dec :: "bytes \<Rightarrow> ('a \<times> bytes) option"
  assumes enc_appends: "enc x out = out @ enc x []"
    and dec_enc: "wf x \<Longrightarrow> dec (enc x [] @ rest) = Some (x, rest)"
begin

lemma from_bytes_to_vec: "wf x \<Longrightarrow> from_bytes dec (to_vec enc x) = Some x"
  using dec_enc [of x "[]"] by (simp add: from_bytes_def to_vec_def)

lemma to_vec_inj: "wf x \<Longrightarrow> wf y \<Longrightarrow> to_vec enc x = to_vec enc y \<Longrightarrow> x = y"
  by (metis from_bytes_to_vec option.inject)

lemma dec_two:
  assumes "wf x" "wf y"
  shows "\<exists>rest. dec (enc y (enc x [])) = Some (x, rest) \<and> dec rest = Some (y, [])"
  using assms dec_enc [of x "enc y []"] dec_enc [of y "[]"] enc_appends [of y "enc x []"] by simp

end

lemma overwrite_full_slice_append [simp]:
  "length xs = n \<Longrightarrow> overwrite_full_slice n (xs @ rest) = Some (xs, rest)"
  by (simp add: overwrite_full_slice_def)

interpretation user_codec: codable "\<lambda>u. length (user_as_bytes u) = 32" user_encode user_decode
  by unfold_locales (simp_all add: user_encode_def user_decode_def PUBLIC_KEY_LENGTH_def)

interpretation ns_codec: codable "\<lambda>ns. length (ns_as_bytes ns) = 32" ns_encode ns_decode
  by unfold_locales (simp_all add: ns_encode_def ns_decode_def PUBLIC_KEY_LENGTH_def)

lemma user_sig_codable: "ed25519_laws d \<Longrightarrow> codable (\<lambda>_. True) (user_sig_encode d) (user_sig_decode d)"
  by unfold_locales
    (simp_all add: user_sig_encode_def user_sig_decode_def SIGNATURE_LENGTH_def ed25519_laws_def)

lemma ns_sig_codable: "ed25519_laws d \<Longrightarrow> codable (\<lambda>_. True) (ns_sig_encode d) (ns_sig_decode d)"
  by unfold_locales
    (simp_all add: ns_sig_encode_def ns_sig_decode_def SIGNATURE_LENGTH_def ed25519_laws_def)

lemma user_decode_length: "user_decode p = Some (u, rest) \<Longrightarrow> length (user_as_bytes u) = 32"
  by (auto simp: user_decode_def overwrite_full_slice_def PUBLIC_KEY_LENGTH_def split: if_splits)

section \<open>Keys and ids\<close>

lemma user_id_into_public_key:
  "ed25519_laws d \<Longrightarrow> user_into_public_key d (upk_id d k) = Ok k"
  by (simp add: ed25519_laws_def user_into_public_key_def upk_from_bytes_def upk_id_def)

lemma ns_id_into_public_key: "ed25519_laws d \<Longrightarrow> ns_into_public_key d (npk_id d k) = Ok k"
  by (simp add: ed25519_laws_def ns_into_public_key_def npk_from_bytes_def npk_id_def)

lemma user_into_public_key_id:
  "ed25519_laws d \<Longrightarrow> user_into_public_key d u = Ok k \<Longrightarrow> upk_id d k = u"
  by (cases u) (auto simp: ed25519_laws_def user_into_public_key_def upk_from_bytes_def upk_id_def
      split: option.splits)

lemma upk_verify_sign: "ed25519_laws d \<Longrightarrow> upk_verify d (usk_public_key d k) msg (usk_sign d k msg) = Ok ()"
  by (simp add: ed25519_laws_def upk_verify_def usk_public_key_def usk_sign_def)

lemma user_verifier_sign: "ed25519_laws d \<Longrightarrow> user_verifier d (usk_id d k) msg (usk_sign d k msg) = Ok ()"
  by (simp add: user_verifier_def usk_id_def user_id_into_public_key)
    (simp add: ed25519_laws_def usk_public_key_def usk_sign_def)

lemma npk_kind_communal: "npk_kind d k = Communal \<longleftrightarrow> ns_is_communal (npk_id d k)"
  by (simp add: npk_kind_def npk_is_communal_def)

lemma user_successor_None_iff: "user_successor u = None \<longleftrightarrow> (\<forall>b \<in> set (user_as_bytes u). b = 255)"
  by (simp add: user_successor_def increment_by_one_None_iff)

lemma user_successor_Some:
  assumes "user_successor u = Some v"
  shows "length (user_as_bytes v) = length (user_as_bytes u)"
    and "be_val (user_as_bytes v) = be_val (user_as_bytes u) + 1"
  using assms increment_by_one_value [of "user_as_bytes u"] by (auto simp: user_successor_def)

lemma user_min_value_least: "length (user_as_bytes u) = 32 \<Longrightarrow> user_min_value \<le> u"
proof -
  have "be_val (replicate n 0) = 0" for n
    by (induction n) simp_all
  then show "length (user_as_bytes u) = 32 \<Longrightarrow> user_min_value \<le> u"
    by (simp add: less_eq_UserId_def user_min_value_def be_val_le_iff)
qed

lemma be_val_max: "\<forall>b \<in> set bs. b = 255 \<Longrightarrow> be_val bs = 256 ^ length bs - 1"
  by (induction bs) (auto simp: diff_mult_distrib)

lemma user_successor_greatest:
  assumes "user_successor u = None" "length (user_as_bytes u) = 32" "length (user_as_bytes w) = 32"
  shows "w \<le> u"
  using be_val_max [of "user_as_bytes u"] be_val_less [of "user_as_bytes w"] assms
  by (simp add: user_successor_None_iff less_eq_UserId_def be_val_le_iff)

text \<open>
  The successor of a user id is its upper neighbour in the order the store sorts subspaces by:
  it exists exactly for ids other than the all-255 one, has the same length, and no id lies strictly
  between.
\<close>

theorem user_successor_neighbour:
  assumes "length (user_as_bytes u) = 32"
  shows "case user_successor u of
           None \<Rightarrow> (\<forall>w. length (user_as_bytes w) = 32 \<longrightarrow> w \<le> u)
         | Some v \<Rightarrow> length (user_as_bytes v) = 32 \<and> u < v \<and>
             (\<forall>w. length (user_as_bytes w) = 32 \<longrightarrow> u < w \<longrightarrow> v \<le> w)"
proof (cases "user_successor u")
  case None
  then show ?thesis
    using user_successor_greatest assms by simp
next
  case (Some v)
  then show ?thesis
    using user_successor_Some [OF Some] assms
    by (auto simp: less_eq_UserId_def less_UserId_def be_val_less_iff be_val_le_iff)
qed

theorem user_successor_neighbour_witness:
  "case user_successor (UserId (replicate 31 1 @ [255])) of
     None \<Rightarrow> (\<forall>w. length (user_as_bytes w) = 32 \<longrightarrow> w \<le> UserId (replicate 31 1 @ [255]))
   | Some v \<Rightarrow> length (user_as_bytes v) = 32 \<and> UserId (replicate 31 1 @ [255]) < v \<and>
       (\<forall>w. length (user_as_bytes w) = 32 \<longrightarrow> UserId (replicate 31 1 @ [255]) < w \<longrightarrow> v \<le> w)"
  by (rule user_successor_neighbour) simp

section \<open>Generating a namespace key of a given kind\<close>

definition nth_signing_key :: "('sk, 'vk, 'sg, 'rng) ed25519 \<Rightarrow> 'rng \<Rightarrow> nat \<Rightarrow> 'sk" where
  "nth_signing_key d rng n = fst (dalek_generate d (((\<lambda>r. snd (dalek_generate d r)) ^^ n) rng))"

text \<open>
  \<open>NamespaceSecretKey::generate\<close> returns as soon as the generator ever draws a key of the wanted
  kind, and the id of the key it returns is communal exactly when a communal namespace was asked
  for.
\<close>

theorem nsk_generate_returns:
  assumes "npk_kind d (nsk_public_key d (NamespaceSecretKey (nth_signing_key d rng n))) = typ"
  shows "\<exists>k rng'. nsk_generate d rng typ = Some (k, rng') \<and>
           (ns_is_communal (nsk_id d k) \<longleftrightarrow> typ = Communal)"
  using assms
proof (induction n arbitrary: rng)
  case 0
  then show ?case
    by (subst nsk_generate.simps)
      (auto simp: nth_signing_key_def nsk_id_def npk_kind_communal [symmetric] split: prod.splits)
next
  case (Suc n)
  obtain sk rng1 where gen: "dalek_generate d rng = (sk, rng1)"
    by (cases "dalek_generate d rng")
  have "nth_signing_key d rng (Suc n) = nth_signing_key d rng1 n"
    by (simp add: nth_signing_key_def funpow_Suc_right gen del: funpow.simps)
  then have "\<exists>k rng'. nsk_generate d rng1 typ = Some (k, rng') \<and>
      (ns_is_communal (nsk_id d k) \<longleftrightarrow> typ = Communal)"
    using Suc by simp
  then show ?case
    by (subst nsk_generate.simps) (fastforce simp: gen Let_def nsk_id_def npk_kind_communal [symmetric])
qed

text \<open>
  A small instance of the scheme, on which the laws and the hypotheses below are checked: keys and
  signatures are one byte, stored at the end of their array, and the generator counts.
\<close>

definition demo_scheme :: "(u8, u8, u8, nat) ed25519" where
  "demo_scheme = \<lparr>
     dalek_generate = \<lambda>r. (of_nat r, r + 1),
     dalek_sk_from_bytes = \<lambda>bs. bs ! 31,
     dalek_sk_to_bytes = \<lambda>k. replicate 31 0 @ [k],
     dalek_verifying_key = id,
     dalek_vk_as_bytes = \<lambda>k. replicate 31 0 @ [k],
     dalek_vk_from_bytes = \<lambda>bs. if bs = replicate 31 0 @ [bs ! 31] then Some (bs ! 31) else None,
     dalek_sign = \<lambda>sk msg. sk + sum_list msg,
     dalek_verify_strict = \<lambda>vk msg sg. sg = vk + sum_list msg,
     dalek_verify = \<lambda>vk msg sg. sg = vk + sum_list msg,
     dalek_sg_to_bytes = \<lambda>sg. replicate 63 0 @ [sg],
     dalek_sg_from_bytes = \<lambda>bs. bs ! 63 \<rparr>"

lemma nth_replicate_end: "length xs = n \<Longrightarrow> (xs @ [x]) ! n = x"
  by (simp add: nth_append)

lemma demo_scheme_laws: "ed25519_laws demo_scheme"
  by (auto simp: ed25519_laws_def demo_scheme_def nth_replicate_end split: if_splits)

lemma demo_communal [simp]: "ns_is_communal (nsk_id demo_scheme (NamespaceSecretKey k)) \<longleftrightarrow> k = 0"
  by (simp add: ns_is_communal_def nsk_id_def npk_id_def nsk_public_key_def demo_scheme_def
      nth_replicate_end)

theorem nsk_generate_returns_witness:
  "\<exists>k rng'. nsk_generate demo_scheme 255 Communal = Some (k, rng') \<and>
     (ns_is_communal (nsk_id demo_scheme k) \<longleftrightarrow> Communal = Communal)"
proof (rule nsk_generate_returns [of _ _ 1])
  have "nth_signing_key demo_scheme 255 1 = 0"
    by (simp add: nth_signing_key_def demo_scheme_def)
  then show "npk_kind demo_scheme
      (nsk_public_key demo_scheme (NamespaceSecretKey (nth_signing_key demo_scheme 255 1))) = Communal"
    by (simp add: npk_kind_communal nsk_id_def [symmetric])
qed

end
