(* ===== verification/Handles.thy ===== *)
theory Handles
  imports Keys
begin

text \<open>
  Resource handles (\<open>proto/wgps/handles.rs\<close>) and the errors of the session module
  (\<open>session/error.rs\<close>) with the error types it wraps.  The trait \<open>IsHandle\<close> is the locale
  \<open>is_handle\<close>, interpreted on the four handle types.  Messages of \<open>anyhow\<close>, \<open>io\<close>, \<open>tokio\<close> and
  \<open>meadowcap\<close> errors are strings.
\<close>

section \<open>Handles\<close>

datatype HandleType = HT_Intersection | HT_Capability | HT_AreaOfInterest | HT_PayloadRequest | HT_StaticToken

datatype AreaOfInterestHandle = AreaOfInterestHandle (aoih_value: u64)
datatype IntersectionHandle = IntersectionHandle (ih_value: u64)
datatype CapabilityHandle = CapabilityHandle (ch_value: u64)
datatype StaticTokenHandle = StaticTokenHandle (sth_value: u64)

datatype ResourceHandle =
    RH_AreaOfInterest AreaOfInterestHandle
  | RH_Intersection IntersectionHandle
  | RH_Capability CapabilityHandle
  | RH_StaticToken StaticTokenHandle

fun rh_handle_type :: "ResourceHandle \<Rightarrow> HandleType" where
  "rh_handle_type (RH_Capability _) = HT_Capability"
| "rh_handle_type (RH_StaticToken _) = HT_StaticToken"
| "rh_handle_type (RH_AreaOfInterest _) = HT_AreaOfInterest"
| "rh_handle_type (RH_Intersection _) = HT_Intersection"

text \<open>
  \<open>IsHandle\<close>: a handle type is a wrapped \<open>u64\<close> (\<open>From<u64>\<close> and \<open>value\<close>) that embeds into
  \<open>ResourceHandle\<close>.
\<close>

locale is_handle =
  fixes from_u64 :: "u64 \<Rightarrow> 'h"
    and hvalue :: "'h \<Rightarrow> u64"
    and into_resource :: "'h \<Rightarrow> ResourceHandle"
  assumes value_from: "hvalue (from_u64 n) = n"
    and from_value: "from_u64 (hvalue h) = h"
    and into_inj: "into_resource h = into_resource h' \<Longrightarrow> h = h'"
begin

lemma from_eq_iff: "from_u64 m = from_u64 n \<longleftrightarrow> m = n"
  by (metis value_from)

lemma into_from_eq_iff: "into_resource (from_u64 m) = into_resource (from_u64 n) \<longleftrightarrow> m = n"
  using into_inj from_eq_iff by blast

end

interpretation aoi_handle: is_handle AreaOfInterestHandle aoih_value RH_AreaOfInterest
  by unfold_locales simp_all

interpretation intersection_handle: is_handle IntersectionHandle ih_value RH_Intersection
  by unfold_locales simp_all

interpretation capability_handle: is_handle CapabilityHandle ch_value RH_Capability
  by unfold_locales simp_all

interpretation static_token_handle: is_handle StaticTokenHandle sth_value RH_StaticToken
  by unfold_locales simp_all

section \<open>Errors\<close>

datatype MissingResource = MissingResource ResourceHandle

datatype WriteError = WE_Closed | WE_Encode string
datatype ReadError = RE_ClosedIncomplete | RE_Decode string
datatype SecretStoreError = SSE_Store string | SSE_MissingKey

datatype AuthError =
    AE_InvalidUserId UserId
  | AE_InvalidNamespaceId NamespaceId
  | AE_MissingUserSecret UserId
  | AE_MissingNamespaceSecret NamespaceId
  | AE_SecretStore SecretStoreError
  | AE_NoCapability
  | AE_Other string
  | AE_InvalidPack
  | AE_CreateOwnedCap string
  | AE_CreateCommunalCap string
  | AE_DelegationFailed string
  | AE_SubspaceCapDelegationFailed SignatureError

datatype PaiError =
    SubspaceCapRequestForInvalidHandle
  | SubspaceCapRequestForWrongNamespace
  | PE_MissingResource MissingResource

datatype UnauthorisedWriteError = UnauthorisedWriteError

datatype Error =
    E_Store string
  | E_Auth AuthError
  | E_PayloadStore string
  | E_PayloadDigestMismatch
  | E_PayloadSizeMismatch
  | E_KeyStore SecretStoreError
  | E_Receive ReadError
  | E_Write WriteError
  | E_WrongSecretKeyForCapability
  | E_MissingResource ResourceHandle
  | E_InvalidCapability
  | E_InvalidSignature
  | E_RangeOutsideCapability
  | E_InvalidMessageInCurrentState
  | E_AreaOfInterestNamespaceMismatch
  | E_AreaOfInterestDoesNotOverlap
  | E_UnauthorisedArea
  | E_UnauthorisedWrite UnauthorisedWriteError
  | E_UnsupportedMessage
  | E_WrongChannel
  | E_BrokenCommittement
  | E_SessionNotFound
  | E_InvalidParameters string
  | E_InvalidState string
  | E_ActorFailed
  | E_MissingUserKey UserId
  | E_TaskFailed string
  | E_NoKnownInterestsForCapability
  | E_Pai PaiError
  | E_Net string
  | E_ChannelClosed
  | E_ShuttingDown
  | E_Cancelled
  | E_ConnectionClosed string
  | E_SessionClosedByPeer

text \<open>The \<open>From\<close> instances used by the \<open>?\<close> operator.\<close>

fun error_from_missing_resource :: "MissingResource \<Rightarrow> Error"
  where "error_from_missing_resource (MissingResource h) = E_MissingResource h"

fun error_from_signature :: "SignatureError \<Rightarrow> Error"
  where "error_from_signature SignatureError = E_InvalidSignature"

text \<open>\<open>mem::discriminant\<close>: the position of the variant in the enum.\<close>

fun discriminant :: "Error \<Rightarrow> nat" where
  "discriminant (E_Store _) = 0"
| "discriminant (E_Auth _) = 1"
| "discriminant (E_PayloadStore _) = 2"
| "discriminant E_PayloadDigestMismatch = 3"
| "discriminant E_PayloadSizeMismatch = 4"
| "discriminant (E_KeyStore _) = 5"
| "discriminant (E_Receive _) = 6"
| "discriminant (E_Write _) = 7"
| "discriminant E_WrongSecretKeyForCapability = 8"
| "discriminant (E_MissingResource _) = 9"
| "discriminant E_InvalidCapability = 10"
| "discriminant E_InvalidSignature = 11"
| "discriminant E_RangeOutsideCapability = 12"
| "discriminant E_InvalidMessageInCurrentState = 13"
| "discriminant E_AreaOfInterestNamespaceMismatch = 14"
| "discriminant E_AreaOfInterestDoesNotOverlap = 15"
| "discriminant E_UnauthorisedArea = 16"
| "discriminant (E_UnauthorisedWrite _) = 17"
| "discriminant E_UnsupportedMessage = 18"
| "discriminant E_WrongChannel = 19"
| "discriminant E_BrokenCommittement = 20"
| "discriminant E_SessionNotFound = 21"
| "discriminant (E_InvalidParameters _) = 22"
| "discriminant (E_InvalidState _) = 23"
| "discriminant E_ActorFailed = 24"
| "discriminant (E_MissingUserKey _) = 25"
| "discriminant (E_TaskFailed _) = 26"
| "discriminant E_NoKnownInterestsForCapability = 27"
| "discriminant (E_Pai _) = 28"
| "discriminant (E_Net _) = 29"
| "discriminant E_ChannelClosed = 30"
| "discriminant E_ShuttingDown = 31"
| "discriminant E_Cancelled = 32"
| "discriminant (E_ConnectionClosed _) = 33"
| "discriminant E_SessionClosedByPeer = 34"

text \<open>\<open>impl PartialEq for Error\<close>: the errors with no equality of their own are never equal.\<close>

definition error_eq :: "Error \<Rightarrow> Error \<Rightarrow> bool" where
  "error_eq a b \<longleftrightarrow> discriminant a = discriminant b \<and>
     (case a of
        E_Store _ \<Rightarrow> False
      | E_Auth _ \<Rightarrow> False
      | E_PayloadStore _ \<Rightarrow> False
      | E_KeyStore _ \<Rightarrow> False
      | E_Receive _ \<Rightarrow> False
      | E_Write _ \<Rightarrow> False
      | E_TaskFailed _ \<Rightarrow> False
      | E_Pai _ \<Rightarrow> False
      | E_Net _ \<Rightarrow> False
      | E_MissingResource l \<Rightarrow> b = E_MissingResource l
      | E_InvalidParameters l \<Rightarrow> b = E_InvalidParameters l
      | E_InvalidState l \<Rightarrow> b = E_InvalidState l
      | E_MissingUserKey l \<Rightarrow> b = E_MissingUserKey l
      | _ \<Rightarrow> True)"

end
