(* ===== verification/Outcome.thy ===== *)
theory Outcome
  imports Handles
begin

text \<open>
  Handlers of the session tasks: functions on the state of a task that either finish, fail with an error
  of the session (the \<open>?\<close> operator), panic (\<open>unwrap\<close>, \<open>expect\<close>), overflow a counter (a panic in a debug
  build) or wait for something that has not happened yet.  The effects before a failure stay.  Proofs
  about handlers go through weakest preconditions: \<open>wp ok m Q s\<close> says that \<open>m\<close>, started in \<open>s\<close>,
  neither panics nor fails with an error other than those of \<open>ok\<close>, and ends with \<open>Q\<close> when it finishes.
\<close>

datatype 'a outcome = Done 'a | Failed Error | Panicked | Overflowed | Blocked

type_synonym ('s, 'a) prog = "'s \<Rightarrow> 'a outcome \<times> 's"

named_theorems wp_simps "weakest preconditions of the constructs of handlers"

definition ret :: "'a \<Rightarrow> ('s, 'a) prog"
  where "ret a = (\<lambda>s. (Done a, s))"

definition rbind :: "('s, 'a) prog \<Rightarrow> ('a \<Rightarrow> ('s, 'b) prog) \<Rightarrow> ('s, 'b) prog" where
  "rbind m f = (\<lambda>s. case m s of
     (Done a, s') \<Rightarrow> f a s'
   | (Failed e, s') \<Rightarrow> (Failed e, s')
   | (Panicked, s') \<Rightarrow> (Panicked, s')
   | (Overflowed, s') \<Rightarrow> (Overflowed, s')
   | (Blocked, s') \<Rightarrow> (Blocked, s'))"

definition gets :: "('s \<Rightarrow> 'a) \<Rightarrow> ('s, 'a) prog"
  where "gets f = (\<lambda>s. (Done (f s), s))"

definition modify :: "('s \<Rightarrow> 's) \<Rightarrow> ('s, unit) prog"
  where "modify f = (\<lambda>s. (Done (), f s))"

definition fail :: "Error \<Rightarrow> ('s, 'a) prog"
  where "fail e = (\<lambda>s. (Failed e, s))"

definition try_res :: "Error + 'a \<Rightarrow> ('s, 'a) prog"
  where "try_res r = (\<lambda>s. case r of Inl e \<Rightarrow> (Failed e, s) | Inr a \<Rightarrow> (Done a, s))"

text \<open>Errors of \<open>anyhow\<close> become errors of the local store (\<open>From<anyhow::Error> for Error\<close>).\<close>

definition try_anyhow :: "string + 'a \<Rightarrow> ('s, 'a) prog"
  where "try_anyhow r = try_res (map_err E_Store r)"

definition unwrap :: "'a option \<Rightarrow> ('s, 'a) prog"
  where "unwrap x = (\<lambda>s. case x of None \<Rightarrow> (Panicked, s) | Some a \<Rightarrow> (Done a, s))"

definition checked :: "'a option \<Rightarrow> ('s, 'a) prog"
  where "checked x = (\<lambda>s. case x of None \<Rightarrow> (Overflowed, s) | Some a \<Rightarrow> (Done a, s))"

definition wp :: "(Error \<Rightarrow> bool) \<Rightarrow> ('s, 'a) prog \<Rightarrow> ('a \<Rightarrow> 's \<Rightarrow> bool) \<Rightarrow> 's \<Rightarrow> bool" where
  "wp ok m Q s =
     (case m s of
        (Done a, s') \<Rightarrow> Q a s'
      | (Failed e, s') \<Rightarrow> ok e
      | (Panicked, s') \<Rightarrow> False
      | (Overflowed, s') \<Rightarrow> True
      | (Blocked, s') \<Rightarrow> True)"

lemma wp_ret [wp_simps]: "wp ok (ret a) Q s \<longleftrightarrow> Q a s"
  by (simp add: wp_def ret_def)

lemma wp_rbind [wp_simps]: "wp ok (rbind m f) Q s \<longleftrightarrow> wp ok m (\<lambda>a. wp ok (f a) Q) s"
  by (auto simp: wp_def rbind_def split: prod.splits outcome.splits)

lemma wp_gets [wp_simps]: "wp ok (gets f) Q s \<longleftrightarrow> Q (f s) s"
  by (simp add: wp_def gets_def)

lemma wp_modify [wp_simps]: "wp ok (modify f) Q s \<longleftrightarrow> Q () (f s)"
  by (simp add: wp_def modify_def)

lemma wp_fail [wp_simps]: "wp ok (fail e) Q s \<longleftrightarrow> ok e"
  by (simp add: wp_def fail_def)

lemma wp_try_res [wp_simps]: "wp ok (try_res r) Q s \<longleftrightarrow> (case r of Inl e \<Rightarrow> ok e | Inr a \<Rightarrow> Q a s)"
  by (simp add: wp_def try_res_def split: sum.splits)

lemma wp_try_anyhow [wp_simps]: "wp ok (try_anyhow r) Q s \<longleftrightarrow> (case r of Inl e \<Rightarrow> ok (E_Store e) | Inr a \<Rightarrow> Q a s)"
  by (cases r) (simp_all add: try_anyhow_def wp_try_res)

lemma wp_unwrap [wp_simps]: "wp ok (unwrap x) Q s \<longleftrightarrow> (case x of None \<Rightarrow> False | Some a \<Rightarrow> Q a s)"
  by (simp add: wp_def unwrap_def split: option.splits)

lemma wp_checked [wp_simps]: "wp ok (checked x) Q s \<longleftrightarrow> (case x of None \<Rightarrow> True | Some a \<Rightarrow> Q a s)"
  by (simp add: wp_def checked_def split: option.splits)

lemma wp_if [wp_simps]: "wp ok (if b then m else m') Q s \<longleftrightarrow> (if b then wp ok m Q s else wp ok m' Q s)"
  by simp

lemma wp_Done: "wp ok m Q s \<Longrightarrow> m s = (Done a, s') \<Longrightarrow> Q a s'"
  by (simp add: wp_def)

lemma wp_safe: "wp ok m Q s \<Longrightarrow> fst (m s) \<noteq> Panicked \<and> (\<forall>e. fst (m s) = Failed e \<longrightarrow> ok e)"
  by (auto simp: wp_def split: outcome.splits prod.splits)

lemma wp_mono: "wp ok m Q s \<Longrightarrow> (\<And>a s'. Q a s' \<Longrightarrow> Q' a s') \<Longrightarrow> wp ok m Q' s"
  by (auto simp: wp_def split: outcome.splits prod.splits)

lemma wp_conj: "wp ok m Q s \<Longrightarrow> wp ok m Q' s \<Longrightarrow> wp ok m (\<lambda>a s'. Q a s' \<and> Q' a s') s"
  by (auto simp: wp_def split: outcome.splits prod.splits)

text \<open>Runs that finish\<close>

lemma rbind_DoneE:
  assumes "rbind m f s = (Done x, s')"
  obtains a s1 where "m s = (Done a, s1)" "f a s1 = (Done x, s')"
  using assms by (auto simp: rbind_def split: prod.splits outcome.splits)

lemma rbind_DoneI: "m s = (Done a, s1) \<Longrightarrow> f a s1 = (Done x, s') \<Longrightarrow> rbind m f s = (Done x, s')"
  by (simp add: rbind_def)

lemma try_res_Done: "try_res r s = (Done x, s') \<longleftrightarrow> r = Inr x \<and> s' = s"
  by (cases r) (auto simp: try_res_def)

lemma try_anyhow_Done: "try_anyhow r s = (Done x, s') \<longleftrightarrow> r = Inr x \<and> s' = s"
  by (cases r) (auto simp: try_anyhow_def try_res_def)

lemma unwrap_Done: "unwrap r s = (Done x, s') \<longleftrightarrow> r = Some x \<and> s' = s"
  by (auto simp: unwrap_def split: option.splits)

end
