(* ===== verification/Data_Model.thy ===== *)
theory Data_Model
  imports Handles "HOL-Library.Sublist"
begin

text \<open>
  The data model (\<open>proto/data_model.rs\<close>) and the groupings of entries (\<open>proto/grouping.rs\<close>).

  The structures of the crate \<open>willow_data_model\<close> are records with the fields its accessors name; a
  path is the list of its components.  The functions of that crate are a parameter: the record
  \<open>wdm\<close> has one field per function that the code calls, and the predicates \<open>path_laws\<close>,
  \<open>range_laws\<close>, \<open>area_laws\<close> and \<open>newer_laws\<close> state what its documentation says of them.
\<close>

section \<open>Data\<close>

type_synonym path = "bytes list"
type_synonym SubspaceId = UserId
type_synonym Timestamp = u64
type_synonym PayloadDigest = bytes

definition MAX_COMPONENT_LENGTH :: nat where "MAX_COMPONENT_LENGTH = 4096"
definition MAX_COMPONENT_COUNT :: nat where "MAX_COMPONENT_COUNT = 1024"
definition MAX_PATH_LENGTH :: nat where "MAX_PATH_LENGTH = 4096"
definition DIGEST_LENGTH :: nat where "DIGEST_LENGTH = 32"

record Entry =
  e_namespace_id :: NamespaceId
  e_subspace_id :: SubspaceId
  e_path :: path
  e_timestamp :: Timestamp
  e_payload_length :: u64
  e_payload_digest :: PayloadDigest

record ('cap, 'sg) AuthorisationToken =
  t_capability :: 'cap
  t_signature :: "'sg UserSignature"

record ('cap, 'sg) AuthorisedEntry =
  ae_entry :: Entry
  ae_token :: "('cap, 'sg) AuthorisationToken"

datatype 'a RangeEnd = Closed 'a | Open

datatype 'a Range = Range (range_start: 'a) (range_end: "'a RangeEnd")

record Range3d =
  r_subspaces :: "SubspaceId Range"
  r_paths :: "path Range"
  r_times :: "Timestamp Range"

datatype AreaSubspace = AnySubspace | IdSubspace SubspaceId

record Area =
  a_subspace :: AreaSubspace
  a_path :: path
  a_times :: "Timestamp Range"

record AreaOfInterest =
  aoi_area :: Area
  aoi_max_count :: u64
  aoi_max_size :: u64

datatype InvalidPathError = PathTooLong | TooManyComponents

datatype InvalidPathError2 = ComponentTooLong2 nat | PathTooLong2 | TooManyComponents2

section \<open>The crate \<open>willow_data_model\<close>\<close>

record wdm =
  w_component_new :: "bytes \<Rightarrow> bytes option"
  w_path_new_from_iter :: "nat \<Rightarrow> bytes list \<Rightarrow> InvalidPathError + path"
  w_is_prefix_of :: "path \<Rightarrow> path \<Rightarrow> bool"
  w_greater_but_not_prefixed :: "path \<Rightarrow> path option"
  w_subspace_closed :: "SubspaceId \<Rightarrow> SubspaceId \<Rightarrow> SubspaceId Range option"
  w_path_closed :: "path \<Rightarrow> path \<Rightarrow> path Range option"
  w_time_closed :: "Timestamp \<Rightarrow> Timestamp \<Rightarrow> Timestamp Range option"
  w_range3d_includes_entry :: "Range3d \<Rightarrow> Entry \<Rightarrow> bool"
  w_area_includes_entry :: "Area \<Rightarrow> Entry \<Rightarrow> bool"
  w_area_includes_area :: "Area \<Rightarrow> Area \<Rightarrow> bool"
  w_area_intersection :: "Area \<Rightarrow> Area \<Rightarrow> Area option"
  w_is_newer_than :: "Entry \<Rightarrow> Entry \<Rightarrow> bool"

text \<open>The documented meaning of ranges: from the start, inclusive, to the end, exclusive.\<close>

fun in_range :: "'a::linorder Range \<Rightarrow> 'a \<Rightarrow> bool" where
  "in_range (Range s Open) x \<longleftrightarrow> s \<le> x"
| "in_range (Range s (Closed e)) x \<longleftrightarrow> s \<le> x \<and> x < e"

definition in_range3d :: "Range3d \<Rightarrow> Entry \<Rightarrow> bool" where
  "in_range3d r e \<longleftrightarrow> in_range (r_subspaces r) (e_subspace_id e) \<and> in_range (r_paths r) (e_path e) \<and>
     in_range (r_times r) (e_timestamp e)"

fun in_area_subspace :: "AreaSubspace \<Rightarrow> SubspaceId \<Rightarrow> bool" where
  "in_area_subspace AnySubspace s \<longleftrightarrow> True"
| "in_area_subspace (IdSubspace i) s \<longleftrightarrow> s = i"

definition in_area :: "Area \<Rightarrow> Entry \<Rightarrow> bool" where
  "in_area a e \<longleftrightarrow> in_area_subspace (a_subspace a) (e_subspace_id e) \<and> prefix (a_path a) (e_path e) \<and>
     in_range (a_times a) (e_timestamp e)"

text \<open>
  Components of a path are limited in length, and a path in the number of components and the total
  length.  \<open>greater_but_not_prefixed\<close> returns the least path that is greater and not prefixed.
\<close>

definition path_ok :: "path \<Rightarrow> bool" where
  "path_ok p \<longleftrightarrow> (\<forall>c \<in> set p. length c \<le> MAX_COMPONENT_LENGTH) \<and>
     length p \<le> MAX_COMPONENT_COUNT \<and> sum_list (map length p) \<le> MAX_PATH_LENGTH"

definition path_laws :: "wdm \<Rightarrow> bool" where
  "path_laws w \<longleftrightarrow>
     (\<forall>c. w_component_new w c = (if length c \<le> MAX_COMPONENT_LENGTH then Some c else None)) \<and>
     (\<forall>n cs. w_path_new_from_iter w n cs =
        (if MAX_PATH_LENGTH < n then Inl PathTooLong
         else if MAX_COMPONENT_COUNT < length cs then Inl TooManyComponents else Inr cs)) \<and>
     (\<forall>p q. w_is_prefix_of w p q \<longleftrightarrow> prefix p q) \<and>
     (\<forall>p q. w_greater_but_not_prefixed w p = Some q \<longrightarrow>
        path_ok p \<longrightarrow> p < q \<and> \<not> prefix p q \<and>
        (\<forall>x. path_ok x \<longrightarrow> p < x \<longrightarrow> \<not> prefix p x \<longrightarrow> q \<le> x)) \<and>
     (\<forall>p. w_greater_but_not_prefixed w p = None \<longrightarrow>
        path_ok p \<longrightarrow> (\<forall>x. path_ok x \<longrightarrow> p < x \<longrightarrow> prefix p x))"

definition range_laws :: "wdm \<Rightarrow> bool" where
  "range_laws w \<longleftrightarrow>
     (\<forall>s e. w_subspace_closed w s e = (if s < e then Some (Range s (Closed e)) else None)) \<and>
     (\<forall>s e. w_path_closed w s e = (if s < e then Some (Range s (Closed e)) else None)) \<and>
     (\<forall>s e. w_time_closed w s e = (if s < e then Some (Range s (Closed e)) else None)) \<and>
     (\<forall>r e. w_range3d_includes_entry w r e \<longleftrightarrow> in_range3d r e)"

text \<open>
  An area includes another when it includes all its entries; the intersection of two areas includes
  the entries that both include, and there is none when there are no such entries.
\<close>

definition area_laws :: "wdm \<Rightarrow> bool" where
  "area_laws w \<longleftrightarrow>
     (\<forall>a e. w_area_includes_entry w a e \<longleftrightarrow> in_area a e) \<and>
     (\<forall>a b. w_area_includes_area w a b \<longrightarrow> (\<forall>e. in_area b e \<longrightarrow> in_area a e)) \<and>
     (\<forall>a. w_area_includes_area w a a) \<and>
     (\<forall>a b. case w_area_intersection w a b of
        Some c \<Rightarrow> (\<forall>e. in_area c e \<longleftrightarrow> in_area a e \<and> in_area b e) \<and>
          w_area_includes_area w a c \<and> w_area_includes_area w b c
      | None \<Rightarrow> (\<forall>e. \<not> (in_area a e \<and> in_area b e)))"

text \<open>An entry is newer by its timestamp, then by its payload digest, then by its payload length.\<close>

definition newer_laws :: "wdm \<Rightarrow> bool" where
  "newer_laws w \<longleftrightarrow>
     (\<forall>a b. w_is_newer_than w a b \<longleftrightarrow>
        e_timestamp b < e_timestamp a \<or>
        e_timestamp b = e_timestamp a \<and>
          (e_payload_digest b < e_payload_digest a \<or>
           e_payload_digest b = e_payload_digest a \<and> e_payload_length b < e_payload_length a))"

section \<open>Paths and entries\<close>

fun invalid_path_error_from :: "InvalidPathError \<Rightarrow> InvalidPathError2" where
  "invalid_path_error_from PathTooLong = PathTooLong2"
| "invalid_path_error_from TooManyComponents = TooManyComponents2"

definition path_from_bytes :: "wdm \<Rightarrow> bytes list \<Rightarrow> InvalidPathError2 + path" where
  "path_from_bytes w slices =
     (let component_count = length slices;
          total_len = sum_list (map length slices);
          iter = List.map_filter (w_component_new w) slices
      in res_bind (map_err invalid_path_error_from (w_path_new_from_iter w total_len iter)) (\<lambda>path.
           if length path \<noteq> component_count then Err (ComponentTooLong2 (length path)) else Ok path))"

definition as_sortable_tuple :: "Entry \<Rightarrow> NamespaceId \<times> SubspaceId \<times> path"
  where "as_sortable_tuple e = (e_namespace_id e, e_subspace_id e, e_path e)"

definition digest_default :: PayloadDigest
  where "digest_default = replicate 32 0"

definition digest_encode :: "PayloadDigest \<Rightarrow> bytes \<Rightarrow> bytes"
  where "digest_encode d consumer = consumer @ d"

definition digest_decode :: "bytes \<Rightarrow> (PayloadDigest \<times> bytes) option"
  where "digest_decode p = overwrite_full_slice DIGEST_LENGTH p"

section \<open>Areas, ranges and points\<close>

definition aoi_with_area :: "Area \<Rightarrow> AreaOfInterest"
  where "aoi_with_area area = \<lparr> aoi_area = area, aoi_max_count = 0, aoi_max_size = 0 \<rparr>"

definition range_full_times :: "Timestamp Range"
  where "range_full_times = Range 0 Open"

definition range_full_subspaces :: "SubspaceId Range"
  where "range_full_subspaces = Range user_min_value Open"

definition area_new_path :: "path \<Rightarrow> Area"
  where "area_new_path p = \<lparr> a_subspace = AnySubspace, a_path = p, a_times = range_full_times \<rparr>"

text \<open>\<open>None\<close> is the panic of \<open>expect("successor is bigger")\<close>.\<close>

definition area_to_range :: "wdm \<Rightarrow> Area \<Rightarrow> Range3d option" where
  "area_to_range w a =
     Option.bind
       (case a_subspace a of
          IdSubspace i \<Rightarrow>
            (case user_successor i of
               None \<Rightarrow> Some (Range i Open)
             | Some end' \<Rightarrow> w_subspace_closed w i end')
        | AnySubspace \<Rightarrow> Some range_full_subspaces)
       (\<lambda>subspaces.
     Option.bind
       (case w_greater_but_not_prefixed w (a_path a) of
          None \<Rightarrow> Some (Range (a_path a) Open)
        | Some end' \<Rightarrow> w_path_closed w (a_path a) end')
       (\<lambda>path_range.
     Some \<lparr> r_subspaces = subspaces, r_paths = path_range, r_times = a_times a \<rparr>))"

record Point =
  pt_path :: path
  pt_timestamp :: Timestamp
  pt_subspace_id :: SubspaceId

definition point_new :: "SubspaceId \<Rightarrow> path \<Rightarrow> Timestamp \<Rightarrow> Point"
  where "point_new s p t = \<lparr> pt_path = p, pt_timestamp = t, pt_subspace_id = s \<rparr>"

definition point_from_entry :: "Entry \<Rightarrow> Point"
  where "point_from_entry e = \<lparr> pt_path = e_path e, pt_timestamp = e_timestamp e, pt_subspace_id = e_subspace_id e \<rparr>"

text \<open>\<open>timestamp + 1\<close> wraps in a release build; \<open>None\<close> is the panic of \<open>expect("verified")\<close>.\<close>

definition point_into_area :: "wdm \<Rightarrow> Point \<Rightarrow> Area option" where
  "point_into_area w pt =
     Option.bind (w_time_closed w (pt_timestamp pt) (pt_timestamp pt + 1)) (\<lambda>times.
       Some \<lparr> a_subspace = IdSubspace (pt_subspace_id pt), a_path = pt_path pt, a_times = times \<rparr>)"

definition area_includes_point :: "wdm \<Rightarrow> Area \<Rightarrow> Point \<Rightarrow> bool option" where
  "area_includes_point w a pt = map_option (w_area_includes_area w a) (point_into_area w pt)"

section \<open>Paths in lexicographic order\<close>

lemma prefix_le: "prefix p x \<Longrightarrow> p \<le> (x :: 'a::linorder list)"
proof (induction p arbitrary: x)
  case (Cons a p)
  then show ?case by (cases x) auto
qed simp

lemma prefixed_less:
  fixes p q x :: "'a::linorder list"
  assumes "p < q" "\<not> prefix p q" "prefix p x"
  shows "x < q"
  using assms
proof (induction p arbitrary: q x)
  case (Cons a p)
  obtain b q' where q: "q = b # q'"
    using Cons.prems(1) by (cases q) auto
  obtain x' where x: "x = a # x'" and x': "prefix p x'"
    using Cons.prems(3) by (cases x) auto
  show ?case
  proof (cases "a = b")
    case True
    then show ?thesis
      using Cons.IH [of q' x'] Cons.prems q x x' by simp
  next
    case False
    then show ?thesis
      using Cons.prems(1) q x by auto
  qed
qed simp

section \<open>An instance of the crate\<close>

text \<open>
  A concrete instance of the functions of \<open>willow_data_model\<close>, on which the laws are checked.
\<close>

fun min_end :: "'a::linorder RangeEnd \<Rightarrow> 'a RangeEnd \<Rightarrow> 'a RangeEnd" where
  "min_end Open e = e"
| "min_end e Open = e"
| "min_end (Closed a) (Closed b) = Closed (min a b)"

fun range_intersection :: "'a::linorder Range \<Rightarrow> 'a Range \<Rightarrow> 'a Range option" where
  "range_intersection (Range s e) (Range s' e') =
     (case min_end e e' of
        Open \<Rightarrow> Some (Range (max s s') Open)
      | Closed x \<Rightarrow> if max s s' < x then Some (Range (max s s') (Closed x)) else None)"

fun range_includes_range :: "'a::linorder Range \<Rightarrow> 'a Range \<Rightarrow> bool" where
  "range_includes_range (Range s e) (Range s' e') \<longleftrightarrow> s \<le> s' \<and> min_end e e' = e'"

fun subspace_includes :: "AreaSubspace \<Rightarrow> AreaSubspace \<Rightarrow> bool" where
  "subspace_includes AnySubspace b \<longleftrightarrow> True"
| "subspace_includes a b \<longleftrightarrow> a = b"

definition demo_includes_area :: "Area \<Rightarrow> Area \<Rightarrow> bool" where
  "demo_includes_area a b \<longleftrightarrow> subspace_includes (a_subspace a) (a_subspace b) \<and>
     prefix (a_path a) (a_path b) \<and> range_includes_range (a_times a) (a_times b)"

definition demo_intersection :: "Area \<Rightarrow> Area \<Rightarrow> Area option" where
  "demo_intersection a b =
     (case range_intersection (a_times a) (a_times b) of
        None \<Rightarrow> None
      | Some t \<Rightarrow>
          if \<not> subspace_includes (a_subspace a) (a_subspace b) \<and> \<not> subspace_includes (a_subspace b) (a_subspace a)
          then None
          else if \<not> prefix (a_path a) (a_path b) \<and> \<not> prefix (a_path b) (a_path a) then None
          else Some \<lparr> a_subspace =
                        (if subspace_includes (a_subspace a) (a_subspace b) then a_subspace b else a_subspace a),
                      a_path = (if prefix (a_path a) (a_path b) then a_path b else a_path a),
                      a_times = t \<rparr>)"

fun demo_greater :: "path \<Rightarrow> path option" where
  "demo_greater [] = None"
| "demo_greater [c] = Some [c @ [0]]"
| "demo_greater (c # cs) = map_option ((#) c) (demo_greater cs)"

definition demo_wdm :: wdm where
  "demo_wdm = \<lparr>
     w_component_new = \<lambda>c. if length c \<le> MAX_COMPONENT_LENGTH then Some c else None,
     w_path_new_from_iter = \<lambda>n cs.
       if MAX_PATH_LENGTH < n then Inl PathTooLong
       else if MAX_COMPONENT_COUNT < length cs then Inl TooManyComponents else Inr cs,
     w_is_prefix_of = prefix,
     w_greater_but_not_prefixed = demo_greater,
     w_subspace_closed = \<lambda>s e. if s < e then Some (Range s (Closed e)) else None,
     w_path_closed = \<lambda>s e. if s < e then Some (Range s (Closed e)) else None,
     w_time_closed = \<lambda>s e. if s < e then Some (Range s (Closed e)) else None,
     w_range3d_includes_entry = in_range3d,
     w_area_includes_entry = in_area,
     w_area_includes_area = demo_includes_area,
     w_area_intersection = demo_intersection,
     w_is_newer_than = \<lambda>a b.
       e_timestamp b < e_timestamp a \<or>
       e_timestamp b = e_timestamp a \<and>
         (e_payload_digest b < e_payload_digest a \<or>
          e_payload_digest b = e_payload_digest a \<and> e_payload_length b < e_payload_length a) \<rparr>"

lemma append_zero_next: "c < d \<Longrightarrow> c @ [0] \<le> (d :: bytes)"
proof (induction c arbitrary: d)
  case Nil
  then show ?case by (cases d) (auto simp: le_less word_gt_0)
next
  case (Cons a c)
  then show ?case by (cases d) auto
qed

lemma append_zero_greater: "c < c @ [0 :: u8]"
  by (induction c) auto

lemma demo_greater_Some:
  "demo_greater p = Some q \<Longrightarrow> p < q \<and> \<not> prefix p q \<and> (\<forall>x. p < x \<longrightarrow> \<not> prefix p x \<longrightarrow> q \<le> x)"
proof (induction p arbitrary: q rule: demo_greater.induct)
  case (2 c)
  have "[c @ [0]] \<le> x" if "[c] < x" "\<not> prefix [c] x" for x
    using that append_zero_next [of c] by (cases x) (auto simp: le_less)
  then show ?case
    using 2 append_zero_greater [of c] by auto
next
  case (3 c v va)
  then obtain q' where q: "q = c # q'" "demo_greater (v # va) = Some q'"
    by auto
  have "c # q' \<le> x" if "c # v # va < x" "\<not> prefix (c # v # va) x" for x
    using that 3(1) [OF q(2)] by (cases x) auto
  then show ?case
    using 3(1) [OF q(2)] q(1) by auto
qed simp

lemma demo_greater_None: "demo_greater p = None \<longleftrightarrow> p = []"
  by (induction p rule: demo_greater.induct) auto

lemma demo_path_laws: "path_laws demo_wdm"
  using demo_greater_Some by (auto simp: path_laws_def demo_wdm_def demo_greater_None)

lemma demo_range_laws: "range_laws demo_wdm"
  by (simp add: range_laws_def demo_wdm_def)

lemma demo_newer_laws: "newer_laws demo_wdm"
  by (simp add: newer_laws_def demo_wdm_def)

lemma range_intersection_exact:
  "case range_intersection a b of
     Some c \<Rightarrow> (\<forall>x. in_range c x \<longleftrightarrow> in_range a x \<and> in_range b x) \<and>
       range_includes_range a c \<and> range_includes_range b c
   | None \<Rightarrow> (\<forall>x. \<not> (in_range a x \<and> in_range b x))"
proof -
  obtain s e s' e' where "a = Range s e" "b = Range s' e'"
    by (metis Range.exhaust)
  then show ?thesis
    by (cases e; cases e') (auto simp: min_def max_def)
qed

lemma range_includes_range_sound:
  "range_includes_range a b \<Longrightarrow> in_range b x \<Longrightarrow> in_range a x"
proof -
  obtain s e s' e' where "a = Range s e" "b = Range s' e'"
    by (metis Range.exhaust)
  then show "range_includes_range a b \<Longrightarrow> in_range b x \<Longrightarrow> in_range a x"
    by (cases e; cases e') (auto simp: min_def split: if_splits)
qed

lemma range_includes_range_refl: "range_includes_range a a"
  by (cases a; cases "range_end a") auto

lemma subspace_includes_sound:
  "subspace_includes a b \<Longrightarrow> in_area_subspace b s \<Longrightarrow> in_area_subspace a s"
  by (cases a; cases b) auto

lemma subspace_disjoint:
  "\<not> subspace_includes a b \<Longrightarrow> \<not> subspace_includes b a \<Longrightarrow> \<not> (in_area_subspace a s \<and> in_area_subspace b s)"
  by (cases a; cases b) auto

lemma subspace_includes_refl: "subspace_includes a a"
  by (cases a) auto

lemma demo_includes_sound: "demo_includes_area a b \<Longrightarrow> in_area b e \<Longrightarrow> in_area a e"
  by (auto simp: demo_includes_area_def in_area_def
      intro: subspace_includes_sound range_includes_range_sound prefix_order.trans)

lemma demo_intersection_exact:
  "case demo_intersection a b of
     Some c \<Rightarrow> (\<forall>e. in_area c e \<longleftrightarrow> in_area a e \<and> in_area b e) \<and>
       demo_includes_area a c \<and> demo_includes_area b c
   | None \<Rightarrow> (\<forall>e. \<not> (in_area a e \<and> in_area b e))"
proof (cases "range_intersection (a_times a) (a_times b)")
  case None
  then show ?thesis
    using range_intersection_exact [of "a_times a" "a_times b"]
    by (simp add: demo_intersection_def in_area_def)
next
  case (Some t)
  have paths: "prefix (a_path a) (a_path b) \<or> prefix (a_path b) (a_path a)"
    if "prefix (a_path a) p" "prefix (a_path b) p" for p
    using that prefix_same_cases by blast
  show ?thesis
    using Some range_intersection_exact [of "a_times a" "a_times b"] paths
      subspace_disjoint [of "a_subspace a" "a_subspace b"]
    by (auto simp: demo_intersection_def in_area_def demo_includes_area_def subspace_includes_refl
        intro: subspace_includes_sound prefix_order.trans)
qed

lemma demo_area_laws: "area_laws demo_wdm"
  unfolding area_laws_def
proof (intro conjI allI impI)
  fix a b
  show "case w_area_intersection demo_wdm a b of
          None \<Rightarrow> \<forall>e. \<not> (in_area a e \<and> in_area b e)
        | Some c \<Rightarrow> (\<forall>e. in_area c e \<longleftrightarrow> in_area a e \<and> in_area b e) \<and>
            w_area_includes_area demo_wdm a c \<and> w_area_includes_area demo_wdm b c"
    using demo_intersection_exact [of a b] by (simp add: demo_wdm_def split: option.splits)
qed (auto simp: demo_wdm_def demo_includes_area_def subspace_includes_refl range_includes_range_refl
    intro: demo_includes_sound [unfolded demo_includes_area_def])

lemma filter_components:
  assumes "path_laws w"
  shows "List.map_filter (w_component_new w) cs = filter (\<lambda>c. length c \<le> MAX_COMPONENT_LENGTH) cs"
  using assms by (induction cs) (auto simp: path_laws_def map_filter_simps)

text \<open>
  \<open>Path::from_bytes\<close> accepts exactly the component lists within the limits and returns their
  path unchanged; a list over the total length or the count is refused with that error.  The third
  error of the type, for a single component that is too long, is never returned.
\<close>

theorem path_from_bytes_result:
  assumes "path_laws w"
  shows "path_from_bytes w cs =
    (if MAX_PATH_LENGTH < sum_list (map length cs) then Err PathTooLong2
     else if MAX_COMPONENT_COUNT < length cs then Err TooManyComponents2
     else Ok cs) \<and>
    (path_ok cs \<longleftrightarrow> path_from_bytes w cs = Ok cs)"
proof -
  have len: "length c \<le> MAX_COMPONENT_LENGTH"
    if "sum_list (map length cs) \<le> MAX_PATH_LENGTH" "c \<in> set cs" for c
    using that member_le_sum_list [of "length c" "map length cs"]
    by (simp add: MAX_PATH_LENGTH_def MAX_COMPONENT_LENGTH_def)
  have "List.map_filter (w_component_new w) cs = cs"
    if "sum_list (map length cs) \<le> MAX_PATH_LENGTH"
    using len that unfolding filter_components [OF assms] by (simp add: filter_id_conv)
  moreover have "path_ok cs \<longleftrightarrow> sum_list (map length cs) \<le> MAX_PATH_LENGTH \<and> length cs \<le> MAX_COMPONENT_COUNT"
    using len by (auto simp: path_ok_def)
  ultimately show ?thesis
    using assms by (auto simp: path_from_bytes_def path_laws_def)
qed

section \<open>Areas as ranges\<close>

lemma subspace_range_of_id:
  assumes "range_laws w" "length (user_as_bytes i) = 32"
  obtains r where
    "(case user_successor i of None \<Rightarrow> Some (Range i Open) | Some e \<Rightarrow> w_subspace_closed w i e) = Some r"
    "\<And>s. length (user_as_bytes s) = 32 \<Longrightarrow> in_range r s \<longleftrightarrow> s = i"
proof -
  have bytes_eq: "s = i" if "user_as_bytes s = user_as_bytes i" for s
    using that by (simp add: UserId.expand)
  show ?thesis
  proof (cases "user_successor i")
    case None
    then have "s \<le> i" if "length (user_as_bytes s) = 32" for s
      using user_successor_greatest assms(2) that by blast
    then show ?thesis
      using that [of "Range i Open"] None by (auto intro: antisym)
  next
    case (Some e)
    have "i < e" and "\<And>s. length (user_as_bytes s) = 32 \<Longrightarrow> i \<le> s \<and> s < e \<longleftrightarrow> s = i"
      using user_successor_Some [OF Some] assms(2)
      by (auto simp: less_eq_UserId_def less_UserId_def be_val_less_iff be_val_le_iff
          intro!: bytes_eq be_val_inj)
    then show ?thesis
      using that [of "Range i (Closed e)"] Some assms(1) by (auto simp: range_laws_def)
  qed
qed

lemma path_range_of_prefix:
  assumes "path_laws w" "range_laws w" "path_ok p"
  obtains r where
    "(case w_greater_but_not_prefixed w p of None \<Rightarrow> Some (Range p Open) | Some q \<Rightarrow> w_path_closed w p q) = Some r"
    "\<And>x. path_ok x \<Longrightarrow> in_range r x \<longleftrightarrow> prefix p x"
proof (cases "w_greater_but_not_prefixed w p")
  case None
  then have "p \<le> x \<longleftrightarrow> prefix p x" if "path_ok x" for x
    using assms that prefix_le [of p x] unfolding path_laws_def by (auto simp: le_less)
  then show ?thesis
    using that [of "Range p Open"] None by simp
next
  case (Some q)
  then have q: "p < q" "\<not> prefix p q" and least: "\<And>x. path_ok x \<Longrightarrow> p < x \<Longrightarrow> \<not> prefix p x \<Longrightarrow> q \<le> x"
    using assms unfolding path_laws_def by blast+
  have "p \<le> x \<and> x < q \<longleftrightarrow> prefix p x" if "path_ok x" for x
    using least [OF that] prefix_le [of p x] prefixed_less [OF q, of x]
    by (metis le_less not_le prefix_order.refl)
  then show ?thesis
    using that [of "Range p (Closed q)"] Some assms(2) q(1) by (simp add: range_laws_def)
qed

theorem path_from_bytes_result_witness:
  "path_from_bytes demo_wdm [[1], [2, 3]] = Ok [[1], [2, 3]] \<and> path_ok [[1], [2, 3]]"
  using path_from_bytes_result [OF demo_path_laws, of "[[1], [2, 3]]"]
  by (simp add: MAX_PATH_LENGTH_def MAX_COMPONENT_COUNT_def)

text \<open>
  Converting an area to a 3d range never panics, and the range includes exactly the entries of
  the area.
\<close>

theorem area_to_range_exact:
  assumes "path_laws w" "range_laws w"
    and "path_ok (a_path a)" "\<And>i. a_subspace a = IdSubspace i \<Longrightarrow> length (user_as_bytes i) = 32"
  shows "\<exists>r. area_to_range w a = Some r \<and>
    (\<forall>e. path_ok (e_path e) \<longrightarrow> length (user_as_bytes (e_subspace_id e)) = 32 \<longrightarrow>
       (w_range3d_includes_entry w r e \<longleftrightarrow> in_area a e))"
proof -
  obtain pr where pr:
    "(case w_greater_but_not_prefixed w (a_path a) of
        None \<Rightarrow> Some (Range (a_path a) Open) | Some q \<Rightarrow> w_path_closed w (a_path a) q) = Some pr"
    "\<And>x. path_ok x \<Longrightarrow> in_range pr x \<longleftrightarrow> prefix (a_path a) x"
    by (rule path_range_of_prefix [OF assms(1,2,3)]) blast
  show ?thesis
  proof (cases "a_subspace a")
    case AnySubspace
    then show ?thesis
      using pr assms(2) user_min_value_least
      by (auto simp: area_to_range_def range_laws_def in_range3d_def in_area_def range_full_subspaces_def)
  next
    case (IdSubspace i)
    then obtain sr where
      "(case user_successor i of None \<Rightarrow> Some (Range i Open) | Some e \<Rightarrow> w_subspace_closed w i e) = Some sr"
      "\<And>s. length (user_as_bytes s) = 32 \<Longrightarrow> in_range sr s \<longleftrightarrow> s = i"
      using subspace_range_of_id [OF assms(2)] assms(4) by metis
    then show ?thesis
      using IdSubspace pr assms(2)
      by (auto simp: area_to_range_def range_laws_def in_range3d_def in_area_def)
  qed
qed

theorem area_to_range_exact_witness:
  "\<exists>r. area_to_range demo_wdm (area_new_path [[1]]) = Some r \<and>
    (\<forall>e. path_ok (e_path e) \<longrightarrow> length (user_as_bytes (e_subspace_id e)) = 32 \<longrightarrow>
       (w_range3d_includes_entry demo_wdm r e \<longleftrightarrow> in_area (area_new_path [[1]]) e))"
  by (rule area_to_range_exact [OF demo_path_laws demo_range_laws])
    (simp_all add: area_new_path_def path_ok_def MAX_PATH_LENGTH_def MAX_COMPONENT_COUNT_def
      MAX_COMPONENT_LENGTH_def)

lemma point_into_area_Some:
  assumes "range_laws w"
  shows "point_into_area w pt =
    (if pt_timestamp pt = - 1 then None
     else Some \<lparr> a_subspace = IdSubspace (pt_subspace_id pt), a_path = pt_path pt,
                 a_times = Range (pt_timestamp pt) (Closed (pt_timestamp pt + 1)) \<rparr>)"
  using assms by (auto simp: point_into_area_def range_laws_def word_less_plus_1_iff)

end
