(* ===== verification/Store_Glue.thy ===== *)
theory Store_Glue
  imports Data_Model
begin

text \<open>
  The conversions between the data model and the tree of the crate \<open>willow_store\<close>
  (\<open>store/willow_store_glue.rs\<close>): stored timestamps, paths as blob sequences, ranges as queries and
  entries as points with a value.  A \<open>BlobSeq\<close> is the list of its blobs, a \<open>QueryRange\<close> the pair of
  its bounds and a \<open>Point\<close> of the tree the triple of its coordinates.
\<close>

type_synonym BlobSeq = "bytes list"

record 'a QueryRange =
  q_min :: 'a
  q_max :: "'a option"

datatype StoredTimestamp = StoredTimestamp (st_bytes: bytes)

record QueryRange3d =
  q_x :: "SubspaceId QueryRange"
  q_y :: "StoredTimestamp QueryRange"
  q_z :: "BlobSeq QueryRange"

record ws_point =
  ws_x :: SubspaceId
  ws_y :: StoredTimestamp
  ws_z :: BlobSeq

record StoredAuthorisedEntry =
  authorisation_token_id :: bytes
  sae_payload_digest :: bytes
  sae_payload_size :: u64

instantiation StoredTimestamp :: linorder
begin

definition less_eq_StoredTimestamp :: "StoredTimestamp \<Rightarrow> StoredTimestamp \<Rightarrow> bool"
  where "less_eq_StoredTimestamp a b \<longleftrightarrow> st_bytes a \<le> st_bytes b"

definition less_StoredTimestamp :: "StoredTimestamp \<Rightarrow> StoredTimestamp \<Rightarrow> bool"
  where "less_StoredTimestamp a b \<longleftrightarrow> st_bytes a < st_bytes b"

instance
  by standard (auto simp: less_eq_StoredTimestamp_def less_StoredTimestamp_def StoredTimestamp.expand)

end

section \<open>Timestamps\<close>

definition st_new :: "Timestamp \<Rightarrow> StoredTimestamp"
  where "st_new ts = StoredTimestamp (be_bytes 8 (unat ts))"

definition st_timestamp :: "StoredTimestamp \<Rightarrow> Timestamp"
  where "st_timestamp s = of_nat (be_val (st_bytes s))"

definition st_min_value :: StoredTimestamp
  where "st_min_value = StoredTimestamp (replicate 8 0)"

definition st_is_min_value :: "StoredTimestamp \<Rightarrow> bool"
  where "st_is_min_value s \<longleftrightarrow> st_bytes s = replicate 8 0"

section \<open>Paths\<close>

definition path_to_blobseq :: "path \<Rightarrow> BlobSeq"
  where "path_to_blobseq p = map (\<lambda>component. component) p"

text \<open>Collecting into \<open>Result<Vec>\<close> stops at the first component that is refused.\<close>

fun collect_components :: "wdm \<Rightarrow> BlobSeq \<Rightarrow> string + bytes list" where
  "collect_components w [] = Ok []"
| "collect_components w (c # cs) =
     res_bind (ok_or ''Path component exceeded length restriction'' (w_component_new w c)) (\<lambda>c'.
     res_bind (collect_components w cs) (\<lambda>cs'. Ok (c' # cs')))"

definition blobseq_to_path :: "wdm \<Rightarrow> BlobSeq \<Rightarrow> string + path" where
  "blobseq_to_path w bs =
     res_bind (collect_components w bs) (\<lambda>components.
       map_err (\<lambda>_. ''invalid path'')
         (w_path_new_from_iter w (sum_list (map length components)) components))"

section \<open>Ranges\<close>

definition to_query_range :: "'a Range \<Rightarrow> 'a QueryRange" where
  "to_query_range r =
     \<lparr> q_min = range_start r,
       q_max = (case range_end r of Closed e \<Rightarrow> Some e | Open \<Rightarrow> None) \<rparr>"

definition map_range :: "('a \<Rightarrow> 'b) \<Rightarrow> 'a Range \<Rightarrow> 'b Range" where
  "map_range f r = Range (f (range_start r)) (case range_end r of Closed e \<Rightarrow> Closed (f e) | Open \<Rightarrow> Open)"

definition to_query :: "Range3d \<Rightarrow> QueryRange3d" where
  "to_query r =
     (let path_start = path_to_blobseq (range_start (r_paths r));
          path_end = (case range_end (r_paths r) of
              Closed e \<Rightarrow> Some (path_to_blobseq e)
            | Open \<Rightarrow> None)
      in \<lparr> q_x = to_query_range (r_subspaces r),
           q_y = to_query_range (map_range st_new (r_times r)),
           q_z = \<lparr> q_min = path_start, q_max = path_end \<rparr> \<rparr>)"

definition to_range :: "'a QueryRange \<Rightarrow> 'a Range" where
  "to_range qr = Range (q_min qr) (case q_max qr of None \<Rightarrow> Open | Some m \<Rightarrow> Closed m)"

definition to_range3d :: "wdm \<Rightarrow> QueryRange3d \<Rightarrow> string + Range3d" where
  "to_range3d w q =
     res_bind
       (case q_max (q_z q) of
          Some m \<Rightarrow> res_bind (blobseq_to_path w m) (\<lambda>p. Ok (Closed p))
        | None \<Rightarrow> Ok Open)
       (\<lambda>path_max.
     res_bind (blobseq_to_path w (q_min (q_z q))) (\<lambda>path_min.
       Ok \<lparr> r_subspaces = to_range (q_x q),
            r_paths = Range path_min path_max,
            r_times = Range (st_timestamp (q_min (q_y q)))
              (case q_max (q_y q) of None \<Rightarrow> Open | Some ts \<Rightarrow> Closed (st_timestamp ts)) \<rparr>))"

section \<open>Entries\<close>

definition from_authorised_entry ::
  "('sg \<Rightarrow> bytes) \<Rightarrow> ('cap, 'sg) AuthorisedEntry \<Rightarrow> ws_point \<times> StoredAuthorisedEntry" where
  "from_authorised_entry sig_to_bytes e =
     (\<lparr> ws_x = e_subspace_id (ae_entry e), ws_y = st_new (e_timestamp (ae_entry e)),
        ws_z = path_to_blobseq (e_path (ae_entry e)) \<rparr>,
      \<lparr> authorisation_token_id = sig_to_bytes (user_sig (t_signature (ae_token e))),
        sae_payload_digest = e_payload_digest (ae_entry e),
        sae_payload_size = e_payload_length (ae_entry e) \<rparr>)"

definition into_entry :: "wdm \<Rightarrow> StoredAuthorisedEntry \<Rightarrow> NamespaceId \<Rightarrow> ws_point \<Rightarrow> string + Entry" where
  "into_entry w sae namespace key =
     res_bind (blobseq_to_path w (ws_z key)) (\<lambda>path.
       Ok \<lparr> e_namespace_id = namespace, e_subspace_id = ws_x key, e_path = path,
            e_timestamp = st_timestamp (ws_y key), e_payload_length = sae_payload_size sae,
            e_payload_digest = sae_payload_digest sae \<rparr>)"

text \<open>\<open>AuthorisedEntry::new\<close> checks the token against the entry; the check is a parameter.\<close>

definition authorised_entry_new ::
  "(Entry \<Rightarrow> ('cap, 'sg) AuthorisationToken \<Rightarrow> bool) \<Rightarrow> Entry \<Rightarrow> ('cap, 'sg) AuthorisationToken
   \<Rightarrow> UnauthorisedWriteError + ('cap, 'sg) AuthorisedEntry" where
  "authorised_entry_new is_authorised_write e tok =
     (if is_authorised_write e tok then Ok \<lparr> ae_entry = e, ae_token = tok \<rparr> else Err UnauthorisedWriteError)"

definition into_authorised_entry ::
  "wdm \<Rightarrow> (Entry \<Rightarrow> ('cap, 'sg) AuthorisationToken \<Rightarrow> bool) \<Rightarrow> StoredAuthorisedEntry \<Rightarrow> NamespaceId
   \<Rightarrow> ws_point \<Rightarrow> ('cap, 'sg) AuthorisationToken \<Rightarrow> string + ('cap, 'sg) AuthorisedEntry" where
  "into_authorised_entry w is_authorised_write sae namespace key tok =
     res_bind (into_entry w sae namespace key) (\<lambda>e.
       map_err (\<lambda>_. ''unauthorised write'') (authorised_entry_new is_authorised_write e tok))"

section \<open>Lemmas\<close>

lemma st_timestamp_new [simp]: "st_timestamp (st_new ts) = ts"
proof -
  have "be_val (be_bytes 8 (unat ts)) = unat ts"
    using u64_less [of ts] by (simp add: be_val_be_bytes del: u64_less)
  then show ?thesis
    by (simp add: st_timestamp_def st_new_def)
qed

lemma st_new_be_val: "be_val (st_bytes (st_new ts)) = unat ts"
  using u64_less [of ts] by (simp add: be_val_be_bytes st_new_def del: u64_less)

lemma st_new_less_iff: "st_new a < st_new b \<longleftrightarrow> a < b"
  using st_new_be_val [of a] st_new_be_val [of b]
  by (simp add: less_StoredTimestamp_def be_val_less_iff word_less_nat_alt st_new_def)

lemma st_new_le_iff: "st_new a \<le> st_new b \<longleftrightarrow> a \<le> b"
  by (metis st_new_less_iff linorder_not_le)

lemma collect_components_ok:
  assumes "path_laws w" "\<forall>c \<in> set cs. length c \<le> MAX_COMPONENT_LENGTH"
  shows "collect_components w cs = Ok cs"
  using assms(2) by (induction cs) (use assms(1) in \<open>auto simp: path_laws_def\<close>)

lemma blobseq_to_path_roundtrip:
  assumes "path_laws w" "path_ok p"
  shows "blobseq_to_path w (path_to_blobseq p) = Ok p"
  using assms collect_components_ok [OF assms(1), of p]
  by (simp add: blobseq_to_path_def path_to_blobseq_def path_ok_def) (simp add: path_laws_def)

lemma to_range_to_query [simp]: "to_range (to_query_range r) = r"
  by (cases r) (simp add: to_range_def to_query_range_def split: RangeEnd.splits)

definition range3d_ok :: "Range3d \<Rightarrow> bool" where
  "range3d_ok r \<longleftrightarrow> path_ok (range_start (r_paths r)) \<and>
     (case range_end (r_paths r) of Closed e \<Rightarrow> path_ok e | Open \<Rightarrow> True)"

text \<open>The tree includes a point in a query when each coordinate lies within its bounds.\<close>

definition in_query_range :: "'a::linorder QueryRange \<Rightarrow> 'a \<Rightarrow> bool" where
  "in_query_range q x \<longleftrightarrow> q_min q \<le> x \<and> (case q_max q of None \<Rightarrow> True | Some m \<Rightarrow> x < m)"

definition in_query :: "QueryRange3d \<Rightarrow> ws_point \<Rightarrow> bool" where
  "in_query q pt \<longleftrightarrow> in_query_range (q_x q) (ws_x pt) \<and> in_query_range (q_y q) (ws_y pt) \<and>
     in_query_range (q_z q) (ws_z pt)"

lemma in_query_range_iff: "in_query_range (to_query_range r) x \<longleftrightarrow> in_range r x"
  by (cases r; cases "range_end r") (simp_all add: in_query_range_def to_query_range_def)

lemma in_range_map_st_new: "in_range (map_range st_new r) (st_new ts) \<longleftrightarrow> in_range r ts"
  by (cases r; cases "range_end r") (simp_all add: map_range_def st_new_less_iff st_new_le_iff)

lemma times_roundtrip:
  "Range (st_timestamp (q_min (to_query_range (map_range st_new ts))))
     (case q_max (to_query_range (map_range st_new ts)) of None \<Rightarrow> Open | Some t \<Rightarrow> Closed (st_timestamp t)) = ts"
  by (cases ts; cases "range_end ts") (simp_all add: to_query_range_def map_range_def)

text \<open>
  A 3d range and its query select the same entries: an entry lies in the range exactly when the
  point it is stored under lies in the query, because stored timestamps sort like the integers they
  encode.  Converting the query back gives the range again.
\<close>

theorem to_query_exact:
  assumes "path_laws w" "range3d_ok r"
  shows "to_range3d w (to_query r) = Ok r \<and>
    (\<forall>e. in_query (to_query r) (fst (from_authorised_entry sb e)) \<longleftrightarrow> in_range3d r (ae_entry e))"
proof
  obtain subs ps pe ts where r: "r = \<lparr> r_subspaces = subs, r_paths = Range ps pe, r_times = ts \<rparr>"
    by (metis Range3d.cases Range.exhaust)
  show "to_range3d w (to_query r) = Ok r"
    using assms(2) blobseq_to_path_roundtrip [OF assms(1)]
    by (cases pe) (simp_all add: r to_range3d_def to_query_def range3d_ok_def times_roundtrip)
  have "in_query_range (q_z (to_query r)) (path_to_blobseq p) \<longleftrightarrow> in_range (r_paths r) p" for p
    using in_query_range_iff [of "r_paths r" p]
    by (simp add: to_query_def to_query_range_def path_to_blobseq_def split: RangeEnd.splits)
  then show "\<forall>e. in_query (to_query r) (fst (from_authorised_entry sb e)) \<longleftrightarrow> in_range3d r (ae_entry e)"
    by (auto simp: in_query_def in_range3d_def from_authorised_entry_def in_query_range_iff
        in_range_map_st_new to_query_def)
qed

text \<open>
  An authorised entry that is stored as a point and a value is read back unchanged, for its
  namespace and the token it was authorised with.
\<close>

theorem stored_entry_roundtrip:
  assumes "path_laws w" "path_ok (e_path (ae_entry e))" "auth (ae_entry e) (ae_token e)"
    and "from_authorised_entry sb e = (pt, sae)"
  shows "into_authorised_entry w auth sae (e_namespace_id (ae_entry e)) pt (ae_token e) = Ok e"
  using assms(3,4) blobseq_to_path_roundtrip [OF assms(1,2)]
  by (cases e; cases "ae_entry e")
    (auto simp: from_authorised_entry_def into_authorised_entry_def into_entry_def authorised_entry_new_def)

definition demo_entry :: Entry where
  "demo_entry = \<lparr> e_namespace_id = NamespaceId (replicate 32 1), e_subspace_id = UserId (replicate 32 2),
     e_path = [[1], [2]], e_timestamp = 256, e_payload_length = 5, e_payload_digest = replicate 32 9 \<rparr>"

definition demo_authorised :: "(unit, u8) AuthorisedEntry" where
  "demo_authorised = \<lparr> ae_entry = demo_entry, ae_token = \<lparr> t_capability = (), t_signature = UserSignature 3 \<rparr> \<rparr>"

lemma demo_path_ok [simp]: "path_ok [[1], [2]]" "path_ok [[2]]" "path_ok []"
  by (simp_all add: path_ok_def MAX_PATH_LENGTH_def MAX_COMPONENT_COUNT_def MAX_COMPONENT_LENGTH_def)

theorem to_query_exact_witness:
  "let r = \<lparr> r_subspaces = Range user_min_value Open, r_paths = Range [] (Closed [[2]]),
             r_times = Range 255 (Closed 257) \<rparr>
   in to_range3d demo_wdm (to_query r) = Ok r \<and>
      (\<forall>e :: (unit, u8) AuthorisedEntry.
         in_query (to_query r) (fst (from_authorised_entry (\<lambda>s. [s]) e)) \<longleftrightarrow> in_range3d r (ae_entry e))"
  unfolding Let_def by (rule to_query_exact [OF demo_path_laws]) (simp add: range3d_ok_def)

theorem stored_entry_roundtrip_witness:
  "into_authorised_entry demo_wdm (\<lambda>_ _. True) (snd (from_authorised_entry (\<lambda>s. [s]) demo_authorised))
     (e_namespace_id demo_entry) (fst (from_authorised_entry (\<lambda>s. [s]) demo_authorised))
     (ae_token demo_authorised) = Ok demo_authorised"
  using stored_entry_roundtrip [OF demo_path_laws, of demo_authorised "\<lambda>_ _. True" "\<lambda>s. [s]"]
  by (simp add: demo_authorised_def demo_entry_def from_authorised_entry_def)

end
