(* ===== verification/Fingerprint.thy ===== *)
theory Fingerprint
  imports Store_Glue
begin

unbundle bit_operations_syntax

text \<open>
  Fingerprints of sets of entries (\<open>proto/wgps/fingerprint.rs\<close>): the exclusive or of the hashes of
  the entries.  The hash function (\<open>iroh_blake3\<close>) and the byte layout of a tree key
  (\<open>PointRef::as_slice\<close> of \<open>willow_store\<close>) are parameters.  The trait
  \<open>LiftingCommutativeMonoid\<close> is the locale \<open>lifting_commutative_monoid\<close>, interpreted on fingerprints.
\<close>

type_synonym Fingerprint = bytes

record fp_env =
  blake3 :: "bytes \<Rightarrow> bytes"
  point_as_slice :: "ws_point \<Rightarrow> bytes"

definition blake3_laws :: "fp_env \<Rightarrow> bool"
  where "blake3_laws v \<longleftrightarrow> (\<forall>bs. length (blake3 v bs) = 32)"

definition u64_to_le_bytes :: "u64 \<Rightarrow> bytes"
  where "u64_to_le_bytes x = rev (be_bytes 8 (unat x))"

definition lift_stored_entry :: "fp_env \<Rightarrow> ws_point \<Rightarrow> bytes \<Rightarrow> u64 \<Rightarrow> Fingerprint" where
  "lift_stored_entry v key payload_digest payload_size =
     blake3 v (point_as_slice v key @ payload_digest @ u64_to_le_bytes payload_size)"

definition lift_entry :: "fp_env \<Rightarrow> Entry \<Rightarrow> Fingerprint" where
  "lift_entry v e =
     lift_stored_entry v
       \<lparr> ws_x = e_subspace_id e, ws_y = st_new (e_timestamp e), ws_z = path_to_blobseq (e_path e) \<rparr>
       (e_payload_digest e) (e_payload_length e)"

definition fp_default :: Fingerprint
  where "fp_default = replicate 32 0"

definition fp_bitxor :: "Fingerprint \<Rightarrow> Fingerprint \<Rightarrow> Fingerprint"
  where "fp_bitxor a b = map2 (\<lambda>x y. x XOR y) a b"

definition fp_neutral :: Fingerprint
  where "fp_neutral = replicate 32 0"

definition fp_lift :: "fp_env \<Rightarrow> ws_point \<Rightarrow> StoredAuthorisedEntry \<Rightarrow> Fingerprint"
  where "fp_lift v key value = lift_stored_entry v key (sae_payload_digest value) (sae_payload_size value)"

definition fp_combine :: "Fingerprint \<Rightarrow> Fingerprint \<Rightarrow> Fingerprint"
  where "fp_combine a b = fp_bitxor a b"

definition fp_add_entry :: "fp_env \<Rightarrow> Entry \<Rightarrow> Fingerprint \<Rightarrow> Fingerprint"
  where "fp_add_entry v e fp = fp_bitxor fp (lift_entry v e)"

definition fp_add_entries :: "fp_env \<Rightarrow> Entry list \<Rightarrow> Fingerprint \<Rightarrow> Fingerprint"
  where "fp_add_entries v es fp = fold (fp_add_entry v) es fp"

definition fp_from_entries :: "fp_env \<Rightarrow> Entry list \<Rightarrow> Fingerprint"
  where "fp_from_entries v es = fp_add_entries v es fp_default"

definition fp_is_empty :: "Fingerprint \<Rightarrow> bool"
  where "fp_is_empty fp \<longleftrightarrow> fp = fp_default"

section \<open>The monoid interface\<close>

text \<open>
  The laws of a lifting commutative monoid, which range-based set reconciliation rests on; \<open>valid\<close>
  are the values of the type.
\<close>

locale lifting_commutative_monoid =
  fixes valid :: "'m \<Rightarrow> bool"
    and neutral :: 'm
    and combine :: "'m \<Rightarrow> 'm \<Rightarrow> 'm"
  assumes combine_assoc: "combine (combine a b) c = combine a (combine b c)"
    and combine_comm: "combine a b = combine b a"
    and combine_neutral: "valid a \<Longrightarrow> combine neutral a = a"
    and neutral_valid: "valid neutral"
    and combine_valid: "valid a \<Longrightarrow> valid b \<Longrightarrow> valid (combine a b)"
begin

definition total :: "'m list \<Rightarrow> 'm"
  where "total xs = fold (\<lambda>x acc. combine acc x) xs neutral"

lemma fold_start:
  "valid a \<Longrightarrow> \<forall>x \<in> set xs. valid x \<Longrightarrow> fold (\<lambda>x acc. combine acc x) xs a = combine a (total xs)"
proof (induction xs arbitrary: a)
  case Nil
  then show ?case
    by (simp add: total_def combine_neutral combine_comm [of a])
next
  case (Cons x xs)
  have "total (x # xs) = combine x (total xs)"
    using Cons.IH [of x] Cons.prems by (simp add: total_def combine_neutral)
  then show ?case
    using Cons.IH [of "combine a x"] Cons.prems by (simp add: combine_valid combine_assoc)
qed

lemma total_Nil: "total [] = neutral"
  by (simp add: total_def)

lemma total_Cons: "\<forall>y \<in> set (x # xs). valid y \<Longrightarrow> total (x # xs) = combine x (total xs)"
  using fold_start [of x xs] by (simp add: total_def combine_neutral)

lemma total_valid: "\<forall>x \<in> set xs. valid x \<Longrightarrow> valid (total xs)"
  by (induction xs) (simp_all add: total_Nil neutral_valid total_Cons combine_valid)

lemma total_append:
  "\<forall>x \<in> set (xs @ ys). valid x \<Longrightarrow> total (xs @ ys) = combine (total xs) (total ys)"
  by (induction xs)
    (simp_all add: total_Nil combine_neutral total_valid total_Cons combine_assoc)

lemma total_perm: "mset xs = mset ys \<Longrightarrow> total xs = total ys"
  unfolding total_def
  by (rule fun_cong, rule fold_multiset_equiv) (auto simp: fun_eq_iff, metis combine_assoc combine_comm)

lemma total_filter:
  assumes "\<forall>x \<in> set xs. valid (f x)"
  shows "combine (total (map f (filter P xs))) (total (map f (filter (\<lambda>x. \<not> P x) xs))) = total (map f xs)"
proof -
  have "mset (map f xs) = mset (map f (filter P xs) @ map f (filter (\<lambda>x. \<not> P x) xs))"
    by (induction xs) auto
  then have "total (map f xs) = total (map f (filter P xs) @ map f (filter (\<lambda>x. \<not> P x) xs))"
    by (rule total_perm)
  also have "\<dots> = combine (total (map f (filter P xs))) (total (map f (filter (\<lambda>x. \<not> P x) xs)))"
    using assms by (intro total_append) auto
  finally show ?thesis ..
qed

end

lemma fp_bitxor_comm: "fp_bitxor a b = fp_bitxor b a"
  by (auto simp: fp_bitxor_def list_eq_iff_nth_eq xor.commute)

lemma fp_bitxor_assoc: "fp_bitxor (fp_bitxor a b) c = fp_bitxor a (fp_bitxor b c)"
  by (auto simp: fp_bitxor_def list_eq_iff_nth_eq xor.assoc)

lemma fp_bitxor_default: "length a = 32 \<Longrightarrow> fp_bitxor fp_default a = a"
  by (auto simp: fp_bitxor_def fp_default_def list_eq_iff_nth_eq)

lemma fp_bitxor_self: "length a = 32 \<Longrightarrow> fp_bitxor a a = fp_default"
  by (auto simp: fp_bitxor_def fp_default_def list_eq_iff_nth_eq)

interpretation fp: lifting_commutative_monoid "\<lambda>a. length a = 32" fp_neutral fp_combine
proof
  show "fp_combine (fp_combine a b) c = fp_combine a (fp_combine b c)" for a b c
    by (simp add: fp_combine_def fp_bitxor_assoc)
  show "fp_combine a b = fp_combine b a" for a b
    unfolding fp_combine_def by (rule fp_bitxor_comm)
  show "length a = 32 \<Longrightarrow> fp_combine fp_neutral a = a" for a
    using fp_bitxor_default [of a] by (simp add: fp_combine_def fp_neutral_def fp_default_def)
qed (simp_all add: fp_neutral_def fp_combine_def fp_bitxor_def)

lemma lift_entry_length [simp]: "blake3_laws v \<Longrightarrow> length (lift_entry v e) = 32"
  by (simp add: lift_entry_def lift_stored_entry_def blake3_laws_def)

lemma fp_from_entries_total: "fp_from_entries v es = fp.total (map (lift_entry v) es)"
  unfolding fp_from_entries_def fp_add_entries_def fp.total_def fold_map comp_def
  by (simp add: fp_default_def fp_neutral_def fp_combine_def fp_add_entry_def [abs_def])

lemma fp_from_entries_length: "blake3_laws v \<Longrightarrow> length (fp_from_entries v es) = 32"
  unfolding fp_from_entries_total by (rule fp.total_valid) simp

lemma fp_from_entries_append:
  "blake3_laws v \<Longrightarrow> fp_from_entries v (xs @ ys) = fp_combine (fp_from_entries v xs) (fp_from_entries v ys)"
  unfolding fp_from_entries_total map_append by (rule fp.total_append) auto

lemma fp_from_entries_perm: "mset xs = mset ys \<Longrightarrow> fp_from_entries v xs = fp_from_entries v ys"
  unfolding fp_from_entries_total by (rule fp.total_perm) simp

lemma fp_from_entries_filter:
  "blake3_laws v \<Longrightarrow>
   fp_combine (fp_from_entries v (filter P es)) (fp_from_entries v (filter (\<lambda>e. \<not> P e) es)) =
   fp_from_entries v es"
  unfolding fp_from_entries_total by (rule fp.total_filter) simp

text \<open>The fingerprint of a point and value of the tree is that of the entry stored there.\<close>

lemma fp_lift_stored:
  "from_authorised_entry sb e = (pt, sae) \<Longrightarrow> fp_lift v pt sae = lift_entry v (ae_entry e)"
  by (auto simp: from_authorised_entry_def fp_lift_def lift_entry_def)

text \<open>
  C40: The fingerprint of a list of entries depends only on which entries it holds and how often,
  not on their order, and the fingerprint of two lists together is the combination of theirs; an
  entry listed twice leaves no trace.
\<close>

theorem fingerprint_of_multiset:
  assumes "blake3_laws v" "mset es = mset (xs @ ys)"
  shows "fp_from_entries v es = fp_combine (fp_from_entries v xs) (fp_from_entries v ys) \<and>
         fp_from_entries v (e # e # es) = fp_from_entries v es"
proof
  show "fp_from_entries v es = fp_combine (fp_from_entries v xs) (fp_from_entries v ys)"
    using fp_from_entries_perm [OF assms(2)] fp_from_entries_append [OF assms(1)] by simp
  have "fp_from_entries v [e, e] = fp_neutral"
    using assms(1) fp_bitxor_self [of "lift_entry v e"] fp_bitxor_default [of "lift_entry v e"]
    by (simp add: fp_from_entries_def fp_add_entries_def fp_add_entry_def fp_default_def fp_neutral_def)
  then show "fp_from_entries v (e # e # es) = fp_from_entries v es"
    using fp_from_entries_append [OF assms(1), of "[e, e]" es] fp_from_entries_length [OF assms(1)]
    by (simp add: fp.combine_neutral)
qed

definition demo_fp :: fp_env where
  "demo_fp = \<lparr> blake3 = \<lambda>bs. replicate 31 0 @ [sum_list bs], point_as_slice = \<lambda>p. concat (ws_z p) \<rparr>"

lemma demo_fp_laws: "blake3_laws demo_fp"
  by (simp add: blake3_laws_def demo_fp_def)

theorem fingerprint_of_multiset_witness:
  "fp_from_entries demo_fp [demo_entry, demo_entry\<lparr> e_timestamp := 3 \<rparr>] =
     fp_combine (fp_from_entries demo_fp [demo_entry\<lparr> e_timestamp := 3 \<rparr>]) (fp_from_entries demo_fp [demo_entry]) \<and>
   fp_from_entries demo_fp (demo_entry # demo_entry # [demo_entry, demo_entry\<lparr> e_timestamp := 3 \<rparr>]) =
     fp_from_entries demo_fp [demo_entry, demo_entry\<lparr> e_timestamp := 3 \<rparr>]"
  by (rule fingerprint_of_multiset [OF demo_fp_laws]) simp

end
