(* ===== verification/Messages.thy ===== *)
theory Messages
  imports Fingerprint
begin

text \<open>
  The messages of the protocol (\<open>proto/wgps/messages.rs\<close>), their framing, and the channels they are
  sent on (\<open>proto/wgps/channels.rs\<close>).  The type parameters stand for capabilities, subspace
  capabilities and signatures.  The serialisation by \<open>postcard\<close> is a parameter: the bytes of a message
  and the parser of such bytes.
\<close>

section \<open>Channels\<close>

datatype LogicalChannel =
  LC_Intersection | LC_Capability | LC_AreaOfInterest | LC_StaticToken | LC_Reconciliation | LC_Data

datatype Channel = Control | Logical LogicalChannel

datatype InvalidChannelId = InvalidChannelId

definition logical_channel_all :: "LogicalChannel list" where
  "logical_channel_all =
     [LC_Intersection, LC_Capability, LC_AreaOfInterest, LC_StaticToken, LC_Reconciliation, LC_Data]"

definition channel_all :: "Channel list"
  where "channel_all = [Control] @ map Logical logical_channel_all"

fun logical_fmt_short :: "LogicalChannel \<Rightarrow> string" where
  "logical_fmt_short LC_Intersection = ''Pai''"
| "logical_fmt_short LC_Reconciliation = ''Rec''"
| "logical_fmt_short LC_StaticToken = ''StT''"
| "logical_fmt_short LC_Capability = ''Cap''"
| "logical_fmt_short LC_AreaOfInterest = ''AoI''"
| "logical_fmt_short LC_Data = ''Dat''"

fun channel_fmt_short :: "Channel \<Rightarrow> string" where
  "channel_fmt_short Control = ''Ctl''"
| "channel_fmt_short (Logical ch) = logical_fmt_short ch"

fun logical_id :: "LogicalChannel \<Rightarrow> u8" where
  "logical_id LC_Intersection = 2"
| "logical_id LC_AreaOfInterest = 3"
| "logical_id LC_Capability = 4"
| "logical_id LC_StaticToken = 5"
| "logical_id LC_Reconciliation = 6"
| "logical_id LC_Data = 7"

definition logical_from_id :: "u8 \<Rightarrow> InvalidChannelId + LogicalChannel" where
  "logical_from_id i =
     (if i = 2 then Ok LC_Intersection
      else if i = 3 then Ok LC_AreaOfInterest
      else if i = 4 then Ok LC_Capability
      else if i = 5 then Ok LC_StaticToken
      else if i = 6 then Ok LC_Reconciliation
      else if i = 7 then Ok LC_Data
      else Err InvalidChannelId)"

fun channel_id :: "Channel \<Rightarrow> u8" where
  "channel_id Control = 0"
| "channel_id (Logical ch) = logical_id ch"

definition channel_from_id :: "u8 \<Rightarrow> InvalidChannelId + Channel" where
  "channel_from_id i =
     (if i = 0 then Ok Control else res_bind (logical_from_id i) (\<lambda>ch. Ok (Logical ch)))"

section \<open>Messages\<close>

type_synonym AccessChallenge = bytes
type_synonym ChallengeHash = bytes
type_synonym PsiGroupBytes = bytes

record LengthyEntry =
  le_entry :: Entry
  le_available :: u64

record CommitmentReveal =
  cr_nonce :: AccessChallenge

record ('cap, 'sg) SetupBindReadCapability =
  sbr_capability :: 'cap
  sbr_handle :: IntersectionHandle
  sbr_signature :: "'sg UserSignature"

record SetupBindAreaOfInterest =
  sba_area_of_interest :: AreaOfInterest
  sba_authorisation :: CapabilityHandle

record 'cap SetupBindStaticToken =
  sbs_static_token :: 'cap

record ReconciliationSendFingerprint =
  rsf_range :: Range3d
  rsf_fingerprint :: Fingerprint
  rsf_sender_handle :: AreaOfInterestHandle
  rsf_receiver_handle :: AreaOfInterestHandle
  rsf_covers :: "u64 option"

record ReconciliationAnnounceEntries =
  rae_range :: Range3d
  rae_is_empty :: bool
  rae_want_response :: bool
  rae_will_sort :: bool
  rae_sender_handle :: AreaOfInterestHandle
  rae_receiver_handle :: AreaOfInterestHandle
  rae_covers :: "u64 option"

record 'sg ReconciliationSendEntry =
  rse_entry :: LengthyEntry
  rse_static_token_handle :: StaticTokenHandle
  rse_dynamic_token :: "'sg UserSignature"

record ReconciliationSendPayload =
  rsp_bytes :: bytes

record ReconciliationTerminatePayload =
  rtp_is_final :: bool

record 'sg DataSendEntry =
  dse_entry :: Entry
  dse_static_token_handle :: StaticTokenHandle
  dse_dynamic_token :: "'sg UserSignature"
  dse_offset :: u64

record DataSendPayload =
  dsp_bytes :: bytes

record DataSetMetadata =
  dsm_sender_handle :: AreaOfInterestHandle
  dsm_receiver_handle :: AreaOfInterestHandle
  dsm_is_eager :: bool

record ControlIssueGuarantee =
  cig_amount :: u64
  cig_channel :: LogicalChannel

record ControlAbsolve =
  cab_amount :: u64
  cab_channel :: LogicalChannel

record ControlPlead =
  cpl_target :: u64
  cpl_channel :: LogicalChannel

record ControlAnnounceDropping =
  cad_channel :: LogicalChannel

record ControlApologise =
  cap_channel :: LogicalChannel

record ControlFreeHandle =
  cfh_handle :: u64
  cfh_mine :: bool
  cfh_handle_type :: HandleType

record PaiBindFragment =
  pbf_group_member :: PsiGroupBytes
  pbf_is_secondary :: bool

record PaiReplyFragment =
  prf_handle :: IntersectionHandle
  prf_group_member :: PsiGroupBytes

record PaiRequestSubspaceCapability =
  prs_handle :: IntersectionHandle

record ('scap, 'sg) PaiReplySubspaceCapability =
  pys_handle :: IntersectionHandle
  pys_capability :: 'scap
  pys_signature :: "'sg UserSignature"

datatype ('cap, 'scap, 'sg) Message =
    M_CommitmentReveal CommitmentReveal
  | M_PaiReplyFragment PaiReplyFragment
  | M_PaiBindFragment PaiBindFragment
  | M_PaiRequestSubspaceCapability PaiRequestSubspaceCapability
  | M_PaiReplySubspaceCapability "('scap, 'sg) PaiReplySubspaceCapability"
  | M_SetupBindStaticToken "'cap SetupBindStaticToken"
  | M_SetupBindReadCapability "('cap, 'sg) SetupBindReadCapability"
  | M_SetupBindAreaOfInterest SetupBindAreaOfInterest
  | M_ReconciliationSendFingerprint ReconciliationSendFingerprint
  | M_ReconciliationAnnounceEntries ReconciliationAnnounceEntries
  | M_ReconciliationSendEntry "'sg ReconciliationSendEntry"
  | M_ReconciliationSendPayload ReconciliationSendPayload
  | M_ReconciliationTerminatePayload ReconciliationTerminatePayload
  | M_DataSendEntry "'sg DataSendEntry"
  | M_DataSendPayload DataSendPayload
  | M_DataSetMetadata DataSetMetadata
  | M_ControlIssueGuarantee ControlIssueGuarantee
  | M_ControlAbsolve ControlAbsolve
  | M_ControlPlead ControlPlead
  | M_ControlAnnounceDropping ControlAnnounceDropping
  | M_ControlApologise ControlApologise
  | M_ControlFreeHandle ControlFreeHandle

fun message_channel :: "('cap, 'scap, 'sg) Message \<Rightarrow> Channel" where
  "message_channel (M_PaiBindFragment _) = Logical LC_Intersection"
| "message_channel (M_PaiReplyFragment _) = Logical LC_Intersection"
| "message_channel (M_SetupBindReadCapability _) = Logical LC_Capability"
| "message_channel (M_SetupBindAreaOfInterest _) = Logical LC_AreaOfInterest"
| "message_channel (M_SetupBindStaticToken _) = Logical LC_StaticToken"
| "message_channel (M_ReconciliationSendFingerprint _) = Logical LC_Reconciliation"
| "message_channel (M_ReconciliationAnnounceEntries _) = Logical LC_Reconciliation"
| "message_channel (M_ReconciliationSendEntry _) = Logical LC_Reconciliation"
| "message_channel (M_ReconciliationSendPayload _) = Logical LC_Reconciliation"
| "message_channel (M_ReconciliationTerminatePayload _) = Logical LC_Reconciliation"
| "message_channel (M_DataSendEntry _) = Logical LC_Data"
| "message_channel (M_DataSendPayload _) = Logical LC_Data"
| "message_channel (M_DataSetMetadata _) = Logical LC_Data"
| "message_channel (M_CommitmentReveal _) = Control"
| "message_channel (M_PaiRequestSubspaceCapability _) = Control"
| "message_channel (M_PaiReplySubspaceCapability _) = Control"
| "message_channel (M_ControlIssueGuarantee _) = Control"
| "message_channel (M_ControlAbsolve _) = Control"
| "message_channel (M_ControlPlead _) = Control"
| "message_channel (M_ControlAnnounceDropping _) = Control"
| "message_channel (M_ControlApologise _) = Control"
| "message_channel (M_ControlFreeHandle _) = Control"

definition covers_region :: "('cap, 'scap, 'sg) Message \<Rightarrow> (AreaOfInterestHandle \<times> u64) option" where
  "covers_region m =
     (case m of
        M_ReconciliationSendFingerprint msg \<Rightarrow>
          map_option (\<lambda>covers. (rsf_receiver_handle msg, covers)) (rsf_covers msg)
      | M_ReconciliationAnnounceEntries msg \<Rightarrow>
          map_option (\<lambda>covers. (rae_receiver_handle msg, covers)) (rae_covers msg)
      | _ \<Rightarrow> None)"

definition rsf_handles :: "ReconciliationSendFingerprint \<Rightarrow> AreaOfInterestHandle \<times> AreaOfInterestHandle"
  where "rsf_handles m = (rsf_receiver_handle m, rsf_sender_handle m)"

definition rae_handles :: "ReconciliationAnnounceEntries \<Rightarrow> AreaOfInterestHandle \<times> AreaOfInterestHandle"
  where "rae_handles m = (rae_receiver_handle m, rae_sender_handle m)"

definition sba_area :: "SetupBindAreaOfInterest \<Rightarrow> Area"
  where "sba_area m = aoi_area (sba_area_of_interest m)"

definition lengthy_entry_new :: "Entry \<Rightarrow> u64 \<Rightarrow> LengthyEntry"
  where "lengthy_entry_new e available = \<lparr> le_entry = e, le_available = available \<rparr>"

section \<open>Messages of one channel\<close>

datatype 'sg ReconciliationMessage =
    RM_SendFingerprint ReconciliationSendFingerprint
  | RM_AnnounceEntries ReconciliationAnnounceEntries
  | RM_SendEntry "'sg ReconciliationSendEntry"
  | RM_SendPayload ReconciliationSendPayload
  | RM_TerminatePayload ReconciliationTerminatePayload

datatype 'sg DataMessage =
    DM_SendEntry "'sg DataSendEntry"
  | DM_SendPayload DataSendPayload
  | DM_SetMetadata DataSetMetadata

datatype IntersectionMessage =
    IM_BindFragment PaiBindFragment
  | IM_ReplyFragment PaiReplyFragment

definition reconciliation_try_from :: "('cap, 'scap, 'sg) Message \<Rightarrow> unit + 'sg ReconciliationMessage" where
  "reconciliation_try_from m =
     (case m of
        M_ReconciliationSendFingerprint msg \<Rightarrow> Ok (RM_SendFingerprint msg)
      | M_ReconciliationAnnounceEntries msg \<Rightarrow> Ok (RM_AnnounceEntries msg)
      | M_ReconciliationSendEntry msg \<Rightarrow> Ok (RM_SendEntry msg)
      | M_ReconciliationSendPayload msg \<Rightarrow> Ok (RM_SendPayload msg)
      | M_ReconciliationTerminatePayload msg \<Rightarrow> Ok (RM_TerminatePayload msg)
      | _ \<Rightarrow> Err ())"

fun message_from_reconciliation :: "'sg ReconciliationMessage \<Rightarrow> ('cap, 'scap, 'sg) Message" where
  "message_from_reconciliation (RM_SendFingerprint m) = M_ReconciliationSendFingerprint m"
| "message_from_reconciliation (RM_AnnounceEntries m) = M_ReconciliationAnnounceEntries m"
| "message_from_reconciliation (RM_SendEntry m) = M_ReconciliationSendEntry m"
| "message_from_reconciliation (RM_SendPayload m) = M_ReconciliationSendPayload m"
| "message_from_reconciliation (RM_TerminatePayload m) = M_ReconciliationTerminatePayload m"

definition data_try_from :: "('cap, 'scap, 'sg) Message \<Rightarrow> unit + 'sg DataMessage" where
  "data_try_from m =
     (case m of
        M_DataSendEntry msg \<Rightarrow> Ok (DM_SendEntry msg)
      | M_DataSendPayload msg \<Rightarrow> Ok (DM_SendPayload msg)
      | M_DataSetMetadata msg \<Rightarrow> Ok (DM_SetMetadata msg)
      | _ \<Rightarrow> Err ())"

fun message_from_data :: "'sg DataMessage \<Rightarrow> ('cap, 'scap, 'sg) Message" where
  "message_from_data (DM_SendEntry m) = M_DataSendEntry m"
| "message_from_data (DM_SendPayload m) = M_DataSendPayload m"
| "message_from_data (DM_SetMetadata m) = M_DataSetMetadata m"

definition intersection_try_from :: "('cap, 'scap, 'sg) Message \<Rightarrow> unit + IntersectionMessage" where
  "intersection_try_from m =
     (case m of
        M_PaiBindFragment msg \<Rightarrow> Ok (IM_BindFragment msg)
      | M_PaiReplyFragment msg \<Rightarrow> Ok (IM_ReplyFragment msg)
      | _ \<Rightarrow> Err ())"

fun message_from_intersection :: "IntersectionMessage \<Rightarrow> ('cap, 'scap, 'sg) Message" where
  "message_from_intersection (IM_BindFragment m) = M_PaiBindFragment m"
| "message_from_intersection (IM_ReplyFragment m) = M_PaiReplyFragment m"

section \<open>Framing\<close>

datatype 'a DecodeOutcome = NeedMoreData | Decoded 'a nat

definition msg_encoded_len :: "('m \<Rightarrow> bytes) \<Rightarrow> 'm \<Rightarrow> nat"
  where "msg_encoded_len ser m = length (ser m) + 4"

text \<open>The length is cast to 32 bits.\<close>

definition msg_encode_into :: "('m \<Rightarrow> bytes) \<Rightarrow> 'm \<Rightarrow> bytes \<Rightarrow> bytes option" where
  "msg_encode_into ser m out =
     (let len = (of_nat (length (ser m)) :: u32)
      in Some (out @ be_bytes 4 (unat len) @ ser m))"

definition msg_decode_from :: "(bytes \<Rightarrow> string + 'm) \<Rightarrow> bytes \<Rightarrow> string + 'm DecodeOutcome" where
  "msg_decode_from de data =
     (if length data < 4 then Ok NeedMoreData
      else let end' = be_val (take 4 data) + 4
           in if length data < end' then Ok NeedMoreData
              else res_bind (de (drop 4 (take end' data))) (\<lambda>item. Ok (Decoded item end')))"

section \<open>Channel ids\<close>

lemma channel_from_id_id: "channel_from_id (channel_id ch) = Ok ch"
proof (cases ch)
  case (Logical lc)
  then show ?thesis
    by (cases lc) (simp_all add: channel_from_id_def logical_from_id_def)
qed (simp add: channel_from_id_def)

lemma channel_id_from_id: "channel_from_id i = Ok ch \<Longrightarrow> channel_id ch = i"
  by (auto simp: channel_from_id_def logical_from_id_def res_bind_eq_Inr split: if_splits)

lemma channel_all_complete: "set channel_all = UNIV \<and> distinct channel_all"
proof
  have "ch \<in> set channel_all" for ch
  proof (cases ch)
    case (Logical lc)
    then show ?thesis
      by (cases lc) (simp_all add: channel_all_def logical_channel_all_def)
  qed (simp add: channel_all_def)
  then show "set channel_all = UNIV"
    by blast
  show "distinct channel_all"
    by (simp add: channel_all_def logical_channel_all_def)
qed

text \<open>
  The channel ids that one peer writes and the other reads: every channel has its own id, an id
  that is read back names the channel that was opened, ids of no channel are refused, and the list
  of channels that are opened holds each channel once.
\<close>

theorem channel_ids_roundtrip:
  "channel_from_id (channel_id ch) = Ok ch \<and>
   (channel_from_id i = Err InvalidChannelId \<longleftrightarrow> i \<notin> channel_id ` UNIV) \<and>
   set channel_all = UNIV \<and> distinct channel_all"
proof (intro conjI)
  show "channel_from_id i = Err InvalidChannelId \<longleftrightarrow> i \<notin> channel_id ` UNIV"
  proof
    show "i \<notin> channel_id ` UNIV" if "channel_from_id i = Err InvalidChannelId"
      using that channel_from_id_id by fastforce
    show "channel_from_id i = Err InvalidChannelId" if "i \<notin> channel_id ` UNIV"
      using that channel_id_from_id [of i]
      by (cases "channel_from_id i") (auto intro: InvalidChannelId.exhaust)
  qed
qed (use channel_from_id_id channel_all_complete in auto)

section \<open>The receivers of a channel\<close>

text \<open>
  The contract of the message types of one logical channel: the conversion to \<open>Message\<close> and back, and
  that exactly the messages of the channel convert.
\<close>

locale submessage =
  fixes chan :: Channel
    and try_from :: "('cap, 'scap, 'sg) Message \<Rightarrow> unit + 'x"
    and into_message :: "'x \<Rightarrow> ('cap, 'scap, 'sg) Message"
  assumes try_from_into: "try_from (into_message x) = Ok x"
    and into_channel: "message_channel (into_message x) = chan"
    and try_from_inverse: "try_from m = Ok x \<Longrightarrow> m = into_message x"
    and channel_accepts: "message_channel m = chan \<Longrightarrow> \<exists>x. m = into_message x"
begin

lemma accepted_iff: "(\<exists>x. try_from m = Ok x) \<longleftrightarrow> message_channel m = chan"
proof
  assume "\<exists>x. try_from m = Ok x"
  then show "message_channel m = chan"
    using try_from_inverse into_channel by blast
next
  assume "message_channel m = chan"
  then show "\<exists>x. try_from m = Ok x"
    using channel_accepts try_from_into by blast
qed

end

lemmas try_from_defs =
  reconciliation_try_from_def data_try_from_def intersection_try_from_def

interpretation rec_msg: submessage "Logical LC_Reconciliation" reconciliation_try_from message_from_reconciliation
proof
  fix x :: "'sg ReconciliationMessage" and m :: "('cap, 'scap, 'sg) Message"
  show "reconciliation_try_from (message_from_reconciliation x) = Ok x"
    by (cases x) (simp_all add: try_from_defs)
  show "message_channel (message_from_reconciliation x) = Logical LC_Reconciliation"
    by (cases x) simp_all
  show "reconciliation_try_from m = Ok x \<Longrightarrow> m = message_from_reconciliation x"
    by (cases m) (auto simp: try_from_defs)
  show "message_channel m = Logical LC_Reconciliation \<Longrightarrow> \<exists>x. m = message_from_reconciliation x"
    by (cases m; simp; metis message_from_reconciliation.simps)
qed

interpretation data_msg: submessage "Logical LC_Data" data_try_from message_from_data
proof
  fix x :: "'sg DataMessage" and m :: "('cap, 'scap, 'sg) Message"
  show "data_try_from (message_from_data x) = Ok x"
    by (cases x) (simp_all add: try_from_defs)
  show "message_channel (message_from_data x) = Logical LC_Data"
    by (cases x) simp_all
  show "data_try_from m = Ok x \<Longrightarrow> m = message_from_data x"
    by (cases m) (auto simp: try_from_defs)
  show "message_channel m = Logical LC_Data \<Longrightarrow> \<exists>x. m = message_from_data x"
    by (cases m; simp; metis message_from_data.simps)
qed

interpretation pai_msg: submessage "Logical LC_Intersection" intersection_try_from message_from_intersection
proof
  fix x :: IntersectionMessage and m :: "('cap, 'scap, 'sg) Message"
  show "intersection_try_from (message_from_intersection x) = Ok x"
    by (cases x) (simp_all add: try_from_defs)
  show "message_channel (message_from_intersection x) = Logical LC_Intersection"
    by (cases x) simp_all
  show "intersection_try_from m = Ok x \<Longrightarrow> m = message_from_intersection x"
    by (cases m) (auto simp: try_from_defs)
  show "message_channel m = Logical LC_Intersection \<Longrightarrow> \<exists>x. m = message_from_intersection x"
    by (cases m; simp; metis message_from_intersection.simps)
qed

text \<open>
  A receiver of the reconciliation, data or intersection channel accepts exactly the messages
  that are sent on its channel, so a peer that routes by \<open>Message::channel\<close> never makes the other end
  report a wrong channel.
\<close>

theorem receivers_accept_their_channel:
  fixes m :: "('cap, 'scap, 'sg) Message"
  shows "((\<exists>x. reconciliation_try_from m = Ok x) \<longleftrightarrow> message_channel m = Logical LC_Reconciliation) \<and>
    ((\<exists>x. data_try_from m = Ok x) \<longleftrightarrow> message_channel m = Logical LC_Data) \<and>
    ((\<exists>x. intersection_try_from m = Ok x) \<longleftrightarrow> message_channel m = Logical LC_Intersection)"
  by (intro conjI rec_msg.accepted_iff data_msg.accepted_iff pai_msg.accepted_iff)

section \<open>Framed messages\<close>

text \<open>
  The contract of a framing: a frame followed by anything decodes to its message and its length, and
  a proper prefix of a frame asks for more data.  It holds for well-formed messages: those whose
  serialisation parses back and fits the 32-bit length.
\<close>

definition msg_wf :: "('m \<Rightarrow> bytes) \<Rightarrow> (bytes \<Rightarrow> string + 'm) \<Rightarrow> 'm \<Rightarrow> bool"
  where "msg_wf ser de m \<longleftrightarrow> de (ser m) = Ok m \<and> length (ser m) < 2 ^ 32"

definition msg_frame :: "('m \<Rightarrow> bytes) \<Rightarrow> 'm \<Rightarrow> bytes"
  where "msg_frame ser m = be_bytes 4 (unat (of_nat (length (ser m)) :: u32)) @ ser m"

locale framing =
  fixes wf :: "'m \<Rightarrow> bool"
    and frame :: "'m \<Rightarrow> bytes"
    and decode_from :: "bytes \<Rightarrow> string + 'm DecodeOutcome"
  assumes frame_nonempty: "frame m \<noteq> []"
    and decode_frame: "wf m \<Longrightarrow> decode_from (frame m @ rest) = Ok (Decoded m (length (frame m)))"
    and decode_partial: "wf m \<Longrightarrow> n < length (frame m) \<Longrightarrow> decode_from (take n (frame m)) = Ok NeedMoreData"
begin

lemma decode_nil: "wf m \<Longrightarrow> decode_from [] = Ok NeedMoreData"
  using decode_partial [of m 0] frame_nonempty [of m] by simp

text \<open>On a stream of frames that may end in the middle of one, decoding finds the next message or waits.\<close>

lemma decode_stream:
  assumes "list_all wf ms" "buf @ later = concat (map frame ms)" "ms \<noteq> []"
  shows "decode_from buf = Ok (Decoded (hd ms) (length (frame (hd ms)))) \<and> length (frame (hd ms)) \<le> length buf \<or>
         decode_from buf = Ok NeedMoreData \<and> length buf < length (frame (hd ms))"
proof -
  obtain m ms' where ms: "ms = m # ms'"
    using assms(3) by (cases ms) auto
  show ?thesis
  proof (cases "length buf < length (frame m)")
    case True
    have "take (length buf) (buf @ later) = take (length buf) (frame m @ concat (map frame ms'))"
      using assms(2) ms by simp
    then have "buf = take (length buf) (frame m)"
      using True by simp
    then show ?thesis
      using decode_partial [of m "length buf"] True assms(1) ms by simp
  next
    case False
    have "take (length (frame m)) (buf @ later) = frame m"
      using assms(2) ms by simp
    then have "buf = frame m @ drop (length (frame m)) buf"
      using False by (metis append_take_drop_id linorder_not_less take_append diff_is_0_eq take_0 append_Nil2)
    then have "decode_from buf = Ok (Decoded m (length (frame m)))"
      using decode_frame [of m "drop (length (frame m)) buf"] assms(1) ms by simp
    then show ?thesis
      using False ms by simp
  qed
qed

end

lemma msg_frame_length: "length (msg_frame ser m) = msg_encoded_len ser m"
  by (simp add: msg_frame_def msg_encoded_len_def)

interpretation msg_enc: encoder "msg_encoded_len ser" "msg_encode_into ser" for ser :: "'m \<Rightarrow> bytes"
  by unfold_locales (auto simp: msg_encode_into_def msg_encoded_len_def Let_def intro: exI [of _ "msg_frame ser x" for x] simp: msg_frame_def)

lemma msg_encode_frame: "encode (msg_encode_into ser) m = Some (msg_frame ser m)"
  by (simp add: encode_def msg_encode_into_def msg_frame_def Let_def)

lemma frame_header:
  assumes "length (ser m) < 2 ^ 32"
  shows "be_val (be_bytes 4 (unat (of_nat (length (ser m)) :: u32))) = length (ser m)"
  using assms by (simp add: be_val_be_bytes unat_of_nat)

interpretation msg: framing "msg_wf ser de" "msg_frame ser" "msg_decode_from de"
  for ser :: "'m \<Rightarrow> bytes" and de
proof
  fix m :: 'm and rest n
  show "msg_frame ser m \<noteq> []"
    by (simp add: msg_frame_def flip: length_0_conv)
  assume wf: "msg_wf ser de m"
  then have h: "be_val (be_bytes 4 (unat (of_nat (length (ser m)) :: u32))) = length (ser m)"
    by (intro frame_header) (simp add: msg_wf_def)
  show "msg_decode_from de (msg_frame ser m @ rest) = Ok (Decoded m (length (msg_frame ser m)))"
    using wf by (simp add: msg_decode_from_def msg_frame_def h msg_wf_def Let_def)
  assume n: "n < length (msg_frame ser m)"
  show "msg_decode_from de (take n (msg_frame ser m)) = Ok NeedMoreData"
  proof (cases "n < 4")
    case False
    have "take 4 (msg_frame ser m) = be_bytes 4 (unat (of_nat (length (ser m)) :: u32))"
      by (simp add: msg_frame_def)
    with False show ?thesis
      using n h by (simp add: msg_decode_from_def Let_def msg_frame_length msg_encoded_len_def)
  qed (use n in \<open>simp add: msg_decode_from_def\<close>)
qed

end
