(* ===== verification/Resource_Map.thy ===== *)
theory Resource_Map
  imports Handles
begin

text \<open>
  \<open>ResourceMap\<close> of \<open>session/resource.rs\<close>: resources bound to consecutive handles, and the wakers of
  the tasks that wait for a handle.  The two conversions of \<open>H: IsHandle\<close> are arguments.
  \<open>next_handle += 1\<close> wraps at \<open>2 ^ 64\<close>, as in a release build; the invariant holds while fewer than
  \<open>2 ^ 64\<close> resources were bound.  Operations return the wakers they wake.
\<close>

datatype Scope = Ours | Theirs

record ('h, 'r) ResourceMap =
  next_handle :: u64
  resources :: "('h, 'r) hash_map"
  wakers :: "('h, waker list) hash_map"

datatype 'a poll = Ready 'a | Pending

definition rm_default :: "('h, 'r) ResourceMap"
  where "rm_default = \<lparr> next_handle = 0, resources = [], wakers = [] \<rparr>"

definition rm_iter :: "('h, 'r) ResourceMap \<Rightarrow> ('h \<times> 'r) list"
  where "rm_iter m = resources m"

definition rm_bind :: "(u64 \<Rightarrow> 'h) \<Rightarrow> 'r \<Rightarrow> ('h, 'r) ResourceMap \<Rightarrow> 'h \<times> waker list \<times> ('h, 'r) ResourceMap"
  where "rm_bind from_u64 resource m =
    (let handle = from_u64 (next_handle m);
         m1 = m\<lparr> next_handle := next_handle m + 1,
                 resources := hm_insert handle resource (resources m) \<rparr>
     in case map_of (wakers m1) handle of
          Some ws \<Rightarrow> (handle, ws, m1\<lparr> wakers := hm_remove handle (wakers m1) \<rparr>)
        | None \<Rightarrow> (handle, [], m1))"

definition rm_try_get :: "('h \<Rightarrow> ResourceHandle) \<Rightarrow> 'h \<Rightarrow> ('h, 'r) ResourceMap \<Rightarrow> MissingResource + 'r"
  where "rm_try_get into handle m = ok_or (MissingResource (into handle)) (map_of (resources m) handle)"

definition rm_poll_get_eventually ::
  "'h \<Rightarrow> waker \<Rightarrow> ('h, 'r) ResourceMap \<Rightarrow> 'r poll \<times> ('h, 'r) ResourceMap"
  where "rm_poll_get_eventually handle w m =
    (case map_of (resources m) handle of
       Some r \<Rightarrow> (Ready r, m)
     | None \<Rightarrow>
         (Pending, m\<lparr> wakers := hm_insert handle
             ((case map_of (wakers m) handle of Some ws \<Rightarrow> ws | None \<Rightarrow> []) @ [w]) (wakers m) \<rparr>))"

definition rm_update ::
  "('h \<Rightarrow> ResourceHandle) \<Rightarrow> 'h \<Rightarrow> 'r \<Rightarrow> ('h, 'r) ResourceMap \<Rightarrow> Error + ('h, 'r) ResourceMap"
  where "rm_update into handle resource m =
    (case map_of (resources m) handle of
       None \<Rightarrow> Err (E_MissingResource (into handle))
     | Some _ \<Rightarrow> Ok (m\<lparr> resources := hm_insert handle resource (resources m) \<rparr>))"

definition rm_find :: "'r \<Rightarrow> ('h, 'r) ResourceMap \<Rightarrow> 'h option"
  where "rm_find resource m = map_option fst (List.find (\<lambda>(h, r). r = resource) (resources m))"

definition rm_bind_if_new ::
  "(u64 \<Rightarrow> 'h) \<Rightarrow> 'r \<Rightarrow> ('h, 'r) ResourceMap \<Rightarrow> ('h \<times> bool) \<times> waker list \<times> ('h, 'r) ResourceMap"
  where "rm_bind_if_new from_u64 resource m =
    (case map_option fst (List.find (\<lambda>(h, r). r = resource) (resources m)) of
       Some handle \<Rightarrow> ((handle, False), [], m)
     | None \<Rightarrow> (let (handle, ws, m') = rm_bind from_u64 resource m in ((handle, True), ws, m')))"

section \<open>Invariant\<close>

text \<open>
  The handles in use are exactly \<open>0, \<dots>, next_handle - 1\<close>, and nobody waits for a handle that is
  bound.
\<close>

definition rm_inv :: "(u64 \<Rightarrow> 'h) \<Rightarrow> ('h, 'r) ResourceMap \<Rightarrow> bool" where
  "rm_inv from_u64 m \<longleftrightarrow>
     distinct (hm_keys (resources m)) \<and>
     set (hm_keys (resources m)) = from_u64 ` {n. n < next_handle m} \<and>
     distinct (hm_keys (wakers m)) \<and>
     set (hm_keys (wakers m)) \<inter> set (hm_keys (resources m)) = {}"

definition rm_full :: "('h, 'r) ResourceMap \<Rightarrow> bool"
  where "rm_full m \<longleftrightarrow> next_handle m = - 1"

abbreviation rm_get :: "('h, 'r) ResourceMap \<Rightarrow> 'h \<Rightarrow> 'r option"
  where "rm_get m \<equiv> map_of (resources m)"

section \<open>The interface of a resource map\<close>

text \<open>
  What the clients of a resource map rely on: its contents as a finite map, handles that are never
  reused, and the laws of the operations on that map.
\<close>

locale resource_store =
  fixes inv :: "'m \<Rightarrow> bool"
    and full :: "'m \<Rightarrow> bool"
    and get :: "'m \<Rightarrow> 'h \<Rightarrow> 'r option"
    and bind :: "'r \<Rightarrow> 'm \<Rightarrow> 'h \<times> waker list \<times> 'm"
    and find :: "'r \<Rightarrow> 'm \<Rightarrow> 'h option"
  assumes bind_fresh: "inv m \<Longrightarrow> \<not> full m \<Longrightarrow> bind r m = (h, ws, m') \<Longrightarrow> get m h = None"
    and bind_get: "inv m \<Longrightarrow> \<not> full m \<Longrightarrow> bind r m = (h, ws, m') \<Longrightarrow> get m' = (get m)(h \<mapsto> r)"
    and bind_inv: "inv m \<Longrightarrow> \<not> full m \<Longrightarrow> bind r m = (h, ws, m') \<Longrightarrow> inv m'"
    and find_Some: "inv m \<Longrightarrow> find r m = Some h \<Longrightarrow> get m h = Some r"
    and find_None: "inv m \<Longrightarrow> find r m = None \<Longrightarrow> get m h \<noteq> Some r"
begin

lemma bind_keeps: "inv m \<Longrightarrow> \<not> full m \<Longrightarrow> bind r m = (h, ws, m') \<Longrightarrow> get m k = Some x \<Longrightarrow> get m' k = Some x"
  using bind_fresh [of m r h ws m'] bind_get [of m r h ws m'] by auto

lemma find_after_bind:
  assumes "inv m" "\<not> full m" "bind r m = (h, ws, m')"
  shows "\<exists>k. find r m' = Some k \<and> get m' k = Some r"
proof (cases "find r m'")
  case None
  then have "get m' h \<noteq> Some r"
    using find_None bind_inv assms by blast
  then show ?thesis
    using bind_get [OF assms] by simp
next
  case (Some k)
  then show ?thesis
    using find_Some bind_inv assms by blast
qed

text \<open>Looking a resource up before binding it keeps the resources pairwise different.\<close>

lemma bind_new_injective:
  assumes "inv m" "\<not> full m" "find r m = None" "bind r m = (h, ws, m')"
    and "inj_on (get m) (dom (get m))"
  shows "inj_on (get m') (dom (get m'))"
proof -
  have "get m' = (get m)(h \<mapsto> r)" and "get m h = None"
    using assms bind_get bind_fresh by blast+
  moreover have "get m k \<noteq> Some r" for k
    using assms find_None by blast
  ultimately show ?thesis
    using assms(5) by (auto simp: inj_on_def dom_def)
qed

end

section \<open>The laws for the resource map\<close>

lemma rm_default_inv: "rm_inv f rm_default"
  by (simp add: rm_inv_def rm_default_def)

lemma rm_not_full: "\<not> rm_full m \<longleftrightarrow> unat (next_handle m) + 1 < 2 ^ 64"
proof -
  have "unat (- 1 :: u64) = 2 ^ 64 - 1"
    by (simp add: unsigned_minus_1_eq_mask mask_eq_exp_minus_1)
  then have "rm_full m \<longleftrightarrow> unat (next_handle m) = 2 ^ 64 - 1"
    by (simp add: rm_full_def word_eq_unat_iff)
  moreover have "unat (next_handle m) \<le> 18446744073709551615"
    using u64_less [of "next_handle m"] by linarith
  ultimately show ?thesis
    by (simp add: le_less) linarith
qed

lemma next_handle_range:
  "\<not> rm_full m \<Longrightarrow> {n. n < next_handle m + 1} = insert (next_handle m) {n. n < next_handle m}"
  using unat_Suc_u64 [of "next_handle m"]
  by (auto simp: rm_not_full word_less_nat_alt less_Suc_eq word_eq_unat_iff)

lemma rm_bind_effect:
  assumes "rm_bind f r m = (h, ws, m')"
  shows "h = f (next_handle m)"
    and "next_handle m' = next_handle m + 1"
    and "resources m' = hm_insert h r (resources m)"
    and "wakers m' = hm_remove h (wakers m)"
    and "ws = (case map_of (wakers m) h of Some ws \<Rightarrow> ws | None \<Rightarrow> [])"
  using assms by (auto simp: rm_bind_def Let_def delete_id split: option.splits dest!: map_of_eq_None_iff [THEN iffD1])

lemma rm_bind_fresh: "inj f \<Longrightarrow> rm_inv f m \<Longrightarrow> rm_bind f r m = (h, ws, m') \<Longrightarrow> rm_get m h = None"
  by (auto simp: rm_inv_def hm_get_None_iff dest!: rm_bind_effect(1) dest: injD)

lemma rm_bind_inv:
  "rm_inv f m \<Longrightarrow> \<not> rm_full m \<Longrightarrow> rm_bind f r m = (h, ws, m') \<Longrightarrow> rm_inv f m'"
  by (auto simp: rm_inv_def rm_bind_effect next_handle_range hm_simps
      dest: rm_bind_effect(1) simp del: set_map)

lemma rm_find_Some: "distinct (hm_keys (resources m)) \<Longrightarrow> rm_find r m = Some h \<Longrightarrow> rm_get m h = Some r"
  by (auto simp: rm_find_def find_Some_iff) (metis nth_mem map_of_eq_Some_iff)

lemma rm_find_None: "rm_find r m = None \<Longrightarrow> rm_get m h \<noteq> Some r"
  by (auto simp: rm_find_def find_None_iff dest!: map_of_SomeD)

lemma rm_bind_if_new_cases:
  "rm_bind_if_new f r m =
     (case rm_find r m of
        Some h \<Rightarrow> ((h, False), [], m)
      | None \<Rightarrow> (case rm_bind f r m of (h, ws, m') \<Rightarrow> ((h, True), ws, m')))"
  by (simp add: rm_bind_if_new_def rm_find_def split: option.splits prod.splits)

lemma rm_resource_store:
  assumes "inj f"
  shows "resource_store (rm_inv f) rm_full rm_get (rm_bind f) rm_find"
proof
  show "rm_find r m = Some h \<Longrightarrow> rm_get m h = Some r" if "rm_inv f m" for m r h
    using that rm_find_Some [of m r h] unfolding rm_inv_def by blast
qed (auto simp: rm_bind_fresh [OF assms] rm_bind_effect(3) update_conv' rm_find_None intro: rm_bind_inv)

interpretation cap_map: resource_store "rm_inv CapabilityHandle" rm_full rm_get "rm_bind CapabilityHandle" rm_find
  by (rule rm_resource_store) (simp add: inj_def)

interpretation token_map: resource_store "rm_inv StaticTokenHandle" rm_full rm_get "rm_bind StaticTokenHandle" rm_find
  by (rule rm_resource_store) (simp add: inj_def)

interpretation aoi_map: resource_store "rm_inv AreaOfInterestHandle" rm_full rm_get "rm_bind AreaOfInterestHandle" rm_find
  by (rule rm_resource_store) (simp add: inj_def)

interpretation intersection_map: resource_store "rm_inv IntersectionHandle" rm_full rm_get "rm_bind IntersectionHandle" rm_find
  by (rule rm_resource_store) (simp add: inj_def)

text \<open>
  Resources that were only bound are numbered from zero: \<open>rm_numbered f xs m\<close> says that the map holds
  the resources \<open>xs\<close> in order.
\<close>

definition rm_numbered :: "(u64 \<Rightarrow> 'h) \<Rightarrow> 'r list \<Rightarrow> ('h, 'r) ResourceMap \<Rightarrow> bool" where
  "rm_numbered f xs m \<longleftrightarrow> length xs < 2 ^ 64 \<and> next_handle m = of_nat (length xs) \<and>
     resources m = zip (map (f \<circ> of_nat) [0..<length xs]) xs"

lemma of_nat_u64_inj: "i < 2 ^ 64 \<Longrightarrow> j < 2 ^ 64 \<Longrightarrow> (of_nat i :: u64) = of_nat j \<longleftrightarrow> i = j"
  by (simp add: word_eq_unat_iff unat_of_nat)

lemma rm_numbered_keys: "rm_numbered f xs m \<Longrightarrow> hm_keys (resources m) = map (f \<circ> of_nat) [0..<length xs]"
  by (simp add: rm_numbered_def)

lemma rm_numbered_distinct: "inj f \<Longrightarrow> rm_numbered f xs m \<Longrightarrow> distinct (hm_keys (resources m))"
  unfolding rm_numbered_keys distinct_map
  by (intro conjI inj_onI) (auto simp: rm_numbered_def of_nat_u64_inj inj_eq)

lemma rm_numbered_fresh: "inj f \<Longrightarrow> rm_numbered f xs m \<Longrightarrow> f (next_handle m) \<notin> set (hm_keys (resources m))"
  by (auto simp: rm_numbered_def set_zip of_nat_u64_inj dest: injD)

lemma rm_numbered_bind:
  assumes "inj f" "rm_numbered f xs m" "rm_bind f x m = (h, ws, m')" "length xs + 1 < 2 ^ 64"
  shows "rm_numbered f (xs @ [x]) m'" "resources m' = resources m @ [(h, x)]" "rm_get m h = None"
proof -
  have h: "h = f (next_handle m)"
    using rm_bind_effect(1) [OF assms(3)] .
  then show r: "resources m' = resources m @ [(h, x)]"
    using rm_bind_effect(3) [OF assms(3)] hm_keys_insert_new [OF rm_numbered_fresh [OF assms(1,2)]] by simp
  show "rm_get m h = None"
    unfolding hm_get_None_iff h by (rule rm_numbered_fresh [OF assms(1,2)])
  show "rm_numbered f (xs @ [x]) m'"
    using assms(2,4) rm_bind_effect(2) [OF assms(3)] by (simp add: rm_numbered_def r h)
qed

lemma rm_numbered_get:
  assumes "inj f" "rm_numbered f xs m" "i < length xs"
  shows "rm_get m (f (of_nat i)) = Some (xs ! i)"
proof -
  have "distinct (map fst (resources m))"
    using rm_numbered_distinct [OF assms(1,2)] by (simp add: rm_numbered_def)
  moreover have "(f (of_nat i), xs ! i) \<in> set (resources m)"
    using assms(2,3) by (auto simp: rm_numbered_def set_zip intro!: exI [of _ i])
  ultimately show ?thesis
    by simp
qed

lemma rm_numbered_update:
  assumes "inj f" "rm_numbered f xs m" "i < length xs" "rm_update into (f (of_nat i)) x m = Ok m'"
  shows "rm_numbered f (xs[i := x]) m'"
proof -
  let ?ks = "map (f \<circ> of_nat) [0..<length xs]"
  have "resources m' = hm_insert (f (of_nat i)) x (zip ?ks xs)" "next_handle m' = next_handle m"
    using assms(2,4) by (auto simp: rm_update_def rm_numbered_def split: option.splits)
  moreover have "hm_insert (?ks ! i) x (zip ?ks xs) = zip ?ks (xs[i := x])"
    using rm_numbered_distinct [OF assms(1,2)] assms(3) rm_numbered_keys [OF assms(2)]
    by (intro hm_insert_zip) simp_all
  ultimately show ?thesis
    using assms(2,3) by (simp add: rm_numbered_def)
qed

lemma rm_update_get:
  "rm_update into h r m = Ok m' \<Longrightarrow> rm_get m' = (rm_get m)(h \<mapsto> r) \<and> next_handle m' = next_handle m"
  by (auto simp: rm_update_def update_conv' split: option.splits)

lemma rm_inv_transfer:
  assumes "rm_inv f m" "next_handle m' = next_handle m"
    and "hm_keys (resources m') = hm_keys (resources m)"
    and "distinct (hm_keys (wakers m'))"
    and "set (hm_keys (wakers m')) \<inter> set (hm_keys (resources m)) = {}"
  shows "rm_inv f m'"
  using assms unfolding rm_inv_def by metis

lemma rm_update_inv:
  assumes "rm_inv f m" "rm_update into h r m = Ok m'"
  shows "rm_inv f m'"
proof -
  obtain x where x: "rm_get m h = Some x" and m': "m' = m\<lparr> resources := hm_insert h r (resources m) \<rparr>"
    using assms(2) unfolding rm_update_def by (cases "rm_get m h") simp_all
  show ?thesis
  proof (rule rm_inv_transfer [OF assms(1)])
    show "hm_keys (resources m') = hm_keys (resources m)"
      unfolding m' using hm_keys_insert_old [OF hm_get_Some_in [OF x]] by simp
  qed (use assms(1) in \<open>auto simp: m' rm_inv_def\<close>)
qed

lemma rm_poll_inv:
  assumes "rm_inv f m" "rm_poll_get_eventually h w m = (p, m')"
  shows "rm_inv f m'"
proof (cases "rm_get m h")
  case None
  have "resources m' = resources m" "next_handle m' = next_handle m"
    and d: "distinct (hm_keys (wakers m)) \<Longrightarrow> distinct (hm_keys (wakers m'))"
    and s: "set (hm_keys (wakers m')) = insert h (set (hm_keys (wakers m)))"
    using assms(2) None by (auto simp: rm_poll_get_eventually_def hm_simps simp del: set_map)
  then show ?thesis
    using assms(1) None [unfolded hm_get_None_iff]
    by (intro rm_inv_transfer [OF assms(1)] d) (auto simp: s rm_inv_def simp del: set_map)
next
  case (Some r)
  then show ?thesis
    using assms by (simp add: rm_poll_get_eventually_def)
qed

section \<open>Sequences of operations\<close>

text \<open>The calls a session makes on a resource map, and the wakers that a sequence of calls wakes.\<close>

datatype ('h, 'r) rm_op = Op_Bind 'r | Op_BindIfNew 'r | Op_Poll 'h waker | Op_Update 'h 'r

fun rm_exec ::
  "(u64 \<Rightarrow> 'h) \<Rightarrow> ('h \<Rightarrow> ResourceHandle) \<Rightarrow> ('h, 'r) rm_op \<Rightarrow> ('h, 'r) ResourceMap
   \<Rightarrow> waker list \<times> ('h, 'r) ResourceMap" where
  "rm_exec f into (Op_Bind r) m = snd (rm_bind f r m)"
| "rm_exec f into (Op_BindIfNew r) m = snd (rm_bind_if_new f r m)"
| "rm_exec f into (Op_Poll h w) m = ([], snd (rm_poll_get_eventually h w m))"
| "rm_exec f into (Op_Update h r) m =
     ([], case rm_update into h r m of Inl _ \<Rightarrow> m | Inr m' \<Rightarrow> m')"

fun rm_run ::
  "(u64 \<Rightarrow> 'h) \<Rightarrow> ('h \<Rightarrow> ResourceHandle) \<Rightarrow> ('h, 'r) rm_op list \<Rightarrow> ('h, 'r) ResourceMap
   \<Rightarrow> waker list \<times> ('h, 'r) ResourceMap" where
  "rm_run f into [] m = ([], m)"
| "rm_run f into (op # ops) m =
     (let (ws, m1) = rm_exec f into op m; (ws', m2) = rm_run f into ops m1 in (ws @ ws', m2))"

definition rm_waiting :: "('h, 'r) ResourceMap \<Rightarrow> 'h \<Rightarrow> waker \<Rightarrow> bool"
  where "rm_waiting m h w \<longleftrightarrow> (\<exists>ws. map_of (wakers m) h = Some ws \<and> w \<in> set ws)"

lemma rm_bind_if_new_snd:
  "snd (rm_bind_if_new f r m) = ([], m) \<or> snd (rm_bind_if_new f r m) = snd (rm_bind f r m)"
  by (auto simp: rm_bind_if_new_cases split: option.splits prod.splits)

lemma rm_exec_cases:
  obtains (skip) "rm_exec f into op m = ([], m)"
  | (bind) r h ws m' where "rm_exec f into op m = (ws, m')" "rm_bind f r m = (h, ws, m')"
  | (poll) h w p m' where "rm_exec f into op m = ([], m')" "rm_poll_get_eventually h w m = (p, m')"
  | (upd) h r m' where "rm_exec f into op m = ([], m')" "rm_update into h r m = Ok m'"
proof (cases op)
  case (Op_Bind r)
  then show ?thesis
    using bind by (cases "rm_bind f r m") auto
next
  case (Op_BindIfNew r)
  then show ?thesis
    using bind [of _ _ r] skip rm_bind_if_new_snd [of f r m] by (cases "rm_bind f r m") auto
next
  case (Op_Poll h w)
  then show ?thesis
    using poll by (cases "rm_poll_get_eventually h w m") auto
next
  case (Op_Update h r)
  then show ?thesis
    using upd skip by (cases "rm_update into h r m") auto
qed

lemma rm_exec_next:
  assumes "rm_exec f into op m = (ws, m')"
  shows "next_handle m' = next_handle m \<or> next_handle m' = next_handle m + 1"
  using assms
  by (cases rule: rm_exec_cases [of f into op m])
    (auto dest: rm_bind_effect(2) rm_update_get simp: rm_poll_get_eventually_def split: option.splits)

lemma rm_exec_inv:
  assumes "rm_inv f m" "\<not> rm_full m" "rm_exec f into op m = (ws, m')"
  shows "rm_inv f m'"
  using assms
  by (cases rule: rm_exec_cases [of f into op m])
    (auto intro: rm_bind_inv rm_poll_inv rm_update_inv)

lemma rm_exec_keeps_dom:
  assumes "inj f" "rm_inv f m" "rm_exec f into op m = (ws, m')"
  shows "dom (rm_get m) \<subseteq> dom (rm_get m')"
  using assms
  by (cases rule: rm_exec_cases [of f into op m])
    (auto simp: rm_bind_effect(3) rm_poll_get_eventually_def update_conv' dest: rm_update_get
      split: option.splits if_splits)

lemma rm_exec_waiting:
  assumes "rm_inv f m" "rm_exec f into op m = (ws, m')" "rm_waiting m h w"
  shows "w \<in> set ws \<or> rm_waiting m' h w"
  using assms(2)
proof (cases rule: rm_exec_cases [of f into op m])
  case (bind r k ws' m1)
  then show ?thesis
    using assms by (auto simp: rm_waiting_def rm_bind_effect delete_conv dest: rm_bind_effect(5))
next
  case (poll k w' p m1)
  then show ?thesis
    using assms by (auto simp: rm_waiting_def rm_poll_get_eventually_def update_conv split: option.splits)
next
  case (upd k r m1)
  then show ?thesis
    using assms by (auto simp: rm_waiting_def rm_update_def split: option.splits)
qed (use assms in auto)

text \<open>
  C39: No wake-up is lost.  From any state that respects the invariant, after any sequence of calls
  short of exhausting the handles, the invariant holds again, bound handles stay bound, and a task
  that was waiting for a handle has been woken, or its handle is still unbound and it is still
  registered.
\<close>

theorem rm_run_no_lost_wakeup:
  assumes "inj f" "rm_inv f m" "unat (next_handle m) + length ops < 2 ^ 64"
    and "rm_run f into ops m = (ws, m')"
  shows "rm_inv f m' \<and> dom (rm_get m) \<subseteq> dom (rm_get m') \<and>
    (\<forall>h w. rm_waiting m h w \<longrightarrow> w \<in> set ws \<or> rm_waiting m' h w \<and> h \<notin> dom (rm_get m'))"
  using assms(2-)
proof (induction ops arbitrary: m ws)
  case Nil
  have "h \<notin> dom (rm_get m)" if "rm_waiting m h w" for h w
  proof -
    have "h \<in> set (hm_keys (wakers m))"
      using that hm_get_Some_in unfolding rm_waiting_def by fast
    then show ?thesis
      using Nil.prems(1) unfolding rm_inv_def dom_map_of_conv_image_fst set_map by blast
  qed
  then show ?case
    using Nil by auto
next
  case (Cons op ops)
  obtain ws1 m1 where e: "rm_exec f into op m = (ws1, m1)"
    by fastforce
  obtain ws2 where r: "rm_run f into ops m1 = (ws2, m')" and ws: "ws = ws1 @ ws2"
    using Cons.prems(3) by (auto simp: e split: prod.splits)
  have nf: "\<not> rm_full m"
    using Cons.prems(2) by (simp add: rm_not_full)
  then have "unat (next_handle m1) \<le> unat (next_handle m) + 1"
    using rm_exec_next [OF e] unat_Suc_u64 [of "next_handle m"] by (auto simp: rm_not_full)
  then have "unat (next_handle m1) + length ops < 2 ^ 64"
    using Cons.prems(2) by simp
  note IH = Cons.IH [OF rm_exec_inv [OF Cons.prems(1) nf e] this r]
  then show ?case
    using rm_exec_waiting [OF Cons.prems(1) e] rm_exec_keeps_dom [OF assms(1) Cons.prems(1) e]
    unfolding ws set_append by blast
qed

definition waiting_example :: "(CapabilityHandle, string) ResourceMap" where
  "waiting_example = \<lparr> next_handle = 0, resources = [], wakers = [(CapabilityHandle 0, [7])] \<rparr>"

definition bound_example :: "(CapabilityHandle, string) ResourceMap" where
  "bound_example = \<lparr> next_handle = 1, resources = [(CapabilityHandle 0, ''cap'')], wakers = [] \<rparr>"

theorem rm_run_no_lost_wakeup_witness:
  "rm_run CapabilityHandle RH_Capability [Op_BindIfNew ''cap''] waiting_example = ([7], bound_example) \<and>
   rm_inv CapabilityHandle bound_example \<and> dom (rm_get waiting_example) \<subseteq> dom (rm_get bound_example) \<and>
   rm_waiting waiting_example (CapabilityHandle 0) 7 \<and>
   (7 \<in> set [7 :: waker] \<or>
      rm_waiting bound_example (CapabilityHandle 0) 7 \<and> CapabilityHandle 0 \<notin> dom (rm_get bound_example))"
proof -
  have "rm_run CapabilityHandle RH_Capability [Op_BindIfNew ''cap''] waiting_example = ([7], bound_example)"
    by (simp add: waiting_example_def bound_example_def rm_bind_if_new_def rm_bind_def Let_def)
  moreover have "rm_inv CapabilityHandle waiting_example" "inj CapabilityHandle"
    and "unat (next_handle waiting_example) + length [Op_BindIfNew ''cap''] < 2 ^ 64"
    by (simp_all add: waiting_example_def rm_inv_def inj_def)
  moreover have "rm_waiting waiting_example (CapabilityHandle 0) 7"
    by (simp add: waiting_example_def rm_waiting_def)
  ultimately show ?thesis
    using rm_run_no_lost_wakeup [of CapabilityHandle waiting_example "[Op_BindIfNew ''cap'']"
        RH_Capability "[7]" bound_example] by blast
qed

end
