(* ===== verification/Event_Queue.thy ===== *)
theory Event_Queue
  imports Resource_Map
begin

text \<open>
  \<open>EventQueue\<close> of \<open>store/memory.rs\<close>: events with increasing progress ids, polled from a progress id
  on with a filter.  Progress ids are 64-bit and wrap, as in a release build.
\<close>

record 'a EventQueue =
  eq_events :: "'a list"
  eq_offset :: u64
  eq_wakers :: "waker list"

definition eq_default :: "'a EventQueue"
  where "eq_default = \<lparr> eq_events = [], eq_offset = 0, eq_wakers = [] \<rparr>"

definition eq_next_progress_id :: "'a EventQueue \<Rightarrow> u64"
  where "eq_next_progress_id q = eq_offset q + of_nat (length (eq_events q))"

definition eq_insert :: "(u64 \<Rightarrow> 'a) \<Rightarrow> 'a EventQueue \<Rightarrow> waker list \<times> 'a EventQueue" where
  "eq_insert f q =
     (let progress_id = eq_next_progress_id q;
          event = f progress_id
      in (eq_wakers q, q\<lparr> eq_events := eq_events q @ [event], eq_wakers := [] \<rparr>))"

definition eq_drop :: "'a EventQueue \<Rightarrow> waker list"
  where "eq_drop q = eq_wakers q"

text \<open>\<open>checked_sub\<close>, then an index into the deque.\<close>

definition eq_get :: "'a EventQueue \<Rightarrow> u64 \<Rightarrow> 'a option" where
  "eq_get q progress_id =
     (if progress_id < eq_offset q then None
      else let index = unat (progress_id - eq_offset q)
           in if index < length (eq_events q) then Some (eq_events q ! index) else None)"

text \<open>The loop of \<open>poll_next\<close>; the outer \<open>None\<close> is a loop that never ends.\<close>

partial_function (option) eq_poll_loop ::
  "'a EventQueue \<Rightarrow> ('a \<Rightarrow> bool) \<Rightarrow> waker \<Rightarrow> u64 \<Rightarrow> ((u64 \<times> 'a) option poll \<times> 'a EventQueue) option" where
  "eq_poll_loop q flt cx i =
     (case eq_get q i of
        Some event \<Rightarrow>
          if flt event then Some (Ready (Some (i + 1, event)), q)
          else eq_poll_loop q flt cx (i + 1)
      | None \<Rightarrow> Some (Pending, q\<lparr> eq_wakers := eq_wakers q @ [cx] \<rparr>))"

definition eq_poll_next ::
  "'a EventQueue \<Rightarrow> u64 \<Rightarrow> ('a \<Rightarrow> bool) \<Rightarrow> waker \<Rightarrow> ((u64 \<times> 'a) option poll \<times> 'a EventQueue) option" where
  "eq_poll_next q progress_id flt cx =
     (if progress_id < eq_offset q then Some (Ready None, q) else eq_poll_loop q flt cx progress_id)"

section \<open>Progress ids as positions\<close>

text \<open>
  While the ids have not wrapped, the events from a progress id on are a suffix of the queue.
\<close>

definition eq_inv :: "'a EventQueue \<Rightarrow> bool"
  where "eq_inv q \<longleftrightarrow> unat (eq_offset q) + length (eq_events q) < 2 ^ 64"

definition events_from :: "'a EventQueue \<Rightarrow> u64 \<Rightarrow> 'a list"
  where "events_from q i = drop (unat i - unat (eq_offset q)) (eq_events q)"

lemma eq_index:
  "eq_offset q \<le> i \<Longrightarrow> unat (i - eq_offset q) = unat i - unat (eq_offset q)"
  by (simp add: unat_sub)

lemma eq_get_events_from:
  assumes "eq_offset q \<le> i"
  shows "eq_get q i = (case events_from q i of [] \<Rightarrow> None | e # _ \<Rightarrow> Some e)"
  using assms
  by (auto simp: eq_get_def events_from_def eq_index Let_def Cons_nth_drop_Suc [symmetric]
      split: list.split)

lemma events_from_step:
  assumes "eq_inv q" "eq_offset q \<le> i" "events_from q i = e # es"
  shows "eq_offset q \<le> i + 1" "events_from q (i + 1) = es" "unat (i + 1) = unat i + 1"
proof -
  have "unat i - unat (eq_offset q) < length (eq_events q)"
    using assms(3) by (metis drop_all events_from_def leI list.distinct(1))
  then show u: "unat (i + 1) = unat i + 1"
    using assms(1,2) by (intro unat_Suc_u64) (simp add: eq_inv_def word_le_nat_alt)
  then show "eq_offset q \<le> i + 1"
    using assms(2) by (simp add: word_le_nat_alt)
  show "events_from q (i + 1) = es"
    using assms(2,3) u
    by (simp add: events_from_def word_le_nat_alt Suc_diff_le drop_Suc tl_drop [symmetric])
qed

lemma eq_poll_loop_spec:
  assumes "eq_inv q" "eq_offset q \<le> i"
  shows "case filter flt (events_from q i) of
      [] \<Rightarrow> eq_poll_loop q flt cx i = Some (Pending, q\<lparr> eq_wakers := eq_wakers q @ [cx] \<rparr>)
    | e # es \<Rightarrow> \<exists>n. eq_poll_loop q flt cx i = Some (Ready (Some (n, e)), q) \<and> i < n \<and>
        eq_offset q \<le> n \<and> filter flt (events_from q n) = es"
  using assms(2)
proof (induction "length (events_from q i)" arbitrary: i)
  case 0
  then show ?case
    by (subst eq_poll_loop.simps) (simp add: eq_get_events_from)
next
  case (Suc k)
  then obtain e es where e: "events_from q i = e # es"
    by (metis Suc_length_conv)
  note step = events_from_step [OF assms(1) Suc.prems e]
  have less: "i < i + 1"
    using step(3) by (simp add: word_less_nat_alt)
  have "k = length (events_from q (i + 1))"
    using Suc.hyps(2) e step(2) by simp
  note IH = Suc.hyps(1) [OF this step(1)]
  show ?case
  proof (cases "flt e")
    case True
    then show ?thesis
      using e step less by (subst eq_poll_loop.simps) (simp add: eq_get_events_from [OF Suc.prems])
  next
    case False
    then have "eq_poll_loop q flt cx i = eq_poll_loop q flt cx (i + 1)"
      by (subst eq_poll_loop.simps) (simp add: eq_get_events_from [OF Suc.prems] e)
    moreover have "filter flt (events_from q i) = filter flt (events_from q (i + 1))"
      using False e step(2) by simp
    ultimately show ?thesis
      using IH less by (auto split: list.splits intro: less_trans)
  qed
qed

lemma eq_insert_events_from:
  assumes "eq_inv q" "eq_insert f q = (ws, q')" "unat i - unat (eq_offset q) \<le> length (eq_events q)"
  shows "events_from q' i = events_from q i @ [f (eq_next_progress_id q)]"
  using assms by (auto simp: eq_insert_def Let_def events_from_def)

text \<open>
  Polling an event queue always returns, and it returns the next event of the queue that passes
  the filter: what passes the filter from the given progress id on is that event followed by what
  passes from the id it returns, so no event is lost, repeated or reordered.  When nothing passes,
  the caller is registered to be woken, and the next insertion wakes it.
\<close>

theorem eq_poll_next_in_order:
  assumes "eq_inv q" "eq_offset q \<le> i"
  shows "case filter flt (events_from q i) of
      [] \<Rightarrow> \<exists>q'. eq_poll_next q i flt cx = Some (Pending, q') \<and> cx \<in> set (fst (eq_insert f q')) \<and>
              eq_events q' = eq_events q
    | e # es \<Rightarrow> \<exists>n. eq_poll_next q i flt cx = Some (Ready (Some (n, e)), q) \<and> i < n \<and>
        filter flt (events_from q n) = es"
  using eq_poll_loop_spec [OF assms, of flt cx] assms(2)
  by (auto simp: eq_poll_next_def eq_insert_def Let_def split: list.splits)

definition queue_example :: "nat EventQueue" where
  "queue_example = \<lparr> eq_events = [3, 8, 5, 6], eq_offset = 10, eq_wakers = [] \<rparr>"

theorem eq_poll_next_in_order_witness:
  "\<exists>n. eq_poll_next queue_example 10 even 0 = Some (Ready (Some (n, 8)), queue_example) \<and> 10 < n \<and>
     filter even (events_from queue_example n) = [6]"
  using eq_poll_next_in_order [of queue_example 10 even 0]
  by (simp add: queue_example_def eq_inv_def events_from_def [of _ "10"])

end
