(* ===== verification/Store_Traits.thy ===== *)
theory Store_Traits
  imports Fingerprint Event_Queue "HOL-Library.Product_Lexorder"
begin

text \<open>
  The storage traits of \<open>store/traits.rs\<close>.  The provided methods of \<open>EntryReader\<close> (\<open>get_entries\<close>,
  \<open>count\<close>, \<open>fingerprint\<close>, \<open>split_range\<close>) are functions of the required method
  \<open>get_authorised_entries\<close>; those of \<open>SecretStorage\<close> are functions of \<open>get_user\<close>, \<open>get_namespace\<close> and
  \<open>insert\<close>.  The locale \<open>entry_reader\<close> is the contract of \<open>EntryReader\<close>: the method returns the
  entries of a namespace that a range includes.
\<close>

section \<open>Reading entries\<close>

type_synonym ('cap, 'sg) get_authorised =
  "NamespaceId \<Rightarrow> Range3d \<Rightarrow> string + (string + ('cap, 'sg) AuthorisedEntry) list"

datatype SplitAction = SplitSendFingerprint Fingerprint | SplitSendEntries u64

type_synonym RangeSplit = "Range3d \<times> SplitAction"

record SplitOpts =
  max_set_size :: nat
  split_factor :: nat

definition split_opts_default :: SplitOpts
  where "split_opts_default = \<lparr> max_set_size = 1, split_factor = 2 \<rparr>"

definition get_entries :: "('cap, 'sg) get_authorised \<Rightarrow> NamespaceId \<Rightarrow> Range3d \<Rightarrow> string + (string + Entry) list" where
  "get_entries gae ns rg =
     res_bind (gae ns rg) (\<lambda>items. Ok (map (\<lambda>e. res_bind e (\<lambda>e. Ok (ae_entry e))) items))"

definition reader_count :: "('cap, 'sg) get_authorised \<Rightarrow> NamespaceId \<Rightarrow> Range3d \<Rightarrow> string + u64" where
  "reader_count gae ns rg =
     res_bind (get_entries gae ns rg) (\<lambda>items. Ok (of_nat (length items)))"

fun fingerprint_loop :: "fp_env \<Rightarrow> (string + Entry) list \<Rightarrow> Fingerprint \<Rightarrow> string + Fingerprint" where
  "fingerprint_loop v [] fingerprint = Ok fingerprint"
| "fingerprint_loop v (Inl err # items) fingerprint = Err err"
| "fingerprint_loop v (Inr entry # items) fingerprint =
     fingerprint_loop v items (fp_add_entry v entry fingerprint)"

definition reader_fingerprint ::
  "fp_env \<Rightarrow> ('cap, 'sg) get_authorised \<Rightarrow> NamespaceId \<Rightarrow> Range3d \<Rightarrow> string + Fingerprint" where
  "reader_fingerprint v gae ns rg =
     res_bind (get_entries gae ns rg) (\<lambda>items. fingerprint_loop v items fp_default)"

text \<open>The ranges that \<open>split_range\<close> cuts its range into; \<open>None\<close> is the panic of \<open>unwrap\<close>.\<close>

definition split_at :: "wdm \<Rightarrow> Range3d \<Rightarrow> Entry \<Rightarrow> Range3d list option" where
  "split_at w rg mid =
     (if e_subspace_id mid \<noteq> range_start (r_subspaces rg) then
        map_option (\<lambda>left.
            [\<lparr> r_subspaces = left, r_paths = r_paths rg, r_times = r_times rg \<rparr>,
             \<lparr> r_subspaces = Range (e_subspace_id mid) (range_end (r_subspaces rg)),
               r_paths = r_paths rg, r_times = r_times rg \<rparr>])
          (w_subspace_closed w (range_start (r_subspaces rg)) (e_subspace_id mid))
      else if e_path mid \<noteq> range_start (r_paths rg) then
        Some [\<lparr> r_subspaces = r_subspaces rg,
                r_paths = Range (range_start (r_paths rg)) (Closed (e_path mid)),
                r_times = r_times rg \<rparr>,
              \<lparr> r_subspaces = r_subspaces rg,
                r_paths = Range (e_path mid) (range_end (r_paths rg)),
                r_times = r_times rg \<rparr>]
      else
        Some [\<lparr> r_subspaces = r_subspaces rg, r_paths = r_paths rg,
                r_times = Range (range_start (r_times rg)) (Closed (e_timestamp mid)) \<rparr>,
              \<lparr> r_subspaces = r_subspaces rg, r_paths = r_paths rg,
                r_times = Range (e_timestamp mid) (range_end (r_times rg)) \<rparr>])"

fun fingerprint_all ::
  "fp_env \<Rightarrow> ('cap, 'sg) get_authorised \<Rightarrow> NamespaceId \<Rightarrow> Range3d list \<Rightarrow> string + RangeSplit list" where
  "fingerprint_all v gae ns [] = Ok []"
| "fingerprint_all v gae ns (rg # rgs) =
     res_bind (reader_fingerprint v gae ns rg) (\<lambda>fingerprint.
     res_bind (fingerprint_all v gae ns rgs) (\<lambda>out.
       Ok ((rg, SplitSendFingerprint fingerprint) # out)))"

text \<open>
  \<open>split_range\<close>: the outer \<open>None\<close> is a panic (\<open>expect("not empty")\<close> or \<open>unwrap\<close>); items that failed
  to be read count, but are then left out.
\<close>

definition split_range ::
  "wdm \<Rightarrow> fp_env \<Rightarrow> ('cap, 'sg) get_authorised \<Rightarrow> NamespaceId \<Rightarrow> Range3d \<Rightarrow> SplitOpts
   \<Rightarrow> (string + RangeSplit list) option" where
  "split_range w v gae ns rg config =
     (case reader_count gae ns rg of
        Inl err \<Rightarrow> Some (Err err)
      | Inr cnt \<Rightarrow>
          if unat cnt \<le> max_set_size config then Some (Ok [(rg, SplitSendEntries cnt)])
          else
            (case get_entries gae ns rg of
               Inl err \<Rightarrow> Some (Err err)
             | Inr items \<Rightarrow>
                 let entries = sort_key as_sortable_tuple
                       (List.map_filter (\<lambda>e. case e of Inl _ \<Rightarrow> None | Inr e \<Rightarrow> Some e) items);
                     split_index = unat cnt div 2
                 in if split_index < length entries then
                      map_option (fingerprint_all v gae ns) (split_at w rg (entries ! split_index))
                    else None))"

section \<open>Events\<close>

datatype EntryOrigin = Local | Remote u64

datatype EntryChannel = ChannelReconciliation | ChannelData

record ('cap, 'sg) PruneEvent =
  pe_pruned :: "('cap, 'sg) AuthorisedEntry"
  pe_by :: "('cap, 'sg) AuthorisedEntry"

datatype ('cap, 'sg) StoreEvent =
    Ingested u64 "('cap, 'sg) AuthorisedEntry" EntryOrigin
  | Pruned u64 "('cap, 'sg) PruneEvent"

record SubscribeParams =
  ignore_empty_payloads :: bool
  ignore_remote :: "u64 option"
  ingest_only :: bool

fun event_progress_id :: "('cap, 'sg) StoreEvent \<Rightarrow> u64" where
  "event_progress_id (Ingested i _ _) = i"
| "event_progress_id (Pruned i _) = i"

definition params_includes_entry :: "SubscribeParams \<Rightarrow> Entry \<Rightarrow> bool" where
  "params_includes_entry p e \<longleftrightarrow> \<not> (ignore_empty_payloads p \<and> e_payload_length e = 0)"

definition params_includes_origin :: "SubscribeParams \<Rightarrow> EntryOrigin \<Rightarrow> bool" where
  "params_includes_origin p origin =
     (case ignore_remote p of
        None \<Rightarrow> True
      | Some ignored_session \<Rightarrow>
          (case origin of Local \<Rightarrow> True | Remote session \<Rightarrow> session \<noteq> ignored_session))"

fun event_matches ::
  "wdm \<Rightarrow> NamespaceId \<Rightarrow> Area \<Rightarrow> SubscribeParams \<Rightarrow> ('cap, 'sg) StoreEvent \<Rightarrow> bool" where
  "event_matches w ns area params (Ingested _ e origin) \<longleftrightarrow>
     e_namespace_id (ae_entry e) = ns \<and> w_area_includes_entry w area (ae_entry e) \<and>
     params_includes_entry params (ae_entry e) \<and> params_includes_origin params origin"
| "event_matches w ns area params (Pruned _ pe) \<longleftrightarrow>
     \<not> ingest_only params \<and> e_namespace_id (ae_entry (pe_pruned pe)) = ns \<and>
     w_area_includes_entry w area (ae_entry (pe_pruned pe))"

section \<open>Secrets\<close>

datatype 'sk SecretKey = SK_User "'sk UserSecretKey" | SK_Namespace "'sk NamespaceSecretKey"

definition has_user :: "(UserId \<Rightarrow> string + 'sk UserSecretKey option) \<Rightarrow> UserId \<Rightarrow> string + bool"
  where "has_user get_user i = res_bind (get_user i) (\<lambda>s. Ok (s \<noteq> None))"

definition has_namespace :: "(UserId \<Rightarrow> string + 'sk UserSecretKey option) \<Rightarrow> UserId \<Rightarrow> string + bool"
  where "has_namespace get_user i = res_bind (get_user i) (\<lambda>s. Ok (s \<noteq> None))"

definition insert_user ::
  "('sk, 'vk, 'sg, 'rng) ed25519 \<Rightarrow> ('sk SecretKey \<Rightarrow> 's \<Rightarrow> SecretStoreError + 's) \<Rightarrow> 'sk UserSecretKey \<Rightarrow> 's
   \<Rightarrow> SecretStoreError + (UserId \<times> 's)" where
  "insert_user d ins secret s =
     (let i = usk_id d secret in res_bind (ins (SK_User secret) s) (\<lambda>s'. Ok (i, s')))"

definition insert_namespace ::
  "('sk, 'vk, 'sg, 'rng) ed25519 \<Rightarrow> ('sk SecretKey \<Rightarrow> 's \<Rightarrow> SecretStoreError + 's) \<Rightarrow> 'sk NamespaceSecretKey
   \<Rightarrow> 's \<Rightarrow> SecretStoreError + (NamespaceId \<times> 's)" where
  "insert_namespace d ins secret s =
     (let i = nsk_id d secret in res_bind (ins (SK_Namespace secret) s) (\<lambda>s'. Ok (i, s')))"

definition sign_user ::
  "('sk, 'vk, 'sg, 'rng) ed25519 \<Rightarrow> (UserId \<Rightarrow> string + 'sk UserSecretKey option) \<Rightarrow> UserId \<Rightarrow> bytes
   \<Rightarrow> SecretStoreError + 'sg UserSignature" where
  "sign_user d get_user i message =
     res_bind (map_err SSE_Store (get_user i)) (\<lambda>s.
     res_bind (ok_or SSE_MissingKey s) (\<lambda>k. Ok (usk_sign d k message)))"

definition sign_namespace ::
  "('sk, 'vk, 'sg, 'rng) ed25519 \<Rightarrow> (NamespaceId \<Rightarrow> string + 'sk NamespaceSecretKey option) \<Rightarrow> NamespaceId
   \<Rightarrow> bytes \<Rightarrow> SecretStoreError + 'sg NamespaceSignature" where
  "sign_namespace d get_namespace i message =
     res_bind (map_err SSE_Store (get_namespace i)) (\<lambda>s.
     res_bind (ok_or SSE_MissingKey s) (\<lambda>k. Ok (nsk_sign d k message)))"

section \<open>Splitting a range\<close>

text \<open>The entries of a list that a range includes.\<close>

definition entries_in :: "wdm \<Rightarrow> Entry list \<Rightarrow> Range3d \<Rightarrow> Entry list"
  where "entries_in w es r = filter (w_range3d_includes_entry w r) es"

text \<open>A store keeps at most one entry per subspace and path, all of one namespace.\<close>

definition unique_entries :: "NamespaceId \<Rightarrow> Entry list \<Rightarrow> bool" where
  "unique_entries ns es \<longleftrightarrow> distinct (map as_sortable_tuple es) \<and> (\<forall>e \<in> set es. e_namespace_id e = ns)"

lemma in_range_start_le: "in_range r x \<Longrightarrow> range_start r \<le> x"
  by (cases r; cases "range_end r") auto

lemma in_range_split:
  assumes "in_range r m"
  shows "in_range r x \<longleftrightarrow>
      in_range (Range (range_start r) (Closed m)) x \<or> in_range (Range m (range_end r)) x"
    and "\<not> (in_range (Range (range_start r) (Closed m)) x \<and> in_range (Range m (range_end r)) x)"
  using assms by (cases r; cases "range_end r"; force)+

text \<open>What a cut of a range at an entry of it gives: two parts, the entry in the second.\<close>

definition is_cut :: "Range3d \<Rightarrow> Entry \<Rightarrow> Range3d \<Rightarrow> Range3d \<Rightarrow> bool" where
  "is_cut r mid r1 r2 \<longleftrightarrow>
     (\<forall>e. in_range3d r e \<longleftrightarrow> in_range3d r1 e \<or> in_range3d r2 e) \<and>
     (\<forall>e. \<not> (in_range3d r1 e \<and> in_range3d r2 e)) \<and> in_range3d r2 mid"

lemma in_range_self: "in_range r m \<Longrightarrow> in_range (Range m (range_end r)) m"
  by (cases r; cases "range_end r") auto

lemma split_at_cut:
  assumes "range_laws w" "in_range3d r mid"
  shows "\<exists>r1 r2. split_at w r mid = Some [r1, r2] \<and> is_cut r mid r1 r2"
proof -
  have sub: "in_range (r_subspaces r) (e_subspace_id mid)" "in_range (r_paths r) (e_path mid)"
    "in_range (r_times r) (e_timestamp mid)"
    using assms(2) by (simp_all add: in_range3d_def)
  note sp = in_range_split [OF sub(1)] in_range_split [OF sub(2)] in_range_split [OF sub(3)]
  note se = sub in_range_self [OF sub(1)] in_range_self [OF sub(2)] in_range_self [OF sub(3)]
  consider (subspace) "e_subspace_id mid \<noteq> range_start (r_subspaces r)"
    | (path) "e_subspace_id mid = range_start (r_subspaces r)" "e_path mid \<noteq> range_start (r_paths r)"
    | (time) "e_subspace_id mid = range_start (r_subspaces r)" "e_path mid = range_start (r_paths r)"
    by blast
  then show ?thesis
  proof cases
    case subspace
    then have "range_start (r_subspaces r) < e_subspace_id mid"
      using in_range_start_le [OF sub(1)] by simp
    then show ?thesis
      using subspace assms(1) sp(1,2) se
      unfolding split_at_def is_cut_def by (auto simp: range_laws_def in_range3d_def)
  next
    case path
    then show ?thesis
      using sp(3,4) se unfolding split_at_def is_cut_def by (auto simp: in_range3d_def)
  next
    case time
    then show ?thesis
      using sp(5,6) se unfolding split_at_def is_cut_def by (auto simp: in_range3d_def)
  qed
qed

lemma sort_key_smaller:
  fixes f :: "'a \<Rightarrow> 'b::linorder"
  assumes "distinct (map f xs)" "0 < i" "i < length xs"
  shows "\<exists>x \<in> set xs. f x < f (sort_key f xs ! i)"
proof
  let ?ys = "sort_key f xs"
  have "mset (map f ?ys) = mset (map f xs)"
    by (metis mset_map mset_sort)
  then have d: "distinct (map f ?ys)"
    using assms(1) mset_eq_imp_distinct_iff by metis
  have "xs \<noteq> []"
    using assms(3) by auto
  then have "f (?ys ! 0) \<le> f (?ys ! i)"
    using sorted_nth_mono [OF sorted_sort_key [of f xs], of 0 i] \<open>xs \<noteq> []\<close> assms(3) by simp
  moreover have "f (?ys ! 0) \<noteq> f (?ys ! i)"
    using nth_eq_iff_index_eq [OF d, of 0 i] \<open>xs \<noteq> []\<close> assms(2,3) by simp
  ultimately show "f (?ys ! 0) < f (?ys ! i)"
    by simp
  show "?ys ! 0 \<in> set xs"
    using nth_mem [of 0 ?ys] \<open>xs \<noteq> []\<close> by simp
qed

text \<open>
  A measure that every cut of \<open>split_range\<close> lowers: the number of entries, and whether the range
  starts at a subspace that has one.
\<close>

definition split_measure :: "wdm \<Rightarrow> Entry list \<Rightarrow> Range3d \<Rightarrow> nat" where
  "split_measure w es r = 2 * length (entries_in w es r) +
     (if \<exists>e \<in> set (entries_in w es r). e_subspace_id e = range_start (r_subspaces r) then 0 else 1)"

lemma split_measure_less:
  "length (entries_in w es r') < length (entries_in w es r) \<Longrightarrow> split_measure w es r' < split_measure w es r"
  by (simp add: split_measure_def)

lemma length_filter_disjoint:
  assumes "\<forall>x. P x \<longleftrightarrow> Q x \<or> R x" "\<forall>x. \<not> (Q x \<and> R x)" "x \<in> set xs" "R x"
  shows "length (filter Q xs) < length (filter P xs)"
proof -
  have "filter Q (filter P xs) = filter Q xs"
    using assms(1) by (auto simp: filter_filter intro: filter_cong)
  moreover have "length (filter Q (filter P xs)) < length (filter P xs)"
    using assms by (intro length_filter_less [of x]) auto
  ultimately show ?thesis by simp
qed

lemma split_at_progress:
  assumes "range_laws w" "in_range3d r mid" "mid \<in> set es" "split_at w r mid = Some [r1, r2]"
    and "e0 \<in> set es" "in_range3d r e0" "(e_subspace_id e0, e_path e0) < (e_subspace_id mid, e_path mid)"
  shows "split_measure w es r1 < split_measure w es r \<and> split_measure w es r2 < split_measure w es r"
proof -
  have inc: "w_range3d_includes_entry w = in_range3d"
    using assms(1) by (auto simp: range_laws_def fun_eq_iff)
  have cut: "is_cut r mid r1 r2"
    using split_at_cut [OF assms(1,2)] assms(4) by auto
  have L1: "length (entries_in w es r1) < length (entries_in w es r)"
    using cut assms(3) unfolding entries_in_def inc is_cut_def by (intro length_filter_disjoint [of _ _ "in_range3d r2" mid]) auto
  have L2: "length (entries_in w es r2) < length (entries_in w es r)" if "x \<in> set es" "in_range3d r1 x" for x
    using cut that unfolding entries_in_def inc is_cut_def by (intro length_filter_disjoint [of _ _ "in_range3d r1" x]) auto
  have "split_measure w es r2 < split_measure w es r"
  proof (cases "\<exists>x \<in> set es. in_range3d r1 x")
    case True
    then show ?thesis using L2 split_measure_less by blast
  next
    case False
    have le0: "range_start (r_subspaces r) \<le> e_subspace_id e0" "range_start (r_paths r) \<le> e_path e0"
      using assms(6) by (auto simp: in_range3d_def intro: in_range_start_le)
    have ne: "e_subspace_id mid \<noteq> range_start (r_subspaces r)"
    proof
      assume eq: "e_subspace_id mid = range_start (r_subspaces r)"
      then have "e_subspace_id e0 = range_start (r_subspaces r)" "e_path e0 < e_path mid"
        using le0 assms(7) by auto
      moreover from this le0 eq have "r1 = \<lparr> r_subspaces = r_subspaces r,
          r_paths = Range (range_start (r_paths r)) (Closed (e_path mid)), r_times = r_times r \<rparr>"
        using assms(4) by (auto simp: split_at_def split: if_splits)
      ultimately have "in_range3d r1 e0"
        using assms(6) le0 by (auto simp: in_range3d_def)
      then show False using False assms(5) by blast
    qed
    then have r12: "r_subspaces r1 = Range (range_start (r_subspaces r)) (Closed (e_subspace_id mid))"
      "r_paths r1 = r_paths r" "r_times r1 = r_times r"
      "r_subspaces r2 = Range (e_subspace_id mid) (range_end (r_subspaces r))"
      using assms(1,4) by (auto simp: split_at_def range_laws_def split: if_splits)
    have none: "e_subspace_id x \<noteq> range_start (r_subspaces r)" if "x \<in> set es" "in_range3d r x" for x
    proof
      assume "e_subspace_id x = range_start (r_subspaces r)"
      moreover have "range_start (r_subspaces r) \<le> e_subspace_id mid"
        using assms(2) in_range_start_le by (auto simp: in_range3d_def)
      ultimately have "in_range3d r1 x"
        using that(2) ne r12 by (auto simp: in_range3d_def)
      then show False using False that(1) by blast
    qed
    have "in_range3d r2 x \<longleftrightarrow> in_range3d r x" if "x \<in> set es" for x
      using cut False that by (auto simp: is_cut_def)
    then have same: "entries_in w es r2 = entries_in w es r"
      unfolding entries_in_def inc by (intro filter_cong) auto
    moreover have "mid \<in> set (entries_in w es r)"
      using assms(2,3) by (simp add: entries_in_def inc)
    ultimately have "split_measure w es r2 = 2 * length (entries_in w es r)"
      using r12(4) by (auto simp: split_measure_def)
    moreover have "split_measure w es r = 2 * length (entries_in w es r) + 1"
      using none by (auto simp: split_measure_def entries_in_def inc)
    ultimately show ?thesis by simp
  qed
  then show ?thesis
    using split_measure_less [OF L1] by blast
qed

section \<open>The entry reader interface\<close>

text \<open>
  Splitting a range again and again, until every part is small enough to be sent: \<open>None\<close> when a
  split panics, fails or the fuel runs out.
\<close>

fun split_all ::
  "wdm \<Rightarrow> fp_env \<Rightarrow> ('cap, 'sg) get_authorised \<Rightarrow> NamespaceId \<Rightarrow> SplitOpts \<Rightarrow> nat \<Rightarrow> Range3d
   \<Rightarrow> Range3d list option" where
  "split_all w v gae ns config 0 r = None"
| "split_all w v gae ns config (Suc fuel) r =
     (case split_range w v gae ns r config of
        Some (Inr [(r', SplitSendEntries _)]) \<Rightarrow> Some [r']
      | Some (Inr [(r1, SplitSendFingerprint _), (r2, SplitSendFingerprint _)]) \<Rightarrow>
          Option.bind (split_all w v gae ns config fuel r1) (\<lambda>ls.
            map_option (append ls) (split_all w v gae ns config fuel r2))
      | _ \<Rightarrow> None)"

lemma fingerprint_loop_ok: "fingerprint_loop v (map Inr es) fp = Ok (fp_add_entries v es fp)"
  by (induction es arbitrary: fp) (simp_all add: fp_add_entries_def)

lemma map_filter_ok: "List.map_filter (\<lambda>e. case e of Inl _ \<Rightarrow> None | Inr e \<Rightarrow> Some e) (map Inr es) = es"
  by (induction es) (simp_all add: map_filter_simps)

locale entry_reader =
  fixes w :: wdm
    and gae :: "('cap, 'sg) get_authorised"
    and contents :: "NamespaceId \<Rightarrow> Entry list"
  assumes gae_filter:
    "\<exists>l. gae ns r = Ok (map Ok l) \<and> map ae_entry l = filter (w_range3d_includes_entry w r) (contents ns)"
begin

lemma get_entries_eq: "get_entries gae ns r = Ok (map Ok (entries_in w (contents ns) r))"
proof -
  obtain l where "gae ns r = Ok (map Ok l)" and l: "map ae_entry l = entries_in w (contents ns) r"
    using gae_filter [of ns r] unfolding entries_in_def by blast
  then show ?thesis
    by (simp add: get_entries_def comp_def flip: l)
qed

lemma count_eq: "reader_count gae ns r = Ok (of_nat (length (entries_in w (contents ns) r)))"
  by (simp add: reader_count_def get_entries_eq)

lemma fingerprint_eq:
  "reader_fingerprint v gae ns r = Ok (fp_from_entries v (entries_in w (contents ns) r))"
  by (simp add: reader_fingerprint_def get_entries_eq fingerprint_loop_ok fp_from_entries_def)

lemma count_bound: "length (contents ns) < 2 ^ 64 \<Longrightarrow> length (entries_in w (contents ns) r) < 2 ^ 64"
  by (simp add: entries_in_def le_less_trans [OF length_filter_le])

lemma split_range_small:
  assumes "length (contents ns) < 2 ^ 64" "length (entries_in w (contents ns) r) \<le> max_set_size config"
  shows "split_range w v gae ns r config =
    Some (Ok [(r, SplitSendEntries (of_nat (length (entries_in w (contents ns) r))))])"
  using assms count_bound [OF assms(1), of r] by (simp add: split_range_def count_eq unat_of_nat)

lemma split_range_large:
  assumes "range_laws w" "length (contents ns) < 2 ^ 64"
    and "max_set_size config < length (entries_in w (contents ns) r)"
  obtains r1 r2 mid where "split_at w r mid = Some [r1, r2]" "is_cut r mid r1 r2"
    and "mid = sort_key as_sortable_tuple (entries_in w (contents ns) r) ! (length (entries_in w (contents ns) r) div 2)"
    and "mid \<in> set (entries_in w (contents ns) r)"
    and "split_range w v gae ns r config = Some (Ok
       [(r1, SplitSendFingerprint (fp_from_entries v (entries_in w (contents ns) r1))),
        (r2, SplitSendFingerprint (fp_from_entries v (entries_in w (contents ns) r2)))])"
proof -
  let ?es = "entries_in w (contents ns) r"
  let ?mid = "sort_key as_sortable_tuple ?es ! (length ?es div 2)"
  have u: "unat (of_nat (length ?es) :: u64) = length ?es"
    using count_bound [OF assms(2), of r] by (simp add: unat_of_nat)
  have mid: "?mid \<in> set ?es"
    using nth_mem [of "length ?es div 2" "sort_key as_sortable_tuple ?es"] assms(3) by simp
  then have "in_range3d r ?mid"
    using assms(1) by (simp add: entries_in_def range_laws_def)
  then obtain r1 r2 where cut: "split_at w r ?mid = Some [r1, r2]" "is_cut r ?mid r1 r2"
    using split_at_cut [OF assms(1)] by blast
  moreover have "length ?es div 2 < length ?es"
    using assms(3) by simp
  ultimately have "split_range w v gae ns r config = Some (Ok
       [(r1, SplitSendFingerprint (fp_from_entries v (entries_in w (contents ns) r1))),
        (r2, SplitSendFingerprint (fp_from_entries v (entries_in w (contents ns) r2)))])"
    using assms(3)
    by (simp add: split_range_def count_eq u get_entries_eq map_filter_ok Let_def fingerprint_eq)
  then show ?thesis
    using that cut mid by blast
qed

lemma split_fingerprints_combine:
  assumes "range_laws w" "blake3_laws v" "is_cut r mid r1 r2"
  shows "fp_combine (fp_from_entries v (entries_in w es r1)) (fp_from_entries v (entries_in w es r2)) =
    fp_from_entries v (entries_in w es r)"
proof -
  have inc: "w_range3d_includes_entry w = in_range3d"
    using assms(1) by (auto simp: range_laws_def fun_eq_iff)
  have "entries_in w es r1 = filter (in_range3d r1) (entries_in w es r)"
    and "entries_in w es r2 = filter (\<lambda>e. \<not> in_range3d r1 e) (entries_in w es r)"
    using assms(3) by (auto simp: entries_in_def inc is_cut_def intro!: filter_cong)
  then show ?thesis
    using fp_from_entries_filter [OF assms(2)] by metis
qed

lemma split_progress:
  assumes "range_laws w" "unique_entries ns (contents ns)" "1 < length (entries_in w (contents ns) r)"
    and "mid = sort_key as_sortable_tuple (entries_in w (contents ns) r) ! (length (entries_in w (contents ns) r) div 2)"
    and "mid \<in> set (entries_in w (contents ns) r)" "split_at w r mid = Some [r1, r2]"
  shows "split_measure w (contents ns) r1 < split_measure w (contents ns) r \<and>
         split_measure w (contents ns) r2 < split_measure w (contents ns) r"
proof -
  let ?es = "entries_in w (contents ns) r"
  have "distinct (map as_sortable_tuple ?es)"
    using assms(2) unfolding unique_entries_def entries_in_def by (simp add: distinct_map_filter)
  moreover have "0 < length ?es div 2" "length ?es div 2 < length ?es"
    using assms(3) by simp_all
  ultimately obtain e0 where e0: "e0 \<in> set ?es" "as_sortable_tuple e0 < as_sortable_tuple mid"
    using sort_key_smaller [of as_sortable_tuple ?es "length ?es div 2"] assms(4) by blast
  moreover have "e_namespace_id e0 = e_namespace_id mid"
    using e0(1) assms(2,5) by (simp add: unique_entries_def entries_in_def)
  ultimately have "(e_subspace_id e0, e_path e0) < (e_subspace_id mid, e_path mid)"
    by (simp add: as_sortable_tuple_def)
  then show ?thesis
    using split_at_progress [OF assms(1) _ _ assms(6), of "contents ns" e0] e0(1) assms(1,5)
    by (simp add: entries_in_def range_laws_def)
qed

lemma split_all_leaves:
  assumes "range_laws w" "length (contents ns) < 2 ^ 64" "unique_entries ns (contents ns)"
    and "0 < max_set_size config" "split_measure w (contents ns) r < fuel"
  shows "\<exists>leaves. split_all w v gae ns config fuel r = Some leaves \<and>
     (\<forall>l \<in> set leaves. length (entries_in w (contents ns) l) \<le> max_set_size config) \<and>
     (\<forall>e. length (filter (\<lambda>l. in_range3d l e) leaves) = (if in_range3d r e then 1 else 0))"
  using assms(5)
proof (induction fuel arbitrary: r)
  case (Suc fuel)
  show ?case
  proof (cases "length (entries_in w (contents ns) r) \<le> max_set_size config")
    case True
    then show ?thesis
      by (simp add: split_range_small [OF assms(2)])
  next
    case False
    then obtain r1 r2 mid where s: "split_at w r mid = Some [r1, r2]" and cut: "is_cut r mid r1 r2"
      and mid: "mid = sort_key as_sortable_tuple (entries_in w (contents ns) r) ! (length (entries_in w (contents ns) r) div 2)"
        "mid \<in> set (entries_in w (contents ns) r)"
      and sr: "split_range w v gae ns r config = Some (Ok
         [(r1, SplitSendFingerprint (fp_from_entries v (entries_in w (contents ns) r1))),
          (r2, SplitSendFingerprint (fp_from_entries v (entries_in w (contents ns) r2)))])"
      using split_range_large [OF assms(1,2), of config r] by (metis linorder_not_le)
    have "1 < length (entries_in w (contents ns) r)"
      using False assms(4) by simp
    from split_progress [OF assms(1,3) this mid s] Suc.prems
    have "split_measure w (contents ns) r1 < fuel" "split_measure w (contents ns) r2 < fuel"
      by simp_all
    from Suc.IH [OF this(1)] Suc.IH [OF this(2)]
    obtain l1 l2 where l: "split_all w v gae ns config fuel r1 = Some l1" "split_all w v gae ns config fuel r2 = Some l2"
      "\<forall>l \<in> set (l1 @ l2). length (entries_in w (contents ns) l) \<le> max_set_size config"
      "\<forall>e. length (filter (\<lambda>l. in_range3d l e) l1) = (if in_range3d r1 e then 1 else 0)"
      "\<forall>e. length (filter (\<lambda>l. in_range3d l e) l2) = (if in_range3d r2 e then 1 else 0)"
      by (metis UnE set_append)
    have "length (filter (\<lambda>l. in_range3d l e) (l1 @ l2)) = (if in_range3d r e then 1 else 0)" for e
      using l(4,5) cut by (simp add: is_cut_def)
    then show ?thesis
      using l(1-3) by (intro exI [of _ "l1 @ l2"]) (simp add: sr)
  qed
qed simp

end

end
