(* ===== verification/Memory_Store.thy ===== *)
theory Memory_Store
  imports Store_Traits
begin

text \<open>
  The in-memory store of \<open>store/memory.rs\<close>: its secrets, its entries with prefix pruning, and the
  event streams.  \<open>Rc<RefCell<_>>\<close> is explicit state passing; \<open>None\<close> is a panic.
\<close>

section \<open>Secrets\<close>

record 'sk SecretStore =
  ss_user :: "(UserId, 'sk UserSecretKey) hash_map"
  ss_namespace :: "(NamespaceId, 'sk NamespaceSecretKey) hash_map"

definition ss_insert ::
  "('sk, 'vk, 'sg, 'rng) ed25519 \<Rightarrow> 'sk SecretKey \<Rightarrow> 'sk SecretStore \<Rightarrow> SecretStoreError + 'sk SecretStore" where
  "ss_insert d secret s =
     (case secret of
        SK_User k \<Rightarrow> Ok (s\<lparr> ss_user := hm_insert (usk_id d k) k (ss_user s) \<rparr>)
      | SK_Namespace k \<Rightarrow> Ok (s\<lparr> ss_namespace := hm_insert (nsk_id d k) k (ss_namespace s) \<rparr>))"

definition ss_get_user :: "'sk SecretStore \<Rightarrow> UserId \<Rightarrow> string + 'sk UserSecretKey option"
  where "ss_get_user s i = Ok (map_of (ss_user s) i)"

definition ss_get_namespace :: "'sk SecretStore \<Rightarrow> NamespaceId \<Rightarrow> string + 'sk NamespaceSecretKey option"
  where "ss_get_namespace s i = Ok (map_of (ss_namespace s) i)"

section \<open>Entries\<close>

record ('cap, 'sg) NamespaceStore =
  ns_entries :: "('cap, 'sg) AuthorisedEntry list"
  ns_events :: "('cap, 'sg) StoreEvent EventQueue"

record ('cap, 'sg) EntryStore =
  stores :: "(NamespaceId, ('cap, 'sg) NamespaceStore) hash_map"

definition ns_default :: "('cap, 'sg) NamespaceStore"
  where "ns_default = \<lparr> ns_entries = [], ns_events = eq_default \<rparr>"

text \<open>\<open>stores.entry(ns).or_default()\<close>\<close>

definition ns_store :: "('cap, 'sg) EntryStore \<Rightarrow> NamespaceId \<Rightarrow> ('cap, 'sg) NamespaceStore"
  where "ns_store st ns = (case map_of (stores st) ns of Some s \<Rightarrow> s | None \<Rightarrow> ns_default)"

definition set_ns_store ::
  "NamespaceId \<Rightarrow> ('cap, 'sg) NamespaceStore \<Rightarrow> ('cap, 'sg) EntryStore \<Rightarrow> ('cap, 'sg) EntryStore"
  where "set_ns_store ns s st = st\<lparr> stores := hm_insert ns s (stores st) \<rparr>"

definition mem_get_authorised_entries :: "wdm \<Rightarrow> ('cap, 'sg) EntryStore \<Rightarrow> ('cap, 'sg) get_authorised" where
  "mem_get_authorised_entries w st ns r =
     Ok (map Ok (filter (\<lambda>e. w_range3d_includes_entry w r (ae_entry e))
       (case map_of (stores st) ns of None \<Rightarrow> [] | Some s \<Rightarrow> ns_entries s)))"

definition mem_get_entry ::
  "('cap, 'sg) EntryStore \<Rightarrow> NamespaceId \<Rightarrow> SubspaceId \<Rightarrow> path \<Rightarrow> string + ('cap, 'sg) AuthorisedEntry option" where
  "mem_get_entry st ns subspace path =
     (case map_of (stores st) ns of
        None \<Rightarrow> Ok None
      | Some s \<Rightarrow> Ok (List.find (\<lambda>e. e_namespace_id (ae_entry e) = ns \<and>
            e_subspace_id (ae_entry e) = subspace \<and> e_path (ae_entry e) = path) (ns_entries s)))"

text \<open>
  The scan of \<open>ingest_entry\<close> over the existing entries: \<open>None\<close> is the early return of
  \<open>Ok(false)\<close>, otherwise the indices to prune, in ascending order.
\<close>

fun ingest_scan :: "wdm \<Rightarrow> Entry \<Rightarrow> nat \<Rightarrow> ('cap, 'sg) AuthorisedEntry list \<Rightarrow> nat list option" where
  "ingest_scan w new i [] = Some []"
| "ingest_scan w new i (x # xs) =
     (let existing = ae_entry x
      in if existing = new then None
         else if e_subspace_id existing = e_subspace_id new \<and>
             w_is_prefix_of w (e_path existing) (e_path new) \<and> w_is_newer_than w existing new then None
         else if e_subspace_id new = e_subspace_id existing \<and>
             w_is_prefix_of w (e_path new) (e_path existing) \<and> w_is_newer_than w new existing
         then map_option ((#) i) (ingest_scan w new (i + 1) xs)
         else ingest_scan w new (i + 1) xs)"

definition vec_remove :: "nat \<Rightarrow> 'a list \<Rightarrow> ('a \<times> 'a list) option" where
  "vec_remove i xs = (if i < length xs then Some (xs ! i, take i xs @ drop (Suc i) xs) else None)"

fun prune_loop ::
  "('cap, 'sg) AuthorisedEntry \<Rightarrow> nat list \<Rightarrow> waker list \<Rightarrow> ('cap, 'sg) NamespaceStore
   \<Rightarrow> (waker list \<times> ('cap, 'sg) NamespaceStore) option" where
  "prune_loop entry [] woken s = Some (woken, s)"
| "prune_loop entry (i # is) woken s =
     (case vec_remove i (ns_entries s) of
        None \<Rightarrow> None
      | Some (pruned, rest) \<Rightarrow>
          (let (ws, q) = eq_insert (\<lambda>n. Pruned n \<lparr> pe_pruned = pruned, pe_by = entry \<rparr>) (ns_events s)
           in prune_loop entry is (woken @ ws) (s\<lparr> ns_entries := rest, ns_events := q \<rparr>)))"

definition ns_ingest_entry ::
  "wdm \<Rightarrow> ('cap, 'sg) AuthorisedEntry \<Rightarrow> EntryOrigin \<Rightarrow> ('cap, 'sg) NamespaceStore
   \<Rightarrow> (bool \<times> waker list \<times> ('cap, 'sg) NamespaceStore) option" where
  "ns_ingest_entry w entry origin s =
     (case ingest_scan w (ae_entry entry) 0 (ns_entries s) of
        None \<Rightarrow> Some (False, [], s)
      | Some to_prune \<Rightarrow>
          (case prune_loop entry to_prune [] s of
             None \<Rightarrow> None
           | Some (woken, s1) \<Rightarrow>
               (let (ws, q) = eq_insert (\<lambda>n. Ingested n entry origin) (ns_events s1)
                in Some (True, woken @ ws, s1\<lparr> ns_entries := ns_entries s1 @ [entry], ns_events := q \<rparr>))))"

definition mem_ingest_entry ::
  "wdm \<Rightarrow> ('cap, 'sg) AuthorisedEntry \<Rightarrow> EntryOrigin \<Rightarrow> ('cap, 'sg) EntryStore
   \<Rightarrow> (bool \<times> waker list \<times> ('cap, 'sg) EntryStore) option" where
  "mem_ingest_entry w entry origin st =
     (let ns = e_namespace_id (ae_entry entry)
      in map_option (\<lambda>(b, ws, s). (b, ws, set_ns_store ns s st)) (ns_ingest_entry w entry origin (ns_store st ns)))"

definition mem_snapshot :: "('cap, 'sg) EntryStore \<Rightarrow> ('cap, 'sg) EntryStore" where
  "mem_snapshot st =
     \<lparr> stores = map (\<lambda>(key, value). (key, \<lparr> ns_entries = ns_entries value, ns_events = eq_default \<rparr>)) (stores st) \<rparr>"

section \<open>Subscriptions\<close>

record EventStream =
  es_progress_id :: u64
  es_namespace :: NamespaceId
  es_area :: Area
  es_params :: SubscribeParams

definition mem_subscribe_area ::
  "NamespaceId \<Rightarrow> Area \<Rightarrow> SubscribeParams \<Rightarrow> ('cap, 'sg) EntryStore \<Rightarrow> EventStream \<times> ('cap, 'sg) EntryStore" where
  "mem_subscribe_area ns area params st =
     (let s = ns_store st ns
      in (\<lparr> es_progress_id = eq_next_progress_id (ns_events s), es_namespace = ns, es_area = area, es_params = params \<rparr>,
          set_ns_store ns s st))"

definition mem_resume_subscription :: "u64 \<Rightarrow> NamespaceId \<Rightarrow> Area \<Rightarrow> SubscribeParams \<Rightarrow> EventStream" where
  "mem_resume_subscription progress_id ns area params =
     \<lparr> es_progress_id = progress_id, es_namespace = ns, es_area = area, es_params = params \<rparr>"

text \<open>
  \<open>EventStream::poll_next\<close>; the store is an option, \<open>None\<close> after it was dropped (\<open>Weak::upgrade\<close>).
  The outermost \<open>None\<close> is a loop that never ends.
\<close>

definition stream_poll_next ::
  "wdm \<Rightarrow> waker \<Rightarrow> ('cap, 'sg) EntryStore option \<Rightarrow> EventStream
   \<Rightarrow> (('cap, 'sg) StoreEvent option poll \<times> ('cap, 'sg) EntryStore option \<times> EventStream) option" where
  "stream_poll_next w cx store self =
     (case store of
        None \<Rightarrow> Some (Ready None, None, self)
      | Some st \<Rightarrow>
          (let s = ns_store st (es_namespace self)
           in case eq_poll_next (ns_events s) (es_progress_id self)
                  (event_matches w (es_namespace self) (es_area self) (es_params self)) cx of
                None \<Rightarrow> None
              | Some (res, q) \<Rightarrow>
                  (let st' = Some (set_ns_store (es_namespace self) (s\<lparr> ns_events := q \<rparr>) st)
                   in case res of
                        Pending \<Rightarrow> Some (Pending, st', self)
                      | Ready None \<Rightarrow> Some (Ready None, st', self)
                      | Ready (Some (next_id, event)) \<Rightarrow>
                          Some (Ready (Some event), st', self\<lparr> es_progress_id := next_id \<rparr>))))"

section \<open>Prefix pruning\<close>

text \<open>
  An entry supersedes another of the same subspace when its path is a prefix and it is newer.  A
  store never holds an entry together with one that supersedes it.
\<close>

definition supersedes :: "wdm \<Rightarrow> Entry \<Rightarrow> Entry \<Rightarrow> bool" where
  "supersedes w a b \<longleftrightarrow>
     e_subspace_id a = e_subspace_id b \<and> w_is_prefix_of w (e_path a) (e_path b) \<and> w_is_newer_than w a b"

definition refused :: "wdm \<Rightarrow> Entry \<Rightarrow> ('cap, 'sg) AuthorisedEntry list \<Rightarrow> bool" where
  "refused w new xs \<longleftrightarrow> (\<exists>x \<in> set xs. ae_entry x = new \<or> supersedes w (ae_entry x) new)"

definition superseded_by :: "wdm \<Rightarrow> Entry \<Rightarrow> ('cap, 'sg) AuthorisedEntry list \<Rightarrow> ('cap, 'sg) AuthorisedEntry list"
  where "superseded_by w new xs = filter (\<lambda>x. supersedes w new (ae_entry x)) xs"

definition ns_inv :: "wdm \<Rightarrow> NamespaceId \<Rightarrow> ('cap, 'sg) AuthorisedEntry list \<Rightarrow> bool" where
  "ns_inv w ns xs \<longleftrightarrow> distinct (map ae_entry xs) \<and> (\<forall>x \<in> set xs. e_namespace_id (ae_entry x) = ns) \<and>
     (\<forall>x \<in> set xs. \<forall>y \<in> set xs. \<not> supersedes w (ae_entry x) (ae_entry y))"

lemma ingest_scan_None_iff: "ingest_scan w new i xs = None \<longleftrightarrow> refused w new xs"
  by (induction xs arbitrary: i) (auto simp: refused_def supersedes_def Let_def)

lemma ingest_scan_Some:
  assumes "ingest_scan w new i xs = Some js"
  shows "length js = length (superseded_by w new xs)"
    and "js = [] \<Longrightarrow> filter (\<lambda>x. \<not> supersedes w new (ae_entry x)) xs = xs"
    and "js = [j] \<Longrightarrow> i \<le> j \<and> j < i + length xs \<and>
      take (j - i) xs @ drop (Suc (j - i)) xs = filter (\<lambda>x. \<not> supersedes w new (ae_entry x)) xs"
  using assms
proof (induction xs arbitrary: i js j)
  case (Cons x xs)
  let ?P = "supersedes w new (ae_entry x)"
  {
    case 1
    then show ?case
      using Cons.IH(1) by (auto simp: superseded_by_def Let_def supersedes_def split: if_splits)
  next
    case 2
    then show ?case
      using Cons.IH(2) by (auto simp: Let_def supersedes_def split: if_splits)
  next
    case 3
    show ?case
    proof (cases ?P)
      case True
      then have "j = i" "ingest_scan w new (Suc i) xs = Some []"
        using 3 by (auto simp: Let_def supersedes_def split: if_splits)
      moreover from this(2) have "filter (\<lambda>x. \<not> supersedes w new (ae_entry x)) xs = xs"
        using Cons.IH(2) by blast
      ultimately show ?thesis
        using True by simp
    next
      case False
      then have "ingest_scan w new (Suc i) xs = Some [j]"
        using 3 by (auto simp: Let_def supersedes_def split: if_splits)
      then have "Suc i \<le> j \<and> j < Suc i + length xs \<and>
          take (j - Suc i) xs @ drop (Suc (j - Suc i)) xs = filter (\<lambda>x. \<not> supersedes w new (ae_entry x)) xs"
        using Cons.IH(3) by blast
      moreover from this have "j - i = Suc (j - Suc i)"
        by linarith
      ultimately show ?thesis
        using False by simp
    qed
  }
qed (auto simp: superseded_by_def)

lemma prune_single:
  assumes "ingest_scan w new 0 (ns_entries s) = Some js" "length js \<le> 1"
  shows "\<exists>ws s'. prune_loop e js [] s = Some (ws, s') \<and>
    ns_entries s' = filter (\<lambda>x. \<not> supersedes w new (ae_entry x)) (ns_entries s)"
proof (cases js)
  case Nil
  then show ?thesis
    using ingest_scan_Some(2) [OF assms(1)] by simp
next
  case (Cons j js')
  then have "js = [j]"
    using assms(2) by simp
  then show ?thesis
    using ingest_scan_Some(3) [OF assms(1), of j]
    by (auto simp: vec_remove_def eq_insert_def Let_def)
qed

lemma ns_ingest_refused:
  "refused w (ae_entry e) (ns_entries s) \<Longrightarrow> ns_ingest_entry w e origin s = Some (False, [], s)"
  by (simp add: ns_ingest_entry_def flip: ingest_scan_None_iff [where i = 0])

lemma ns_ingest_accepted:
  assumes "\<not> refused w (ae_entry e) (ns_entries s)" "length (superseded_by w (ae_entry e) (ns_entries s)) \<le> 1"
  shows "\<exists>ws s'. ns_ingest_entry w e origin s = Some (True, ws, s') \<and>
    ns_entries s' = filter (\<lambda>x. \<not> supersedes w (ae_entry e) (ae_entry x)) (ns_entries s) @ [e]"
proof -
  obtain js where js: "ingest_scan w (ae_entry e) 0 (ns_entries s) = Some js"
    using assms(1) by (metis ingest_scan_None_iff not_Some_eq)
  then obtain ws s1 where "prune_loop e js [] s = Some (ws, s1)"
    "ns_entries s1 = filter (\<lambda>x. \<not> supersedes w (ae_entry e) (ae_entry x)) (ns_entries s)"
    using prune_single assms(2) ingest_scan_Some(1) by metis
  then show ?thesis
    by (simp add: ns_ingest_entry_def js eq_insert_def Let_def)
qed

lemma newer_irrefl: "newer_laws w \<Longrightarrow> \<not> w_is_newer_than w a a"
  by (simp add: newer_laws_def)

lemma newer_total:
  assumes "newer_laws w" "as_sortable_tuple a = as_sortable_tuple b" "a \<noteq> b"
  shows "w_is_newer_than w a b \<or> w_is_newer_than w b a"
proof (rule ccontr)
  assume no: "\<not> ?thesis"
  then have ts: "e_timestamp a = e_timestamp b"
    using assms(1) linorder_neqE by (fastforce simp: newer_laws_def)
  with no have dg: "e_payload_digest a = e_payload_digest b"
    using assms(1) linorder_neqE by (fastforce simp: newer_laws_def)
  with ts no have "e_payload_length a = e_payload_length b"
    using assms(1) linorder_neqE by (fastforce simp: newer_laws_def)
  with ts dg show False
    using assms(2,3) by (cases a; cases b) (simp add: as_sortable_tuple_def)
qed

lemma ns_inv_ingest:
  assumes "newer_laws w" "ns_inv w ns xs" "\<not> refused w (ae_entry e) xs" "e_namespace_id (ae_entry e) = ns"
  shows "ns_inv w ns (filter (\<lambda>x. \<not> supersedes w (ae_entry e) (ae_entry x)) xs @ [e])"
  unfolding ns_inv_def
proof (intro conjI ballI)
  let ?ys = "filter (\<lambda>x. \<not> supersedes w (ae_entry e) (ae_entry x)) xs"
  have "distinct (map ae_entry ?ys)"
    using assms(2) by (simp add: ns_inv_def distinct_map_filter)
  moreover have "ae_entry e \<notin> set (map ae_entry ?ys)"
    using assms(3) by (auto simp: refused_def)
  ultimately show "distinct (map ae_entry (?ys @ [e]))"
    by simp
  show "e_namespace_id (ae_entry x) = ns" if "x \<in> set (?ys @ [e])" for x
    using that assms(2,4) by (auto simp: ns_inv_def)
  have irr: "\<not> supersedes w (ae_entry e) (ae_entry e)"
    using newer_irrefl [OF assms(1)] by (simp add: supersedes_def)
  show "\<not> supersedes w (ae_entry x) (ae_entry y)" if "x \<in> set (?ys @ [e])" "y \<in> set (?ys @ [e])" for x y
    using that assms(2,3) irr unfolding ns_inv_def refused_def by auto
qed

lemma ns_inv_unique:
  assumes "path_laws w" "newer_laws w" "ns_inv w ns xs"
  shows "unique_entries ns (map ae_entry xs)"
proof -
  have "ae_entry x = ae_entry y"
    if "x \<in> set xs" "y \<in> set xs" "as_sortable_tuple (ae_entry x) = as_sortable_tuple (ae_entry y)" for x y
  proof (rule ccontr)
    assume "ae_entry x \<noteq> ae_entry y"
    with newer_total [OF assms(2) that(3)]
    have "w_is_newer_than w (ae_entry x) (ae_entry y) \<or> w_is_newer_than w (ae_entry y) (ae_entry x)"
      by blast
    then show False
      using assms(1,3) that by (auto simp: ns_inv_def supersedes_def path_laws_def as_sortable_tuple_def)
  qed
  then show ?thesis
    using assms(3) unfolding unique_entries_def ns_inv_def
    by (auto simp: distinct_map inj_on_def)
qed

section \<open>The store as an entry reader\<close>

definition mem_contents :: "('cap, 'sg) EntryStore \<Rightarrow> NamespaceId \<Rightarrow> Entry list"
  where "mem_contents st ns = map ae_entry (case map_of (stores st) ns of None \<Rightarrow> [] | Some s \<Rightarrow> ns_entries s)"

interpretation mem: entry_reader w "mem_get_authorised_entries w st" "mem_contents st"
  for w :: wdm and st :: "('cap, 'sg) EntryStore"
proof
  fix ns r
  show "\<exists>l. mem_get_authorised_entries w st ns r = Ok (map Ok l) \<and>
      map ae_entry l = filter (w_range3d_includes_entry w r) (mem_contents st ns)"
    by (simp add: mem_get_authorised_entries_def mem_contents_def filter_map comp_def)
qed

definition mem_inv :: "wdm \<Rightarrow> ('cap, 'sg) EntryStore \<Rightarrow> bool" where
  "mem_inv w st \<longleftrightarrow> distinct (hm_keys (stores st)) \<and> (\<forall>ns. ns_inv w ns (ns_entries (ns_store st ns)))"

lemma mem_contents_ns_store: "mem_contents st ns = map ae_entry (ns_entries (ns_store st ns))"
  by (simp add: mem_contents_def ns_store_def ns_default_def split: option.splits)

lemma ns_store_set [simp]: "ns_store (set_ns_store ns s st) ns' = (if ns' = ns then s else ns_store st ns')"
  by (simp add: ns_store_def set_ns_store_def hm_simps)

lemma mem_inv_set:
  "mem_inv w st \<Longrightarrow> ns_inv w ns (ns_entries s) \<Longrightarrow> mem_inv w (set_ns_store ns s st)"
  by (simp add: mem_inv_def) (simp add: set_ns_store_def)

lemma mem_inv_unique:
  "path_laws w \<Longrightarrow> newer_laws w \<Longrightarrow> mem_inv w st \<Longrightarrow> unique_entries ns (mem_contents st ns)"
  unfolding mem_contents_ns_store by (rule ns_inv_unique) (auto simp: mem_inv_def)

text \<open>
  C6: Ingesting an entry into a store that holds no superseded entries.  The entry is refused exactly
  when the store has it already or has an entry that supersedes it, and then no entry changes.
  Otherwise, as long as it supersedes at most one stored entry, that entry is removed, the new one is
  added, all others stay, and no superseded entry is left in the store.
\<close>

theorem mem_ingest_entry_correct:
  assumes "newer_laws w" "mem_inv w st"
    and "length (superseded_by w (ae_entry e) (ns_entries (ns_store st (e_namespace_id (ae_entry e))))) \<le> 1"
  shows "\<exists>b ws st'. mem_ingest_entry w e origin st = Some (b, ws, st') \<and> mem_inv w st' \<and>
    (\<forall>ns. ns \<noteq> e_namespace_id (ae_entry e) \<longrightarrow> mem_contents st' ns = mem_contents st ns) \<and>
    (let es = ns_entries (ns_store st (e_namespace_id (ae_entry e)));
         es' = ns_entries (ns_store st' (e_namespace_id (ae_entry e)))
     in if refused w (ae_entry e) es then \<not> b \<and> es' = es
        else b \<and> es' = filter (\<lambda>x. \<not> supersedes w (ae_entry e) (ae_entry x)) es @ [e])"
proof -
  let ?ns = "e_namespace_id (ae_entry e)" and ?s = "ns_store st (e_namespace_id (ae_entry e))"
  have inv: "ns_inv w ?ns (ns_entries ?s)"
    using assms(2) by (simp add: mem_inv_def)
  show ?thesis
  proof (cases "refused w (ae_entry e) (ns_entries ?s)")
    case True
    then show ?thesis
      using ns_ingest_refused [OF True] mem_inv_set [OF assms(2) inv]
      by (auto simp: mem_ingest_entry_def mem_contents_ns_store Let_def)
  next
    case False
    with assms(3) obtain ws s' where s': "ns_ingest_entry w e origin ?s = Some (True, ws, s')"
      and "ns_entries s' = filter (\<lambda>x. \<not> supersedes w (ae_entry e) (ae_entry x)) (ns_entries ?s) @ [e]"
      using ns_ingest_accepted by blast
    moreover from this have "mem_inv w (set_ns_store ?ns s' st)"
      using ns_inv_ingest [OF assms(1) inv False] mem_inv_set [OF assms(2)] by simp
    ultimately show ?thesis
      using False by (auto simp: mem_ingest_entry_def mem_contents_ns_store Let_def)
  qed
qed

text \<open>
  C11: Splitting a range of an in-memory store again and again ends, never panics, and cuts the range
  into parts that hold at most \<open>max_set_size\<close> entries each, such that every entry of the range lies in
  exactly one part.
\<close>

theorem mem_split_all_partitions:
  assumes "range_laws w" "path_laws w" "newer_laws w" "mem_inv w st"
    and "length (mem_contents st ns) < 2 ^ 64" "0 < max_set_size config"
  shows "\<exists>leaves. split_all w v (mem_get_authorised_entries w st) ns config
        (Suc (split_measure w (mem_contents st ns) r)) r = Some leaves \<and>
     (\<forall>l \<in> set leaves. length (entries_in w (mem_contents st ns) l) \<le> max_set_size config) \<and>
     (\<forall>e. length (filter (\<lambda>l. in_range3d l e) leaves) = (if in_range3d r e then 1 else 0))"
  using mem.split_all_leaves [OF assms(1,5) mem_inv_unique [OF assms(2-4)] assms(6)] by blast

text \<open>
  C12: One split of a range of an in-memory store: up to \<open>max_set_size\<close> entries are announced as they
  are, and a larger set is cut into two disjoint ranges that together are the range, each sent with
  the fingerprint of its entries, and these combine to the fingerprint of the whole range.
\<close>

theorem mem_split_range_fingerprints:
  assumes "range_laws w" "blake3_laws v" "length (mem_contents st ns) < 2 ^ 64"
  shows "if length (entries_in w (mem_contents st ns) r) \<le> max_set_size config
    then split_range w v (mem_get_authorised_entries w st) ns r config =
      Some (Ok [(r, SplitSendEntries (of_nat (length (entries_in w (mem_contents st ns) r))))])
    else \<exists>r1 r2 f1 f2 f.
      split_range w v (mem_get_authorised_entries w st) ns r config =
        Some (Ok [(r1, SplitSendFingerprint f1), (r2, SplitSendFingerprint f2)]) \<and>
      (\<forall>e. in_range3d r e \<longleftrightarrow> in_range3d r1 e \<noteq> in_range3d r2 e) \<and>
      reader_fingerprint v (mem_get_authorised_entries w st) ns r1 = Ok f1 \<and>
      reader_fingerprint v (mem_get_authorised_entries w st) ns r2 = Ok f2 \<and>
      reader_fingerprint v (mem_get_authorised_entries w st) ns r = Ok f \<and>
      fp_combine f1 f2 = f"
proof (cases "length (entries_in w (mem_contents st ns) r) \<le> max_set_size config")
  case True
  then show ?thesis
    using mem.split_range_small [OF assms(3)] by simp
next
  case False
  then obtain r1 r2 mid where cut: "is_cut r mid r1 r2"
    and sr: "split_range w v (mem_get_authorised_entries w st) ns r config = Some (Ok
       [(r1, SplitSendFingerprint (fp_from_entries v (entries_in w (mem_contents st ns) r1))),
        (r2, SplitSendFingerprint (fp_from_entries v (entries_in w (mem_contents st ns) r2)))])"
    using mem.split_range_large [OF assms(1,3), of config r] by (metis linorder_not_le)
  have "in_range3d r e \<longleftrightarrow> in_range3d r1 e \<noteq> in_range3d r2 e" for e
    using cut by (auto simp: is_cut_def)
  then show ?thesis
    using False sr mem.fingerprint_eq mem.split_fingerprints_combine [OF assms(1,2) cut] by auto
qed

text \<open>
  C29: An event stream delivers, in order and each once, exactly the events of its namespace from its
  progress id on that match its area and parameters: a poll returns the first of them and moves the
  stream behind it, and is pending only when there is none.  It ends when the store is dropped.
\<close>

theorem stream_poll_next_in_order:
  assumes "eq_inv (ns_events (ns_store st (es_namespace self)))"
    and "eq_offset (ns_events (ns_store st (es_namespace self))) \<le> es_progress_id self"
  shows "stream_poll_next w cx None self = Some (Ready None, None, self) \<and>
    (let q = ns_events (ns_store st (es_namespace self));
         p = event_matches w (es_namespace self) (es_area self) (es_params self)
     in case filter p (events_from q (es_progress_id self)) of
          [] \<Rightarrow> \<exists>st'. stream_poll_next w cx (Some st) self = Some (Pending, Some st', self) \<and>
                  cx \<in> set (eq_wakers (ns_events (ns_store st' (es_namespace self))))
        | e # es \<Rightarrow> \<exists>st' n. stream_poll_next w cx (Some st) self =
              Some (Ready (Some e), Some st', self\<lparr> es_progress_id := n \<rparr>) \<and>
            filter p (events_from (ns_events (ns_store st' (es_namespace self))) n) = es)"
  using eq_poll_loop_spec [OF assms, of "event_matches w (es_namespace self) (es_area self) (es_params self)" cx]
    assms(2)
  by (auto simp: stream_poll_next_def eq_poll_next_def Let_def split: list.splits)

section \<open>A store on which the hypotheses hold\<close>

definition entry_at :: "path \<Rightarrow> u64 \<Rightarrow> (unit, u8) AuthorisedEntry" where
  "entry_at p t = \<lparr> ae_entry = demo_entry\<lparr> e_path := p, e_timestamp := t \<rparr>, ae_token = ae_token demo_authorised \<rparr>"

definition demo_store :: "(unit, u8) AuthorisedEntry list \<Rightarrow> (unit, u8) EntryStore" where
  "demo_store xs = \<lparr> stores = [(e_namespace_id demo_entry,
     \<lparr> ns_entries = xs, ns_events = \<lparr> eq_events = [], eq_offset = 0, eq_wakers = [] \<rparr> \<rparr>)] \<rparr>"

definition full_range :: Range3d where
  "full_range = \<lparr> r_subspaces = Range user_min_value Open, r_paths = Range [] Open, r_times = Range 0 Open \<rparr>"

lemma entry_at_simps [simp]:
  "e_path (ae_entry (entry_at p t)) = p" "e_timestamp (ae_entry (entry_at p t)) = t"
  "e_subspace_id (ae_entry (entry_at p t)) = e_subspace_id demo_entry"
  "e_namespace_id (ae_entry (entry_at p t)) = e_namespace_id demo_entry"
  "ae_entry (entry_at p t) = ae_entry (entry_at q u) \<longleftrightarrow> p = q \<and> t = u"
  by (auto simp: entry_at_def)
     (metis Entry.select_convs(3,4) Entry.surjective Entry.update_convs(3,4))+

lemma demo_supersedes [simp]:
  "supersedes demo_wdm (ae_entry (entry_at p t)) (ae_entry (entry_at q u)) \<longleftrightarrow> prefix p q \<and> u < t"
  by (auto simp: supersedes_def demo_wdm_def entry_at_def)

lemma demo_store_contents [simp]:
  "ns_entries (ns_store (demo_store xs) (e_namespace_id demo_entry)) = xs"
  "ns \<noteq> e_namespace_id demo_entry \<Longrightarrow> ns_entries (ns_store (demo_store xs) ns) = []"
  by (simp_all add: ns_store_def demo_store_def ns_default_def)

lemma demo_store_inv:
  "ns_inv demo_wdm (e_namespace_id demo_entry) xs \<Longrightarrow> mem_inv demo_wdm (demo_store xs)"
proof -
  assume a: "ns_inv demo_wdm (e_namespace_id demo_entry) xs"
  have "ns_inv demo_wdm ns (ns_entries (ns_store (demo_store xs) ns))" for ns
    by (cases "ns = e_namespace_id demo_entry") (use a in \<open>simp_all add: ns_inv_def\<close>)
  then show ?thesis
    by (simp add: mem_inv_def) (simp add: demo_store_def)
qed

lemma demo_pair_inv: "mem_inv demo_wdm (demo_store [entry_at [[1], [2]] 5, entry_at [[2]] 5])"
  by (rule demo_store_inv) (simp add: ns_inv_def)

theorem mem_ingest_entry_correct_witness:
  "\<exists>b ws st'. mem_ingest_entry demo_wdm (entry_at [[1]] 6) Local
       (demo_store [entry_at [[1], [2]] 5, entry_at [[2]] 5]) = Some (b, ws, st') \<and> b \<and>
     ns_entries (ns_store st' (e_namespace_id demo_entry)) = [entry_at [[2]] 5, entry_at [[1]] 6]"
  using mem_ingest_entry_correct [OF demo_newer_laws demo_pair_inv, of "entry_at [[1]] 6" Local]
  by (auto simp: superseded_by_def refused_def Let_def)

theorem mem_split_all_partitions_witness:
  "\<exists>leaves. split_all demo_wdm demo_fp
        (mem_get_authorised_entries demo_wdm (demo_store [entry_at [[1], [2]] 5, entry_at [[2]] 5]))
        (e_namespace_id demo_entry) split_opts_default
        (Suc (split_measure demo_wdm (mem_contents (demo_store [entry_at [[1], [2]] 5, entry_at [[2]] 5])
           (e_namespace_id demo_entry)) full_range)) full_range = Some leaves \<and>
     (\<forall>l \<in> set leaves. length (entries_in demo_wdm (mem_contents (demo_store [entry_at [[1], [2]] 5, entry_at [[2]] 5])
           (e_namespace_id demo_entry)) l) \<le> max_set_size split_opts_default) \<and>
     (\<forall>e. length (filter (\<lambda>l. in_range3d l e) leaves) = (if in_range3d full_range e then 1 else 0))"
  by (rule mem_split_all_partitions [OF demo_range_laws demo_path_laws demo_newer_laws demo_pair_inv])
    (simp_all add: mem_contents_ns_store split_opts_default_def)

theorem mem_split_range_fingerprints_witness:
  "split_range demo_wdm demo_fp (mem_get_authorised_entries demo_wdm (demo_store []))
     (e_namespace_id demo_entry) full_range split_opts_default =
   Some (Ok [(full_range, SplitSendEntries 0)])"
  using mem_split_range_fingerprints [OF demo_range_laws demo_fp_laws, of "demo_store []"
      "e_namespace_id demo_entry" full_range split_opts_default]
  by (simp add: mem_contents_ns_store entries_in_def split_opts_default_def)

definition demo_stream :: EventStream where
  "demo_stream = \<lparr> es_progress_id = 0, es_namespace = e_namespace_id demo_entry, es_area = area_new_path [],
     es_params = \<lparr> ignore_empty_payloads = False, ignore_remote = None, ingest_only = True \<rparr> \<rparr>"

theorem stream_poll_next_in_order_witness:
  "\<exists>st'. stream_poll_next demo_wdm 4 (Some (demo_store [])) demo_stream = Some (Pending, Some st', demo_stream) \<and>
     4 \<in> set (eq_wakers (ns_events (ns_store st' (es_namespace demo_stream))))"
proof -
  have q: "ns_events (ns_store (demo_store []) (es_namespace demo_stream)) = \<lparr> eq_events = [], eq_offset = 0, eq_wakers = [] \<rparr>"
    by (simp add: demo_stream_def demo_store_def ns_store_def)
  show ?thesis
    using stream_poll_next_in_order [of "demo_store []" demo_stream demo_wdm 4]
    by (simp add: q eq_inv_def events_from_def Let_def conj_imp_eq_imp_imp)
qed

lemma demo_scan_step:
  "ingest_scan demo_wdm (ae_entry (entry_at p t)) i (entry_at q u # xs) =
     (if p = q \<and> t = u \<or> prefix q p \<and> t < u then None
      else if prefix p q \<and> u < t then map_option ((#) i) (ingest_scan demo_wdm (ae_entry (entry_at p t)) (i + 1) xs)
      else ingest_scan demo_wdm (ae_entry (entry_at p t)) (i + 1) xs)"
  using demo_supersedes [of q u p t] demo_supersedes [of p t q u]
  unfolding ingest_scan.simps Let_def supersedes_def by auto


end
