(* ===== verification/Session_Setup.thy ===== *)
theory Session_Setup
  imports Messages Resource_Map Memory_Store
begin

unbundle bit_operations_syntax

text \<open>
  Setting up a session: the access challenge (\<open>session/challenge.rs\<close>, \<open>proto/wgps/challenge.rs\<close>), the
  bound read capabilities (\<open>session/capabilities.rs\<close>) and the static tokens
  (\<open>session/static_tokens.rs\<close>).  The hash function is a parameter, as are the accessors of
  capabilities of the crate \<open>meadowcap\<close>; a client of a resource map relies on the laws of the locale
  \<open>resource_store\<close>.
\<close>

section \<open>The challenge\<close>

datatype Role = Alfie | Betty

datatype SessionMode = ReconcileOnce | Continuous

definition is_live :: "SessionMode \<Rightarrow> bool"
  where "is_live m \<longleftrightarrow> m = Continuous"

definition is_alfie :: "Role \<Rightarrow> bool"
  where "is_alfie r \<longleftrightarrow> r = Alfie"

definition CHALLENGE_LENGTH :: nat where "CHALLENGE_LENGTH = 32"

definition challenge_hash :: "(bytes \<Rightarrow> bytes) \<Rightarrow> AccessChallenge \<Rightarrow> ChallengeHash"
  where "challenge_hash hash nonce = hash nonce"

definition bitwise_xor :: "bytes \<Rightarrow> bytes \<Rightarrow> bytes"
  where "bitwise_xor a b = map2 (\<lambda>x y. x XOR y) a b"

definition bitwise_complement :: "bytes \<Rightarrow> bytes"
  where "bitwise_complement a = map (\<lambda>x. NOT x) a"

definition bitwise_xor_complement :: "bytes \<Rightarrow> bytes \<Rightarrow> bytes"
  where "bitwise_xor_complement a b = map2 (\<lambda>x y. NOT (x XOR y)) a b"

record InitialTransmission =
  it_our_nonce :: AccessChallenge
  it_received_commitment :: ChallengeHash
  it_their_max_payload_size :: u64

datatype ChallengeState =
    Committed AccessChallenge ChallengeHash
  | Revealed bytes bytes

definition challenge_reveal ::
  "(bytes \<Rightarrow> bytes) \<Rightarrow> Role \<Rightarrow> AccessChallenge \<Rightarrow> ChallengeState \<Rightarrow> Error + ChallengeState" where
  "challenge_reveal hash our_role their_nonce st =
     (case st of
        Committed our_nonce received_commitment \<Rightarrow>
          if challenge_hash hash their_nonce \<noteq> received_commitment then Err E_BrokenCommittement
          else let ours = (case our_role of
                     Alfie \<Rightarrow> bitwise_xor our_nonce their_nonce
                   | Betty \<Rightarrow> bitwise_xor_complement our_nonce their_nonce)
               in Ok (Revealed ours (bitwise_complement ours))
      | Revealed _ _ \<Rightarrow> Err E_InvalidMessageInCurrentState)"

fun is_revealed :: "ChallengeState \<Rightarrow> bool" where
  "is_revealed (Revealed _ _) \<longleftrightarrow> True"
| "is_revealed (Committed _ _) \<longleftrightarrow> False"

fun get_ours :: "ChallengeState \<Rightarrow> Error + bytes" where
  "get_ours (Revealed ours _) = Ok ours"
| "get_ours (Committed _ _) = Err E_InvalidMessageInCurrentState"

fun get_theirs :: "ChallengeState \<Rightarrow> Error + bytes" where
  "get_theirs (Revealed _ theirs) = Ok theirs"
| "get_theirs (Committed _ _) = Err E_InvalidMessageInCurrentState"

definition signable :: "ChallengeState \<Rightarrow> Error + bytes"
  where "signable st = get_ours st"

definition challenge_verify ::
  "('sk, 'vk, 'sg, 'rng) ed25519 \<Rightarrow> 'vk UserPublicKey \<Rightarrow> 'sg UserSignature \<Rightarrow> ChallengeState \<Rightarrow> Error + unit" where
  "challenge_verify d user_key sig st =
     res_bind (get_theirs st) (\<lambda>their_challenge.
       map_err error_from_signature (upk_verify d user_key their_challenge sig))"

section \<open>Capabilities\<close>

record 'cap Capabilities =
  cs_challenge :: ChallengeState
  cs_ours :: "(CapabilityHandle, 'cap) ResourceMap"
  cs_theirs :: "(CapabilityHandle, 'cap) ResourceMap"
  cs_on_reveal_wakers :: "waker list"

definition caps_new :: "AccessChallenge \<Rightarrow> ChallengeHash \<Rightarrow> 'cap Capabilities" where
  "caps_new our_nonce received_commitment =
     \<lparr> cs_challenge = Committed our_nonce received_commitment, cs_ours = rm_default, cs_theirs = rm_default,
       cs_on_reveal_wakers = [] \<rparr>"

definition caps_is_revealed :: "'cap Capabilities \<Rightarrow> bool"
  where "caps_is_revealed s \<longleftrightarrow> is_revealed (cs_challenge s)"

definition find_ours :: "'cap \<Rightarrow> 'cap Capabilities \<Rightarrow> CapabilityHandle option"
  where "find_ours cap s = rm_find cap (cs_ours s)"

definition sign_capability ::
  "('sk, 'vk, 'sg, 'rng) ed25519 \<Rightarrow> ('cap \<Rightarrow> UserId) \<Rightarrow> (UserId \<Rightarrow> string + 'sk UserSecretKey option)
   \<Rightarrow> IntersectionHandle \<Rightarrow> 'cap \<Rightarrow> 'cap Capabilities \<Rightarrow> Error + ('cap, 'sg) SetupBindReadCapability" where
  "sign_capability d receiver get_user intersection_handle capability s =
     res_bind (signable (cs_challenge s)) (\<lambda>sgn.
     res_bind (map_err E_KeyStore (sign_user d get_user (receiver capability) sgn)) (\<lambda>sig.
       Ok \<lparr> sbr_capability = capability, sbr_handle = intersection_handle, sbr_signature = sig \<rparr>))"

definition bind_ours ::
  "'cap \<Rightarrow> 'cap Capabilities \<Rightarrow> (CapabilityHandle \<times> bool) \<times> waker list \<times> 'cap Capabilities" where
  "bind_ours capability s =
     (let (res, ws, m) = rm_bind_if_new CapabilityHandle capability (cs_ours s) in (res, ws, s\<lparr> cs_ours := m \<rparr>))"

definition validate_and_bind_theirs ::
  "('sk, 'vk, 'sg, 'rng) ed25519 \<Rightarrow> ('cap \<Rightarrow> UserId) \<Rightarrow> 'cap \<Rightarrow> 'sg UserSignature \<Rightarrow> 'cap Capabilities
   \<Rightarrow> Error + (waker list \<times> 'cap Capabilities)" where
  "validate_and_bind_theirs d receiver capability sig s =
     res_bind (map_err error_from_signature (user_into_public_key d (receiver capability))) (\<lambda>receiver_key.
     res_bind (challenge_verify d receiver_key sig (cs_challenge s)) (\<lambda>_.
       let (h, ws, m) = rm_bind CapabilityHandle capability (cs_theirs s) in Ok (ws, s\<lparr> cs_theirs := m \<rparr>)))"

definition poll_get_theirs ::
  "CapabilityHandle \<Rightarrow> waker \<Rightarrow> 'cap Capabilities \<Rightarrow> 'cap poll \<times> 'cap Capabilities" where
  "poll_get_theirs handle cx s =
     (let (p, m) = rm_poll_get_eventually handle cx (cs_theirs s) in (p, s\<lparr> cs_theirs := m \<rparr>))"

definition verify_subspace_cap ::
  "('sk, 'vk, 'sg, 'rng) ed25519 \<Rightarrow> ('scap \<Rightarrow> UserId) \<Rightarrow> 'scap \<Rightarrow> 'sg UserSignature \<Rightarrow> 'cap Capabilities \<Rightarrow> Error + unit" where
  "verify_subspace_cap d receiver capability sig s =
     res_bind (map_err error_from_signature (user_into_public_key d (receiver capability))) (\<lambda>receiver_key.
       challenge_verify d receiver_key sig (cs_challenge s))"

definition reveal_commitment :: "'cap Capabilities \<Rightarrow> Error + CommitmentReveal" where
  "reveal_commitment s =
     (case cs_challenge s of
        Committed our_nonce _ \<Rightarrow> Ok \<lparr> cr_nonce = our_nonce \<rparr>
      | Revealed _ _ \<Rightarrow> Err E_InvalidMessageInCurrentState)"

definition received_commitment_reveal ::
  "(bytes \<Rightarrow> bytes) \<Rightarrow> Role \<Rightarrow> AccessChallenge \<Rightarrow> 'cap Capabilities \<Rightarrow> Error + (waker list \<times> 'cap Capabilities)" where
  "received_commitment_reveal hash our_role their_nonce s =
     res_bind (challenge_reveal hash our_role their_nonce (cs_challenge s)) (\<lambda>st.
       Ok (cs_on_reveal_wakers s, s\<lparr> cs_challenge := st, cs_on_reveal_wakers := [] \<rparr>))"

definition sign_subspace_capability ::
  "('sk, 'vk, 'sg, 'rng) ed25519 \<Rightarrow> ('scap \<Rightarrow> UserId) \<Rightarrow> (UserId \<Rightarrow> string + 'sk UserSecretKey option)
   \<Rightarrow> 'scap \<Rightarrow> IntersectionHandle \<Rightarrow> 'cap Capabilities \<Rightarrow> Error + ('scap, 'sg) PaiReplySubspaceCapability" where
  "sign_subspace_capability d receiver get_user cap handle s =
     res_bind (signable (cs_challenge s)) (\<lambda>sgn.
     res_bind (map_err E_KeyStore (sign_user d get_user (receiver cap) sgn)) (\<lambda>sig.
       Ok \<lparr> pys_handle = handle, pys_capability = cap, pys_signature = sig \<rparr>))"

section \<open>Static tokens\<close>

record 'cap StaticTokens =
  tk_ours :: "(StaticTokenHandle, 'cap) ResourceMap"
  tk_theirs :: "(StaticTokenHandle, 'cap) ResourceMap"

definition tokens_bind_theirs :: "'cap \<Rightarrow> 'cap StaticTokens \<Rightarrow> waker list \<times> 'cap StaticTokens" where
  "tokens_bind_theirs token s =
     (let (h, ws, m) = rm_bind StaticTokenHandle token (tk_theirs s) in (ws, s\<lparr> tk_theirs := m \<rparr>))"

text \<open>The message to send, if any, is part of the result.\<close>

definition bind_and_send_ours ::
  "'cap \<Rightarrow> 'cap StaticTokens \<Rightarrow> StaticTokenHandle \<times> 'cap SetupBindStaticToken list \<times> 'cap StaticTokens" where
  "bind_and_send_ours static_token s =
     (let ((handle, is_new), ws, m) = rm_bind_if_new StaticTokenHandle static_token (tk_ours s)
      in (handle, if is_new then [\<lparr> sbs_static_token = static_token \<rparr>] else [], s\<lparr> tk_ours := m \<rparr>))"

text \<open>One poll of \<open>authorise_entry_eventually\<close>.\<close>

definition poll_authorise_entry ::
  "(Entry \<Rightarrow> ('cap, 'sg) AuthorisationToken \<Rightarrow> bool) \<Rightarrow> Entry \<Rightarrow> StaticTokenHandle \<Rightarrow> 'sg UserSignature \<Rightarrow> waker
   \<Rightarrow> 'cap StaticTokens \<Rightarrow> (Error + ('cap, 'sg) AuthorisedEntry) poll \<times> 'cap StaticTokens" where
  "poll_authorise_entry is_authorised_write e handle dynamic_token cx s =
     (case rm_poll_get_eventually handle cx (tk_theirs s) of
        (Pending, m) \<Rightarrow> (Pending, s\<lparr> tk_theirs := m \<rparr>)
      | (Ready static_token, m) \<Rightarrow>
          (Ready (map_err E_UnauthorisedWrite
             (authorised_entry_new is_authorised_write e
                \<lparr> t_capability = static_token, t_signature = dynamic_token \<rparr>)),
           s\<lparr> tk_theirs := m \<rparr>))"

section \<open>The two challenges agree\<close>

lemma complement_xor: "bitwise_complement (bitwise_xor a b) = bitwise_xor_complement a b"
  by (auto simp: bitwise_complement_def bitwise_xor_def bitwise_xor_complement_def)

lemma complement_complement: "bitwise_complement (bitwise_complement a) = a"
  by (simp add: bitwise_complement_def comp_def)

lemma bitwise_xor_comm: "bitwise_xor a b = bitwise_xor b a"
  by (auto simp: bitwise_xor_def list_eq_iff_nth_eq xor.commute)

lemma complement_neq: "a \<noteq> [] \<Longrightarrow> bitwise_complement a \<noteq> a"
proof -
  have "NOT x \<noteq> x" for x :: u8
    using even_not_iff [of x] by metis
  then show "a \<noteq> [] \<Longrightarrow> bitwise_complement a \<noteq> a"
    by (cases a) (simp_all add: bitwise_complement_def)
qed

text \<open>
  C28: When each peer committed to the hash of its nonce and both reveal, both accept; the challenge
  that one peer signs is the one the other verifies against, for both directions, and the two
  challenges are each other's bitwise complement, so a signature for one is not valid for the other by
  being the same message.  A nonce with another hash is refused, and a second reveal is refused.
\<close>

theorem challenge_agreement:
  assumes "length na = 32" "length nb = 32" "hash y \<noteq> hash nb"
  shows "\<exists>ca cb.
    challenge_reveal hash Alfie nb (Committed na (challenge_hash hash nb)) = Ok (Revealed ca cb) \<and>
    challenge_reveal hash Betty na (Committed nb (challenge_hash hash na)) = Ok (Revealed cb ca) \<and>
    ca \<noteq> cb \<and> bitwise_complement ca = cb \<and>
    challenge_reveal hash Alfie y (Committed na (challenge_hash hash nb)) = Err E_BrokenCommittement \<and>
    challenge_reveal hash Alfie nb (Revealed ca cb) = Err E_InvalidMessageInCurrentState"
proof -
  let ?ca = "bitwise_xor na nb"
  have "?ca \<noteq> []"
    using assms by (auto simp: bitwise_xor_def simp flip: length_0_conv)
  then show ?thesis
    using assms(3) complement_neq [of ?ca]
    by (auto simp: challenge_reveal_def challenge_hash_def Let_def bitwise_xor_comm [of nb na]
        complement_complement simp flip: complement_xor)
qed

definition sum_hash :: "bytes \<Rightarrow> bytes"
  where "sum_hash bs = [sum_list bs]"

theorem challenge_agreement_witness:
  "\<exists>ca cb.
    challenge_reveal sum_hash Alfie (replicate 32 2) (Committed (replicate 32 1) (challenge_hash sum_hash (replicate 32 2)))
      = Ok (Revealed ca cb) \<and>
    challenge_reveal sum_hash Betty (replicate 32 1) (Committed (replicate 32 2) (challenge_hash sum_hash (replicate 32 1)))
      = Ok (Revealed cb ca) \<and>
    ca \<noteq> cb \<and> bitwise_complement ca = cb \<and>
    challenge_reveal sum_hash Alfie [9] (Committed (replicate 32 1) (challenge_hash sum_hash (replicate 32 2)))
      = Err E_BrokenCommittement \<and>
    challenge_reveal sum_hash Alfie (replicate 32 2) (Revealed ca cb) = Err E_InvalidMessageInCurrentState"
  by (rule challenge_agreement) (simp_all add: sum_hash_def sum_list_replicate)

section \<open>Capabilities that were bound are authenticated\<close>

text \<open>
  A capability handle of the other peer stands for a capability whose receiver signed our view of
  their challenge.
\<close>

lemma challenge_verify_Ok:
  "challenge_verify d k sig st = Ok () \<longleftrightarrow>
     (\<exists>ours theirs. st = Revealed ours theirs \<and> dalek_verify_strict d (user_verifying_key k) theirs (user_sig sig))"
  by (cases st) (auto simp: challenge_verify_def upk_verify_def split: if_splits)

lemma validate_and_bind_theirs_Ok:
  assumes "validate_and_bind_theirs d rcv cap sig s = Ok (ws, s')"
  obtains h m k ours theirs where "rm_bind CapabilityHandle cap (cs_theirs s) = (h, ws, m)"
    "s' = s\<lparr> cs_theirs := m \<rparr>" "user_into_public_key d (rcv cap) = Ok k"
    "cs_challenge s = Revealed ours theirs" "dalek_verify_strict d (user_verifying_key k) theirs (user_sig sig)"
proof -
  obtain k where k: "user_into_public_key d (rcv cap) = Ok k"
    using assms by (cases "user_into_public_key d (rcv cap)") (auto simp: validate_and_bind_theirs_def)
  have cv: "challenge_verify d k sig (cs_challenge s) = Ok ()"
    using assms k by (cases "challenge_verify d k sig (cs_challenge s)") (auto simp: validate_and_bind_theirs_def)
  obtain h ws' m where b: "rm_bind CapabilityHandle cap (cs_theirs s) = (h, ws', m)"
    by (metis prod_cases3)
  have "ws' = ws" "s' = s\<lparr> cs_theirs := m \<rparr>"
    using assms by (simp_all add: validate_and_bind_theirs_def k cv b)
  then show ?thesis
    using that b k cv [unfolded challenge_verify_Ok] by blast
qed

definition caps_inv ::
  "('sk, 'vk, 'sg, 'rng) ed25519 \<Rightarrow> ('cap \<Rightarrow> UserId) \<Rightarrow> 'cap Capabilities \<Rightarrow> bool" where
  "caps_inv d receiver s \<longleftrightarrow>
     rm_inv CapabilityHandle (cs_ours s) \<and> rm_inv CapabilityHandle (cs_theirs s) \<and>
     inj_on (rm_get (cs_ours s)) (dom (rm_get (cs_ours s))) \<and>
     (\<forall>h cap. rm_get (cs_theirs s) h = Some cap \<longrightarrow>
        (\<exists>ours theirs k sig. cs_challenge s = Revealed ours theirs \<and> user_into_public_key d (receiver cap) = Ok k \<and>
           dalek_verify_strict d (user_verifying_key k) theirs sig))"

lemma caps_new_inv: "caps_inv d rcv (caps_new n c)"
  by (simp add: caps_inv_def caps_new_def rm_default_inv) (simp add: rm_default_def)

lemma bind_ours_inv:
  assumes "caps_inv d rcv s" "\<not> rm_full (cs_ours s)" "bind_ours cap s = (res, ws, s')"
  shows "caps_inv d rcv s'"
proof (cases "rm_find cap (cs_ours s)")
  case None
  obtain h ws' m where b: "rm_bind CapabilityHandle cap (cs_ours s) = (h, ws', m)"
    by (metis prod_cases3)
  have "rm_inv CapabilityHandle m" "inj_on (rm_get m) (dom (rm_get m))"
    using cap_map.bind_inv [OF _ assms(2) b] cap_map.bind_new_injective [OF _ assms(2) None b] assms(1)
    by (simp_all add: caps_inv_def)
  moreover have "s' = s\<lparr> cs_ours := m \<rparr>"
    using assms(3) by (simp add: bind_ours_def rm_bind_if_new_cases None b)
  ultimately show ?thesis
    using assms(1) by (simp add: caps_inv_def)
next
  case (Some h)
  then have "s' = s"
    using assms(3) by (auto simp: bind_ours_def rm_bind_if_new_cases)
  then show ?thesis
    using assms(1) by simp
qed

lemma validate_and_bind_theirs_inv:
  assumes "caps_inv d rcv s" "\<not> rm_full (cs_theirs s)" "validate_and_bind_theirs d rcv cap sig s = Ok (ws, s')"
  shows "caps_inv d rcv s'"
proof -
  obtain h m k ours theirs where b: "rm_bind CapabilityHandle cap (cs_theirs s) = (h, ws, m)"
    "s' = s\<lparr> cs_theirs := m \<rparr>" "user_into_public_key d (rcv cap) = Ok k"
    "cs_challenge s = Revealed ours theirs" "dalek_verify_strict d (user_verifying_key k) theirs (user_sig sig)"
    by (rule validate_and_bind_theirs_Ok [OF assms(3)]) blast
  have "rm_inv CapabilityHandle m" "rm_get m = (rm_get (cs_theirs s))(h \<mapsto> cap)"
    using cap_map.bind_inv [OF _ assms(2) b(1)] cap_map.bind_get [OF _ assms(2) b(1)] assms(1)
    by (simp_all add: caps_inv_def)
  then show ?thesis
    using assms(1) b by (auto simp: caps_inv_def)
qed

text \<open>
  C36: A read capability of the other peer is bound only when its receiver's key is valid, the challenge
  has been revealed, and the signature verifies over the other peer's challenge.  Then it gets the next
  handle, under which it is found from then on, and the invariant that every bound capability of the
  other peer was authenticated this way is kept.
\<close>

theorem validate_and_bind_theirs_authenticated:
  assumes "caps_inv d receiver s" "\<not> rm_full (cs_theirs s)"
  shows "case validate_and_bind_theirs d receiver cap sig s of
      Inr (ws, s') \<Rightarrow> caps_inv d receiver s' \<and> cs_ours s' = cs_ours s \<and>
        rm_get (cs_theirs s') = (rm_get (cs_theirs s))(CapabilityHandle (next_handle (cs_theirs s)) \<mapsto> cap) \<and>
        (\<exists>ours theirs k. cs_challenge s = Revealed ours theirs \<and> user_into_public_key d (receiver cap) = Ok k \<and>
           dalek_verify_strict d (user_verifying_key k) theirs (user_sig sig))
    | Inl err \<Rightarrow> err = E_InvalidSignature \<or> err = E_InvalidMessageInCurrentState"
proof (cases "validate_and_bind_theirs d receiver cap sig s")
  case (Inl err)
  have sig: "error_from_signature e = E_InvalidSignature" for e
    by (cases e) simp
  have "err = E_InvalidSignature \<or> err = E_InvalidMessageInCurrentState"
    using Inl sig
    by (cases "cs_challenge s"; cases "user_into_public_key d (receiver cap)")
      (auto simp: validate_and_bind_theirs_def challenge_verify_def upk_verify_def split: if_splits prod.splits)
  then show ?thesis
    using Inl by simp
next
  case (Inr r)
  obtain ws s' where r: "r = (ws, s')"
    by fastforce
  have ok: "validate_and_bind_theirs d receiver cap sig s = Ok (ws, s')"
    using Inr r by simp
  obtain h m k ours theirs where b: "rm_bind CapabilityHandle cap (cs_theirs s) = (h, ws, m)"
    "s' = s\<lparr> cs_theirs := m \<rparr>" "user_into_public_key d (receiver cap) = Ok k"
    "cs_challenge s = Revealed ours theirs" "dalek_verify_strict d (user_verifying_key k) theirs (user_sig sig)"
    by (rule validate_and_bind_theirs_Ok [OF ok]) blast
  have "rm_get m = (rm_get (cs_theirs s))(h \<mapsto> cap)"
    using cap_map.bind_get [OF _ assms(2) b(1)] assms(1) by (simp add: caps_inv_def)
  then show ?thesis
    using validate_and_bind_theirs_inv [OF assms ok] b rm_bind_effect(1) [OF b(1)] by (simp add: Inr r)
qed

definition demo_receiver :: "u8 \<Rightarrow> UserId"
  where "demo_receiver k = usk_id demo_scheme (UserSecretKey k)"

definition demo_caps :: "u8 Capabilities" where
  "demo_caps = (caps_new [] [])\<lparr> cs_challenge := Revealed [1] [254] \<rparr>"

lemma demo_caps_inv: "caps_inv demo_scheme demo_receiver demo_caps" "\<not> rm_full (cs_theirs demo_caps)"
  using caps_new_inv [of demo_scheme demo_receiver "[]" "[]"]
  by (simp_all add: caps_inv_def demo_caps_def caps_new_def rm_full_def) (simp_all add: rm_default_def)

lemma demo_caps_accepts:
  "\<exists>r. validate_and_bind_theirs demo_scheme demo_receiver 5 (usk_sign demo_scheme (UserSecretKey 5) [254]) demo_caps = Ok r"
  using user_id_into_public_key [OF demo_scheme_laws, of "usk_public_key demo_scheme (UserSecretKey 5)"]
    upk_verify_sign [OF demo_scheme_laws, of "UserSecretKey 5" "[254]"]
  by (simp add: validate_and_bind_theirs_def demo_receiver_def usk_id_def challenge_verify_def demo_caps_def
      split: prod.splits)

theorem validate_and_bind_theirs_authenticated_witness:
  "\<exists>ws s'. validate_and_bind_theirs demo_scheme demo_receiver 5
       (usk_sign demo_scheme (UserSecretKey 5) [254]) demo_caps = Ok (ws, s') \<and>
     caps_inv demo_scheme demo_receiver s' \<and> rm_get (cs_theirs s') (CapabilityHandle 0) = Some 5"
proof -
  obtain ws s' where ok: "validate_and_bind_theirs demo_scheme demo_receiver 5
      (usk_sign demo_scheme (UserSecretKey 5) [254]) demo_caps = Ok (ws, s')"
    using demo_caps_accepts by fastforce
  have "next_handle (cs_theirs demo_caps) = 0"
    by (simp add: demo_caps_def caps_new_def rm_default_def)
  then show ?thesis
    using validate_and_bind_theirs_authenticated [OF demo_caps_inv, of 5 "usk_sign demo_scheme (UserSecretKey 5) [254]"]
    by (simp add: ok)
qed

text \<open>
  The capability handshake is complete: once both peers have revealed their nonces to each other,
  a capability whose receiver's secret key the sender holds is signed without error, and the other peer
  accepts the message and binds the capability.
\<close>

theorem capability_handshake_completes:
  assumes "ed25519_laws d" "get_user (receiver cap) = Ok (Some k)" "usk_id d k = receiver cap"
    and "received_commitment_reveal hash Alfie nb (caps_new na (challenge_hash hash nb)) = Ok (ws1, alfie)"
    and "received_commitment_reveal hash Betty na (caps_new nb (challenge_hash hash na)) = Ok (ws2, betty)"
  shows "\<exists>msg ws betty'. sign_capability d receiver get_user h cap alfie = Ok msg \<and>
    sbr_capability msg = cap \<and> sbr_handle msg = h \<and>
    validate_and_bind_theirs d receiver (sbr_capability msg) (sbr_signature msg) betty = Ok (ws, betty') \<and>
    rm_get (cs_theirs betty') (CapabilityHandle 0) = Some cap"
proof -
  have a: "cs_challenge alfie = Revealed (bitwise_xor na nb) (bitwise_complement (bitwise_xor na nb))"
    using assms(4) by (auto simp: received_commitment_reveal_def caps_new_def challenge_reveal_def Let_def)
  have b: "cs_challenge betty = Revealed (bitwise_complement (bitwise_xor na nb)) (bitwise_xor na nb)"
    "cs_theirs betty = rm_default"
    using assms(5)
    by (auto simp: received_commitment_reveal_def caps_new_def challenge_reveal_def Let_def
        bitwise_xor_comm [of nb] complement_complement simp flip: complement_xor)
  have key: "user_into_public_key d (receiver cap) = Ok (usk_public_key d k)"
    using user_id_into_public_key [OF assms(1), of "usk_public_key d k"] assms(3) by (simp add: usk_id_def)
  show ?thesis
    using upk_verify_sign [OF assms(1), of k "bitwise_xor na nb"] assms(2)
    by (simp add: sign_capability_def signable_def a sign_user_def validate_and_bind_theirs_def key
        challenge_verify_def b rm_bind_def Let_def rm_default_def)
qed

theorem capability_handshake_completes_witness:
  "\<exists>alfie betty msg ws betty'.
    received_commitment_reveal sum_hash Alfie [2] (caps_new [1] (challenge_hash sum_hash [2])) = Ok ([], alfie) \<and>
    received_commitment_reveal sum_hash Betty [1] (caps_new [2] (challenge_hash sum_hash [1])) = Ok ([], betty) \<and>
    sign_capability demo_scheme demo_receiver (\<lambda>_. Ok (Some (UserSecretKey 5))) (IntersectionHandle 0) 5 alfie = Ok msg \<and>
    validate_and_bind_theirs demo_scheme demo_receiver (sbr_capability msg) (sbr_signature msg) betty = Ok (ws, betty')"
proof -
  obtain alfie :: "u8 Capabilities" where a: "received_commitment_reveal sum_hash Alfie [2] (caps_new [1] (challenge_hash sum_hash [2])) = Ok ([], alfie)"
    by (auto simp: received_commitment_reveal_def caps_new_def challenge_reveal_def Let_def)
  obtain betty :: "u8 Capabilities" where b: "received_commitment_reveal sum_hash Betty [1] (caps_new [2] (challenge_hash sum_hash [1])) = Ok ([], betty)"
    by (auto simp: received_commitment_reveal_def caps_new_def challenge_reveal_def Let_def)
  show ?thesis
    using capability_handshake_completes [OF demo_scheme_laws _ _ a b, of "\<lambda>_. Ok (Some (UserSecretKey 5))"
        demo_receiver 5 "UserSecretKey 5" "IntersectionHandle 0"] a b
    by (auto simp: demo_receiver_def)
qed

section \<open>Static tokens\<close>

text \<open>
  Both peers number the tokens of a sender alike: binding the messages of one side in order gives
  the other side the same tokens under the same handles.
\<close>

definition tokens_mirror :: "'cap StaticTokens \<Rightarrow> 'cap StaticTokens \<Rightarrow> bool" where
  "tokens_mirror sender receiver \<longleftrightarrow>
     rm_inv StaticTokenHandle (tk_ours sender) \<and> rm_inv StaticTokenHandle (tk_theirs receiver) \<and>
     next_handle (tk_ours sender) = next_handle (tk_theirs receiver) \<and>
     rm_get (tk_ours sender) = rm_get (tk_theirs receiver)"

lemma bind_ours_mirror:
  assumes "tokens_mirror s r" "\<not> rm_full (tk_ours s)"
    and "bind_and_send_ours tok s = (h, msgs, s')"
    and "r' = fold (\<lambda>m r. snd (tokens_bind_theirs (sbs_static_token m) r)) msgs r"
  shows "tokens_mirror s' r' \<and> length msgs \<le> 1 \<and> (msgs = [] \<longleftrightarrow> rm_find tok (tk_ours s) \<noteq> None) \<and>
    rm_get (tk_theirs r') h = Some tok"
proof (cases "rm_find tok (tk_ours s)")
  case (Some k)
  then have "h = k" "msgs = []" "s' = s"
    using assms(3) by (auto simp: bind_and_send_ours_def rm_bind_if_new_cases)
  moreover have "rm_get (tk_theirs r) k = Some tok"
    using token_map.find_Some [OF _ Some] assms(1) by (auto simp: tokens_mirror_def)
  ultimately show ?thesis
    using assms(1,4) Some by simp
next
  case None
  obtain k ws m where b: "rm_bind StaticTokenHandle tok (tk_ours s) = (k, ws, m)"
    by (metis prod_cases3)
  obtain k' ws' m' where b': "rm_bind StaticTokenHandle tok (tk_theirs r) = (k', ws', m')"
    by (metis prod_cases3)
  have res: "h = k" "msgs = [\<lparr> sbs_static_token = tok \<rparr>]" "s' = s\<lparr> tk_ours := m \<rparr>"
    using assms(3) by (auto simp: bind_and_send_ours_def rm_bind_if_new_cases None b)
  then have r': "r' = r\<lparr> tk_theirs := m' \<rparr>"
    using assms(4) by (simp add: tokens_bind_theirs_def b')
  have full: "\<not> rm_full (tk_theirs r)"
    using assms(1,2) by (simp add: tokens_mirror_def rm_full_def)
  have "k = k'"
    using rm_bind_effect(1) [OF b] rm_bind_effect(1) [OF b'] assms(1) by (simp add: tokens_mirror_def)
  then show ?thesis
    using res r' None assms(1) token_map.bind_inv [OF _ assms(2) b] token_map.bind_inv [OF _ full b']
      token_map.bind_get [OF _ assms(2) b] token_map.bind_get [OF _ full b']
      rm_bind_effect(2) [OF b] rm_bind_effect(2) [OF b']
    by (simp add: tokens_mirror_def)
qed

text \<open>
  C38: A static token is sent at most once, and the handle returned for it means the same token at the
  other peer: after the other peer has processed the messages that binding produced, the tables of both
  sides agree, the token is found under the handle there, and authorising an entry with that handle uses
  exactly that token.
\<close>

theorem static_tokens_mirror:
  assumes "tokens_mirror s r" "\<not> rm_full (tk_ours s)"
    and "bind_and_send_ours tok s = (h, msgs, s')"
    and "r' = fold (\<lambda>m r. snd (tokens_bind_theirs (sbs_static_token m) r)) msgs r"
  shows "tokens_mirror s' r' \<and> length msgs \<le> 1 \<and> (msgs = [] \<longleftrightarrow> rm_find tok (tk_ours s) \<noteq> None) \<and>
    rm_get (tk_theirs r') h = Some tok \<and>
    fst (poll_authorise_entry auth e h dyn cx r') =
      Ready (map_err E_UnauthorisedWrite (authorised_entry_new auth e \<lparr> t_capability = tok, t_signature = dyn \<rparr>))"
  using bind_ours_mirror [OF assms]
  by (simp add: poll_authorise_entry_def rm_poll_get_eventually_def)

definition no_tokens :: "'cap StaticTokens"
  where "no_tokens = \<lparr> tk_ours = rm_default, tk_theirs = rm_default \<rparr>"

theorem static_tokens_mirror_witness:
  "\<exists>h msgs s'. bind_and_send_ours ''tok'' no_tokens = (h, msgs, s') \<and>
     tokens_mirror s' (fold (\<lambda>m r. snd (tokens_bind_theirs (sbs_static_token m) r)) msgs no_tokens)"
proof -
  obtain h msgs s' where b: "bind_and_send_ours ''tok'' no_tokens = (h, msgs, s')"
    by (metis prod_cases3)
  have "tokens_mirror no_tokens (no_tokens :: string StaticTokens)" "\<not> rm_full (tk_ours (no_tokens :: string StaticTokens))"
    by (simp_all add: tokens_mirror_def no_tokens_def rm_default_inv rm_full_def) (simp add: rm_default_def)
  then show ?thesis
    using static_tokens_mirror [OF _ _ b refl] b by blast
qed

end
