(* ===== verification/Aoi_Finder.thy ===== *)
theory Aoi_Finder
  imports Session_Setup
begin

text \<open>
  The finder of intersections of areas of interest (\<open>session/aoi_finder.rs\<close>): it binds our areas once
  a capability for them is known to intersect, binds the validated areas of the other peer, and reports
  every pair that overlaps.  Outputs are yielded in order, so an operation returns the list of its
  outputs.  A \<open>HashSet\<close> is a list without repetitions in the order of its iteration.  The namespace of
  a capability and the intersection of two areas of interest are functions of the crates
  \<open>meadowcap\<close> and \<open>willow_data_model\<close>: arguments.
\<close>

section \<open>Data\<close>

record ('cap, 'scap) ReadAuthorisation =
  ra_read_cap :: 'cap
  ra_subspace_cap :: "'scap option"

definition ra_namespace :: "('cap \<Rightarrow> NamespaceId) \<Rightarrow> ('cap, 'scap) ReadAuthorisation \<Rightarrow> NamespaceId"
  where "ra_namespace granted_namespace a = granted_namespace (ra_read_cap a)"

type_synonym ('cap, 'scap) InterestMap = "(('cap, 'scap) ReadAuthorisation, AreaOfInterest list) hash_map"

record AoiIntersection =
  ai_our_handle :: AreaOfInterestHandle
  ai_their_handle :: AreaOfInterestHandle
  ai_intersection :: AreaOfInterest
  ai_namespace :: NamespaceId

definition ai_id :: "AoiIntersection \<Rightarrow> AreaOfInterestHandle \<times> AreaOfInterestHandle"
  where "ai_id i = (ai_our_handle i, ai_their_handle i)"

definition ai_area :: "AoiIntersection \<Rightarrow> Area"
  where "ai_area i = aoi_area (ai_intersection i)"

record ('cap, 'scap) PaiIntersection =
  pi_authorisation :: "('cap, 'scap) ReadAuthorisation"
  pi_handle :: IntersectionHandle

datatype ('cap, 'scap) AoiInput =
    AddInterests "('cap, 'scap) InterestMap"
  | InPaiIntersection "('cap, 'scap) PaiIntersection"
  | ReceivedValidatedAoi NamespaceId AreaOfInterest

datatype ('cap, 'scap) AoiOutput =
    OutSendMessage SetupBindAreaOfInterest
  | SubmitAuthorisation "('cap, 'scap) ReadAuthorisation"
  | OutAoiIntersection AoiIntersection
  | SignAndSendCapability IntersectionHandle 'cap

record AoiInfo =
  info_aoi :: AreaOfInterest
  info_namespace :: NamespaceId

record AoiResources =
  our_handles :: "(AreaOfInterestHandle, AoiInfo) ResourceMap"
  their_handles :: "(AreaOfInterestHandle, AoiInfo) ResourceMap"

record ('cap, 'scap) IntersectionFinder =
  if_caps :: "'cap Capabilities"
  if_handles :: AoiResources
  if_interests :: "('cap, 'scap) InterestMap"

definition finder_new :: "'cap Capabilities \<Rightarrow> ('cap, 'scap) IntersectionFinder" where
  "finder_new caps =
     \<lparr> if_caps = caps, if_handles = \<lparr> our_handles = rm_default, their_handles = rm_default \<rparr>, if_interests = [] \<rparr>"

section \<open>Operations\<close>

type_synonym aoi_intersect = "AreaOfInterest \<Rightarrow> AreaOfInterest \<Rightarrow> AreaOfInterest option"

definition bind_validated ::
  "aoi_intersect \<Rightarrow> Scope \<Rightarrow> NamespaceId \<Rightarrow> AreaOfInterest \<Rightarrow> AoiResources
   \<Rightarrow> ('cap, 'scap) AoiOutput list \<times> AoiResources" where
  "bind_validated isect scope namespace aoi hs =
     (let info = \<lparr> info_aoi = aoi, info_namespace = namespace \<rparr>;
          (bound_handle, hs1) =
            (case scope of
               Ours \<Rightarrow> (let (h, ws, m) = rm_bind AreaOfInterestHandle info (our_handles hs) in (h, hs\<lparr> our_handles := m \<rparr>))
             | Theirs \<Rightarrow> (let (h, ws, m) = rm_bind AreaOfInterestHandle info (their_handles hs) in (h, hs\<lparr> their_handles := m \<rparr>)));
          store_to_check_against = (case scope of Ours \<Rightarrow> their_handles hs1 | Theirs \<Rightarrow> our_handles hs1)
      in (List.map_filter (\<lambda>(other_handle, other_aoi).
            if info_namespace other_aoi \<noteq> namespace then None
            else case isect (info_aoi other_aoi) aoi of
                   None \<Rightarrow> None
                 | Some intersection \<Rightarrow>
                     let (our_handle, their_handle) =
                       (case scope of Ours \<Rightarrow> (bound_handle, other_handle) | Theirs \<Rightarrow> (other_handle, bound_handle))
                     in Some (OutAoiIntersection \<lparr> ai_our_handle = our_handle, ai_their_handle = their_handle,
                          ai_intersection = intersection, ai_namespace = namespace \<rparr>))
            (rm_iter store_to_check_against), hs1))"

definition aoi_bind_and_send_ours ::
  "aoi_intersect \<Rightarrow> NamespaceId \<Rightarrow> CapabilityHandle \<Rightarrow> AreaOfInterest \<Rightarrow> AoiResources
   \<Rightarrow> ('cap, 'scap) AoiOutput list \<times> AoiResources" where
  "aoi_bind_and_send_ours isect namespace authorisation aoi hs =
     (let (out, hs1) = bind_validated isect Ours namespace aoi hs
      in (out @ [OutSendMessage \<lparr> sba_area_of_interest = aoi, sba_authorisation = authorisation \<rparr>], hs1))"

fun bind_all_ours ::
  "aoi_intersect \<Rightarrow> NamespaceId \<Rightarrow> CapabilityHandle \<Rightarrow> AreaOfInterest list \<Rightarrow> AoiResources
   \<Rightarrow> ('cap, 'scap) AoiOutput list \<times> AoiResources" where
  "bind_all_ours isect ns cap [] hs = ([], hs)"
| "bind_all_ours isect ns cap (aoi # aois) hs =
     (let (out, hs1) = aoi_bind_and_send_ours isect ns cap aoi hs;
          (out', hs2) = bind_all_ours isect ns cap aois hs1
      in (out @ out', hs2))"

text \<open>The loop over the areas of a known authorisation: the areas it has now, outputs and handles.\<close>

fun add_existing ::
  "aoi_intersect \<Rightarrow> NamespaceId \<Rightarrow> CapabilityHandle option \<Rightarrow> AreaOfInterest list \<Rightarrow> AreaOfInterest list
   \<Rightarrow> AoiResources \<Rightarrow> ('cap, 'scap) AoiOutput list \<times> AreaOfInterest list \<times> AoiResources" where
  "add_existing isect ns capability_handle existing [] hs = ([], existing, hs)"
| "add_existing isect ns capability_handle existing (aoi # aois) hs =
     (if aoi \<in> set existing then add_existing isect ns capability_handle existing aois hs
      else
        let (out, hs1) = (case capability_handle of
               None \<Rightarrow> ([], hs)
             | Some cap \<Rightarrow> aoi_bind_and_send_ours isect ns cap aoi hs);
            (out', existing', hs2) = add_existing isect ns capability_handle (existing @ [aoi]) aois hs1
        in (out @ out', existing', hs2))"

fun add_interests ::
  "('cap \<Rightarrow> NamespaceId) \<Rightarrow> aoi_intersect \<Rightarrow> ('cap, 'scap) InterestMap \<Rightarrow> ('cap, 'scap) IntersectionFinder
   \<Rightarrow> ('cap, 'scap) AoiOutput list \<times> ('cap, 'scap) IntersectionFinder" where
  "add_interests gn isect [] s = ([], s)"
| "add_interests gn isect ((authorisation, aois) # interests) s =
     (let namespace = ra_namespace gn authorisation;
          (out, s1) =
            (case map_of (if_interests s) authorisation of
               Some existing \<Rightarrow>
                 (let capability_handle = find_ours (ra_read_cap authorisation) (if_caps s);
                      (out, existing', hs) = add_existing isect namespace capability_handle existing aois (if_handles s)
                  in (out, s\<lparr> if_handles := hs, if_interests := hm_insert authorisation existing' (if_interests s) \<rparr>))
             | None \<Rightarrow>
                 ([SubmitAuthorisation authorisation],
                  s\<lparr> if_interests := hm_insert authorisation aois (if_interests s) \<rparr>));
          (out', s2) = add_interests gn isect interests s1
      in (out @ out', s2))"

definition on_pai_intersection ::
  "('cap \<Rightarrow> NamespaceId) \<Rightarrow> aoi_intersect \<Rightarrow> ('cap, 'scap) PaiIntersection \<Rightarrow> ('cap, 'scap) IntersectionFinder
   \<Rightarrow> Error + (('cap, 'scap) AoiOutput list \<times> ('cap, 'scap) IntersectionFinder)" where
  "on_pai_intersection gn isect i s =
     (let authorisation = pi_authorisation i; handle = pi_handle i
      in res_bind (ok_or E_NoKnownInterestsForCapability (map_of (if_interests s) authorisation)) (\<lambda>aois.
           let namespace = ra_namespace gn authorisation;
               ((capability_handle, is_new), ws, caps) = bind_ours (ra_read_cap authorisation) (if_caps s);
               out = (if is_new then [SignAndSendCapability handle (ra_read_cap authorisation)] else []);
               (out', hs) = bind_all_ours isect namespace capability_handle aois (if_handles s)
           in Ok (out @ out', s\<lparr> if_caps := caps, if_handles := hs \<rparr>)))"

text \<open>One round of the loop of \<open>run\<close>, and the loop: an error ends it, after the outputs so far.\<close>

definition finder_input ::
  "('cap \<Rightarrow> NamespaceId) \<Rightarrow> aoi_intersect \<Rightarrow> ('cap, 'scap) AoiInput \<Rightarrow> ('cap, 'scap) IntersectionFinder
   \<Rightarrow> Error + (('cap, 'scap) AoiOutput list \<times> ('cap, 'scap) IntersectionFinder)" where
  "finder_input gn isect input s =
     (case input of
        AddInterests interests \<Rightarrow> Ok (add_interests gn isect interests s)
      | InPaiIntersection intersection \<Rightarrow> on_pai_intersection gn isect intersection s
      | ReceivedValidatedAoi namespace aoi \<Rightarrow>
          (let (out, hs) = bind_validated isect Theirs namespace aoi (if_handles s) in Ok (out, s\<lparr> if_handles := hs \<rparr>)))"

fun finder_run ::
  "('cap \<Rightarrow> NamespaceId) \<Rightarrow> aoi_intersect \<Rightarrow> ('cap, 'scap) AoiInput list \<Rightarrow> ('cap, 'scap) IntersectionFinder
   \<Rightarrow> (Error + unit) \<times> ('cap, 'scap) AoiOutput list \<times> ('cap, 'scap) IntersectionFinder" where
  "finder_run gn isect [] s = (Ok (), [], s)"
| "finder_run gn isect (input # inputs) s =
     (case finder_input gn isect input s of
        Inl err \<Rightarrow> (Err err, [], s)
      | Inr (out, s1) \<Rightarrow> (let (r, out', s2) = finder_run gn isect inputs s1 in (r, out @ out', s2)))"

section \<open>What is reported\<close>

definition reported :: "('cap, 'scap) AoiOutput list \<Rightarrow> AoiIntersection list"
  where "reported out = List.map_filter (\<lambda>x. case x of OutAoiIntersection i \<Rightarrow> Some i | _ \<Rightarrow> None) out"

definition sent_aois :: "('cap, 'scap) AoiOutput list \<Rightarrow> AreaOfInterest list" where
  "sent_aois out =
     List.map_filter (\<lambda>x. case x of OutSendMessage m \<Rightarrow> Some (sba_area_of_interest m) | _ \<Rightarrow> None) out"

definition received_infos :: "('cap, 'scap) AoiInput list \<Rightarrow> AoiInfo list" where
  "received_infos inputs = List.map_filter (\<lambda>i. case i of
     ReceivedValidatedAoi ns aoi \<Rightarrow> Some \<lparr> info_aoi = aoi, info_namespace = ns \<rparr> | _ \<Rightarrow> None) inputs"

lemma reported_simps [simp]:
  "reported [] = []" "reported (xs @ ys) = reported xs @ reported ys"
  "reported (OutSendMessage m # xs) = reported xs" "reported (SubmitAuthorisation a # xs) = reported xs"
  "reported (SignAndSendCapability h c # xs) = reported xs" "reported (OutAoiIntersection i # xs) = i # reported xs"
  by (simp_all add: reported_def List.map_filter_def)

lemma sent_aois_simps [simp]:
  "sent_aois [] = []" "sent_aois (xs @ ys) = sent_aois xs @ sent_aois ys"
  "sent_aois (OutSendMessage m # xs) = sba_area_of_interest m # sent_aois xs"
  "sent_aois (SubmitAuthorisation a # xs) = sent_aois xs"
  "sent_aois (SignAndSendCapability h c # xs) = sent_aois xs" "sent_aois (OutAoiIntersection i # xs) = sent_aois xs"
  by (simp_all add: sent_aois_def List.map_filter_def)

text \<open>The pairs of bound areas that overlap in a namespace.\<close>

definition overlaps :: "aoi_intersect \<Rightarrow> AoiResources \<Rightarrow> AoiIntersection \<Rightarrow> bool" where
  "overlaps isect hs i \<longleftrightarrow>
     (\<exists>us them. rm_get (our_handles hs) (ai_our_handle i) = Some us \<and> rm_get (their_handles hs) (ai_their_handle i) = Some them \<and>
        info_namespace us = ai_namespace i \<and> info_namespace them = ai_namespace i \<and>
        isect (info_aoi us) (info_aoi them) = Some (ai_intersection i))"

definition aoi_comm :: "aoi_intersect \<Rightarrow> bool"
  where "aoi_comm isect \<longleftrightarrow> (\<forall>a b. isect a b = isect b a)"

text \<open>Bound areas are numbered from zero, in the order they were bound.\<close>

abbreviation numbered :: "AoiInfo list \<Rightarrow> (AreaOfInterestHandle, AoiInfo) ResourceMap \<Rightarrow> bool"
  where "numbered \<equiv> rm_numbered AreaOfInterestHandle"

lemma inj_aoi_handle: "inj AreaOfInterestHandle"
  by (simp add: inj_def)

lemmas numbered_def = rm_numbered_def [of AreaOfInterestHandle]
  and numbered_distinct = rm_numbered_distinct [OF inj_aoi_handle]
  and numbered_bind = rm_numbered_bind [OF inj_aoi_handle]

text \<open>The loop of \<open>bind_validated\<close> over the other side's areas.\<close>

definition found ::
  "aoi_intersect \<Rightarrow> NamespaceId \<Rightarrow> AreaOfInterest \<Rightarrow> (AreaOfInterestHandle \<Rightarrow> AreaOfInterest \<Rightarrow> AoiIntersection)
   \<Rightarrow> (AreaOfInterestHandle \<times> AoiInfo) list \<Rightarrow> AoiIntersection list" where
  "found isect ns aoi mk others =
     List.map_filter (\<lambda>(h, info). if info_namespace info \<noteq> ns then None
        else map_option (mk h) (isect (info_aoi info) aoi)) others"

lemma reported_bind_validated:
  assumes "bind_validated isect scope ns aoi hs = (out, hs')"
  shows "reported out =
    (case scope of
       Ours \<Rightarrow> found isect ns aoi (\<lambda>h x. \<lparr> ai_our_handle = AreaOfInterestHandle (next_handle (our_handles hs)),
            ai_their_handle = h, ai_intersection = x, ai_namespace = ns \<rparr>) (resources (their_handles hs))
     | Theirs \<Rightarrow> found isect ns aoi (\<lambda>h x. \<lparr> ai_our_handle = h,
            ai_their_handle = AreaOfInterestHandle (next_handle (their_handles hs)),
            ai_intersection = x, ai_namespace = ns \<rparr>) (resources (our_handles hs)))"
    and "sent_aois out = []"
proof -
  have mf: "reported (List.map_filter (\<lambda>p. map_option OutAoiIntersection (g p)) xs) = List.map_filter g xs"
    "sent_aois (List.map_filter (\<lambda>p. map_option OutAoiIntersection (g p)) xs) = []" for g and xs :: "(AreaOfInterestHandle \<times> AoiInfo) list"
    by (induction xs) (simp_all add: map_filter_simps reported_def sent_aois_def split: option.splits)
  have out: "out = List.map_filter (\<lambda>p. map_option OutAoiIntersection ((\<lambda>(h, info). if info_namespace info \<noteq> ns then None
        else map_option (\<lambda>x. case scope of
          Ours \<Rightarrow> \<lparr> ai_our_handle = AreaOfInterestHandle (next_handle (our_handles hs)), ai_their_handle = h,
            ai_intersection = x, ai_namespace = ns \<rparr>
        | Theirs \<Rightarrow> \<lparr> ai_our_handle = h, ai_their_handle = AreaOfInterestHandle (next_handle (their_handles hs)),
            ai_intersection = x, ai_namespace = ns \<rparr>) (isect (info_aoi info) aoi)) p))
      (resources (case scope of Ours \<Rightarrow> their_handles hs | Theirs \<Rightarrow> our_handles hs))"
    using assms
    by (cases scope)
      (auto simp: bind_validated_def Let_def rm_iter_def split: prod.splits dest!: rm_bind_effect(1)
        intro!: arg_cong [where f = "\<lambda>g. List.map_filter g _"] ext split: option.splits)
  show "sent_aois out = []"
    unfolding out by (rule mf)
  show "reported out =
    (case scope of
       Ours \<Rightarrow> found isect ns aoi (\<lambda>h x. \<lparr> ai_our_handle = AreaOfInterestHandle (next_handle (our_handles hs)),
            ai_their_handle = h, ai_intersection = x, ai_namespace = ns \<rparr>) (resources (their_handles hs))
     | Theirs \<Rightarrow> found isect ns aoi (\<lambda>h x. \<lparr> ai_our_handle = h,
            ai_their_handle = AreaOfInterestHandle (next_handle (their_handles hs)),
            ai_intersection = x, ai_namespace = ns \<rparr>) (resources (our_handles hs)))"
    unfolding out mf(1)
    by (cases scope) (auto simp: found_def intro!: arg_cong [where f = "\<lambda>g. List.map_filter g _"] ext)
qed

lemma found_set:
  "distinct (hm_keys others) \<Longrightarrow> set (found isect ns aoi mk others) =
     {mk h x | h x. \<exists>info. map_of others h = Some info \<and> info_namespace info = ns \<and> isect (info_aoi info) aoi = Some x}"
  by (auto simp: found_def List.map_filter_def image_def split: if_splits) force+

lemma found_distinct:
  assumes "distinct (hm_keys others)" "\<forall>h x. key (mk h x) = h"
  shows "distinct (found isect ns aoi mk others)"
proof -
  have "map key (found isect ns aoi mk others) =
      map fst (filter (\<lambda>(h, info). info_namespace info = ns \<and> isect (info_aoi info) aoi \<noteq> None) others)"
    using assms(2) by (induction others) (auto simp: found_def map_filter_simps split: option.splits if_splits)
  then have "distinct (map key (found isect ns aoi mk others))"
    using assms(1) by (simp add: distinct_map_filter)
  then show ?thesis
    by (rule distinct_map [THEN iffD1, THEN conjunct1])
qed

definition finder_inv ::
  "aoi_intersect \<Rightarrow> AoiInfo list \<Rightarrow> AoiInfo list \<Rightarrow> AoiIntersection list \<Rightarrow> AoiResources \<Rightarrow> bool" where
  "finder_inv isect xs ys rep hs \<longleftrightarrow>
     numbered xs (our_handles hs) \<and> numbered ys (their_handles hs) \<and>
     set rep = {i. overlaps isect hs i} \<and> distinct rep"

lemma bind_validated_inv:
  assumes "aoi_comm isect" "finder_inv isect xs ys rep hs"
    and "bind_validated isect scope ns aoi hs = (out, hs')" "length (xs @ ys) + 1 < 2 ^ 64"
  shows "case scope of
      Ours \<Rightarrow> finder_inv isect (xs @ [\<lparr> info_aoi = aoi, info_namespace = ns \<rparr>]) ys (rep @ reported out) hs'
    | Theirs \<Rightarrow> finder_inv isect xs (ys @ [\<lparr> info_aoi = aoi, info_namespace = ns \<rparr>]) (rep @ reported out) hs'"
proof (cases scope)
  case Ours
  let ?info = "\<lparr> info_aoi = aoi, info_namespace = ns \<rparr>"
  obtain h ws m where b: "rm_bind AreaOfInterestHandle ?info (our_handles hs) = (h, ws, m)"
    by (metis prod_cases3)
  have nx: "numbered xs (our_handles hs)" "numbered ys (their_handles hs)"
    using assms(2) by (simp_all add: finder_inv_def)
  have len: "length xs + 1 < 2 ^ 64"
    using assms(4) by simp
  note nb = numbered_bind [OF nx(1) b len]
  have hs': "hs' = hs\<lparr> our_handles := m \<rparr>"
    using assms(3) Ours b by (auto simp: bind_validated_def Let_def)
  have get: "rm_get m = (rm_get (our_handles hs))(h \<mapsto> ?info)"
    using rm_bind_effect(3) [OF b] by (simp add: update_conv')
  have rep: "reported out = found isect ns aoi (\<lambda>h' x. \<lparr> ai_our_handle = h, ai_their_handle = h',
      ai_intersection = x, ai_namespace = ns \<rparr>) (resources (their_handles hs))"
    using reported_bind_validated(1) [OF assms(3)] Ours rm_bind_effect(1) [OF b] by simp
  note fs = found_set [OF numbered_distinct [OF nx(2)]]
  have comm: "isect (info_aoi t) aoi = isect aoi (info_aoi t)" for t
    using assms(1) by (simp add: aoi_comm_def)
  have "overlaps isect hs' i \<longleftrightarrow> overlaps isect hs i \<or> i \<in> set (reported out)" for i
    using nb(3) unfolding rep fs comm by (cases i) (simp add: overlaps_def hs' get, blast)
  moreover have "\<forall>i \<in> set (reported out). ai_our_handle i = h"
    unfolding rep fs by auto
  then have "overlaps isect hs i \<Longrightarrow> i \<notin> set (reported out)" for i
    using nb(3) by (metis overlaps_def option.distinct(1))
  moreover have "distinct (reported out)"
    unfolding rep by (rule found_distinct [OF numbered_distinct [OF nx(2)], of ai_their_handle]) simp
  ultimately show ?thesis
    using assms(2) nb(1) Ours by (auto simp: finder_inv_def hs')
next
  case Theirs
  let ?info = "\<lparr> info_aoi = aoi, info_namespace = ns \<rparr>"
  obtain h ws m where b: "rm_bind AreaOfInterestHandle ?info (their_handles hs) = (h, ws, m)"
    by (metis prod_cases3)
  have nx: "numbered xs (our_handles hs)" "numbered ys (their_handles hs)"
    using assms(2) by (simp_all add: finder_inv_def)
  have len: "length ys + 1 < 2 ^ 64"
    using assms(4) by simp
  note nb = numbered_bind [OF nx(2) b len]
  have hs': "hs' = hs\<lparr> their_handles := m \<rparr>"
    using assms(3) Theirs b by (auto simp: bind_validated_def Let_def)
  have get: "rm_get m = (rm_get (their_handles hs))(h \<mapsto> ?info)"
    using rm_bind_effect(3) [OF b] by (simp add: update_conv')
  have rep: "reported out = found isect ns aoi (\<lambda>h' x. \<lparr> ai_our_handle = h', ai_their_handle = h,
      ai_intersection = x, ai_namespace = ns \<rparr>) (resources (our_handles hs))"
    using reported_bind_validated(1) [OF assms(3)] Theirs rm_bind_effect(1) [OF b] by simp
  note fs = found_set [OF numbered_distinct [OF nx(1)]]
  have "overlaps isect hs' i \<longleftrightarrow> overlaps isect hs i \<or> i \<in> set (reported out)" for i
    using nb(3) unfolding rep fs by (cases i) (auto simp: overlaps_def hs' get)
  moreover have "\<forall>i \<in> set (reported out). ai_their_handle i = h"
    unfolding rep fs by auto
  then have "overlaps isect hs i \<Longrightarrow> i \<notin> set (reported out)" for i
    using nb(3) by (metis overlaps_def option.distinct(1))
  moreover have "distinct (reported out)"
    unfolding rep by (rule found_distinct [OF numbered_distinct [OF nx(1)], of ai_our_handle]) simp
  ultimately show ?thesis
    using assms(2) nb(1) Theirs by (auto simp: finder_inv_def hs')
qed

text \<open>
  What an operation that binds areas of ours does: the areas it sends are bound in that order, and the
  pairs it reports are the new overlaps.
\<close>

definition binds_ours :: "aoi_intersect \<Rightarrow> AoiResources \<Rightarrow> ('cap, 'scap) AoiOutput list \<Rightarrow> AoiResources \<Rightarrow> bool" where
  "binds_ours isect hs out hs' \<longleftrightarrow>
     (\<forall>xs ys rep. finder_inv isect xs ys rep hs \<longrightarrow> length xs + length ys + length (sent_aois out) < 2 ^ 64 \<longrightarrow>
        (\<exists>zs. map info_aoi zs = sent_aois out \<and> finder_inv isect (xs @ zs) ys (rep @ reported out) hs'))"

lemma binds_ours_none: "reported out = [] \<Longrightarrow> sent_aois out = [] \<Longrightarrow> binds_ours isect hs out hs"
  by (simp add: binds_ours_def)

lemma binds_ours_append:
  assumes "binds_ours isect hs out hs1" "binds_ours isect hs1 out' hs2"
  shows "binds_ours isect hs (out @ out') hs2"
  unfolding binds_ours_def
proof (intro allI impI)
  fix xs ys rep
  assume inv: "finder_inv isect xs ys rep hs" and len: "length xs + length ys + length (sent_aois (out @ out')) < 2 ^ 64"
  then obtain zs where zs: "map info_aoi zs = sent_aois out" "finder_inv isect (xs @ zs) ys (rep @ reported out) hs1"
    using assms(1) unfolding binds_ours_def by fastforce
  then have "length zs = length (sent_aois out)"
    by (metis length_map)
  then have "length (xs @ zs) + length ys + length (sent_aois out') < 2 ^ 64"
    using len by simp
  then obtain zs' where "map info_aoi zs' = sent_aois out'"
    "finder_inv isect ((xs @ zs) @ zs') ys ((rep @ reported out) @ reported out') hs2"
    using assms(2) [unfolded binds_ours_def, rule_format, OF zs(2)] by blast
  then show "\<exists>zs. map info_aoi zs = sent_aois (out @ out') \<and>
      finder_inv isect (xs @ zs) ys (rep @ reported (out @ out')) hs2"
    using zs(1) by (intro exI [of _ "zs @ zs'"]) simp
qed

lemma bind_and_send_binds:
  assumes "aoi_comm isect" "aoi_bind_and_send_ours isect ns cap aoi hs = (out, hs')"
  shows "binds_ours isect hs out hs'"
proof -
  obtain out1 where b: "bind_validated isect Ours ns aoi hs = (out1, hs')"
    and out: "out = out1 @ [OutSendMessage \<lparr> sba_area_of_interest = aoi, sba_authorisation = cap \<rparr>]"
    using assms(2) by (auto simp: aoi_bind_and_send_ours_def split: prod.splits)
  show ?thesis
    unfolding binds_ours_def
  proof (intro allI impI)
    fix xs ys rep
    assume inv: "finder_inv isect xs ys rep hs" and "length xs + length ys + length (sent_aois out) < 2 ^ 64"
    then have "length (xs @ ys) + 1 < 2 ^ 64"
      by (simp add: out)
    from bind_validated_inv [OF assms(1) inv b this]
    show "\<exists>zs. map info_aoi zs = sent_aois out \<and> finder_inv isect (xs @ zs) ys (rep @ reported out) hs'"
      using reported_bind_validated(2) [OF b]
      by (intro exI [of _ "[\<lparr> info_aoi = aoi, info_namespace = ns \<rparr>]"]) (simp add: out)
  qed
qed

lemma bind_all_binds:
  "aoi_comm isect \<Longrightarrow> bind_all_ours isect ns cap aois hs = (out, hs') \<Longrightarrow> binds_ours isect hs out hs'"
proof (induction aois arbitrary: hs out)
  case (Cons aoi aois)
  then show ?case
    by (auto simp: Let_def split: prod.splits intro!: binds_ours_append intro: bind_and_send_binds)
qed (simp add: binds_ours_none)

lemma add_existing_binds:
  "aoi_comm isect \<Longrightarrow> add_existing isect ns cap existing aois hs = (out, existing', hs') \<Longrightarrow> binds_ours isect hs out hs'"
proof (induction aois arbitrary: existing hs out)
  case (Cons aoi aois)
  show ?case
  proof (cases "aoi \<in> set existing")
    case False
    obtain out1 hs1 out2 where
      1: "(case cap of None \<Rightarrow> ([], hs) | Some cap \<Rightarrow> aoi_bind_and_send_ours isect ns cap aoi hs) = (out1, hs1)"
      and 2: "add_existing isect ns cap (existing @ [aoi]) aois hs1 = (out2, existing', hs')" "out = out1 @ out2"
      using Cons.prems(2) False by (auto simp: Let_def split: prod.splits)
    have "binds_ours isect hs out1 hs1"
      using 1 bind_and_send_binds [OF Cons.prems(1)] by (auto simp: binds_ours_none split: option.splits)
    then show ?thesis
      using Cons.IH [OF Cons.prems(1) 2(1)] by (simp add: 2(2) binds_ours_append)
  qed (use Cons in simp)
qed (simp add: binds_ours_none)

lemma add_interests_binds:
  "aoi_comm isect \<Longrightarrow> add_interests gn isect m s = (out, s') \<Longrightarrow> binds_ours isect (if_handles s) out (if_handles s')"
proof (induction m arbitrary: s out)
  case (Cons p m)
  obtain auth aois where p: "p = (auth, aois)"
    by fastforce
  obtain out1 s1 out2 where 1: "(case map_of (if_interests s) auth of
        Some existing \<Rightarrow>
          (let capability_handle = find_ours (ra_read_cap auth) (if_caps s);
               (out, existing', hs) = add_existing isect (ra_namespace gn auth) capability_handle existing aois (if_handles s)
           in (out, s\<lparr> if_handles := hs, if_interests := hm_insert auth existing' (if_interests s) \<rparr>))
      | None \<Rightarrow> ([SubmitAuthorisation auth], s\<lparr> if_interests := hm_insert auth aois (if_interests s) \<rparr>)) = (out1, s1)"
    and 2: "add_interests gn isect m s1 = (out2, s')" "out = out1 @ out2"
    using Cons.prems(2) unfolding p add_interests.simps Let_def by (auto split: prod.splits)
  have "binds_ours isect (if_handles s) out1 (if_handles s1)"
    using 1 add_existing_binds [OF Cons.prems(1)]
    by (auto simp: binds_ours_none Let_def split: option.splits prod.splits)
  then show ?case
    using Cons.IH [OF Cons.prems(1) 2(1)] by (simp add: 2(2) binds_ours_append)
qed (simp add: binds_ours_none)

lemma binds_ours_sign: "binds_ours isect hs out hs' \<Longrightarrow> binds_ours isect hs (SignAndSendCapability h c # out) hs'"
  by (simp add: binds_ours_def)

lemma pai_intersection_binds:
  fixes out :: "('cap, 'scap) AoiOutput list"
  assumes "aoi_comm isect" "on_pai_intersection gn isect i s = Ok (out, s')"
  shows "binds_ours isect (if_handles s) out (if_handles s')"
proof -
  obtain aois where "map_of (if_interests s) (pi_authorisation i) = Some aois"
    using assms(2) by (cases "map_of (if_interests s) (pi_authorisation i)") (auto simp: on_pai_intersection_def)
  moreover obtain cap is_new ws caps where
    "bind_ours (ra_read_cap (pi_authorisation i)) (if_caps s) = ((cap, is_new), ws, caps)"
    by (metis prod.exhaust)
  moreover obtain out' :: "('cap, 'scap) AoiOutput list" and hs where
    all: "bind_all_ours isect (ra_namespace gn (pi_authorisation i)) cap aois (if_handles s) = (out', hs)"
    by fastforce
  ultimately have "out = (if is_new then [SignAndSendCapability (pi_handle i) (ra_read_cap (pi_authorisation i))] else []) @ out'"
    "if_handles s' = hs"
    using assms(2) by (auto simp: on_pai_intersection_def Let_def)
  then show ?thesis
    using bind_all_binds [OF assms(1) all] binds_ours_sign by auto
qed

lemma received_infos_simps [simp]:
  "received_infos [] = []" "received_infos (AddInterests m # is) = received_infos is"
  "received_infos (InPaiIntersection i # is) = received_infos is"
  "received_infos (ReceivedValidatedAoi ns aoi # is) = \<lparr> info_aoi = aoi, info_namespace = ns \<rparr> # received_infos is"
  by (simp_all add: received_infos_def List.map_filter_def)

lemma finder_input_inv:
  assumes "aoi_comm isect" "finder_inv isect xs ys rep (if_handles s)" "finder_input gn isect input s = Ok (out, s')"
    and "length xs + length ys + length (sent_aois out) + 1 < 2 ^ 64"
  shows "\<exists>zs. map info_aoi zs = sent_aois out \<and>
    finder_inv isect (xs @ zs) (ys @ received_infos [input]) (rep @ reported out) (if_handles s')"
proof (cases input)
  case (ReceivedValidatedAoi ns aoi)
  then obtain hs where b: "bind_validated isect Theirs ns aoi (if_handles s) = (out, hs)" and s': "s' = s\<lparr> if_handles := hs \<rparr>"
    using assms(3) by (auto simp: finder_input_def split: prod.splits)
  then show ?thesis
    using bind_validated_inv [OF assms(1,2) b] reported_bind_validated(2) [OF b] assms(4) ReceivedValidatedAoi
    by simp
next
  case (AddInterests m)
  then have "binds_ours isect (if_handles s) out (if_handles s')"
    using assms(3) add_interests_binds [OF assms(1)] by (simp add: finder_input_def)
  then show ?thesis
    using assms(2,4) AddInterests by (auto simp: binds_ours_def)
next
  case (InPaiIntersection i)
  then have "binds_ours isect (if_handles s) out (if_handles s')"
    using assms(3) pai_intersection_binds [OF assms(1)] by (simp add: finder_input_def)
  then show ?thesis
    using assms(2,4) InPaiIntersection by (auto simp: binds_ours_def)
qed

lemma finder_run_inv:
  assumes "aoi_comm isect" "finder_inv isect xs ys rep (if_handles s)" "finder_run gn isect inputs s = (r, out, s')"
    and "length xs + length ys + length (sent_aois out) + length inputs < 2 ^ 64"
  shows "\<exists>zs n. map info_aoi zs = sent_aois out \<and> (r = Ok () \<longrightarrow> n = length inputs) \<and>
    finder_inv isect (xs @ zs) (ys @ received_infos (take n inputs)) (rep @ reported out) (if_handles s')"
  using assms(2-)
proof (induction inputs arbitrary: xs ys rep s out)
  case (Cons input inputs)
  show ?case
  proof (cases "finder_input gn isect input s")
    case (Inl err)
    then show ?thesis
      using Cons.prems by (intro exI [of _ "[]"] exI [of _ 0]) auto
  next
    case (Inr p)
    then obtain out1 s1 out2 where 1: "finder_input gn isect input s = Ok (out1, s1)"
      and 2: "finder_run gn isect inputs s1 = (r, out2, s')" and out: "out = out1 @ out2"
      using Cons.prems(2) by (cases p) (auto simp: Let_def split: prod.splits)
    obtain zs where zs: "map info_aoi zs = sent_aois out1"
      "finder_inv isect (xs @ zs) (ys @ received_infos [input]) (rep @ reported out1) (if_handles s1)"
      using finder_input_inv [OF assms(1) Cons.prems(1) 1] Cons.prems(3) by (auto simp: out)
    have "length zs = length (sent_aois out1)" "length (received_infos [input]) \<le> 1"
      using zs(1) by (metis length_map) (cases input; simp)
    then have "length (xs @ zs) + length (ys @ received_infos [input]) + length (sent_aois out2) + length inputs < 2 ^ 64"
      using Cons.prems(3) by (simp add: out)
    from Cons.IH [OF zs(2) 2 this] obtain zs' n where "map info_aoi zs' = sent_aois out2"
      "r = Ok () \<longrightarrow> n = length inputs"
      "finder_inv isect ((xs @ zs) @ zs') ((ys @ received_infos [input]) @ received_infos (take n inputs))
         ((rep @ reported out1) @ reported out2) (if_handles s')"
      by blast
    moreover have "received_infos [input] @ received_infos (take n inputs) = received_infos (take (Suc n) (input # inputs))"
      by (cases input) simp_all
    ultimately show ?thesis
      using zs(1) by (intro exI [of _ "zs @ zs'"] exI [of _ "Suc n"]) (simp add: out)
  qed
qed (intro exI [of _ "[]"], simp)

lemma finder_new_inv: "finder_inv isect [] [] [] (if_handles (finder_new caps))"
  by (auto simp: finder_inv_def finder_new_def numbered_def rm_default_def overlaps_def)


text \<open>The pair as the other peer sees it.\<close>

definition mirrored :: "AoiIntersection \<Rightarrow> AoiIntersection" where
  "mirrored i = i\<lparr> ai_our_handle := ai_their_handle i, ai_their_handle := ai_our_handle i \<rparr>"

lemma mirrored_mirrored: "mirrored (mirrored i) = i"
  by (simp add: mirrored_def)

text \<open>
  C18: Two peers that each received the areas the other one bound, in order, have reported the same pairs:
  every pair that one of them reconciles, the other one reconciles with the roles of the handles
  exchanged.
\<close>

theorem aoi_targets_agree:
  assumes "aoi_comm isect" "finder_run gn isect ia (finder_new ca) = (Ok (), outa, sa)"
    and "finder_run gn' isect ib (finder_new cb) = (Ok (), outb, sb)"
    and "received_infos ia = map snd (rm_iter (our_handles (if_handles sb)))"
    and "received_infos ib = map snd (rm_iter (our_handles (if_handles sa)))"
    and "length (sent_aois outa) + length ia < 2 ^ 64" "length (sent_aois outb) + length ib < 2 ^ 64"
  shows "set (reported outa) = mirrored ` set (reported outb)"
proof -
  obtain xs n where a: "n = length ia"
    "finder_inv isect ([] @ xs) ([] @ received_infos (take n ia)) ([] @ reported outa) (if_handles sa)"
    using finder_run_inv [OF assms(1) finder_new_inv assms(2)] assms(6) by auto
  obtain ys k where b: "k = length ib"
    "finder_inv isect ([] @ ys) ([] @ received_infos (take k ib)) ([] @ reported outb) (if_handles sb)"
    using finder_run_inv [OF assms(1) finder_new_inv assms(3)] assms(7) by auto
  have "resources (our_handles (if_handles sa)) = resources (their_handles (if_handles sb))"
    "resources (our_handles (if_handles sb)) = resources (their_handles (if_handles sa))"
    using a b assms(4,5) by (simp_all add: finder_inv_def numbered_def rm_iter_def)
  then have "overlaps isect (if_handles sa) i \<longleftrightarrow> overlaps isect (if_handles sb) (mirrored i)" for i
    using assms(1) by (auto simp: overlaps_def mirrored_def aoi_comm_def)
  moreover have "set (reported outa) = {i. overlaps isect (if_handles sa) i}" "set (reported outb) = {i. overlaps isect (if_handles sb) i}"
    using a b by (simp_all add: finder_inv_def)
  ultimately show ?thesis
    by (auto simp: image_iff) (metis mirrored_mirrored)+
qed

section \<open>An example\<close>

definition same_isect :: aoi_intersect
  where "same_isect a b = (if a = b then Some a else None)"

lemma same_isect_comm: "aoi_comm same_isect"
  by (simp add: aoi_comm_def same_isect_def)

definition demo_aoi :: AreaOfInterest
  where "demo_aoi = aoi_with_area (area_new_path [[1]])"

definition demo_auth :: "(u8, unit) ReadAuthorisation"
  where "demo_auth = \<lparr> ra_read_cap = 5, ra_subspace_cap = None \<rparr>"

definition demo_inputs :: "(u8, unit) AoiInput list" where
  "demo_inputs = [AddInterests [(demo_auth, [demo_aoi])],
     InPaiIntersection \<lparr> pi_authorisation = demo_auth, pi_handle = IntersectionHandle 0 \<rparr>,
     ReceivedValidatedAoi (e_namespace_id demo_entry) demo_aoi]"

abbreviation demo_finder :: "(u8, unit) IntersectionFinder"
  where "demo_finder \<equiv> finder_new (caps_new [] [])"

lemma demo_finder_run:
  obtains out s where "finder_run (\<lambda>_. e_namespace_id demo_entry) same_isect demo_inputs demo_finder = (Ok (), out, s)"
    "length (sent_aois out) = 1" "length (reported out) = 1"
    "map snd (rm_iter (our_handles (if_handles s))) = received_infos demo_inputs"
  by (simp add: demo_inputs_def finder_input_def finder_new_def caps_new_def on_pai_intersection_def bind_ours_def
      rm_bind_if_new_def rm_default_def rm_bind_def bind_validated_def aoi_bind_and_send_ours_def rm_iter_def Let_def
      map_filter_simps same_isect_def ra_namespace_def)


theorem aoi_targets_agree_witness:
  "\<exists>out s. finder_run (\<lambda>_. e_namespace_id demo_entry) same_isect demo_inputs demo_finder = (Ok (), out, s) \<and>
     set (reported out) = mirrored ` set (reported out)"
proof -
  obtain out s where r: "finder_run (\<lambda>_. e_namespace_id demo_entry) same_isect demo_inputs demo_finder = (Ok (), out, s)"
    "length (sent_aois out) = 1" "map snd (rm_iter (our_handles (if_handles s))) = received_infos demo_inputs"
    by (rule demo_finder_run)
  then show ?thesis
    using aoi_targets_agree [OF same_isect_comm r(1) r(1) r(3) [symmetric] r(3) [symmetric]]
    by (auto simp: demo_inputs_def)
qed

end
