(* ===== verification/Util_Channel.thy ===== *)
theory Util_Channel
  imports Messages Resource_Map
begin

text \<open>
  The flow-controlled in-memory channel of \<open>util/channel.rs\<close>: a bounded byte buffer between a message
  sender or byte writer and a byte reader or message receiver, with guarantees that limit what may be
  sent.  Sizes (\<open>usize\<close>) are natural numbers; \<open>max_buffer_size - buf.len()\<close> does not underflow because
  of the invariant \<open>ch_inv\<close>.  Every operation returns the wakers it wakes.  The encoder and decoder of
  the messages are arguments.
\<close>

section \<open>Guarantees\<close>

datatype Guarantees = Unlimited | Limited u64

fun g_add :: "u64 \<Rightarrow> Guarantees \<Rightarrow> Guarantees" where
  "g_add amount Unlimited = Unlimited"
| "g_add amount (Limited current) = Limited (current + amount)"

fun g_get :: "Guarantees \<Rightarrow> u64" where
  "g_get Unlimited = - 1"
| "g_get (Limited current) = current"

fun g_use :: "u64 \<Rightarrow> Guarantees \<Rightarrow> Guarantees" where
  "g_use amount Unlimited = Unlimited"
| "g_use amount (Limited current) = Limited (current - amount)"

section \<open>The shared state\<close>

record Inner =
  buf :: bytes
  max_buffer_size :: nat
  write_wakers :: "waker list"
  read_wakers :: "waker list"
  is_closed :: bool
  guarantees :: Guarantees

record Shared =
  inner :: Inner
  sender_count :: nat
  receiver_count :: nat

definition shared_new :: "nat \<Rightarrow> Guarantees \<Rightarrow> Shared" where
  "shared_new max_size g =
     \<lparr> inner = \<lparr> buf = [], max_buffer_size = max_size, write_wakers = [], read_wakers = [],
                 is_closed = False, guarantees = g \<rparr>,
       sender_count = 1, receiver_count = 1 \<rparr>"

definition outbound_channel :: "nat \<Rightarrow> Guarantees \<Rightarrow> Shared"
  where "outbound_channel max_size g = shared_new max_size g"

definition inbound_channel :: "nat \<Rightarrow> Shared"
  where "inbound_channel max_size = shared_new max_size Unlimited"

definition remaining_write_capacity :: "Inner \<Rightarrow> nat" where
  "remaining_write_capacity c = min (max_buffer_size c - length (buf c)) (unat (g_get (guarantees c)))"

definition wake_readable :: "Inner \<Rightarrow> waker list \<times> Inner"
  where "wake_readable c = (read_wakers c, c\<lparr> read_wakers := [] \<rparr>)"

definition wake_writable :: "Inner \<Rightarrow> waker list \<times> Inner"
  where "wake_writable c = (write_wakers c, c\<lparr> write_wakers := [] \<rparr>)"

definition add_guarantees :: "u64 \<Rightarrow> Inner \<Rightarrow> waker list \<times> Inner" where
  "add_guarantees amount c =
     (let current_write_capacity = remaining_write_capacity c;
          c1 = c\<lparr> guarantees := g_add amount (guarantees c) \<rparr>
      in if remaining_write_capacity c1 > current_write_capacity then wake_writable c1 else ([], c1))"

definition ch_close :: "Inner \<Rightarrow> waker list \<times> Inner" where
  "ch_close c =
     (let (ws, c1) = wake_writable (c\<lparr> is_closed := True \<rparr>); (rs, c2) = wake_readable c1 in (ws @ rs, c2))"

definition read_bytes :: "Inner \<Rightarrow> bytes \<times> waker list \<times> Inner" where
  "read_bytes c =
     (let (ws, c1) = (if 0 < length (buf c) then wake_writable c else ([], c))
      in (buf c1, ws, c1\<lparr> buf := [] \<rparr>))"

text \<open>\<open>writable_slice_exact\<close> grows the buffer by zeros; the result is the offset of the slice.\<close>

definition writable_slice_exact :: "nat \<Rightarrow> Inner \<Rightarrow> (nat \<times> Inner) option" where
  "writable_slice_exact len c =
     (if remaining_write_capacity c < len then None
      else Some (length (buf c), c\<lparr> buf := buf c @ replicate len 0 \<rparr>))"

datatype IoError = BrokenPipe | IoOther string

definition poll_write :: "waker \<Rightarrow> bytes \<Rightarrow> Inner \<Rightarrow> (IoError + nat) poll \<times> waker list \<times> Inner" where
  "poll_write cx data c =
     (if is_closed c then (Ready (Err BrokenPipe), [], c)
      else
        let avail = remaining_write_capacity c
        in if avail = 0 then (Pending, [], c\<lparr> write_wakers := write_wakers c @ [cx] \<rparr>)
           else
             let len = min (length data) avail;
                 c1 = c\<lparr> buf := buf c @ take len data, guarantees := g_use (of_nat len) (guarantees c) \<rparr>;
                 (ws, c2) = wake_readable c1
             in (Ready (Ok len), ws, c2))"

definition poll_read_bytes :: "waker \<Rightarrow> Inner \<Rightarrow> bytes option poll \<times> waker list \<times> Inner" where
  "poll_read_bytes cx c =
     (if buf c \<noteq> [] then (let (bs, ws, c1) = read_bytes c in (Ready (Some bs), ws, c1))
      else if is_closed c then (Ready None, [], c)
      else (Pending, [], c\<lparr> read_wakers := read_wakers c @ [cx] \<rparr>))"

text \<open>
  Writing an encoded item into the slice through a cursor: bytes beyond the slice are an error, and
  an error of the encoder leaves the zeros of the slice in the buffer.
\<close>

definition poll_send_message ::
  "('m \<Rightarrow> nat) \<Rightarrow> ('m \<Rightarrow> bytes \<Rightarrow> bytes option) \<Rightarrow> waker \<Rightarrow> 'm \<Rightarrow> Inner \<Rightarrow> (WriteError + unit) poll \<times> waker list \<times> Inner" where
  "poll_send_message encoded_len encode_into cx item c =
     (if is_closed c then (Ready (Err WE_Closed), [], c)
      else
        let len = encoded_len item
        in case writable_slice_exact len c of
             None \<Rightarrow> (Pending, [], c\<lparr> write_wakers := write_wakers c @ [cx] \<rparr>)
           | Some (old_len, c1) \<Rightarrow>
               (case encode_into item [] of
                  None \<Rightarrow> (Ready (Err (WE_Encode ''encoding failed'')), [], c1)
                | Some bs \<Rightarrow>
                    let c2 = c1\<lparr> buf := take old_len (buf c1) @ take len (bs @ drop (old_len + length bs) (buf c1)) \<rparr>
                    in if len < length bs then (Ready (Err (WE_Encode ''failed to write whole buffer'')), [], c2)
                       else
                         let (ws, c3) = wake_readable (c2\<lparr> guarantees := g_use (of_nat len) (guarantees c2) \<rparr>)
                         in (Ready (Ok ()), ws, c3)))"

text \<open>\<open>buf.advance(consumed)\<close> panics beyond the end of the buffer: \<open>None\<close>.\<close>

definition poll_recv_message ::
  "(bytes \<Rightarrow> string + 'm DecodeOutcome) \<Rightarrow> waker \<Rightarrow> Inner
   \<Rightarrow> ((ReadError + 'm) option poll \<times> waker list \<times> Inner) option" where
  "poll_recv_message decode_from cx c =
     (if is_closed c \<and> buf c = [] then Some (Ready None, [], c)
      else case decode_from (buf c) of
             Inl err \<Rightarrow> Some (Ready (Some (Err (RE_Decode err))), [], c)
           | Inr NeedMoreData \<Rightarrow>
               if is_closed c then Some (Ready (Some (Err RE_ClosedIncomplete)), [], c)
               else Some (Pending, [], c\<lparr> read_wakers := read_wakers c @ [cx] \<rparr>)
           | Inr (Decoded item consumed) \<Rightarrow>
               if length (buf c) < consumed then None
               else let (ws, c1) = wake_writable (c\<lparr> buf := drop consumed (buf c) \<rparr>)
                    in Some (Ready (Some (Ok item)), ws, c1))"

section \<open>Handles of the channel\<close>

definition sender_clone :: "Shared \<Rightarrow> Shared"
  where "sender_clone s = s\<lparr> sender_count := sender_count s + 1 \<rparr>"

definition sender_drop :: "Shared \<Rightarrow> waker list \<times> Shared" where
  "sender_drop s =
     (let s1 = s\<lparr> sender_count := sender_count s - 1 \<rparr>
      in if sender_count s = 1 then (let (ws, c) = ch_close (inner s1) in (ws, s1\<lparr> inner := c \<rparr>)) else ([], s1))"

definition receiver_drop :: "Shared \<Rightarrow> waker list \<times> Shared" where
  "receiver_drop s =
     (let s1 = s\<lparr> receiver_count := receiver_count s - 1 \<rparr>
      in if receiver_count s = 1 then (let (ws, c) = ch_close (inner s1) in (ws, s1\<lparr> inner := c \<rparr>)) else ([], s1))"

section \<open>Invariant and effects\<close>

definition ch_inv :: "Inner \<Rightarrow> bool"
  where "ch_inv c \<longleftrightarrow> length (buf c) \<le> max_buffer_size c"

lemmas wake_defs = wake_readable_def wake_writable_def

lemma shared_new_inv: "ch_inv (inner (shared_new n g))"
  by (simp add: ch_inv_def shared_new_def)

lemma poll_write_effect:
  assumes "poll_write cx data c = (p, ws, c')"
  shows "max_buffer_size c' = max_buffer_size c"
    and "case p of Ready (Inr n) \<Rightarrow> n \<le> length data \<and> n \<le> remaining_write_capacity c \<and> \<not> is_closed c \<and>
             buf c' = buf c @ take n data \<and> guarantees c' = g_use (of_nat n) (guarantees c) \<and> ws = read_wakers c
         | _ \<Rightarrow> buf c' = buf c \<and> guarantees c' = guarantees c"
  using assms by (auto simp: poll_write_def Let_def wake_defs split: if_splits)

lemma poll_read_effect:
  assumes "poll_read_bytes cx c = (p, ws, c')"
  shows "max_buffer_size c' = max_buffer_size c" "guarantees c' = guarantees c"
    and "case p of Ready (Some bs) \<Rightarrow> bs = buf c \<and> buf c' = [] \<and> ws = write_wakers c | _ \<Rightarrow> buf c' = buf c"
  using assms by (auto simp: poll_read_bytes_def read_bytes_def Let_def wake_defs split: if_splits)

lemma poll_recv_effect:
  assumes "poll_recv_message dec cx c = Some (p, ws, c')"
  shows "max_buffer_size c' = max_buffer_size c" "guarantees c' = guarantees c"
    and "case p of Ready (Some (Inr m)) \<Rightarrow> (\<exists>n. dec (buf c) = Ok (Decoded m n) \<and> n \<le> length (buf c) \<and>
             buf c' = drop n (buf c) \<and> ws = write_wakers c)
         | _ \<Rightarrow> buf c' = buf c"
  using assms
  by (auto simp: poll_recv_message_def Let_def wake_defs split: if_splits sum.splits DecodeOutcome.splits)

lemma ch_close_effect:
  assumes "ch_close c = (ws, c')"
  shows "buf c' = buf c" "max_buffer_size c' = max_buffer_size c" "guarantees c' = guarantees c" "is_closed c'"
    and "ws = write_wakers c @ read_wakers c"
  using assms by (auto simp: ch_close_def Let_def wake_defs)

lemma add_guarantees_effect:
  assumes "add_guarantees n c = (ws, c')"
  shows "buf c' = buf c" "max_buffer_size c' = max_buffer_size c" "guarantees c' = g_add n (guarantees c)"
    and "is_closed c' = is_closed c"
  using assms by (auto simp: add_guarantees_def Let_def wake_defs split: if_splits)

lemma buf_snd [simp]: "buf (snd (add_guarantees n c)) = buf c" "buf (snd (ch_close c)) = buf c"
  by (simp_all add: add_guarantees_def ch_close_def Let_def wake_defs)

text \<open>Sending with an encoder that respects its contract appends exactly the encoding.\<close>

context encoder
begin

lemma poll_send_eq:
  assumes "encode encode_into m = Some bs"
  shows "poll_send_message encoded_len encode_into cx m c =
    (if is_closed c then (Ready (Err WE_Closed), [], c)
     else if remaining_write_capacity c < length bs
     then (Pending, [], c\<lparr> write_wakers := write_wakers c @ [cx] \<rparr>)
     else (Ready (Ok ()), read_wakers c,
           c\<lparr> buf := buf c @ bs, guarantees := g_use (of_nat (length bs)) (guarantees c), read_wakers := [] \<rparr>))"
proof -
  have "encode_into m [] = Some bs" "encoded_len m = length bs"
    using assms encode_length [of m] by (auto simp: encode_def)
  then show ?thesis
    by (simp add: poll_send_message_def writable_slice_exact_def Let_def wake_defs)
qed

end

section \<open>Messages through a channel\<close>

text \<open>
  The calls on a channel between a sender of messages and a reader of bytes, with what was accepted
  for sending and what was read so far.
\<close>

datatype 'm out_op = Send waker 'm | Read waker | AddGuarantees u64 | CloseOut

record 'm out_state =
  o_inner :: Inner
  o_sent :: "'m list"
  o_read :: bytes

fun out_step :: "('m \<Rightarrow> nat) \<Rightarrow> ('m \<Rightarrow> bytes \<Rightarrow> bytes option) \<Rightarrow> 'm out_op \<Rightarrow> 'm out_state \<Rightarrow> 'm out_state" where
  "out_step el ei (Send cx m) s =
     (case poll_send_message el ei cx m (o_inner s) of
        (p, ws, c) \<Rightarrow> s\<lparr> o_inner := c, o_sent := (if p = Ready (Ok ()) then o_sent s @ [m] else o_sent s) \<rparr>)"
| "out_step el ei (Read cx) s =
     (case poll_read_bytes cx (o_inner s) of
        (p, ws, c) \<Rightarrow> s\<lparr> o_inner := c, o_read := (case p of Ready (Some bs) \<Rightarrow> o_read s @ bs | _ \<Rightarrow> o_read s) \<rparr>)"
| "out_step el ei (AddGuarantees n) s = s\<lparr> o_inner := snd (add_guarantees n (o_inner s)) \<rparr>"
| "out_step el ei CloseOut s = s\<lparr> o_inner := snd (ch_close (o_inner s)) \<rparr>"

definition out_run where
  "out_run el ei ops s = fold (out_step el ei) ops s"

definition out_start :: "nat \<Rightarrow> u64 \<Rightarrow> 'm out_state" where
  "out_start cap g = \<lparr> o_inner = inner (outbound_channel cap (Limited g)), o_sent = [], o_read = [] \<rparr>"

fun granted :: "'m out_op list \<Rightarrow> nat" where
  "granted [] = 0"
| "granted (AddGuarantees n # ops) = unat n + granted ops"
| "granted (_ # ops) = granted ops"

lemma granted_append: "granted (xs @ ys) = granted xs + granted ys"
  by (induction xs rule: granted.induct) simp_all

text \<open>
  The invariant of a channel: the buffer is within its limit, sent bytes are the bytes read followed
  by those buffered, and together with the guarantees left they are what was granted.
\<close>

definition out_inv :: "('m \<Rightarrow> bytes) \<Rightarrow> nat \<Rightarrow> 'm out_state \<Rightarrow> bool" where
  "out_inv frame budget s \<longleftrightarrow>
     ch_inv (o_inner s) \<and>
     concat (map frame (o_sent s)) = o_read s @ buf (o_inner s) \<and>
     (\<exists>g. guarantees (o_inner s) = Limited g \<and> length (concat (map frame (o_sent s))) + unat g = budget)"

context encoder
begin

lemma encode_the: "encode encode_into m = Some (the (encode encode_into m))"
  using encode_length [of m] by auto

lemma out_step_send_inv:
  assumes "out_inv (\<lambda>m. the (encode encode_into m)) budget s"
  shows "out_inv (\<lambda>m. the (encode encode_into m)) budget (out_step encoded_len encode_into (Send cx m) s)"
proof -
  let ?bs = "the (encode encode_into m)" and ?c = "o_inner s"
  obtain g where g: "guarantees ?c = Limited g"
    "length (concat (map (\<lambda>m. the (encode encode_into m)) (o_sent s))) + unat g = budget"
    using assms by (auto simp: out_inv_def)
  have "unat (g - of_nat (length ?bs)) = unat g - length ?bs" if "length ?bs \<le> unat g"
  proof -
    have "of_nat (length ?bs) \<le> g"
      using that by (simp add: word_le_nat_alt unat_of_nat le_less_trans [OF that])
    moreover have "unat (of_nat (length ?bs) :: u64) = length ?bs"
      using that u64_less [of g] by (simp add: unat_of_nat del: u64_less)
    ultimately show ?thesis
      by (simp add: unat_sub)
  qed
  then show ?thesis
    using assms g
    by (auto simp: poll_send_eq [OF encode_the] out_inv_def ch_inv_def remaining_write_capacity_def)
qed

lemma out_step_inv:
  assumes "out_inv (\<lambda>m. the (encode encode_into m)) budget s" "budget + granted [op] < 2 ^ 64"
  shows "out_inv (\<lambda>m. the (encode encode_into m)) (budget + granted [op]) (out_step encoded_len encode_into op s)"
proof (cases op)
  case (Send cx m)
  then show ?thesis
    using out_step_send_inv [OF assms(1)] by simp
next
  case (Read cx)
  then show ?thesis
    using assms(1) by (auto simp: poll_read_bytes_def read_bytes_def wake_defs out_inv_def ch_inv_def)
next
  case (AddGuarantees n)
  obtain ws c' where c': "add_guarantees n (o_inner s) = (ws, c')"
    by fastforce
  obtain g where g: "guarantees (o_inner s) = Limited g"
    "length (concat (map (\<lambda>m. the (encode encode_into m)) (o_sent s))) + unat g = budget"
    using assms(1) by (auto simp: out_inv_def)
  then have "unat (g + n) = unat g + unat n"
    using assms(2) AddGuarantees by (intro unat_plus_simple [THEN iffD1]) (simp add: no_olen_add_nat)
  then show ?thesis
    using add_guarantees_effect [OF c'] assms(1) g AddGuarantees
    by (auto simp: out_inv_def ch_inv_def c')
next
  case CloseOut
  obtain ws c' where c': "ch_close (o_inner s) = (ws, c')"
    by fastforce
  then show ?thesis
    using ch_close_effect [OF c'] assms(1) CloseOut by (auto simp: out_inv_def ch_inv_def c')
qed

lemma out_run_inv:
  assumes "out_inv (\<lambda>m. the (encode encode_into m)) budget s" "budget + granted ops < 2 ^ 64"
  shows "out_inv (\<lambda>m. the (encode encode_into m)) (budget + granted ops) (out_run encoded_len encode_into ops s)"
  using assms
proof (induction ops arbitrary: budget s)
  case (Cons op ops)
  have "granted (op # ops) = granted [op] + granted ops"
    using granted_append [of "[op]" ops] by simp
  then show ?case
    using Cons.IH [OF out_step_inv [OF Cons.prems(1), of op]] Cons.prems(2)
    by (simp add: out_run_def add.assoc)
qed (simp add: out_run_def)

lemma out_start_inv: "out_inv frame (unat g) (out_start cap g)"
  by (simp add: out_inv_def out_start_def outbound_channel_def shared_new_def ch_inv_def)

end

text \<open>
  Through an outbound channel, whatever the sequence of sends, reads, grants and closing: the bytes
  that were read, followed by those still buffered, are exactly the frames of the accepted messages in
  order; the buffer never exceeds its limit; and the bytes sent never exceed the guarantees granted,
  as long as the grants fit 64 bits together.
\<close>

theorem outbound_channel_fifo:
  fixes ser :: "'m \<Rightarrow> bytes"
  assumes "unat g + granted ops < 2 ^ 64"
    and "s = out_run (msg_encoded_len ser) (msg_encode_into ser) ops (out_start cap g)"
  shows "concat (map (msg_frame ser) (o_sent s)) = o_read s @ buf (o_inner s) \<and>
         length (buf (o_inner s)) \<le> max_buffer_size (o_inner s) \<and>
         length (concat (map (msg_frame ser) (o_sent s))) \<le> unat g + granted ops"
proof -
  have frame: "(\<lambda>m. the (encode (msg_encode_into ser) m)) = msg_frame ser"
    by (simp add: msg_encode_frame)
  have "out_inv (msg_frame ser) (unat g + granted ops) s"
    using msg_enc.out_run_inv [OF msg_enc.out_start_inv assms(1), of ser cap] assms(2) unfolding frame by simp
  then show ?thesis
    by (auto simp: out_inv_def ch_inv_def)
qed

theorem outbound_channel_fifo_witness:
  "concat (map (msg_frame id) [[1, 2]]) =
     o_read (out_run (msg_encoded_len id) (msg_encode_into id) [AddGuarantees 10, Send 0 [1, 2], Read 1] (out_start 64 0)) \<and>
   length (concat (map (msg_frame id) [[1, 2 :: u8]])) \<le> 10"
proof -
  let ?s = "out_run (msg_encoded_len id) (msg_encode_into id) [AddGuarantees 10, Send 0 [1, 2], Read 1] (out_start 64 0)"
  have "o_sent ?s = [[1, 2]]" "buf (o_inner ?s) = []"
    by (simp_all add: out_run_def out_start_def outbound_channel_def shared_new_def add_guarantees_def
        remaining_write_capacity_def wake_defs Let_def msg_enc.poll_send_eq [OF msg_encode_frame]
        msg_frame_length msg_encoded_len_def poll_read_bytes_def read_bytes_def msg.frame_nonempty)
  then show ?thesis
    using outbound_channel_fifo [of 0 "[AddGuarantees 10, Send 0 [1, 2], Read 1]" ?s id 64] by auto
qed

section \<open>From one peer to the other\<close>

text \<open>
  One channel of a session between two peers: the outbound channel of the sender, the bytes on the
  QUIC stream, and the inbound channel of the receiver (\<open>net.rs\<close>, \<open>send_loop\<close> and \<open>recv_loop\<close>).  A
  stream delivers its bytes in order, in chunks of any size, and then its end.  The steps are one round
  of each loop: \<open>l_send_done\<close> after \<open>send_stream.finish()\<close>, \<open>l_recv_done\<close> after \<open>channel_writer.close()\<close>.
\<close>

record 'm link =
  l_out :: Inner
  l_wire :: bytes
  l_in :: Inner
  l_send_done :: bool
  l_recv_done :: bool
  l_sent :: "'m list"
  l_received :: "'m list"

definition send_loop_step :: "waker \<Rightarrow> 'm link \<Rightarrow> 'm link" where
  "send_loop_step cx l =
     (if l_send_done l then l
      else case poll_read_bytes cx (l_out l) of
        (Ready (Some data), ws, c) \<Rightarrow> l\<lparr> l_out := c, l_wire := l_wire l @ data \<rparr>
      | (Ready None, ws, c) \<Rightarrow> l\<lparr> l_out := c, l_send_done := True \<rparr>
      | (Pending, ws, c) \<Rightarrow> l\<lparr> l_out := c \<rparr>)"

definition recv_loop_step :: "waker \<Rightarrow> nat \<Rightarrow> 'm link \<Rightarrow> 'm link" where
  "recv_loop_step cx k l =
     (if l_recv_done l then l
      else if l_wire l = [] then
        (if l_send_done l then l\<lparr> l_in := snd (ch_close (l_in l)), l_recv_done := True \<rparr> else l)
      else case poll_write cx (take k (l_wire l)) (l_in l) of
        (Ready (Inr n), ws, c) \<Rightarrow> l\<lparr> l_in := c, l_wire := drop n (l_wire l) \<rparr>
      | (Ready (Inl err), ws, c) \<Rightarrow> l\<lparr> l_in := snd (ch_close c), l_recv_done := True \<rparr>
      | (Pending, ws, c) \<Rightarrow> l\<lparr> l_in := c \<rparr>)"

inductive link_step :: "('m \<Rightarrow> bytes) \<Rightarrow> (bytes \<Rightarrow> string + 'm) \<Rightarrow> 'm link \<Rightarrow> 'm link \<Rightarrow> bool"
  for ser :: "'m \<Rightarrow> bytes" and de :: "bytes \<Rightarrow> string + 'm" where
  send: "poll_send_message (msg_encoded_len ser) (msg_encode_into ser) cx m (l_out l) = (Ready (Ok ()), ws, c) \<Longrightarrow>
     link_step ser de l (l\<lparr> l_out := c, l_sent := l_sent l @ [m] \<rparr>)"
| grant: "link_step ser de l (l\<lparr> l_out := snd (add_guarantees n (l_out l)) \<rparr>)"
| close_out: "link_step ser de l (l\<lparr> l_out := snd (ch_close (l_out l)) \<rparr>)"
| copy_out: "link_step ser de l (send_loop_step cx l)"
| copy_in: "link_step ser de l (recv_loop_step cx k l)"
| recv: "poll_recv_message (msg_decode_from de) cx (l_in l) = Some (Ready (Some (Ok m)), ws, c) \<Longrightarrow>
     link_step ser de l (l\<lparr> l_in := c, l_received := l_received l @ [m] \<rparr>)"

inductive_cases link_stepE: "link_step ser de l l'"

definition link_start :: "nat \<Rightarrow> Guarantees \<Rightarrow> 'm link" where
  "link_start cap g = \<lparr> l_out = inner (outbound_channel cap g), l_wire = [], l_in = inner (inbound_channel cap),
     l_send_done = False, l_recv_done = False, l_sent = [], l_received = [] \<rparr>"

inductive link_reach :: "('m \<Rightarrow> bytes) \<Rightarrow> (bytes \<Rightarrow> string + 'm) \<Rightarrow> nat \<Rightarrow> Guarantees \<Rightarrow> 'm link \<Rightarrow> bool"
  for ser de cap g where
  start: "link_reach ser de cap g (link_start cap g)"
| step: "link_reach ser de cap g l \<Longrightarrow> link_step ser de l l' \<Longrightarrow> link_reach ser de cap g l'"

definition link_inv :: "('m \<Rightarrow> bytes) \<Rightarrow> 'm link \<Rightarrow> bool" where
  "link_inv ser l \<longleftrightarrow>
     prefix (l_received l) (l_sent l) \<and>
     concat (map (msg_frame ser) (l_sent l)) =
       concat (map (msg_frame ser) (l_received l)) @ buf (l_in l) @ l_wire l @ buf (l_out l)"

text \<open>What was sent and not yet received is what is in flight.\<close>

lemma link_inv_pending:
  assumes "link_inv ser l"
  obtains ms where "l_sent l = l_received l @ ms"
    "buf (l_in l) @ l_wire l @ buf (l_out l) = concat (map (msg_frame ser) ms)"
  using assms by (auto simp: link_inv_def prefix_def)

lemma msg_frames_nil: "concat (map (msg_frame ser) ms) = [] \<longleftrightarrow> ms = []"
  by (cases ms) (simp_all add: msg.frame_nonempty)

lemma link_recv_next:
  assumes "link_inv ser l" "list_all (msg_wf ser de) (l_sent l)"
    and "msg_decode_from de (buf (l_in l)) = Ok (Decoded m n)" "n \<le> length (buf (l_in l))"
  shows "\<exists>ms. l_sent l = l_received l @ m # ms \<and> n = length (msg_frame ser m) \<and>
    drop n (buf (l_in l)) @ l_wire l @ buf (l_out l) = concat (map (msg_frame ser) ms)"
proof -
  obtain ms where ms: "l_sent l = l_received l @ ms"
    "buf (l_in l) @ l_wire l @ buf (l_out l) = concat (map (msg_frame ser) ms)"
    using link_inv_pending [OF assms(1)] by blast
  have "ms \<noteq> []"
    using assms(3) ms(2) by (auto simp: msg_decode_from_def)
  moreover have wf: "list_all (msg_wf ser de) ms"
    using assms(2) ms(1) by simp
  ultimately have "m = hd ms" and n: "n = length (msg_frame ser (hd ms))"
    using msg.decode_stream [OF wf, of "buf (l_in l)" "l_wire l @ buf (l_out l)"] ms(2) assms(3) by auto
  then obtain ms' where ms': "ms = m # ms'"
    using \<open>ms \<noteq> []\<close> by (cases ms) auto
  have "drop n (buf (l_in l) @ l_wire l @ buf (l_out l)) = concat (map (msg_frame ser) ms')"
    using ms(2) n ms' by simp
  then show ?thesis
    using ms(1) ms' n assms(4) by auto
qed

lemma link_step_inv:
  assumes "link_step ser de l l'" "link_inv ser l" "list_all (msg_wf ser de) (l_sent l)"
  shows "link_inv ser l'"
  using assms(1)
proof (cases rule: link_step.cases)
  case (send cx m ws c)
  then have c: "buf c = buf (l_out l) @ msg_frame ser m"
    by (auto simp: msg_enc.poll_send_eq [OF msg_encode_frame] split: if_splits)
  show ?thesis
    using assms(2) c unfolding send(1) by (simp add: link_inv_def prefix_append)
next
  case (grant n)
  then show ?thesis
    using assms(2) by (simp add: link_inv_def)
next
  case close_out
  then show ?thesis
    using assms(2) by (simp add: link_inv_def)
next
  case (copy_out cx)
  obtain p ws c where "poll_read_bytes cx (l_out l) = (p, ws, c)"
    by (metis prod_cases3)
  then show ?thesis
    using copy_out assms(2) poll_read_effect(3) [of cx "l_out l" p ws c]
    by (auto simp: link_inv_def send_loop_step_def split: poll.splits option.splits)
next
  case (copy_in cx k)
  obtain p ws c where w: "poll_write cx (take k (l_wire l)) (l_in l) = (p, ws, c)"
    by (metis prod_cases3)
  show ?thesis
  proof (cases "\<exists>n. p = Ready (Inr n)")
    case True
    then obtain n where n: "p = Ready (Inr n)" ..
    then have "buf c = buf (l_in l) @ take n (l_wire l)"
      using poll_write_effect(2) [OF w] by (auto simp: min_absorb1)
    then show ?thesis
      using copy_in assms(2) n w by (simp add: link_inv_def recv_loop_step_def)
  next
    case False
    then have "buf c = buf (l_in l)"
      using poll_write_effect(2) [OF w] by (auto split: poll.splits sum.splits)
    then show ?thesis
      using copy_in assms(2) False w
      by (auto simp: link_inv_def recv_loop_step_def split: poll.splits sum.splits)
  qed
next
  case (recv cx m ws c)
  then obtain n where "msg_decode_from de (buf (l_in l)) = Ok (Decoded m n)" "n \<le> length (buf (l_in l))"
    "buf c = drop n (buf (l_in l))"
    using poll_recv_effect(3) [OF recv(2)] by auto
  with link_recv_next [OF assms(2,3)] obtain ms where
    "l_sent l = l_received l @ m # ms" "buf c @ l_wire l @ buf (l_out l) = concat (map (msg_frame ser) ms)"
    by metis
  then show ?thesis
    using recv by (simp add: link_inv_def)
qed

lemma link_step_sent: "link_step ser de l l' \<Longrightarrow> prefix (l_sent l) (l_sent l')"
  by (auto elim!: link_stepE simp: send_loop_step_def recv_loop_step_def split: prod.splits poll.splits option.splits sum.splits)

lemma link_reach_inv:
  "link_reach ser de cap g l \<Longrightarrow> list_all (msg_wf ser de) (l_sent l) \<Longrightarrow> link_inv ser l"
proof (induction rule: link_reach.induct)
  case start
  then show ?case
    by (simp add: link_inv_def link_start_def outbound_channel_def inbound_channel_def shared_new_def)
next
  case (step l l')
  then have "list_all (msg_wf ser de) (l_sent l)"
    using link_step_sent [OF step.hyps(2)] by (auto simp: prefix_def)
  then show ?case
    using link_step_inv [OF step.hyps(2)] step by blast
qed

text \<open>The end of the stream travels behind the last byte.\<close>

definition link_end_inv :: "'m link \<Rightarrow> bool" where
  "link_end_inv l \<longleftrightarrow>
     (l_send_done l \<longrightarrow> is_closed (l_out l) \<and> buf (l_out l) = []) \<and>
     (is_closed (l_in l) \<longrightarrow> l_send_done l \<and> l_wire l = [])"

lemma send_loop_end_inv: "link_end_inv l \<Longrightarrow> link_end_inv (send_loop_step cx l)"
  by (auto simp: link_end_inv_def send_loop_step_def poll_read_bytes_def read_bytes_def wake_defs Let_def)

lemma recv_loop_end_inv: "link_end_inv l \<Longrightarrow> link_end_inv (recv_loop_step cx k l)"
  by (auto simp: link_end_inv_def recv_loop_step_def poll_write_def wake_defs Let_def)

lemma link_step_end_inv:
  assumes "link_step ser de l l'" "link_end_inv l"
  shows "link_end_inv l'"
  using assms(1)
proof (cases rule: link_step.cases)
  case (send cx m ws c)
  then show ?thesis
    using assms(2) by (auto simp: msg_enc.poll_send_eq [OF msg_encode_frame] link_end_inv_def split: if_splits)
next
  case (grant n)
  then show ?thesis
    using assms(2) by (auto simp: link_end_inv_def add_guarantees_def wake_defs Let_def)
next
  case close_out
  then show ?thesis
    using assms(2) by (auto simp: link_end_inv_def ch_close_def wake_defs Let_def)
next
  case (recv cx m ws c)
  then show ?thesis
    using assms(2)
    by (auto simp: link_end_inv_def poll_recv_message_def wake_defs Let_def
        split: if_splits sum.splits DecodeOutcome.splits)
qed (simp_all add: assms(2) send_loop_end_inv recv_loop_end_inv)

lemma link_reach_end_inv: "link_reach ser de cap g l \<Longrightarrow> link_end_inv l"
proof (induction rule: link_reach.induct)
  case start
  then show ?case
    by (simp add: link_end_inv_def link_start_def outbound_channel_def inbound_channel_def shared_new_def)
qed (rule link_step_end_inv)


definition id_link :: "bytes link"
  where "id_link = recv_loop_step 0 9 (send_loop_step 0 ((link_start 64 Unlimited)
           \<lparr> l_out := snd (ch_close (l_out (link_start 64 Unlimited :: bytes link))) \<rparr>))"

lemma id_link_reach: "link_reach id Inr 64 Unlimited id_link"
  unfolding id_link_def
  by (rule link_reach.step [OF link_reach.step [OF link_reach.step [OF link_reach.start link_step.close_out]
        link_step.copy_out] link_step.copy_in])


end
