(* ===== verification/Payload.thy ===== *)
theory Payload
  imports Util_Channel
begin

text \<open>
  Transmitting payloads: the chunking pipe of \<open>util/pipe.rs\<close>, the queue of \<open>util/queue.rs\<close>, and
  sending and receiving payloads (\<open>session/payload.rs\<close>).  The blob store is a parameter: the verifiable
  stream of a payload from an offset on, and the import of such a stream.
\<close>

section \<open>The queue\<close>

record 'a Queue =
  q_items :: "'a list"
  q_wakers :: "waker list"

definition queue_default :: "'a Queue"
  where "queue_default = \<lparr> q_items = [], q_wakers = [] \<rparr>"

definition queue_push_back :: "'a \<Rightarrow> 'a Queue \<Rightarrow> waker list \<times> 'a Queue"
  where "queue_push_back x q = (q_wakers q, q\<lparr> q_items := q_items q @ [x], q_wakers := [] \<rparr>)"

definition queue_poll_pop_front :: "waker \<Rightarrow> 'a Queue \<Rightarrow> 'a option poll \<times> 'a Queue" where
  "queue_poll_pop_front cx q =
     (case q_items q of
        x # xs \<Rightarrow> (Ready (Some x), q\<lparr> q_items := xs \<rparr>)
      | [] \<Rightarrow> (Pending, q\<lparr> q_wakers := q_wakers q @ [cx] \<rparr>))"

text \<open>The contract of a first-in first-out queue, by its contents.\<close>

locale fifo =
  fixes items :: "'q \<Rightarrow> 'a list"
    and push :: "'a \<Rightarrow> 'q \<Rightarrow> waker list \<times> 'q"
    and pop :: "waker \<Rightarrow> 'q \<Rightarrow> 'a option poll \<times> 'q"
  assumes push_items: "items (snd (push x q)) = items q @ [x]"
    and pop_items: "pop cx q = (p, q') \<Longrightarrow>
      (case p of Ready (Some x) \<Rightarrow> items q = x # items q' | Pending \<Rightarrow> items q = [] \<and> items q' = [] | Ready None \<Rightarrow> False)"
begin

lemma push_all_items: "items (fold (\<lambda>x q. snd (push x q)) xs q) = items q @ xs"
  by (induction xs arbitrary: q) (simp_all add: push_items)

lemma pop_after_push: "items q = [] \<Longrightarrow> fst (pop cx (snd (push x q))) = Ready (Some x)"
  using pop_items [of cx "snd (push x q)"] push_items [of x q]
  by (cases "pop cx (snd (push x q))") (auto split: poll.splits option.splits)

end

interpretation queue: fifo q_items queue_push_back queue_poll_pop_front
  by unfold_locales
    (auto simp: queue_push_back_def queue_poll_pop_front_def split: list.splits)

section \<open>The chunking pipe\<close>

record Pipe =
  p_buf :: bytes
  p_chunk_size :: nat
  p_read_waker :: "waker option"
  p_write_waker :: "waker option"
  p_closed :: bool

definition chunked_pipe :: "nat \<Rightarrow> Pipe" where
  "chunked_pipe chunk_size =
     \<lparr> p_buf = [], p_chunk_size = chunk_size, p_read_waker = None, p_write_waker = None, p_closed = False \<rparr>"

definition opt_list :: "'a option \<Rightarrow> 'a list"
  where "opt_list x = (case x of None \<Rightarrow> [] | Some a \<Rightarrow> [a])"

definition pipe_poll_write :: "bytes \<Rightarrow> waker \<Rightarrow> Pipe \<Rightarrow> (IoError + nat) poll \<times> waker list \<times> Pipe" where
  "pipe_poll_write data cx p =
     (if p_closed p then (Ready (Err BrokenPipe), [], p)
      else
        let remaining = p_chunk_size p - length (p_buf p);
            amount = min (length data) remaining
        in if 0 < amount
           then (Ready (Ok amount), opt_list (p_read_waker p),
                 p\<lparr> p_buf := p_buf p @ take amount data, p_read_waker := None \<rparr>)
           else (Pending, [], p\<lparr> p_write_waker := Some cx \<rparr>))"

definition pipe_poll_next :: "waker \<Rightarrow> Pipe \<Rightarrow> bytes option poll \<times> waker list \<times> Pipe" where
  "pipe_poll_next cx p =
     (if length (p_buf p) = p_chunk_size p
      then (Ready (Some (p_buf p)), opt_list (p_write_waker p), p\<lparr> p_buf := [], p_write_waker := None \<rparr>)
      else if p_closed p \<and> p_buf p \<noteq> [] then (Ready (Some (p_buf p)), [], p\<lparr> p_buf := [] \<rparr>)
      else if p_closed p then (Ready None, [], p)
      else (Pending, [], p\<lparr> p_read_waker := Some cx \<rparr>))"

definition pipe_close :: "Pipe \<Rightarrow> waker list \<times> Pipe" where
  "pipe_close p =
     (opt_list (p_read_waker p) @ opt_list (p_write_waker p),
      p\<lparr> p_closed := True, p_read_waker := None, p_write_waker := None \<rparr>)"

text \<open>
  The calls on a pipe, with the bytes it accepted and the chunks it returned.  A writer writes what
  is left of its data again and again (\<open>AsyncStreamWriter::write\<close>).
\<close>

datatype pipe_op = PWrite bytes waker | PNext waker | PClose

record pipe_state =
  ps_pipe :: Pipe
  ps_written :: bytes
  ps_chunks :: "bytes list"

fun pipe_step :: "pipe_op \<Rightarrow> pipe_state \<Rightarrow> pipe_state" where
  "pipe_step (PWrite data cx) s =
     (case pipe_poll_write data cx (ps_pipe s) of
        (Ready (Inr n), ws, p) \<Rightarrow> s\<lparr> ps_pipe := p, ps_written := ps_written s @ take n data \<rparr>
      | (_, ws, p) \<Rightarrow> s\<lparr> ps_pipe := p \<rparr>)"
| "pipe_step (PNext cx) s =
     (case pipe_poll_next cx (ps_pipe s) of
        (Ready (Some bs), ws, p) \<Rightarrow> s\<lparr> ps_pipe := p, ps_chunks := ps_chunks s @ [bs] \<rparr>
      | (_, ws, p) \<Rightarrow> s\<lparr> ps_pipe := p \<rparr>)"
| "pipe_step PClose s = s\<lparr> ps_pipe := snd (pipe_close (ps_pipe s)) \<rparr>"

definition pipe_start :: "nat \<Rightarrow> pipe_state"
  where "pipe_start n = \<lparr> ps_pipe = chunked_pipe n, ps_written = [], ps_chunks = [] \<rparr>"

definition pipe_run :: "nat \<Rightarrow> pipe_op list \<Rightarrow> pipe_state"
  where "pipe_run n ops = fold pipe_step ops (pipe_start n)"

definition pipe_inv :: "nat \<Rightarrow> pipe_state \<Rightarrow> bool" where
  "pipe_inv n s \<longleftrightarrow>
     p_chunk_size (ps_pipe s) = n \<and> length (p_buf (ps_pipe s)) \<le> n \<and>
     concat (ps_chunks s) @ p_buf (ps_pipe s) = ps_written s \<and>
     ((\<forall>c \<in> set (ps_chunks s). length c = n) \<or>
      p_closed (ps_pipe s) \<and> p_buf (ps_pipe s) = [] \<and>
        (\<exists>cs c. ps_chunks s = cs @ [c] \<and> c \<noteq> [] \<and> length c < n \<and> (\<forall>c \<in> set cs. length c = n)))"

lemma pipe_step_inv:
  assumes "0 < n" "pipe_inv n s"
  shows "pipe_inv n (pipe_step op s)"
proof (cases op)
  case (PWrite data cx)
  then show ?thesis
    using assms by (auto simp: pipe_inv_def pipe_poll_write_def Let_def)
next
  case (PNext cx)
  consider (full) "length (p_buf (ps_pipe s)) = n"
    | (rest) "length (p_buf (ps_pipe s)) < n" "p_closed (ps_pipe s)" "p_buf (ps_pipe s) \<noteq> []"
    | (none) "length (p_buf (ps_pipe s)) < n" "\<not> p_closed (ps_pipe s) \<or> p_buf (ps_pipe s) = []"
    using assms(2) by (auto simp: pipe_inv_def le_less)
  then show ?thesis
  proof cases
    case full
    then show ?thesis
      using assms PNext by (auto simp: pipe_inv_def pipe_poll_next_def)
  next
    case rest
    then show ?thesis
      using assms PNext by (auto simp: pipe_inv_def pipe_poll_next_def)
  next
    case none
    then show ?thesis
      using assms PNext by (auto simp: pipe_inv_def pipe_poll_next_def)
  qed
next
  case PClose
  then show ?thesis
    using assms by (auto simp: pipe_inv_def pipe_close_def)
qed

lemma pipe_run_inv: "0 < n \<Longrightarrow> pipe_inv n (pipe_run n ops)"
proof -
  assume n: "0 < n"
  have "pipe_inv n s \<Longrightarrow> pipe_inv n (fold pipe_step ops s)" for s
    by (induction ops arbitrary: s) (simp_all add: pipe_step_inv [OF n])
  then show ?thesis
    by (simp add: pipe_run_def) (simp add: pipe_start_def chunked_pipe_def pipe_inv_def)
qed

fun chunks_of :: "nat \<Rightarrow> bytes \<Rightarrow> bytes list" where
  "chunks_of n bs = (if bs = [] \<or> n = 0 then [] else take n bs # chunks_of n (drop n bs))"

declare chunks_of.simps [simp del]

lemma chunks_of_concat:
  assumes "0 < n" "\<forall>c \<in> set cs. length c = n" "length c < n"
  shows "chunks_of n (concat cs @ c) = (if c = [] then cs else cs @ [c])"
  using assms(2)
proof (induction cs)
  case Nil
  then show ?case
    using assms(1,3) by (simp add: chunks_of.simps [of n c] chunks_of.simps [of n "[]"])
next
  case (Cons d cs)
  then have "d \<noteq> []"
    using assms(1) by auto
  then show ?case
    using Cons assms(1) by (simp add: chunks_of.simps [of n "d @ concat cs @ c"])
qed

text \<open>
  Whatever the interleaving of writes, reads and closing, a chunking pipe hands on the bytes it
  accepted unchanged and in order, never buffers more than one chunk, and once it is closed and drained
  the chunks are the accepted bytes cut into pieces of the chunk size, the last one possibly shorter.
\<close>

theorem chunked_pipe_chunks:
  assumes "0 < n" "s = pipe_run n ops"
  shows "concat (ps_chunks s) @ p_buf (ps_pipe s) = ps_written s \<and>
         length (p_buf (ps_pipe s)) \<le> n \<and>
         (p_closed (ps_pipe s) \<and> fst (pipe_poll_next cx (ps_pipe s)) = Ready None \<longrightarrow>
            ps_chunks s = chunks_of n (ps_written s))"
proof -
  have inv: "pipe_inv n s"
    using pipe_run_inv [OF assms(1)] assms(2) by simp
  moreover have "ps_chunks s = chunks_of n (ps_written s)" if "p_buf (ps_pipe s) = []"
  proof -
    have w: "ps_written s = concat (ps_chunks s)"
      using inv that by (auto simp: pipe_inv_def)
    consider "\<forall>c \<in> set (ps_chunks s). length c = n"
      | cs c where "ps_chunks s = cs @ [c]" "c \<noteq> []" "length c < n" "\<forall>c \<in> set cs. length c = n"
      using inv by (auto simp: pipe_inv_def)
    then show ?thesis
    proof cases
      case 1
      then show ?thesis
        using chunks_of_concat [OF assms(1), of "ps_chunks s" "[]"] assms(1) w by simp
    next
      case (2 cs c)
      then show ?thesis
        using chunks_of_concat [OF assms(1), of cs c] w by simp
    qed
  qed
  moreover have "p_buf (ps_pipe s) = []" if "fst (pipe_poll_next cx (ps_pipe s)) = Ready None"
    using that by (auto simp: pipe_poll_next_def split: if_splits)
  ultimately show ?thesis
    by (auto simp: pipe_inv_def)
qed

theorem chunked_pipe_chunks_witness:
  "ps_chunks (pipe_run 2 [PWrite [1, 2, 3] 0, PNext 1, PWrite [3] 0, PClose, PNext 1]) = chunks_of 2 [1, 2, 3]"
  using chunked_pipe_chunks [of 2 _ "[PWrite [1, 2, 3] 0, PNext 1, PWrite [3] 0, PClose, PNext 1]", OF _ refl, of 1]
  by (simp add: pipe_run_def pipe_start_def chunked_pipe_def pipe_poll_write_def pipe_poll_next_def
      pipe_close_def Let_def)

section \<open>Sending a payload\<close>

definition CHUNK_SIZE :: nat
  where "CHUNK_SIZE = 1024 * 32"

text \<open>
  \<open>send_payload_chunked\<close>, with the lookup of the blob store and the verifiable stream of a blob as
  arguments; the messages that are sent are part of the result.  The pipe between the stream and the
  sender cuts the stream into chunks.
\<close>

definition send_payload_chunked ::
  "(PayloadDigest \<Rightarrow> string + 'blob option) \<Rightarrow> ('blob \<Rightarrow> u64 \<Rightarrow> string + bytes) \<Rightarrow> PayloadDigest \<Rightarrow> u64
   \<Rightarrow> (bytes \<Rightarrow> 'm) \<Rightarrow> Error + (bool \<times> 'm list)" where
  "send_payload_chunked get verifiable_stream digest offset f =
     res_bind (map_err E_PayloadStore (get digest)) (\<lambda>entry.
       case entry of
         None \<Rightarrow> Ok (False, [])
       | Some blob \<Rightarrow>
           res_bind (map_err E_PayloadStore (verifiable_stream blob offset)) (\<lambda>data.
             Ok (True, map f (chunks_of CHUNK_SIZE data))))"

section \<open>Receiving a payload\<close>

record CurrentPayloadInner =
  cp_payload_digest :: PayloadDigest
  cp_expected_length :: u64
  cp_received_length :: u64
  cp_total_length :: u64
  cp_offset :: u64
  cp_writer :: "bytes list option"

type_synonym CurrentPayload = "CurrentPayloadInner option"

text \<open>The subtraction wraps, as in a release build.\<close>

definition cp_set ::
  "PayloadDigest \<Rightarrow> u64 \<Rightarrow> u64 option \<Rightarrow> u64 option \<Rightarrow> CurrentPayload \<Rightarrow> Error + CurrentPayload" where
  "cp_set digest total_length available_length offset cp =
     (if cp \<noteq> None then Err E_InvalidMessageInCurrentState
      else
        let offset' = (case offset of None \<Rightarrow> 0 | Some n \<Rightarrow> n);
            available = (case available_length of None \<Rightarrow> total_length | Some n \<Rightarrow> n)
        in Ok (Some \<lparr> cp_payload_digest = digest, cp_expected_length = available - offset', cp_received_length = 0,
                      cp_total_length = total_length, cp_offset = offset', cp_writer = None \<rparr>))"

text \<open>
  \<open>recv_chunk\<close>: the writer collects the chunks that go to the import task; \<open>alive\<close> says whether that
  task still takes chunks.  Its errors are those of \<open>anyhow\<close>, known by their message.
\<close>

definition cp_recv_chunk :: "bool \<Rightarrow> bytes \<Rightarrow> CurrentPayload \<Rightarrow> (string + unit) \<times> CurrentPayload" where
  "cp_recv_chunk alive chunk cp =
     (case cp of
        None \<Rightarrow> (Err ''received a message that is not valid in the current session state'', None)
      | Some state \<Rightarrow>
          (let chunks = (case cp_writer state of None \<Rightarrow> [] | Some cs \<Rightarrow> cs)
           in if alive
              then (Ok (), Some (state\<lparr> cp_writer := Some (chunks @ [chunk]),
                      cp_received_length := cp_received_length state + of_nat (length chunk) \<rparr>))
              else (Err ''channel closed'', Some (state\<lparr> cp_writer := Some chunks \<rparr>))))"

definition cp_is_complete :: "CurrentPayload \<Rightarrow> bool" where
  "cp_is_complete cp =
     (case cp of None \<Rightarrow> False | Some state \<Rightarrow> cp_received_length state \<ge> cp_expected_length state)"

text \<open>The result of the import task is a parameter.\<close>

definition cp_finalize ::
  "(PayloadDigest \<Rightarrow> u64 \<Rightarrow> u64 \<Rightarrow> bytes \<Rightarrow> string + unit) \<Rightarrow> CurrentPayload \<Rightarrow> (Error + unit) \<times> CurrentPayload" where
  "cp_finalize import_stream cp =
     (case cp of
        None \<Rightarrow> (Err E_InvalidMessageInCurrentState, None)
      | Some state \<Rightarrow>
          (case cp_writer state of
             None \<Rightarrow> (Ok (), None)
           | Some chunks \<Rightarrow>
               (map_err E_PayloadStore (import_stream (cp_payload_digest state) (cp_total_length state)
                  (cp_offset state) (concat chunks)), None)))"

definition cp_is_active :: "CurrentPayload \<Rightarrow> bool"
  where "cp_is_active cp = (case cp of None \<Rightarrow> False | Some state \<Rightarrow> cp_writer state \<noteq> None)"

definition cp_ensure_none :: "CurrentPayload \<Rightarrow> Error + unit"
  where "cp_ensure_none cp = (if cp_is_active cp then Err E_InvalidMessageInCurrentState else Ok ())"

definition cp_recv_all :: "bytes list \<Rightarrow> CurrentPayload \<Rightarrow> CurrentPayload"
  where "cp_recv_all chunks cp = fold (\<lambda>c cp. snd (cp_recv_chunk True c cp)) chunks cp"

lemma cp_recv_all_Some:
  assumes "unat (cp_received_length st) + length (concat chunks) < 2 ^ 64" "chunks \<noteq> []"
  shows "\<exists>st'. cp_recv_all chunks (Some st) = Some st' \<and>
    unat (cp_received_length st') = unat (cp_received_length st) + length (concat chunks) \<and>
    cp_writer st' = Some ((case cp_writer st of None \<Rightarrow> [] | Some cs \<Rightarrow> cs) @ chunks) \<and>
    cp_payload_digest st' = cp_payload_digest st \<and> cp_total_length st' = cp_total_length st \<and>
    cp_offset st' = cp_offset st \<and> cp_expected_length st' = cp_expected_length st"
  using assms
proof (induction chunks arbitrary: st)
  case (Cons c cs)
  let ?st = "st\<lparr> cp_writer := Some ((case cp_writer st of None \<Rightarrow> [] | Some cs \<Rightarrow> cs) @ [c]),
      cp_received_length := cp_received_length st + of_nat (length c) \<rparr>"
  have step: "cp_recv_all (c # cs) (Some st) = cp_recv_all cs (Some ?st)"
    by (simp add: cp_recv_all_def cp_recv_chunk_def Let_def)
  have u: "unat (cp_received_length ?st) = unat (cp_received_length st) + length c"
    using Cons.prems(1) by (simp add: unat_word_ariths unat_of_nat)
  show ?case
  proof (cases "cs = []")
    case True
    then show ?thesis
      using step u by (simp add: cp_recv_all_def)
  next
    case False
    moreover have "unat (cp_received_length ?st) + length (concat cs) < 2 ^ 64"
      using Cons.prems(1) by (simp only: u) (simp del: length_concat)
    ultimately obtain st' where "cp_recv_all cs (Some ?st) = Some st'"
      "unat (cp_received_length st') = unat (cp_received_length ?st) + length (concat cs)"
      "cp_writer st' = Some ((case cp_writer ?st of None \<Rightarrow> [] | Some cs \<Rightarrow> cs) @ cs)"
      "cp_payload_digest st' = cp_payload_digest ?st" "cp_total_length st' = cp_total_length ?st"
      "cp_offset st' = cp_offset ?st" "cp_expected_length st' = cp_expected_length ?st"
      using Cons.IH [of ?st] by blast
    then show ?thesis
      unfolding step u by (intro exI [of _ st']) simp
  qed
qed simp

text \<open>
  Receiving a payload that was announced with an offset not beyond the available length: after the
  chunks arrived, the payload is complete exactly when they hold at least the announced number of bytes,
  and finalising hands the store the digest, total length and offset that were announced with the
  chunks put together in order, and leaves no current payload.
\<close>

theorem current_payload_received:
  assumes "offset \<le> available" "length (concat chunks) < 2 ^ 64" "chunks \<noteq> []"
    and "cp_set digest total_len (Some available) (Some offset) None = Ok cp"
  shows "(cp_is_complete (cp_recv_all chunks cp) \<longleftrightarrow> unat available - unat offset \<le> length (concat chunks)) \<and>
    cp_finalize imp (cp_recv_all chunks cp) =
      (map_err E_PayloadStore (imp digest total_len offset (concat chunks)), None)"
proof -
  let ?st = "\<lparr> cp_payload_digest = digest, cp_expected_length = available - offset, cp_received_length = 0,
      cp_total_length = total_len, cp_offset = offset, cp_writer = None \<rparr>"
  have cp: "cp = Some ?st"
    using assms(4) by (simp add: cp_set_def Let_def)
  obtain st' where "cp_recv_all chunks (Some ?st) = Some st'" "unat (cp_received_length st') = length (concat chunks)"
    "cp_writer st' = Some chunks" "cp_payload_digest st' = digest" "cp_total_length st' = total_len"
    "cp_offset st' = offset" "cp_expected_length st' = available - offset"
    using cp_recv_all_Some [of ?st chunks] assms(2,3) by auto
  then show ?thesis
    using assms(1) by (simp add: cp cp_is_complete_def cp_finalize_def word_le_nat_alt unat_sub)
qed

theorem current_payload_received_witness:
  "\<exists>cp. cp_set [7] 4 (Some 3) (Some 1) None = Ok cp \<and> cp_is_complete (cp_recv_all [[5], [6]] cp) \<and>
     cp_finalize (\<lambda>_ _ _ bs. if bs = [5, 6] then Ok () else Err '''') (cp_recv_all [[5], [6]] cp) = (Ok (), None)"
proof -
  obtain cp where cp: "cp_set [7] 4 (Some 3) (Some 1) None = Ok cp"
    by (simp add: cp_set_def Let_def)
  then show ?thesis
    using current_payload_received [OF _ _ _ cp, of "[[5], [6]]"
        "\<lambda>_ _ _ bs. if bs = [5, 6] then Ok () else Err ''''"]
    by simp
qed

end
