(* ===== verification/Reconciler.thy ===== *)
theory Reconciler
  imports Outcome Aoi_Finder Payload Memory_Store
begin

text \<open>
  Range-based set reconciliation (\<open>session/reconciler.rs\<close>).  The entry storage, the payload store and
  the check of a token are arguments, in the record \<open>recon_env\<close>; the storage is later the in-memory
  store.  The state of a reconciler holds its targets, the inputs that reach its inbox (the end of the
  list is the end of the inbox), the state of a sequence of entries being received, the store, the static
  tokens, and what it sent on the reconciliation and static token channels and yielded as output.
  The two range counters are 64-bit; overflowing one is the outcome \<open>Overflowed\<close>.
\<close>

section \<open>State\<close>

record ('s, 'cap, 'sg, 'blob) recon_env =
  re_wdm :: wdm
  re_fp :: fp_env
  re_role :: Role
  re_session_id :: u64
  re_max_eager_payload_size :: u64
  re_waker :: waker
  re_get_authorised_entries :: "'s \<Rightarrow> ('cap, 'sg) get_authorised"
  re_ingest_entry :: "('cap, 'sg) AuthorisedEntry \<Rightarrow> EntryOrigin \<Rightarrow> 's \<Rightarrow> (string + bool \<times> 's) option"
  re_is_authorised_write :: "Entry \<Rightarrow> ('cap, 'sg) AuthorisationToken \<Rightarrow> bool"
  re_get_payload :: "PayloadDigest \<Rightarrow> string + 'blob option"
  re_verifiable_stream :: "'blob \<Rightarrow> u64 \<Rightarrow> string + bytes"
  re_import_alive :: "CurrentPayload \<Rightarrow> bool"
  re_import_stream :: "PayloadDigest \<Rightarrow> u64 \<Rightarrow> u64 \<Rightarrow> bytes \<Rightarrow> string + unit"

type_synonym TargetId = "AreaOfInterestHandle \<times> AreaOfInterestHandle"

datatype ReconOutput = ReconciledArea NamespaceId AreaOfInterest | ReconciledAll

record Target =
  tg_intersection :: AoiIntersection
  tg_our_uncovered_ranges :: "u64 set"
  tg_started :: bool
  tg_our_range_counter :: u64
  tg_their_range_counter :: u64

record EntryStateInner =
  es_target :: TargetId
  es_current_payload :: CurrentPayload

type_synonym EntryState = "EntryStateInner option"

record ('s, 'cap, 'sg) recon =
  rc_map :: "(TargetId, Target) hash_map"
  rc_inbox :: "AoiIntersection list"
  rc_entry_state :: EntryState
  rc_store :: 's
  rc_tokens :: "'cap StaticTokens"
  rc_closed :: bool
  rc_sent :: "'sg ReconciliationMessage list"
  rc_sent_tokens :: "'cap SetupBindStaticToken list"
  rc_out :: "ReconOutput list"

type_synonym ('s, 'cap, 'sg, 'a) rprog = "(('s, 'cap, 'sg) recon, 'a) prog"

section \<open>Sending\<close>

definition rc_send :: "(WriteError \<Rightarrow> Error) \<Rightarrow> 'sg ReconciliationMessage \<Rightarrow> ('s, 'cap, 'sg, unit) rprog" where
  "rc_send err m =
     (\<lambda>s. if rc_closed s then (Failed (err WE_Closed), s) else (Done (), s\<lparr> rc_sent := rc_sent s @ [m] \<rparr>))"

definition rc_bind_and_send_ours :: "'cap \<Rightarrow> ('s, 'cap, 'sg, StaticTokenHandle) rprog" where
  "rc_bind_and_send_ours tok =
     (\<lambda>s. case bind_and_send_ours tok (rc_tokens s) of
        (h, msgs, tokens) \<Rightarrow>
          if msgs \<noteq> [] \<and> rc_closed s then (Failed (E_Write WE_Closed), s\<lparr> rc_tokens := tokens \<rparr>)
          else (Done h, s\<lparr> rc_tokens := tokens, rc_sent_tokens := rc_sent_tokens s @ msgs \<rparr>))"

definition rc_yield :: "ReconOutput \<Rightarrow> ('s, 'cap, 'sg, unit) rprog"
  where "rc_yield x = modify (\<lambda>s. s\<lparr> rc_out := rc_out s @ [x] \<rparr>)"

fun send_all :: "'sg ReconciliationMessage list \<Rightarrow> ('s, 'cap, 'sg, unit) rprog" where
  "send_all [] = ret ()"
| "send_all (m # ms) = rbind (rc_send E_Write m) (\<lambda>_. send_all ms)"

section \<open>Targets\<close>

abbreviation tg_id :: "Target \<Rightarrow> TargetId"
  where "tg_id t \<equiv> ai_id (tg_intersection t)"

abbreviation tg_namespace :: "Target \<Rightarrow> NamespaceId"
  where "tg_namespace t \<equiv> ai_namespace (tg_intersection t)"

definition next_range_count_ours :: "Target \<Rightarrow> (u64 \<times> Target) option" where
  "next_range_count_ours t =
     (if tg_our_range_counter t = - 1 then None
      else Some (tg_our_range_counter t, t\<lparr> tg_our_range_counter := tg_our_range_counter t + 1 \<rparr>))"

definition next_range_count_theirs :: "Target \<Rightarrow> (u64 \<times> Target) option" where
  "next_range_count_theirs t =
     (if tg_their_range_counter t = - 1 then None
      else Some (tg_their_range_counter t, t\<lparr> tg_their_range_counter := tg_their_range_counter t + 1 \<rparr>))"

definition mark_our_next_range_pending :: "Target \<Rightarrow> Target option" where
  "mark_our_next_range_pending t =
     map_option (\<lambda>(range_count, t). t\<lparr> tg_our_uncovered_ranges := insert range_count (tg_our_uncovered_ranges t) \<rparr>)
       (next_range_count_ours t)"

definition mark_our_range_covered :: "u64 \<Rightarrow> Target \<Rightarrow> Error + Target" where
  "mark_our_range_covered range_count t =
     (if range_count \<notin> tg_our_uncovered_ranges t
      then Err (E_InvalidState ''attempted to mark an unknown range as covered'')
      else Ok (t\<lparr> tg_our_uncovered_ranges := tg_our_uncovered_ranges t - {range_count} \<rparr>))"

definition tg_is_complete :: "Target \<Rightarrow> bool"
  where "tg_is_complete t \<longleftrightarrow> tg_started t \<and> tg_our_uncovered_ranges t = {}"

definition tg_send_fingerprint ::
  "Range3d \<Rightarrow> Fingerprint \<Rightarrow> u64 option \<Rightarrow> Target \<Rightarrow> ('s, 'cap, 'sg, Target) rprog" where
  "tg_send_fingerprint rg fingerprint covers t =
     rbind (checked (mark_our_next_range_pending t)) (\<lambda>t.
     rbind (rc_send (\<lambda>_. E_Store ''failed to send data'') (RM_SendFingerprint
              \<lparr> rsf_range = rg, rsf_fingerprint = fingerprint,
                rsf_sender_handle = ai_our_handle (tg_intersection t),
                rsf_receiver_handle = ai_their_handle (tg_intersection t), rsf_covers = covers \<rparr>)) (\<lambda>_.
       ret t))"

text \<open>The loop over the entries of a range; the first error of the iterator ends it.\<close>

fun send_entries ::
  "('s, 'cap, 'sg, 'blob) recon_env \<Rightarrow> (string + ('cap, 'sg) AuthorisedEntry) list \<Rightarrow> ('s, 'cap, 'sg, unit) rprog" where
  "send_entries v [] = ret ()"
| "send_entries v (item # items) =
     rbind (try_anyhow item) (\<lambda>authorised_entry.
       let entry = ae_entry authorised_entry;
           payload_len = e_payload_length entry;
           available = payload_len
       in
         rbind (rc_bind_and_send_ours (t_capability (ae_token authorised_entry))) (\<lambda>static_token_handle.
         rbind (rc_send E_Write (RM_SendEntry
                  \<lparr> rse_entry = lengthy_entry_new entry available, rse_static_token_handle = static_token_handle,
                    rse_dynamic_token = t_signature (ae_token authorised_entry) \<rparr>)) (\<lambda>_.
         rbind (if payload_len \<le> re_max_eager_payload_size v
                then rbind (try_res (send_payload_chunked (re_get_payload v) (re_verifiable_stream v)
                       (e_payload_digest entry) 0 (\<lambda>bs. RM_SendPayload \<lparr> rsp_bytes = bs \<rparr>))) (\<lambda>(sent, msgs). send_all msgs)
                else ret ()) (\<lambda>_.
         rbind (rc_send E_Write (RM_TerminatePayload \<lparr> rtp_is_final = (items = []) \<rparr>)) (\<lambda>_.
           send_entries v items)))))"

definition announce_and_send_entries ::
  "('s, 'cap, 'sg, 'blob) recon_env \<Rightarrow> Range3d \<Rightarrow> bool \<Rightarrow> u64 option \<Rightarrow> bool \<Rightarrow> Target \<Rightarrow> ('s, 'cap, 'sg, Target) rprog" where
  "announce_and_send_entries v rg want_response covers is_empty t =
     rbind (if want_response then checked (mark_our_next_range_pending t) else ret t) (\<lambda>t.
     rbind (if is_empty then ret None
            else rbind (gets rc_store) (\<lambda>st.
                   rbind (try_anyhow (re_get_authorised_entries v st (tg_namespace t) rg)) (\<lambda>items. ret (Some items)))) (\<lambda>iter.
     rbind (rc_send E_Write (RM_AnnounceEntries
              \<lparr> rae_range = rg, rae_is_empty = (case iter of None \<Rightarrow> True | Some items \<Rightarrow> items = []),
                rae_want_response = want_response, rae_will_sort = False,
                rae_sender_handle = ai_our_handle (tg_intersection t),
                rae_receiver_handle = ai_their_handle (tg_intersection t), rae_covers = covers \<rparr>)) (\<lambda>_.
     rbind (case iter of None \<Rightarrow> ret () | Some items \<Rightarrow> send_entries v items) (\<lambda>_. ret t))))"

definition tg_initiate :: "('s, 'cap, 'sg, 'blob) recon_env \<Rightarrow> Target \<Rightarrow> ('s, 'cap, 'sg, Target) rprog" where
  "tg_initiate v t =
     rbind (unwrap (area_to_range (re_wdm v) (ai_area (tg_intersection t)))) (\<lambda>rg.
     rbind (gets rc_store) (\<lambda>st.
     rbind (try_anyhow (reader_fingerprint (re_fp v) (re_get_authorised_entries v st) (tg_namespace t) rg)) (\<lambda>fingerprint.
       tg_send_fingerprint rg fingerprint None t)))"

definition tg_init :: "('s, 'cap, 'sg, 'blob) recon_env \<Rightarrow> AoiIntersection \<Rightarrow> ('s, 'cap, 'sg, Target) rprog" where
  "tg_init v intersection =
     (let this = \<lparr> tg_intersection = intersection, tg_our_uncovered_ranges = {}, tg_started = False,
                   tg_our_range_counter = 0, tg_their_range_counter = 0 \<rparr>
      in if re_role v = Alfie then tg_initiate v this else ret this)"

text \<open>The loop over the parts of a split range; the last part carries the range that is covered.\<close>

fun send_splits ::
  "('s, 'cap, 'sg, 'blob) recon_env \<Rightarrow> u64 \<Rightarrow> RangeSplit list \<Rightarrow> Target \<Rightarrow> ('s, 'cap, 'sg, Target) rprog" where
  "send_splits v range_count [] t = ret t"
| "send_splits v range_count ((subrange, action) # splits) t =
     (let is_last = (splits = []);
          covers = (if is_last then Some range_count else None)
      in rbind (case action of
                  SplitSendEntries cnt \<Rightarrow> announce_and_send_entries v subrange True covers (cnt = 0) t
                | SplitSendFingerprint fingerprint \<Rightarrow> tg_send_fingerprint subrange fingerprint covers t) (\<lambda>t.
           send_splits v range_count splits t))"

definition mark_covered :: "u64 option \<Rightarrow> Target \<Rightarrow> ('s, 'cap, 'sg, Target) rprog" where
  "mark_covered covers t = (case covers of None \<Rightarrow> ret t | Some n \<Rightarrow> try_res (mark_our_range_covered n t))"

definition tg_received_send_fingerprint ::
  "('s, 'cap, 'sg, 'blob) recon_env \<Rightarrow> ReconciliationSendFingerprint \<Rightarrow> Target \<Rightarrow> ('s, 'cap, 'sg, Target) rprog" where
  "tg_received_send_fingerprint v message t =
     rbind (mark_covered (rsf_covers message) (t\<lparr> tg_started := True \<rparr>)) (\<lambda>t.
     rbind (checked (next_range_count_theirs t)) (\<lambda>(range_count, t).
     rbind (gets rc_store) (\<lambda>st.
     rbind (try_anyhow (reader_fingerprint (re_fp v) (re_get_authorised_entries v st) (tg_namespace t) (rsf_range message))) (\<lambda>our_fingerprint.
       if our_fingerprint = rsf_fingerprint message
       then announce_and_send_entries v (rsf_range message) False (Some range_count) True t
       else if fp_is_empty (rsf_fingerprint message)
       then announce_and_send_entries v (rsf_range message) True (Some range_count) False t
       else
         rbind (unwrap (split_range (re_wdm v) (re_fp v) (re_get_authorised_entries v st) (tg_namespace t)
                  (rsf_range message) split_opts_default)) (\<lambda>r.
         rbind (try_anyhow r) (\<lambda>splits.
           send_splits v range_count splits t))))))"

definition tg_received_announce_entries ::
  "('s, 'cap, 'sg, 'blob) recon_env \<Rightarrow> ReconciliationAnnounceEntries \<Rightarrow> Target \<Rightarrow> ('s, 'cap, 'sg, Target) rprog" where
  "tg_received_announce_entries v message t =
     rbind (mark_covered (rae_covers message) (t\<lparr> tg_started := True \<rparr>)) (\<lambda>t.
       if rae_want_response message
       then rbind (checked (next_range_count_theirs t)) (\<lambda>(range_count, t).
              announce_and_send_entries v (rae_range message) False (Some range_count) False t)
       else ret t)"

section \<open>The map of targets\<close>

definition init_target :: "('s, 'cap, 'sg, 'blob) recon_env \<Rightarrow> AoiIntersection \<Rightarrow> ('s, 'cap, 'sg, TargetId) rprog" where
  "init_target v intersection =
     rbind (tg_init v intersection) (\<lambda>target.
     rbind (modify (\<lambda>s. s\<lparr> rc_map := hm_insert (tg_id target) target (rc_map s) \<rparr>)) (\<lambda>_.
       ret (tg_id target)))"

fun wait_for_target ::
  "('s, 'cap, 'sg, 'blob) recon_env \<Rightarrow> TargetId \<Rightarrow> AoiIntersection list \<Rightarrow> ('s, 'cap, 'sg, unit) rprog" where
  "wait_for_target v requested_id [] = ret ()"
| "wait_for_target v requested_id (intersection # inbox) =
     rbind (modify (\<lambda>s. s\<lparr> rc_inbox := inbox \<rparr>)) (\<lambda>_.
     rbind (init_target v intersection) (\<lambda>i.
       if i = requested_id then ret () else wait_for_target v requested_id inbox))"

definition get_eventually :: "('s, 'cap, 'sg, 'blob) recon_env \<Rightarrow> TargetId \<Rightarrow> ('s, 'cap, 'sg, Target) rprog" where
  "get_eventually v requested_id =
     rbind (gets rc_map) (\<lambda>m.
     rbind (if requested_id \<notin> set (hm_keys m)
            then rbind (gets rc_inbox) (\<lambda>inbox. wait_for_target v requested_id inbox) else ret ()) (\<lambda>_.
     rbind (gets rc_map) (\<lambda>m. unwrap (map_of m requested_id))))"

text \<open>A change of a target in place.\<close>

definition put_target :: "TargetId \<Rightarrow> Target \<Rightarrow> ('s, 'cap, 'sg, unit) rprog"
  where "put_target i t = modify (\<lambda>s. s\<lparr> rc_map := hm_insert i t (rc_map s) \<rparr>)"

section \<open>Entries being received\<close>

definition es_is_empty :: "EntryState \<Rightarrow> bool"
  where "es_is_empty e \<longleftrightarrow> e = None"

definition es_received_announce_entries :: "TargetId \<Rightarrow> bool \<Rightarrow> EntryState \<Rightarrow> Error + EntryState" where
  "es_received_announce_entries target is_empty e =
     (if e \<noteq> None then Err E_InvalidMessageInCurrentState
      else Ok (if is_empty then None else Some \<lparr> es_target = target, es_current_payload = None \<rparr>))"

definition es_get_mut :: "EntryState \<Rightarrow> Error + EntryStateInner"
  where "es_get_mut e = ok_or E_InvalidMessageInCurrentState e"

definition es_received_send_entry :: "PayloadDigest \<Rightarrow> u64 \<Rightarrow> u64 \<Rightarrow> EntryState \<Rightarrow> Error + EntryState" where
  "es_received_send_entry digest total_payload_length available_payload_length e =
     res_bind (es_get_mut e) (\<lambda>st.
     res_bind (cp_ensure_none (es_current_payload st)) (\<lambda>_.
     res_bind (cp_set digest total_payload_length (Some available_payload_length) None (es_current_payload st)) (\<lambda>cp.
       Ok (Some (st\<lparr> es_current_payload := cp \<rparr>)))))"

definition es_received_send_payload ::
  "('s, 'cap, 'sg, 'blob) recon_env \<Rightarrow> bytes \<Rightarrow> EntryState \<Rightarrow> Error + EntryState" where
  "es_received_send_payload v bs e =
     res_bind (es_get_mut e) (\<lambda>st.
       let (r, cp) = cp_recv_chunk (re_import_alive v (es_current_payload st)) bs (es_current_payload st)
       in res_bind (map_err E_Store r) (\<lambda>_. Ok (Some (st\<lparr> es_current_payload := cp \<rparr>))))"

definition es_received_terminate_payload ::
  "('s, 'cap, 'sg, 'blob) recon_env \<Rightarrow> bool \<Rightarrow> EntryState \<Rightarrow> Error + (TargetId option \<times> EntryState)" where
  "es_received_terminate_payload v is_final e =
     res_bind (es_get_mut e) (\<lambda>st.
       let (r, cp) = cp_finalize (re_import_stream v) (es_current_payload st)
       in res_bind r (\<lambda>_.
            if is_final then Ok (Some (es_target st), None)
            else Ok (None, Some (st\<lparr> es_current_payload := cp \<rparr>))))"

section \<open>The reconciler\<close>

definition complete_target :: "TargetId \<Rightarrow> ('s, 'cap, 'sg, unit) rprog" where
  "complete_target i =
     rbind (gets rc_map) (\<lambda>m.
     rbind (try_res (ok_or E_InvalidMessageInCurrentState (map_of m i))) (\<lambda>target.
     rbind (modify (\<lambda>s. s\<lparr> rc_map := hm_remove i (rc_map s) \<rparr>)) (\<lambda>_.
     rbind (rc_yield (ReconciledArea (tg_namespace target) (ai_intersection (tg_intersection target)))) (\<lambda>_.
     rbind (gets rc_map) (\<lambda>m.
       if m = [] then rc_yield ReconciledAll else ret ())))))"

text \<open>A change of the state of the entries in place.\<close>

definition with_entry_state :: "(EntryState \<Rightarrow> Error + 'a \<times> EntryState) \<Rightarrow> ('s, 'cap, 'sg, 'a) rprog" where
  "with_entry_state f =
     rbind (gets rc_entry_state) (\<lambda>e.
     rbind (try_res (f e)) (\<lambda>(a, e').
     rbind (modify (\<lambda>s. s\<lparr> rc_entry_state := e' \<rparr>)) (\<lambda>_. ret a)))"

definition complete_if_done :: "TargetId \<Rightarrow> Target \<Rightarrow> ('s, 'cap, 'sg, unit) rprog" where
  "complete_if_done i target =
     rbind (gets rc_entry_state) (\<lambda>e. if tg_is_complete target \<and> es_is_empty e then complete_target i else ret ())"

definition rc_authorise_entry ::
  "('s, 'cap, 'sg, 'blob) recon_env \<Rightarrow> 'sg ReconciliationSendEntry \<Rightarrow> ('s, 'cap, 'sg, ('cap, 'sg) AuthorisedEntry) rprog" where
  "rc_authorise_entry v message =
     (\<lambda>s. case poll_authorise_entry (re_is_authorised_write v) (le_entry (rse_entry message))
              (rse_static_token_handle message) (rse_dynamic_token message) (re_waker v) (rc_tokens s) of
        (Pending, tokens) \<Rightarrow> (Blocked, s\<lparr> rc_tokens := tokens \<rparr>)
      | (Ready r, tokens) \<Rightarrow> try_res r (s\<lparr> rc_tokens := tokens \<rparr>))"

definition rc_ingest :: "('s, 'cap, 'sg, 'blob) recon_env \<Rightarrow> ('cap, 'sg) AuthorisedEntry \<Rightarrow> ('s, 'cap, 'sg, unit) rprog" where
  "rc_ingest v e =
     rbind (gets rc_store) (\<lambda>st.
     rbind (unwrap (re_ingest_entry v e (Remote (re_session_id v)) st)) (\<lambda>r.
     rbind (try_anyhow r) (\<lambda>(b, st'). modify (\<lambda>s. s\<lparr> rc_store := st' \<rparr>))))"

fun received_message ::
  "('s, 'cap, 'sg, 'blob) recon_env \<Rightarrow> 'sg ReconciliationMessage \<Rightarrow> ('s, 'cap, 'sg, unit) rprog" where
  "received_message v (RM_SendFingerprint message) =
     (let target_id = rsf_handles message
      in rbind (get_eventually v target_id) (\<lambda>target.
         rbind (tg_received_send_fingerprint v message target) (\<lambda>target.
         rbind (put_target target_id target) (\<lambda>_. complete_if_done target_id target))))"
| "received_message v (RM_AnnounceEntries message) =
     (let target_id = rae_handles message
      in rbind (with_entry_state (\<lambda>e. res_bind (es_received_announce_entries target_id (rae_is_empty message) e) (\<lambda>e'. Ok ((), e')))) (\<lambda>_.
         rbind (get_eventually v target_id) (\<lambda>target.
         rbind (tg_received_announce_entries v message target) (\<lambda>target.
         rbind (put_target target_id target) (\<lambda>_. complete_if_done target_id target)))))"
| "received_message v (RM_SendEntry message) =
     rbind (rc_authorise_entry v message) (\<lambda>authorised_entry.
     rbind (with_entry_state (\<lambda>e. res_bind (es_received_send_entry (e_payload_digest (ae_entry authorised_entry))
              (e_payload_length (ae_entry authorised_entry)) (le_available (rse_entry message)) e) (\<lambda>e'. Ok ((), e')))) (\<lambda>_.
       rc_ingest v authorised_entry))"
| "received_message v (RM_SendPayload message) =
     with_entry_state (\<lambda>e. res_bind (es_received_send_payload v (rsp_bytes message) e) (\<lambda>e'. Ok ((), e')))"
| "received_message v (RM_TerminatePayload message) =
     rbind (with_entry_state (es_received_terminate_payload v (rtp_is_final message))) (\<lambda>completed_target.
       case completed_target of
         None \<Rightarrow> ret ()
       | Some i \<Rightarrow>
           rbind (gets rc_map) (\<lambda>m.
           rbind (unwrap (map_of m i)) (\<lambda>target.
             if tg_is_complete target then complete_target (tg_id target) else ret ())))"

text \<open>
  One round of \<open>run\<close> on an input of the inbox: \<open>select!\<close> takes either a message or an input.
\<close>

definition received_input :: "('s, 'cap, 'sg, 'blob) recon_env \<Rightarrow> ('s, 'cap, 'sg, unit) rprog" where
  "received_input v =
     rbind (gets rc_inbox) (\<lambda>inbox.
       case inbox of
         [] \<Rightarrow> ret ()
       | intersection # inbox' \<Rightarrow>
           rbind (modify (\<lambda>s. s\<lparr> rc_inbox := inbox' \<rparr>)) (\<lambda>_.
           rbind (init_target v intersection) (\<lambda>_. ret ())))"

definition recon_new :: "'s \<Rightarrow> AoiIntersection list \<Rightarrow> ('s, 'cap, 'sg) recon" where
  "recon_new store inbox =
     \<lparr> rc_map = [], rc_inbox = inbox, rc_entry_state = None, rc_store = store,
       rc_tokens = \<lparr> tk_ours = rm_default, tk_theirs = rm_default \<rparr>, rc_closed = False,
       rc_sent = [], rc_sent_tokens = [], rc_out = [] \<rparr>"

end
