(* ===== verification/Recon_Batches.thy ===== *)
theory Recon_Batches
  imports Reconciler
begin

text \<open>
  What the handlers of a reconciler send: a reply to a message is a batch of messages, and the lemmas of
  this theory describe batches by the few properties on which the proof of the protocol rests.  The entry
  storage is given by its contract, the locale \<open>entry_storage\<close>, which the in-memory store fulfils.
\<close>

section \<open>Messages\<close>

fun opens_range :: "'sg ReconciliationMessage \<Rightarrow> bool" where
  "opens_range (RM_SendFingerprint m) \<longleftrightarrow> True"
| "opens_range (RM_AnnounceEntries m) \<longleftrightarrow> rae_want_response m"
| "opens_range _ \<longleftrightarrow> False"

fun control :: "'sg ReconciliationMessage \<Rightarrow> bool" where
  "control (RM_SendFingerprint m) \<longleftrightarrow> True"
| "control (RM_AnnounceEntries m) \<longleftrightarrow> True"
| "control _ \<longleftrightarrow> False"

fun cov :: "'sg ReconciliationMessage \<Rightarrow> u64 option" where
  "cov (RM_SendFingerprint m) = rsf_covers m"
| "cov (RM_AnnounceEntries m) = rae_covers m"
| "cov _ = None"

fun to_target :: "TargetId \<Rightarrow> 'sg ReconciliationMessage \<Rightarrow> bool" where
  "to_target i (RM_SendFingerprint m) \<longleftrightarrow> rsf_handles m = i"
| "to_target i (RM_AnnounceEntries m) \<longleftrightarrow> rae_handles m = i"
| "to_target i _ \<longleftrightarrow> True"

definition openings :: "'sg ReconciliationMessage list \<Rightarrow> nat"
  where "openings ms = length (filter opens_range ms)"

definition covers :: "'sg ReconciliationMessage list \<Rightarrow> nat list"
  where "covers ms = List.map_filter (\<lambda>m. map_option unat (cov m)) ms"

definition sent_entries :: "'sg ReconciliationMessage list \<Rightarrow> Entry set"
  where "sent_entries ms = {le_entry (rse_entry m) | m. RM_SendEntry m \<in> set ms}"

lemma openings_simps [simp]:
  "openings [] = 0" "openings (xs @ ys) = openings xs + openings ys"
  "openings (m # ms) = (if opens_range m then Suc (openings ms) else openings ms)"
  by (simp_all add: openings_def)

lemma covers_simps [simp]:
  "covers [] = []" "covers (xs @ ys) = covers xs @ covers ys"
  "covers (m # ms) = (case cov m of None \<Rightarrow> covers ms | Some n \<Rightarrow> unat n # covers ms)"
  by (simp_all add: covers_def List.map_filter_def split: option.splits)

lemma sent_entries_simps [simp]:
  "sent_entries [] = {}" "sent_entries (xs @ ys) = sent_entries xs \<union> sent_entries ys"
  "sent_entries (RM_SendEntry m # ms) = insert (le_entry (rse_entry m)) (sent_entries ms)"
  "sent_entries (RM_SendFingerprint x # ms) = sent_entries ms" "sent_entries (RM_AnnounceEntries y # ms) = sent_entries ms"
  "sent_entries (RM_SendPayload z # ms) = sent_entries ms" "sent_entries (RM_TerminatePayload u # ms) = sent_entries ms"
  by (auto simp: sent_entries_def)

lemma opening_control: "opens_range m \<Longrightarrow> control m"
  by (cases m) simp_all

lemma cov_control: "cov m = Some n \<Longrightarrow> control m"
  by (cases m) simp_all

section \<open>The grammar of a stream of messages\<close>

text \<open>
  Where the receiver of a stream is: outside of the entries of an announcement, before an entry, or
  within the payload of an entry.  \<open>well_formed p ms\<close>: the messages fit the position, and end outside.
\<close>

datatype position = Outside | BeforeEntry | InPayload

fun well_formed :: "position \<Rightarrow> 'sg ReconciliationMessage list \<Rightarrow> bool" where
  "well_formed p [] \<longleftrightarrow> p = Outside"
| "well_formed p (RM_SendFingerprint m # ms) \<longleftrightarrow> p = Outside \<and> well_formed Outside ms"
| "well_formed p (RM_AnnounceEntries m # ms) \<longleftrightarrow>
     p = Outside \<and> well_formed (if rae_is_empty m then Outside else BeforeEntry) ms"
| "well_formed p (RM_SendEntry m # ms) \<longleftrightarrow> p = BeforeEntry \<and> well_formed InPayload ms"
| "well_formed p (RM_SendPayload m # ms) \<longleftrightarrow> p = InPayload \<and> well_formed InPayload ms"
| "well_formed p (RM_TerminatePayload m # ms) \<longleftrightarrow>
     p = InPayload \<and> well_formed (if rtp_is_final m then Outside else BeforeEntry) ms"

lemma well_formed_append: "well_formed p xs \<Longrightarrow> well_formed Outside ys \<Longrightarrow> well_formed p (xs @ ys)"
  by (induction p xs rule: well_formed.induct) auto

lemma well_formed_no_control: "well_formed Outside ms \<Longrightarrow> filter control ms = [] \<Longrightarrow> ms = []"
  by (cases ms; cases "hd ms") (auto split: if_splits)

definition position_of :: "EntryState \<Rightarrow> position" where
  "position_of e = (case e of None \<Rightarrow> Outside
     | Some st \<Rightarrow> if es_current_payload st = None then BeforeEntry else InPayload)"

section \<open>The messages of the entries of a range\<close>

fun entry_msgs :: "Entry list \<Rightarrow> 'sg ReconciliationMessage list \<Rightarrow> bool" where
  "entry_msgs [] b \<longleftrightarrow> b = []"
| "entry_msgs (e # es) b \<longleftrightarrow>
     (\<exists>m ps b'. b = RM_SendEntry m # map RM_SendPayload ps @ RM_TerminatePayload \<lparr> rtp_is_final = (es = []) \<rparr> # b' \<and>
        le_entry (rse_entry m) = e \<and> entry_msgs es b')"

lemma payload_msgs [simp]:
  "openings (map RM_SendPayload ps) = 0" "covers (map RM_SendPayload ps) = []" "sent_entries (map RM_SendPayload ps) = {}"
  "well_formed p (map RM_SendPayload ps @ ms) \<longleftrightarrow> (if ps = [] then well_formed p ms else p = InPayload \<and> well_formed InPayload ms)"
  by (induction ps arbitrary: p) auto

lemma entry_msgs_props:
  assumes "entry_msgs es b"
  shows "openings b = 0" "covers b = []" "sent_entries b = set es"
    "well_formed (if es = [] then Outside else BeforeEntry) b" "\<forall>m \<in> set b. \<not> control m"
  using assms by (induction es b rule: entry_msgs.induct) auto

text \<open>What sending changes of the state.\<close>

definition sends :: "'sg ReconciliationMessage list \<Rightarrow> ('s, 'cap, 'sg) recon \<Rightarrow> ('s, 'cap, 'sg) recon \<Rightarrow> bool" where
  "sends b s s' \<longleftrightarrow> (\<exists>tok st. s' = s\<lparr> rc_sent := rc_sent s @ b, rc_tokens := tok, rc_sent_tokens := st \<rparr>)"

lemma sends_refl: "sends [] s s"
  unfolding sends_def by (intro exI [of _ "rc_tokens s"] exI [of _ "rc_sent_tokens s"]) simp

lemma sends_trans:
  assumes "sends b s s'" "sends b' s' s''"
  shows "sends (b @ b') s s''"
proof -
  obtain tok st tok' st' where "s' = s\<lparr> rc_sent := rc_sent s @ b, rc_tokens := tok, rc_sent_tokens := st \<rparr>"
    and "s'' = s'\<lparr> rc_sent := rc_sent s' @ b', rc_tokens := tok', rc_sent_tokens := st' \<rparr>"
    using assms unfolding sends_def by blast
  then show ?thesis
    unfolding sends_def by (intro exI [of _ tok'] exI [of _ st']) simp
qed

lemma sends_fields:
  assumes "sends b s s'"
  shows "rc_map s' = rc_map s" "rc_inbox s' = rc_inbox s" "rc_entry_state s' = rc_entry_state s"
    "rc_store s' = rc_store s" "rc_closed s' = rc_closed s" "rc_sent s' = rc_sent s @ b" "rc_out s' = rc_out s"
  using assms by (auto simp: sends_def)

text \<open>
  The errors that correct peers can still run into: those of the payload store and its import task, and
  a token that does not authorise an entry.
\<close>

definition peer_error :: "Error \<Rightarrow> bool" where
  "peer_error e \<longleftrightarrow> (\<exists>x. e = E_PayloadStore x) \<or> e = E_Store ''channel closed'' \<or> (\<exists>x. e = E_UnauthorisedWrite x)"

lemma wp_rc_send:
  assumes "\<not> rc_closed s" "\<And>s'. sends [m] s s' \<Longrightarrow> Q () s'"
  shows "wp ok (rc_send err m) Q s"
proof -
  have "sends [m] s (s\<lparr> rc_sent := rc_sent s @ [m] \<rparr>)"
    unfolding sends_def by (intro exI [of _ "rc_tokens s"] exI [of _ "rc_sent_tokens s"]) simp
  then show ?thesis
    using assms by (simp add: wp_def rc_send_def)
qed

lemma wp_send_all:
  "\<not> rc_closed s \<Longrightarrow> (\<And>s'. sends ms s s' \<Longrightarrow> Q () s') \<Longrightarrow> wp ok (send_all ms) Q s"
proof (induction ms arbitrary: s)
  case Nil
  then show ?case
    using sends_refl [of s] by (simp add: wp_simps)
next
  case (Cons m ms)
  show ?case
    unfolding send_all.simps wp_rbind
  proof (rule wp_rc_send [OF Cons.prems(1)])
    fix s1
    assume "sends [m] s s1"
    then show "wp ok (send_all ms) Q s1"
      using Cons.prems sends_trans [of "[m]" s s1 ms] by (intro Cons.IH) (auto simp: sends_fields)
  qed
qed

lemma wp_bind_token:
  assumes "\<not> rc_closed s" "\<And>h s'. sends [] s s' \<Longrightarrow> Q h s'"
  shows "wp ok (rc_bind_and_send_ours tok) Q s"
  using assms by (auto simp: wp_def rc_bind_and_send_ours_def sends_def split: prod.splits)

lemma send_payload_messages:
  assumes "send_payload_chunked get stream digest off (\<lambda>bs. RM_SendPayload \<lparr> rsp_bytes = bs \<rparr>) = Ok (b, msgs)"
  shows "\<exists>ps. msgs = map RM_SendPayload ps"
proof -
  have "\<exists>cs. msgs = map (\<lambda>bs. RM_SendPayload \<lparr> rsp_bytes = bs \<rparr>) cs"
    using assms by (auto simp: send_payload_chunked_def res_bind_eq_Inr split: option.splits intro: exI [of _ "[]"])
  then obtain cs where "msgs = map RM_SendPayload (map (\<lambda>bs. \<lparr> rsp_bytes = bs \<rparr>) cs)"
    by (auto simp: comp_def)
  then show ?thesis ..
qed

lemma send_payload_error:
  "send_payload_chunked get stream digest off f = Err e \<Longrightarrow> peer_error e"
  by (auto simp: send_payload_chunked_def res_bind_def map_err_def peer_error_def split: option.splits sum.splits)

lemma wp_payload:
  fixes s :: "('s, 'cap, 'sg) recon"
  assumes "\<not> rc_closed s" "\<And>ps s'. sends (map RM_SendPayload ps) s s' \<Longrightarrow> Q () s'"
  shows "wp peer_error (if c then rbind (try_res (send_payload_chunked get stream digest 0
      (\<lambda>bs. RM_SendPayload \<lparr> rsp_bytes = bs \<rparr>))) (\<lambda>(sent, msgs). send_all msgs) else ret ()) Q s"
proof (cases "c")
  case True
  show ?thesis
  proof (cases "send_payload_chunked get stream digest 0 (\<lambda>bs. RM_SendPayload \<lparr> rsp_bytes = bs \<rparr> :: 'sg ReconciliationMessage)")
    case (Inl e)
    then show ?thesis
      using True send_payload_error [OF Inl] by (simp add: wp_simps)
  next
    case (Inr p)
    then obtain b msgs where p: "p = (b, msgs)"
      by fastforce
    with Inr obtain ps where "msgs = map RM_SendPayload ps"
      using send_payload_messages by blast
    then show ?thesis
      using True Inr p assms by (auto simp: wp_simps intro: wp_send_all)
  qed
next
  case False
  then show ?thesis
    using assms(2) [of "[]" s] sends_refl [of s] by (simp add: wp_simps)
qed

lemma wp_send_entries:
  "\<not> rc_closed s \<Longrightarrow> (\<And>b s'. entry_msgs (map ae_entry l) b \<Longrightarrow> sends b s s' \<Longrightarrow> Q () s') \<Longrightarrow>
   wp peer_error (send_entries v (map Ok l)) Q s"
proof (induction l arbitrary: s)
  case Nil
  then show ?case
    using sends_refl [of s] by (simp add: wp_simps)
next
  case (Cons a l)
  show ?case
    unfolding list.map send_entries.simps wp_rbind wp_try_anyhow sum.case Let_def
  proof (rule wp_bind_token [OF Cons.prems(1)], rule wp_rc_send)
    fix h s1 s2
    assume 1: "sends [] s s1" and 2: "sends [RM_SendEntry \<lparr> rse_entry = lengthy_entry_new (ae_entry a) (e_payload_length (ae_entry a)),
        rse_static_token_handle = h, rse_dynamic_token = t_signature (ae_token a) \<rparr>] s1 s2" (is "sends [RM_SendEntry ?m] _ _")
    have open2: "\<not> rc_closed s2"
      using 1 2 Cons.prems(1) by (simp add: sends_fields)
    show "wp peer_error (if e_payload_length (ae_entry a) \<le> re_max_eager_payload_size v
          then rbind (try_res (send_payload_chunked (re_get_payload v) (re_verifiable_stream v) (e_payload_digest (ae_entry a)) 0
                 (\<lambda>bs. RM_SendPayload \<lparr> rsp_bytes = bs \<rparr>))) (\<lambda>(sent, msgs). send_all msgs)
          else ret ())
        (\<lambda>_. wp peer_error (rc_send E_Write (RM_TerminatePayload \<lparr> rtp_is_final = (map Ok l = []) \<rparr>))
           (\<lambda>_. wp peer_error (send_entries v (map Ok l)) Q)) s2"
    proof (rule wp_payload [OF open2], rule wp_rc_send)
      fix ps s3 s4
      assume 3: "sends (map RM_SendPayload ps) s2 s3"
        and 4: "sends [RM_TerminatePayload \<lparr> rtp_is_final = (map Ok l = []) \<rparr>] s3 s4"
      show "wp peer_error (send_entries v (map Ok l)) Q s4"
      proof (rule Cons.IH)
        fix b s5
        assume b: "entry_msgs (map ae_entry l) b" "sends b s4 s5"
        have "sends (RM_SendEntry ?m # map RM_SendPayload ps @ RM_TerminatePayload \<lparr> rtp_is_final = (map ae_entry l = []) \<rparr> # b) s s5"
          using sends_trans [OF 1 sends_trans [OF 2 sends_trans [OF 3 sends_trans [OF 4 b(2)]]]] by simp
        moreover have "entry_msgs (map ae_entry (a # l))
            (RM_SendEntry ?m # map RM_SendPayload ps @ RM_TerminatePayload \<lparr> rtp_is_final = (map ae_entry l = []) \<rparr> # b)"
          using b(1) by (auto simp: lengthy_entry_new_def)
        ultimately show "Q () s5"
          using Cons.prems(2) by blast
      qed (use open2 3 4 in \<open>simp add: sends_fields\<close>)
    qed (use open2 in \<open>simp add: sends_fields\<close>)
  qed (use Cons.prems(1) in \<open>simp add: sends_fields\<close>)
qed

section \<open>Targets and batches\<close>

definition grown :: "nat \<Rightarrow> Target \<Rightarrow> Target \<Rightarrow> bool" where
  "grown k t t' \<longleftrightarrow>
     tg_intersection t' = tg_intersection t \<and> tg_started t' = tg_started t \<and>
     tg_their_range_counter t' = tg_their_range_counter t \<and>
     unat (tg_our_range_counter t') = unat (tg_our_range_counter t) + k \<and>
     unat ` tg_our_uncovered_ranges t' =
       unat ` tg_our_uncovered_ranges t \<union> {unat (tg_our_range_counter t)..<unat (tg_our_range_counter t')}"

lemma grown_refl: "grown 0 t t"
  by (simp add: grown_def)

lemma grown_trans: "grown k t t1 \<Longrightarrow> grown l t1 t2 \<Longrightarrow> grown (k + l) t t2"
  by (auto simp: grown_def)

lemma mark_pending_grown:
  assumes "mark_our_next_range_pending t = Some t'"
  shows "grown 1 t t'"
proof -
  let ?c = "tg_our_range_counter t"
  have c: "?c \<noteq> - 1" and t': "t' = t\<lparr> tg_our_range_counter := ?c + 1,
      tg_our_uncovered_ranges := insert ?c (tg_our_uncovered_ranges t) \<rparr>"
    using assms by (auto simp: mark_our_next_range_pending_def next_range_count_ours_def split: if_splits)
  have "unat (?c + 1) = unat ?c + 1"
    using c by (metis Suc_eq_plus1 add.commute add_eq_0_iff unatSuc)
  then show ?thesis
    by (auto simp: grown_def t' less_Suc_eq)
qed

definition batch :: "fp_env \<Rightarrow> wdm \<Rightarrow> Entry list \<Rightarrow> Target \<Rightarrow> Target \<Rightarrow> 'sg ReconciliationMessage list \<Rightarrow> bool" where
  "batch fp w ct t t' b \<longleftrightarrow>
     well_formed Outside b \<and> grown (openings b) t t' \<and>
     (\<forall>m \<in> set b. to_target (prod.swap (tg_id t)) m) \<and>
     (\<forall>m. RM_SendFingerprint m \<in> set b \<longrightarrow> rsf_fingerprint m = fp_from_entries fp (entries_in w ct (rsf_range m))) \<and>
     sent_entries b \<subseteq> set ct"

lemma batch_Nil: "batch fp w ct t t []"
  by (simp add: batch_def grown_refl)

lemma batch_append:
  "batch fp w ct t t1 b1 \<Longrightarrow> batch fp w ct t1 t2 b2 \<Longrightarrow> batch fp w ct t t2 (b1 @ b2)"
  using grown_trans [of "openings b1" t t1 "openings b2" t2]
  by (auto simp: batch_def well_formed_append grown_def [of "openings b1"])

lemma no_control_to_target: "\<not> control m \<Longrightarrow> to_target i m"
  by (cases m) simp_all

lemma batch_announce:
  assumes "grown (if rae_want_response a then 1 else 0) t t'" "rae_handles a = prod.swap (tg_id t)"
    and "entry_msgs es b" "rae_is_empty a = (es = [])" "set es \<subseteq> set ct"
  shows "batch fp w ct t t' (RM_AnnounceEntries a # b)"
proof -
  note p = entry_msgs_props [OF assms(3)]
  have "\<forall>m. RM_SendFingerprint m \<notin> set b"
    using p(5) by fastforce
  moreover have "\<forall>m \<in> set b. to_target (prod.swap (tg_id t)) m"
    using p(5) no_control_to_target by blast
  ultimately show ?thesis
    using assms(1,2,4,5) p(1,3,4) by (auto simp: batch_def)
qed

lemma wp_tg_send_fingerprint:
  assumes "\<not> rc_closed s" "fingerprint = fp_from_entries fp (entries_in w ct rg)"
    and "\<And>t' s' m. sends [RM_SendFingerprint m] s s' \<Longrightarrow> rsf_range m = rg \<Longrightarrow> rsf_covers m = cvs \<Longrightarrow>
      batch fp w ct t t' [RM_SendFingerprint m :: 'sg ReconciliationMessage] \<Longrightarrow> Q t' s'"
  shows "wp ok (tg_send_fingerprint rg fingerprint cvs t :: ('s, 'cap, 'sg, Target) rprog) Q s"
proof (cases "mark_our_next_range_pending t")
  case None
  then show ?thesis
    by (simp add: tg_send_fingerprint_def wp_simps)
next
  case (Some t')
  let ?m = "\<lparr> rsf_range = rg, rsf_fingerprint = fingerprint, rsf_sender_handle = ai_our_handle (tg_intersection t'),
      rsf_receiver_handle = ai_their_handle (tg_intersection t'), rsf_covers = cvs \<rparr>"
  have g: "grown 1 t t'"
    using mark_pending_grown [OF Some] .
  then have "batch fp w ct t t' [RM_SendFingerprint ?m :: 'sg ReconciliationMessage]"
    by (simp add: batch_def assms(2) rsf_handles_def ai_id_def grown_def)
  then show ?thesis
    using assms(3) by (auto simp: tg_send_fingerprint_def wp_simps Some intro!: wp_rc_send [OF assms(1)])
qed

text \<open>How a part of a range is answered: by its fingerprint, or by its entries and a request for theirs.\<close>

definition answered :: "wdm \<Rightarrow> Entry list \<Rightarrow> Range3d \<Rightarrow> 'sg ReconciliationMessage list \<Rightarrow> bool" where
  "answered w ct rg b \<longleftrightarrow>
     (\<exists>m. RM_SendFingerprint m \<in> set b \<and> rsf_range m = rg) \<or>
     (\<exists>a. RM_AnnounceEntries a \<in> set b \<and> rae_want_response a \<and> rae_range a = rg \<and>
        set (entries_in w ct rg) \<subseteq> sent_entries b)"

lemma answered_append: "answered w ct rg b \<or> answered w ct rg b' \<Longrightarrow> answered w ct rg (b @ b')"
  by (auto simp: answered_def)

text \<open>The message is accepted: it covers a range of ours, and counts as a range of theirs if it opens one.\<close>

definition accepted :: "u64 option \<Rightarrow> bool \<Rightarrow> Target \<Rightarrow> Target \<Rightarrow> bool" where
  "accepted c counted t t1 \<longleftrightarrow>
     tg_intersection t1 = tg_intersection t \<and> tg_started t1 \<and> tg_our_range_counter t1 = tg_our_range_counter t \<and>
     unat (tg_their_range_counter t1) = unat (tg_their_range_counter t) + (if counted then 1 else 0) \<and>
     tg_our_uncovered_ranges t1 = tg_our_uncovered_ranges t - set_option c"

definition closes :: "nat \<Rightarrow> 'sg ReconciliationMessage list \<Rightarrow> bool" where
  "closes n b \<longleftrightarrow> covers b = [n] \<and> filter control b \<noteq> [] \<and> cov (last (filter control b)) \<noteq> None"

lemma next_theirs_accepted:
  assumes "accepted c False t t1" "next_range_count_theirs t1 = Some (n, t2)"
  shows "accepted c True t t2" "unat n = unat (tg_their_range_counter t)"
proof -
  let ?c = "tg_their_range_counter t1"
  have c: "?c \<noteq> - 1" and t2: "t2 = t1\<lparr> tg_their_range_counter := ?c + 1 \<rparr>" "n = ?c"
    using assms(2) by (auto simp: next_range_count_theirs_def split: if_splits)
  have "unat (?c + 1) = unat ?c + 1"
    using c by (metis Suc_eq_plus1 add.commute add_eq_0_iff unatSuc)
  then show "accepted c True t t2" "unat n = unat (tg_their_range_counter t)"
    using assms(1) by (auto simp: accepted_def t2)
qed

lemma wp_mark_covered:
  assumes "set_option c \<subseteq> tg_our_uncovered_ranges t" "\<And>t1. accepted c False t t1 \<Longrightarrow> Q t1 s"
  shows "wp ok (mark_covered c (t\<lparr> tg_started := True \<rparr>)) Q s"
  using assms by (auto simp: mark_covered_def wp_simps mark_our_range_covered_def accepted_def split: option.splits)

section \<open>The contract of the entry storage\<close>

definition dominated :: "wdm \<Rightarrow> Entry list \<Rightarrow> Entry \<Rightarrow> bool"
  where "dominated w xs e \<longleftrightarrow> (\<exists>x \<in> set xs. x = e \<or> supersedes w x e)"

text \<open>
  What the reconciler relies on: \<open>contents\<close> lists the entries of a namespace, of which
  \<open>get_authorised_entries\<close> returns those of a range, and an entry is ingested unless the storage has it or
  one that supersedes it, replacing the ones it supersedes.  A storage may require that an entry
  supersedes at most one of its entries.
\<close>

locale entry_storage =
  fixes v :: "('s, 'cap, 'sg, 'blob) recon_env"
    and contents :: "'s \<Rightarrow> NamespaceId \<Rightarrow> Entry list"
    and inv :: "'s \<Rightarrow> bool"
  assumes reader: "entry_reader (re_wdm v) (re_get_authorised_entries v st) (contents st)"
    and distinct_contents: "inv st \<Longrightarrow> distinct (contents st ns)"
    and contents_namespace: "inv st \<Longrightarrow> x \<in> set (contents st ns) \<Longrightarrow> e_namespace_id x = ns"
    and contents_maximal: "inv st \<Longrightarrow> x \<in> set (contents st ns) \<Longrightarrow> y \<in> set (contents st ns) \<Longrightarrow> \<not> supersedes (re_wdm v) x y"
    and ingest_law: "inv st \<Longrightarrow> e_namespace_id (ae_entry e) = ns \<Longrightarrow>
      length (filter (supersedes (re_wdm v) (ae_entry e)) (contents st ns)) \<le> 1 \<Longrightarrow>
      \<exists>b st'. re_ingest_entry v e origin st = Some (Ok (b, st')) \<and> inv st' \<and>
        set (contents st' ns) =
          (if dominated (re_wdm v) (contents st ns) (ae_entry e) then set (contents st ns)
           else insert (ae_entry e) {x \<in> set (contents st ns). \<not> supersedes (re_wdm v) (ae_entry e) x})"
begin

lemma gae_entries:
  obtains l where "re_get_authorised_entries v st ns rg = Ok (map Ok l)"
    "map ae_entry l = entries_in (re_wdm v) (contents st ns) rg"
  using entry_reader.gae_filter [OF reader, of st ns rg] unfolding entries_in_def by blast

lemma wp_announce:
  fixes s :: "('s, 'cap, 'sg) recon"
  assumes "\<not> rc_closed s" "ct = contents (rc_store s) (tg_namespace t)"
    and "\<And>t' s' a b. sends (RM_AnnounceEntries a # b) s s' \<Longrightarrow> rae_range a = rg \<Longrightarrow> rae_covers a = cvs \<Longrightarrow>
      rae_want_response a = want \<Longrightarrow> covers b = [] \<Longrightarrow> openings b = 0 \<Longrightarrow> \<forall>m \<in> set b. \<not> control m \<Longrightarrow>
      sent_entries b = (if emp then {} else set (entries_in (re_wdm v) ct rg)) \<Longrightarrow>
      batch fp (re_wdm v) ct t t' (RM_AnnounceEntries a # b) \<Longrightarrow> Q t' s'"
  shows "wp peer_error (announce_and_send_entries v rg want cvs emp t) Q s"
proof -
  obtain l where l: "re_get_authorised_entries v (rc_store s) (tg_namespace t) rg = Ok (map Ok l)"
    "map ae_entry l = entries_in (re_wdm v) ct rg"
    using gae_entries assms(2) by metis
  define es where "es = (if emp then [] else l)"
  define iter :: "(string + ('cap, 'sg) AuthorisedEntry) list option" where "iter = (if emp then None else Some (map Ok l))"
  have main: "wp peer_error (rbind (rc_send E_Write (RM_AnnounceEntries
              \<lparr> rae_range = rg, rae_is_empty = (case iter of None \<Rightarrow> True | Some items \<Rightarrow> items = []),
                rae_want_response = want, rae_will_sort = False, rae_sender_handle = ai_our_handle (tg_intersection t'),
                rae_receiver_handle = ai_their_handle (tg_intersection t'), rae_covers = cvs \<rparr>)) (\<lambda>_.
     rbind (case iter of None \<Rightarrow> ret () | Some items \<Rightarrow> send_entries v items) (\<lambda>_. ret t'))) Q s"
    if g: "grown (if want then 1 else 0) t t'" for t'
    unfolding wp_rbind
  proof (rule wp_rc_send [OF assms(1)])
    let ?a = "\<lparr> rae_range = rg, rae_is_empty = (case iter of None \<Rightarrow> True | Some items \<Rightarrow> items = []),
        rae_want_response = want, rae_will_sort = False, rae_sender_handle = ai_our_handle (tg_intersection t'),
        rae_receiver_handle = ai_their_handle (tg_intersection t'), rae_covers = cvs \<rparr>"
    fix s1
    assume 1: "sends [RM_AnnounceEntries ?a] s s1"
    have fin: "Q t' s2" if b: "entry_msgs (map ae_entry es) b" "sends b s1 s2" for b s2
    proof (rule assms(3))
      show "sends (RM_AnnounceEntries ?a # b) s s2"
        using sends_trans [OF 1 b(2)] by simp
      have "set (map ae_entry es) \<subseteq> set ct"
        using arg_cong [OF l(2), of set] by (auto simp: es_def entries_in_def)
      then show "batch fp (re_wdm v) ct t t' (RM_AnnounceEntries ?a # b)"
        using g b(1) by (intro batch_announce) (auto simp: rae_handles_def ai_id_def grown_def es_def iter_def)
      show "sent_entries b = (if emp then {} else set (entries_in (re_wdm v) ct rg))"
        using entry_msgs_props(3) [OF b(1)] arg_cong [OF l(2), of set] by (simp add: es_def)
    qed (use entry_msgs_props [OF b(1)] in simp_all)
    show "wp peer_error (case iter of None \<Rightarrow> ret () | Some items \<Rightarrow> send_entries v items)
        (\<lambda>_. wp peer_error (ret t') Q) s1"
      using fin sends_refl [of s1] sends_fields [OF 1] assms(1)
      by (auto simp: wp_simps es_def iter_def intro: wp_send_entries)
  qed
  have get: "re_get_authorised_entries v (rc_store s) (tg_namespace t') rg = Ok (map Ok l)"
    if "grown k t t'" for k t'
    using l(1) that by (simp add: grown_def)
  show ?thesis
  proof (cases want)
    case True
    then show ?thesis
      using main mark_pending_grown [of t] get [of 1]
      by (auto simp: announce_and_send_entries_def wp_simps iter_def split: option.splits)
  next
    case False
    then show ?thesis
      using main [of t] grown_refl [of t] l(1)
      by (auto simp: announce_and_send_entries_def wp_simps iter_def)
  qed
qed

lemma wp_send_splits:
  fixes s :: "('s, 'cap, 'sg) recon"
  assumes "\<not> rc_closed s" "ct = contents (rc_store s) (tg_namespace t)" "sp \<noteq> []"
    and "\<forall>(rg, act) \<in> set sp. case act of
        SplitSendFingerprint f \<Rightarrow> f = fp_from_entries fp (entries_in (re_wdm v) ct rg)
      | SplitSendEntries c \<Rightarrow> c = 0 \<longrightarrow> entries_in (re_wdm v) ct rg = []"
    and "\<And>t' s' b. sends b s s' \<Longrightarrow> batch fp (re_wdm v) ct t t' b \<Longrightarrow> closes (unat n) b \<Longrightarrow>
      \<forall>rg \<in> fst ` set sp. answered (re_wdm v) ct rg b \<Longrightarrow> Q t' s'"
  shows "wp peer_error (send_splits v n sp t) Q s"
  using assms
proof (induction sp arbitrary: s t Q)
  case (Cons p sp)
  obtain rg act where p: "p = (rg, act)"
    by fastforce
  let ?cvs = "if sp = [] then Some n else None"
  have rest: "wp peer_error (send_splits v n sp t1) Q s1"
    if 1: "sends b1 s s1" "batch fp (re_wdm v) ct t t1 b1" "answered (re_wdm v) ct rg b1"
      "covers b1 = (if sp = [] then [unat n] else [])" "filter control b1 = [c]" "cov c = ?cvs" for b1 s1 t1 c
  proof (cases "sp = []")
    case True
    then have "closes (unat n) b1"
      using 1(4-) by (simp add: closes_def)
    then show ?thesis
      using True 1 Cons.prems(5) [OF 1(1,2)] by (simp add: wp_simps p)
  next
    case False
    show ?thesis
    proof (rule Cons.IH)
      show "\<not> rc_closed s1" "ct = contents (rc_store s1) (tg_namespace t1)"
        using 1(1,2) Cons.prems(1,2) by (simp_all add: sends_fields batch_def grown_def)
      fix t' s' b
      assume b: "sends b s1 s'" "batch fp (re_wdm v) ct t1 t' b" "closes (unat n) b"
        "\<forall>rg \<in> fst ` set sp. answered (re_wdm v) ct rg b"
      show "Q t' s'"
      proof (rule Cons.prems(5))
        show "sends (b1 @ b) s s'" "batch fp (re_wdm v) ct t t' (b1 @ b)"
          using sends_trans [OF 1(1) b(1)] batch_append [OF 1(2) b(2)] by simp_all
        show "closes (unat n) (b1 @ b)"
          using b(3) 1(4) False by (auto simp: closes_def)
        show "\<forall>rg \<in> fst ` set (p # sp). answered (re_wdm v) ct rg (b1 @ b)"
          using b(4) 1(3) p by (auto intro: answered_append)
      qed
    qed (use False Cons.prems(4) in auto)
  qed
  show ?case
  proof (cases act)
    case (SplitSendFingerprint f)
    then have f: "f = fp_from_entries fp (entries_in (re_wdm v) ct rg)"
      using Cons.prems(4) p by auto
    show ?thesis
      unfolding p send_splits.simps Let_def wp_rbind SplitSendFingerprint SplitAction.case
    proof (rule wp_tg_send_fingerprint [OF Cons.prems(1) f])
      fix t1 s1 m
      assume "sends [RM_SendFingerprint m] s s1" "rsf_range m = rg" "rsf_covers m = ?cvs"
        "batch fp (re_wdm v) ct t t1 [RM_SendFingerprint m :: 'sg ReconciliationMessage]"
      then show "wp peer_error (send_splits v n sp t1) Q s1"
        by (intro rest) (auto simp: answered_def)
    qed
  next
    case (SplitSendEntries cnt)
    show ?thesis
      unfolding p send_splits.simps Let_def wp_rbind SplitSendEntries SplitAction.case
    proof (rule wp_announce [OF Cons.prems(1,2)])
      fix t1 s1 a b
      assume a: "sends (RM_AnnounceEntries a # b) s s1" "rae_range a = rg" "rae_covers a = ?cvs"
        "rae_want_response a = True" "covers b = []" "\<forall>m \<in> set b. \<not> control m"
        "sent_entries b = (if cnt = 0 then {} else set (entries_in (re_wdm v) ct rg))"
        "batch fp (re_wdm v) ct t t1 (RM_AnnounceEntries a # b)"
      have "set (entries_in (re_wdm v) ct rg) \<subseteq> sent_entries b"
        using a(7) Cons.prems(4) p SplitSendEntries by auto
      then show "wp peer_error (send_splits v n sp t1) Q s1"
        using a by (intro rest [of "RM_AnnounceEntries a # b" _ _ "RM_AnnounceEntries a"])
          (auto simp: answered_def filter_empty_conv)
    qed
  qed
qed simp

text \<open>Splitting a range: the parts cover it, and each carries what the storage has there.\<close>

lemma split_range_parts:
  assumes "range_laws (re_wdm v)" "length (contents st ns) < 2 ^ 64"
  obtains sp where "split_range (re_wdm v) fp (re_get_authorised_entries v st) ns rg split_opts_default = Some (Ok sp)"
    "sp \<noteq> []" "\<forall>(rg, act) \<in> set sp. case act of
        SplitSendFingerprint f \<Rightarrow> f = fp_from_entries fp (entries_in (re_wdm v) (contents st ns) rg)
      | SplitSendEntries c \<Rightarrow> c = 0 \<longrightarrow> entries_in (re_wdm v) (contents st ns) rg = []"
    "\<forall>e. in_range3d rg e \<longrightarrow> (\<exists>rg' \<in> fst ` set sp. in_range3d rg' e)"
proof (cases "length (entries_in (re_wdm v) (contents st ns) rg) \<le> 1")
  case True
  let ?es = "entries_in (re_wdm v) (contents st ns) rg"
  have "length ?es < 2 ^ 64"
    using True by simp
  then have "(of_nat (length ?es) :: u64) = 0 \<longleftrightarrow> length ?es = 0"
    by (simp add: word_eq_unat_iff unat_of_nat)
  then show ?thesis
    using that [of "[(rg, SplitSendEntries (of_nat (length ?es)))]"]
      entry_reader.split_range_small [OF reader assms(2), of rg split_opts_default] True
    by (simp add: split_opts_default_def)
next
  case False
  then have large: "max_set_size split_opts_default < length (entries_in (re_wdm v) (contents st ns) rg)"
    by (simp add: split_opts_default_def)
  obtain r1 r2 mid where "is_cut rg mid r1 r2" and sp: "split_range (re_wdm v) fp (re_get_authorised_entries v st) ns rg split_opts_default =
      Some (Ok [(r1, SplitSendFingerprint (fp_from_entries fp (entries_in (re_wdm v) (contents st ns) r1))),
                (r2, SplitSendFingerprint (fp_from_entries fp (entries_in (re_wdm v) (contents st ns) r2)))])"
    using entry_reader.split_range_large [OF reader assms large] by metis
  then show ?thesis
    using that [OF sp] by (auto simp: is_cut_def)
qed

lemma wp_received_fingerprint:
  fixes s :: "('s, 'cap, 'sg) recon"
  assumes "\<not> rc_closed s" "ct = contents (rc_store s) (tg_namespace t)" "range_laws (re_wdm v)" "length ct < 2 ^ 64"
    and "set_option (rsf_covers m) \<subseteq> tg_our_uncovered_ranges t"
    and "\<And>t1 t' s' b. sends b s s' \<Longrightarrow> accepted (rsf_covers m) True t t1 \<Longrightarrow> batch (re_fp v) (re_wdm v) ct t1 t' b \<Longrightarrow>
      closes (unat (tg_their_range_counter t)) b \<Longrightarrow>
      rsf_fingerprint m = fp_from_entries (re_fp v) (entries_in (re_wdm v) ct (rsf_range m)) \<or>
        (\<forall>e. in_range3d (rsf_range m) e \<longrightarrow> (\<exists>rg. in_range3d rg e \<and> answered (re_wdm v) ct rg b)) \<Longrightarrow> Q t' s'"
  shows "wp peer_error (tg_received_send_fingerprint v m t) Q s"
  unfolding tg_received_send_fingerprint_def wp_rbind
proof (rule wp_mark_covered [OF assms(5)])
  fix t0
  assume t0: "accepted (rsf_covers m) False t t0"
  let ?ours = "fp_from_entries (re_fp v) (entries_in (re_wdm v) ct (rsf_range m))"
  show "wp peer_error (checked (next_range_count_theirs t0)) (\<lambda>x. wp peer_error (case x of (range_count, t) \<Rightarrow>
      rbind (gets rc_store) (\<lambda>st.
      rbind (try_anyhow (reader_fingerprint (re_fp v) (re_get_authorised_entries v st) (tg_namespace t) (rsf_range m))) (\<lambda>our_fingerprint.
       if our_fingerprint = rsf_fingerprint m
       then announce_and_send_entries v (rsf_range m) False (Some range_count) True t
       else if fp_is_empty (rsf_fingerprint m)
       then announce_and_send_entries v (rsf_range m) True (Some range_count) False t
       else
         rbind (unwrap (split_range (re_wdm v) (re_fp v) (re_get_authorised_entries v st) (tg_namespace t)
                  (rsf_range m) split_opts_default)) (\<lambda>r.
         rbind (try_anyhow r) (\<lambda>splits. send_splits v range_count splits t))))) Q) s"
  proof (cases "next_range_count_theirs t0")
    case None
    then show ?thesis
      by (simp add: wp_simps)
  next
    case (Some p)
    obtain n t1 where p: "p = (n, t1)"
      by fastforce
    have t1: "accepted (rsf_covers m) True t t1" and n: "unat n = unat (tg_their_range_counter t)"
      using next_theirs_accepted [OF t0] Some p by auto
    have ct: "ct = contents (rc_store s) (tg_namespace t1)"
      using assms(2) t1 by (simp add: accepted_def)
    have fp: "reader_fingerprint (re_fp v) (re_get_authorised_entries v (rc_store s)) (tg_namespace t1) (rsf_range m) = Ok ?ours"
      using entry_reader.fingerprint_eq [OF reader] ct by simp
    have len: "length (contents (rc_store s) (tg_namespace t1)) < 2 ^ 64"
      using assms(4) ct by simp
    obtain sp where sp: "split_range (re_wdm v) (re_fp v) (re_get_authorised_entries v (rc_store s)) (tg_namespace t1)
        (rsf_range m) split_opts_default = Some (Ok sp)" and sp2: "sp \<noteq> []" "\<forall>(rg, act) \<in> set sp. case act of
          SplitSendFingerprint f \<Rightarrow> f = fp_from_entries (re_fp v) (entries_in (re_wdm v) ct rg)
        | SplitSendEntries c \<Rightarrow> c = 0 \<longrightarrow> entries_in (re_wdm v) ct rg = []"
      and sp3: "\<forall>e. in_range3d (rsf_range m) e \<longrightarrow> (\<exists>rg \<in> fst ` set sp. in_range3d rg e)"
      using split_range_parts [OF assms(3) len, of "re_fp v" "rsf_range m"] unfolding ct [symmetric] by blast
    have "wp peer_error (announce_and_send_entries v (rsf_range m) False (Some n) True t1) Q s"
      if "?ours = rsf_fingerprint m"
    proof (rule wp_announce [OF assms(1) ct])
      fix t' s' a b
      assume "sends (RM_AnnounceEntries a # b) s s'" "rae_covers a = Some n" "covers b = []"
        "batch (re_fp v) (re_wdm v) ct t1 t' (RM_AnnounceEntries a # b)" "\<forall>m \<in> set b. \<not> control m"
      then show "Q t' s'"
        using that n t1 by (intro assms(6) [of "RM_AnnounceEntries a # b" s' t1]) (auto simp: closes_def filter_empty_conv)
    qed
    moreover have "wp peer_error (announce_and_send_entries v (rsf_range m) True (Some n) False t1) Q s"
    proof (rule wp_announce [OF assms(1) ct])
      fix t' s' a b
      assume a: "sends (RM_AnnounceEntries a # b) s s'" "rae_covers a = Some n" "covers b = []"
        "batch (re_fp v) (re_wdm v) ct t1 t' (RM_AnnounceEntries a # b)" "\<forall>m \<in> set b. \<not> control m"
        "rae_range a = rsf_range m" "rae_want_response a = True"
        "sent_entries b = (if False then {} else set (entries_in (re_wdm v) ct (rsf_range m)))"
      then have "answered (re_wdm v) ct (rsf_range m) (RM_AnnounceEntries a # b)"
        by (auto simp: answered_def)
      then show "Q t' s'"
        using n a t1 by (intro assms(6) [of "RM_AnnounceEntries a # b" s' t1]) (auto simp: closes_def filter_empty_conv)
    qed
    moreover have "wp peer_error (send_splits v n sp t1) Q s"
    proof (rule wp_send_splits [OF assms(1) ct sp2])
      fix t' s' b
      assume "sends b s s'" "batch (re_fp v) (re_wdm v) ct t1 t' b" "closes (unat n) b"
        "\<forall>rg \<in> fst ` set sp. answered (re_wdm v) ct rg b"
      then show "Q t' s'"
        using n sp3 t1 by (intro assms(6) [of b s' t1]) (simp_all, metis)
    qed
    ultimately show ?thesis
      by (simp add: wp_simps Some p fp sp)
  qed
qed

lemma wp_received_announce:
  fixes s :: "('s, 'cap, 'sg) recon"
  assumes "\<not> rc_closed s" "ct = contents (rc_store s) (tg_namespace t)"
    and "set_option (rae_covers a) \<subseteq> tg_our_uncovered_ranges t"
    and "\<And>t1 t' s' b. sends b s s' \<Longrightarrow> accepted (rae_covers a) (rae_want_response a) t t1 \<Longrightarrow>
      batch (re_fp v) (re_wdm v) ct t1 t' b \<Longrightarrow> openings b = 0 \<Longrightarrow>
      if rae_want_response a then closes (unat (tg_their_range_counter t)) b \<and>
        set (entries_in (re_wdm v) ct (rae_range a)) \<subseteq> sent_entries b
      else b = [] \<Longrightarrow> Q t' s'"
  shows "wp peer_error (tg_received_announce_entries v a t) Q s"
  unfolding tg_received_announce_entries_def wp_rbind
proof (rule wp_mark_covered [OF assms(3)])
  fix t0
  assume t0: "accepted (rae_covers a) False t t0"
  show "wp peer_error (if rae_want_response a
      then rbind (checked (next_range_count_theirs t0)) (\<lambda>(range_count, t).
             announce_and_send_entries v (rae_range a) False (Some range_count) False t)
      else ret t0) Q s"
  proof (cases "rae_want_response a")
    case False
    then show ?thesis
      using assms(4) [OF sends_refl _ batch_Nil] t0 by (simp add: wp_simps)
  next
    case True
    have "wp peer_error (announce_and_send_entries v (rae_range a) False (Some n) False t1) Q s"
      if "next_range_count_theirs t0 = Some (n, t1)" for n t1
    proof -
      have t1: "accepted (rae_covers a) True t t1" and n: "unat n = unat (tg_their_range_counter t)"
        using next_theirs_accepted [OF t0 that] by auto
      have ct: "ct = contents (rc_store s) (tg_namespace t1)"
        using assms(2) t1 by (simp add: accepted_def)
      show ?thesis
      proof (rule wp_announce [OF assms(1) ct])
        fix t' s' x b
        assume "sends (RM_AnnounceEntries x # b) s s'" "rae_covers x = Some n" "covers b = []" "openings b = 0"
          "batch (re_fp v) (re_wdm v) ct t1 t' (RM_AnnounceEntries x # b)" "\<forall>m \<in> set b. \<not> control m"
          "rae_want_response x = False"
          "sent_entries b = (if False then {} else set (entries_in (re_wdm v) ct (rae_range a)))"
        then show "Q t' s'"
          using n t1 True by (intro assms(4) [of "RM_AnnounceEntries x # b" s' t1])
            (auto simp: closes_def filter_empty_conv)
      qed
    qed
    then show ?thesis
      using True by (auto simp: wp_simps split: option.splits)
  qed
qed

end

end
