(* ===== verification/Recon_Invariant.thy ===== *)
theory Recon_Invariant
  imports Recon_Batches
begin

text \<open>
  The invariant of two peers that reconcile one area: what is under way between them fits the counters
  and the uncovered ranges of both targets (\<open>flow\<close>), and every entry of one peer is known to the other or is
  still to be sent (\<open>knows\<close>).  Every message that is received keeps it.
\<close>

section \<open>The flow of messages in one direction\<close>

text \<open>
  From \<open>x\<close> to \<open>y\<close>: \<open>tx\<close> and \<open>ty\<close> are the targets of the two peers, \<open>f\<close> the messages under way from \<open>x\<close> to
  \<open>y\<close> and \<open>g\<close> those from \<open>y\<close> to \<open>x\<close>, \<open>p\<close> the position of \<open>y\<close> in the stream, \<open>rx\<close> the role of \<open>x\<close> and
  \<open>born\<close> whether \<open>x\<close> has taken up the target.  The ranges of \<open>x\<close> that are uncovered are those that \<open>y\<close> has
  not seen yet and those whose cover is under way.
\<close>

definition flow ::
  "Role \<Rightarrow> bool \<Rightarrow> TargetId \<Rightarrow> Target \<Rightarrow> 'sg ReconciliationMessage list \<Rightarrow> Target \<Rightarrow> 'sg ReconciliationMessage list \<Rightarrow> position \<Rightarrow> bool" where
  "flow rx born idy tx f ty g p \<longleftrightarrow>
     unat (tg_our_range_counter tx) = unat (tg_their_range_counter ty) + openings f \<and>
     unat ` tg_our_uncovered_ranges tx =
       {unat (tg_their_range_counter ty)..<unat (tg_our_range_counter tx)} \<union> set (covers g) \<and>
     distinct (covers g) \<and> (\<forall>c \<in> set (covers g). c < unat (tg_their_range_counter ty)) \<and>
     (\<forall>m \<in> set f. to_target idy m) \<and> well_formed p f \<and>
     (filter control f = [] \<or> cov (last (filter control f)) \<noteq> None \<or> rx = Alfie \<and> \<not> tg_started ty \<and> length f = 1) \<and>
     (\<not> tg_started tx \<longrightarrow> unat (tg_their_range_counter tx) = 0 \<and>
        unat ` tg_our_uncovered_ranges tx = {0..<unat (tg_our_range_counter tx)}) \<and>
     (rx = Alfie \<and> born \<longrightarrow> 0 < unat (tg_our_range_counter tx)) \<and>
     (rx = Alfie \<and> tg_started ty \<longrightarrow> born) \<and> (\<not> born \<longrightarrow> f = [])"

lemma flowD:
  assumes "flow rx born idy tx f ty g p"
  shows "unat (tg_our_range_counter tx) = unat (tg_their_range_counter ty) + openings f"
    and "unat ` tg_our_uncovered_ranges tx =
       {unat (tg_their_range_counter ty)..<unat (tg_our_range_counter tx)} \<union> set (covers g)"
    and "distinct (covers g)" "\<forall>c \<in> set (covers g). c < unat (tg_their_range_counter ty)"
    and "\<forall>m \<in> set f. to_target idy m" "well_formed p f"
    and "filter control f = [] \<or> cov (last (filter control f)) \<noteq> None \<or> (rx = Alfie \<and> \<not> tg_started ty) \<and> length f = 1"
    and "\<not> tg_started tx \<longrightarrow> unat (tg_their_range_counter tx) = 0 \<and>
        unat ` tg_our_uncovered_ranges tx = {0..<unat (tg_our_range_counter tx)}"
    and "rx = Alfie \<and> born \<longrightarrow> 0 < unat (tg_our_range_counter tx)"
    and "rx = Alfie \<and> tg_started ty \<longrightarrow> born" "\<not> born \<longrightarrow> f = []"
  using assms unfolding flow_def by metis+

lemma flow_last_tail:
  assumes "filter control (m # ms) = [] \<or> cov (last (filter control (m # ms))) \<noteq> None \<or> A \<and> length (m # ms) = 1"
  shows "filter control ms = [] \<or> cov (last (filter control ms)) \<noteq> None"
  using assms by (auto split: if_splits)

lemma unat_image_diff: "unat ` (A - B) = unat ` A - unat ` (B :: u64 set)"
  by (rule image_set_diff) (simp add: inj_def word_eq_unat_iff)

text \<open>The receiver accepts the message at the head and replies with a batch.\<close>

lemma flow_reply_xy:
  assumes "flow rx born idy tx (m # ms) ty g p" "control m"
    and "accepted (cov m) (opens_range m) ty t1" "batch fp w ct t1 ty' b"
    and "if opens_range m then closes (unat (tg_their_range_counter ty)) b else b = []" "well_formed p' ms"
  shows "flow rx born idy tx ms ty' (g @ b) p'"
proof -
  have their: "unat (tg_their_range_counter ty') = unat (tg_their_range_counter ty) + (if opens_range m then 1 else 0)"
    and st: "tg_started ty'"
    using assms(3,4) by (auto simp: accepted_def batch_def grown_def)
  have cvb: "covers b = (if opens_range m then [unat (tg_their_range_counter ty)] else [])"
    using assms(5) by (auto simp: closes_def split: if_splits)
  note F = flowD [OF assms(1)]
  have "born"
    using F(11) by auto
  moreover have "filter control ms = [] \<or> cov (last (filter control ms)) \<noteq> None"
    using flow_last_tail [OF F(7)] .
  moreover have "unat ` tg_our_uncovered_ranges tx =
      {unat (tg_their_range_counter ty')..<unat (tg_our_range_counter tx)} \<union> set (covers (g @ b))"
    unfolding F(2) using F(1) by (auto simp: their cvb)
  moreover have "distinct (covers (g @ b))" "\<forall>c \<in> set (covers (g @ b)). c < unat (tg_their_range_counter ty')"
    using F(3,4) by (auto simp: their cvb)
  moreover have "unat (tg_our_range_counter tx) = unat (tg_their_range_counter ty') + openings ms"
    using F(1) by (simp add: their)
  moreover have "\<forall>m \<in> set ms. to_target idy m"
    using F(5) by simp
  ultimately show ?thesis
    using assms(6) F(8,9) unfolding flow_def by blast
qed

lemma flow_reply_yx:
  assumes "flow ry born' idx ty g tx (m # ms) q" "control m"
    and "accepted (cov m) (opens_range m) ty t1" "batch fp w ct t1 ty' b" "prod.swap (tg_id ty) = idx"
    and "if opens_range m then closes n b else b = []" "ry = Alfie \<longrightarrow> born'"
  shows "flow ry True idx ty' (g @ b) tx ms q"
proof -
  have ty': "tg_started ty'" "unat (tg_our_range_counter ty') = unat (tg_our_range_counter ty) + openings b"
    "unat ` tg_our_uncovered_ranges ty' = unat ` (tg_our_uncovered_ranges ty - set_option (cov m)) \<union>
       {unat (tg_our_range_counter ty)..<unat (tg_our_range_counter ty')}"
    using assms(3,4) by (auto simp: accepted_def batch_def grown_def)
  note F = flowD [OF assms(1)]
  have "unat ` (tg_our_uncovered_ranges ty - set_option (cov m)) =
      {unat (tg_their_range_counter tx)..<unat (tg_our_range_counter ty)} \<union> set (covers ms)"
    unfolding unat_image_diff F(2) using F(3,4) by (cases "cov m") auto
  then have "unat ` tg_our_uncovered_ranges ty' =
      {unat (tg_their_range_counter tx)..<unat (tg_our_range_counter ty')} \<union> set (covers ms)"
    unfolding ty'(3) using F(1) ty'(2) by auto
  moreover have "well_formed q (g @ b)"
    using F(6) assms(4) by (auto simp: batch_def intro: well_formed_append)
  moreover have "filter control (g @ b) = [] \<or> cov (last (filter control (g @ b))) \<noteq> None \<or>
      ry = Alfie \<and> \<not> tg_started tx \<and> length (g @ b) = 1"
    using F(7) assms(6) by (auto simp: closes_def split: if_splits)
  moreover have "\<forall>m \<in> set (g @ b). to_target idx m"
    using F(5) assms(3,4,5) by (auto simp: batch_def accepted_def)
  moreover have "distinct (covers ms)" "\<forall>c \<in> set (covers ms). c < unat (tg_their_range_counter tx)"
    using F(3,4) by (auto split: option.splits)
  moreover have "unat (tg_our_range_counter ty') = unat (tg_their_range_counter tx) + openings (g @ b)"
    using F(1) ty'(2) by simp
  moreover have "ry = Alfie \<longrightarrow> 0 < unat (tg_our_range_counter ty')"
    using F(9) assms(7) ty'(2) by simp
  ultimately show ?thesis
    using ty'(1) unfolding flow_def by blast
qed

text \<open>A message that belongs to an entry is taken.\<close>

lemma flow_entry:
  assumes "flow rx born idy tx (m # ms) ty g p" "\<not> control m" "well_formed p' ms"
  shows "flow rx born idy tx ms ty g p'"
proof -
  note F = flowD [OF assms(1)]
  have "opens_range m = False"
    using assms(2) by (cases m) simp_all
  then have "unat (tg_our_range_counter tx) = unat (tg_their_range_counter ty) + openings ms" "born"
    "\<forall>m \<in> set ms. to_target idy m"
    using F(1,5,11) by auto
  then show ?thesis
    using F(2,3,4,8,9,10) assms(3) flow_last_tail [OF F(7)] unfolding flow_def by blast
qed

lemma flow_entry_back:
  assumes "flow ry born idx ty g tx (m # ms) q" "\<not> control m"
  shows "flow ry born idx ty g tx ms q"
proof -
  have "cov m = None"
    using assms(2) by (cases m) simp_all
  then have "covers (m # ms) = covers ms"
    by simp
  then show ?thesis
    using assms(1) unfolding flow_def by metis
qed

text \<open>A peer that is complete has nothing under way towards it.\<close>

lemma covers_Nil: "covers f = [] \<Longrightarrow> m \<in> set f \<Longrightarrow> cov m = None"
  by (induction f) (auto split: option.splits)

lemma covers_Nil_last: "covers f = [] \<Longrightarrow> filter control f \<noteq> [] \<Longrightarrow> cov (last (filter control f)) = None"
  using covers_Nil [of f "last (filter control f)"] last_in_set [of "filter control f"] by simp

lemma flow_complete:
  assumes "flow rx born idy tx f ty g Outside" "flow ry born' idx ty g tx f q"
    and "tg_our_uncovered_ranges ty = {}" "tg_started ty"
  shows "f = []" "openings g = 0"
proof -
  have "covers f = []" and op: "openings g = 0"
    using flowD(1,2) [OF assms(2)] assms(3) by auto
  then show "openings g = 0" by simp
  have "filter control f = []"
    using flowD(7) [OF assms(1)] assms(4) covers_Nil_last [OF \<open>covers f = []\<close>] by metis
  then show "f = []"
    using flowD(6) [OF assms(1)] well_formed_no_control by blast
qed

section \<open>What the peers know\<close>

text \<open>
  Entries are compared within a universe \<open>U\<close>, the entries that the two peers start with.  Fingerprints do
  not collide on it, and no entry of it supersedes two others.
\<close>

definition no_collision :: "fp_env \<Rightarrow> Entry set \<Rightarrow> bool" where
  "no_collision fp U \<longleftrightarrow> (\<forall>xs ys. distinct xs \<longrightarrow> distinct ys \<longrightarrow> set xs \<subseteq> U \<longrightarrow> set ys \<subseteq> U \<longrightarrow>
     fp_from_entries fp xs = fp_from_entries fp ys \<longrightarrow> set xs = set ys)"

definition single_prune :: "wdm \<Rightarrow> Entry set \<Rightarrow> bool" where
  "single_prune w U \<longleftrightarrow> (\<forall>e \<in> U. \<forall>x \<in> U. \<forall>y \<in> U. supersedes w e x \<longrightarrow> supersedes w e y \<longrightarrow> x = y)"

lemma supersedes_trans:
  assumes "path_laws w" "newer_laws w" "supersedes w x y" "supersedes w y z"
  shows "supersedes w x z"
proof -
  have pre: "w_is_prefix_of w p q \<longleftrightarrow> prefix p q" for p q
    using assms(1) by (simp add: path_laws_def)
  have "prefix (e_path x) (e_path z)"
    using assms(3,4) prefix_order.trans by (auto simp: supersedes_def pre)
  moreover have "w_is_newer_than w x z"
    using assms(2-4) by (auto simp: newer_laws_def supersedes_def)
  ultimately show ?thesis
    using assms(3,4) by (simp add: supersedes_def pre)
qed

lemma dominated_trans:
  assumes "path_laws w" "newer_laws w" "dominated w xs y" "y = z \<or> supersedes w y z"
  shows "dominated w xs z"
  using assms supersedes_trans [OF assms(1,2)] unfolding dominated_def by metis

lemma in_entries: "range_laws w \<Longrightarrow> e \<in> set (entries_in w ct rg) \<longleftrightarrow> e \<in> set ct \<and> in_range3d rg e"
  by (auto simp: entries_in_def range_laws_def)

lemma distinct_entries: "distinct ct \<Longrightarrow> distinct (entries_in w ct rg)"
  by (simp add: entries_in_def)

text \<open>A fingerprint under way from a peer that started with \<open>X0\<close> and has \<open>cx\<close> now.\<close>

definition fp_ok :: "wdm \<Rightarrow> fp_env \<Rightarrow> Entry set \<Rightarrow> Entry set \<Rightarrow> Entry list \<Rightarrow> ReconciliationSendFingerprint \<Rightarrow> bool" where
  "fp_ok w fp U X0 cx m \<longleftrightarrow> (\<exists>xs. rsf_fingerprint m = fp_from_entries fp xs \<and> distinct xs \<and> set xs \<subseteq> U \<and>
     (\<forall>e \<in> set xs. dominated w cx e) \<and>
     (\<forall>e \<in> X0. e \<in> set cx \<longrightarrow> in_range3d (rsf_range m) e \<longrightarrow> e \<in> set xs))"

text \<open>An entry of \<open>x\<close> that is still to reach \<open>y\<close>: \<open>f\<close> is under way to \<open>y\<close>, \<open>g\<close> to \<open>x\<close>.\<close>

definition pending ::
  "'sg ReconciliationMessage list \<Rightarrow> 'sg ReconciliationMessage list \<Rightarrow> Entry \<Rightarrow> bool" where
  "pending f g e \<longleftrightarrow>
     (\<exists>m. (RM_SendFingerprint m \<in> set f \<or> RM_SendFingerprint m \<in> set g) \<and> in_range3d (rsf_range m) e) \<or>
     (\<exists>a. RM_AnnounceEntries a \<in> set g \<and> rae_want_response a \<and> in_range3d (rae_range a) e) \<or>
     e \<in> sent_entries f"

definition knows ::
  "wdm \<Rightarrow> fp_env \<Rightarrow> Entry set \<Rightarrow> Range3d \<Rightarrow> Entry set \<Rightarrow> bool \<Rightarrow> Entry list \<Rightarrow> Entry list
   \<Rightarrow> 'sg ReconciliationMessage list \<Rightarrow> 'sg ReconciliationMessage list \<Rightarrow> bool" where
  "knows w fp U r0 X0 started cx cy f g \<longleftrightarrow>
     distinct cx \<and> set cx \<subseteq> U \<and> X0 \<subseteq> U \<and> (\<forall>x \<in> X0. \<forall>y \<in> X0. \<not> supersedes w x y) \<and>
     (\<forall>e \<in> X0. dominated w cx e) \<and> (\<forall>e \<in> set cx. e \<in> X0 \<or> dominated w cy e) \<and>
     (\<forall>m. RM_SendFingerprint m \<in> set f \<longrightarrow> fp_ok w fp U X0 cx m) \<and>
     sent_entries f \<subseteq> U \<and> (\<forall>e \<in> sent_entries f. dominated w cx e) \<and>
     (started \<longrightarrow> (\<forall>e \<in> X0. in_range3d r0 e \<longrightarrow> dominated w cy e \<or> pending f g e))"

lemma knowsD:
  assumes "knows w fp U r0 X0 started cx cy f g"
  shows "distinct cx" "set cx \<subseteq> U" "X0 \<subseteq> U" "\<forall>x \<in> X0. \<forall>y \<in> X0. \<not> supersedes w x y"
    and "\<forall>e \<in> X0. dominated w cx e" "\<forall>e \<in> set cx. e \<in> X0 \<or> dominated w cy e"
    and "\<forall>m. RM_SendFingerprint m \<in> set f \<longrightarrow> fp_ok w fp U X0 cx m"
    and "sent_entries f \<subseteq> U" "\<forall>e \<in> sent_entries f. dominated w cx e"
    and "started \<longrightarrow> (\<forall>e \<in> X0. in_range3d r0 e \<longrightarrow> dominated w cy e \<or> pending f g e)"
  using assms unfolding knows_def by blast+

text \<open>An entry that the other peer lacks is still there.\<close>

lemma knows_has:
  assumes "path_laws w" "newer_laws w" "knows w fp U r0 X0 started cx cy f g" "e \<in> X0" "\<not> dominated w cy e"
  shows "e \<in> set cx"
proof -
  note K = knowsD [OF assms(3)]
  obtain z where z: "z \<in> set cx" "z = e \<or> supersedes w z e"
    using K(5) assms(4) unfolding dominated_def by blast
  show ?thesis
  proof (cases "z = e")
    case False
    then have "dominated w cy z"
      using z K(4,6) assms(4) by blast
    then show ?thesis
      using dominated_trans [OF assms(1,2)] z(2) assms(5) by blast
  qed (use z in simp)
qed

text \<open>The reply to a message of \<open>x\<close>.\<close>

definition replied :: "wdm \<Rightarrow> fp_env \<Rightarrow> Entry list \<Rightarrow> 'sg ReconciliationMessage \<Rightarrow> 'sg ReconciliationMessage list \<Rightarrow> bool" where
  "replied w fp cy m b \<longleftrightarrow>
     (case m of
        RM_SendFingerprint m \<Rightarrow>
          rsf_fingerprint m = fp_from_entries fp (entries_in w cy (rsf_range m)) \<or>
          (\<forall>e. in_range3d (rsf_range m) e \<longrightarrow> (\<exists>rg. in_range3d rg e \<and> answered w cy rg b))
      | RM_AnnounceEntries a \<Rightarrow> rae_want_response a \<longrightarrow> set (entries_in w cy (rae_range a)) \<subseteq> sent_entries b
      | _ \<Rightarrow> False)"

lemma fingerprint_differs:
  assumes "no_collision fp U" "fp_ok w fp U X0 cx m" "distinct cy" "set cy \<subseteq> U" "range_laws w"
    and "rsf_fingerprint m = fp_from_entries fp (entries_in w cy (rsf_range m))" "in_range3d (rsf_range m) e"
  shows "e \<in> X0 \<Longrightarrow> e \<in> set cx \<Longrightarrow> e \<in> set cy" "e \<in> set cy \<Longrightarrow> dominated w cx e"
proof -
  obtain xs where xs: "rsf_fingerprint m = fp_from_entries fp xs" "distinct xs" "set xs \<subseteq> U"
    "\<forall>e \<in> set xs. dominated w cx e" "\<forall>e \<in> X0. e \<in> set cx \<longrightarrow> in_range3d (rsf_range m) e \<longrightarrow> e \<in> set xs"
    using assms(2) unfolding fp_ok_def by blast
  have "set (entries_in w cy (rsf_range m)) \<subseteq> U"
    using assms(4) by (auto simp: in_entries [OF assms(5)])
  then have "set xs = set (entries_in w cy (rsf_range m))"
    using assms(1,3,6) xs(1-3) distinct_entries unfolding no_collision_def by metis
  then show "e \<in> X0 \<Longrightarrow> e \<in> set cx \<Longrightarrow> e \<in> set cy" "e \<in> set cy \<Longrightarrow> dominated w cx e"
    using xs(4,5) assms(7) by (auto simp: in_entries [OF assms(5)])
qed

lemma knows_reply_xy:
  assumes laws: "path_laws w" "newer_laws w" "range_laws w" "no_collision fp U"
    and xy: "knows w fp U r0 X0 started cx cy (m # ms) g" and yx: "distinct cy" "set cy \<subseteq> U"
    and "replied w fp cy m b"
  shows "knows w fp U r0 X0 started cx cy ms (g @ b)"
proof -
  note K = knowsD [OF xy]
  have ctl: "control m"
    using assms(8) by (auto simp: replied_def split: ReconciliationMessage.splits)
  have se: "sent_entries (m # ms) = sent_entries ms"
    using ctl by (cases m) simp_all
  have "dominated w cy e \<or> pending ms (g @ b) e" if e: "e \<in> X0" "in_range3d r0 e" "started" for e
  proof (cases "dominated w cy e")
    case False
    then have "e \<in> set cx"
      using knows_has [OF laws(1,2) xy e(1)] by blast
    have "pending (m # ms) g e"
      using K(10) e False by blast
    then consider "pending ms g e" | m' where "m = RM_SendFingerprint m'" "in_range3d (rsf_range m') e"
      unfolding pending_def se by (auto simp: se)
    then show ?thesis
    proof cases
      case 1
      then show ?thesis
        by (auto simp: pending_def)
    next
      case (2 m')
      have "fp_ok w fp U X0 cx m'"
        using K(7) 2(1) by simp
      from fingerprint_differs(1) [OF laws(4) this yx laws(3) _ 2(2) e(1) \<open>e \<in> set cx\<close>] False
      have "rsf_fingerprint m' \<noteq> fp_from_entries fp (entries_in w cy (rsf_range m'))"
        by (auto simp: dominated_def)
      then obtain rg where "in_range3d rg e" "answered w cy rg b"
        using assms(8) 2 by (auto simp: replied_def)
      then have "pending ms (g @ b) e"
        unfolding answered_def pending_def by auto
      then show ?thesis ..
    qed
  qed simp
  then show ?thesis
    using K(1-9) unfolding knows_def se by auto
qed

lemma knows_reply_yx:
  assumes laws: "path_laws w" "newer_laws w" "range_laws w" "no_collision fp U"
    and yx: "knows w fp U r0 Y0 started cy cx g (m # ms)" and xy: "knows w fp U r0 X0 started' cx cy (m # ms) g"
    and "replied w fp cy m b" and b: "batch fp w cy t t' b"
  shows "knows w fp U r0 Y0 started cy cx (g @ b) ms"
proof -
  note K = knowsD [OF yx] and X = knowsD [OF xy]
  have fps: "\<forall>m. RM_SendFingerprint m \<in> set b \<longrightarrow> fp_ok w fp U Y0 cy m"
  proof (intro allI impI)
    fix m
    assume "RM_SendFingerprint m \<in> set b"
    then have "rsf_fingerprint m = fp_from_entries fp (entries_in w cy (rsf_range m))"
      using b by (simp add: batch_def)
    then show "fp_ok w fp U Y0 cy m"
      unfolding fp_ok_def using K(1,2) distinct_entries [of cy w "rsf_range m"]
      by (intro exI [of _ "entries_in w cy (rsf_range m)"]) (auto simp: in_entries [OF laws(3)] dominated_def)
  qed
  have sent: "sent_entries b \<subseteq> set cy"
    using b by (simp add: batch_def)
  have "dominated w cx e \<or> pending (g @ b) ms e" if e: "e \<in> Y0" "in_range3d r0 e" "started" for e
  proof (cases "dominated w cx e")
    case False
    then have ecy: "e \<in> set cy"
      using knows_has [OF laws(1,2) yx e(1)] by blast
    have "pending g (m # ms) e"
      using K(10) e False by blast
    then consider "pending g ms e" | m' where "m = RM_SendFingerprint m'" "in_range3d (rsf_range m') e"
      | a where "m = RM_AnnounceEntries a" "rae_want_response a" "in_range3d (rae_range a) e"
      unfolding pending_def by auto
    then show ?thesis
    proof cases
      case 1
      then show ?thesis
        by (auto simp: pending_def)
    next
      case (2 m')
      have "fp_ok w fp U X0 cx m'"
        using X(7) 2(1) by simp
      from fingerprint_differs(2) [OF laws(4) this K(1,2) laws(3) _ 2(2) ecy] False
      have "rsf_fingerprint m' \<noteq> fp_from_entries fp (entries_in w cy (rsf_range m'))"
        by blast
      then obtain rg where rg: "in_range3d rg e" "answered w cy rg b"
        using assms(7) 2 by (auto simp: replied_def)
      then have "pending (g @ b) ms e"
        using ecy unfolding answered_def pending_def by (auto simp: in_entries [OF laws(3)])
      then show ?thesis ..
    next
      case (3 a)
      then have "e \<in> sent_entries b"
        using assms(7) ecy by (auto simp: replied_def in_entries [OF laws(3)])
      then show ?thesis
        by (auto simp: pending_def)
    qed
  qed simp
  moreover have "\<forall>e \<in> sent_entries b. dominated w cy e"
    using sent by (auto simp: dominated_def)
  ultimately show ?thesis
    using K(1-9) fps sent unfolding knows_def by auto
qed

text \<open>An entry of \<open>x\<close> reaches \<open>y\<close>.\<close>

definition ingested :: "wdm \<Rightarrow> Entry \<Rightarrow> Entry list \<Rightarrow> Entry list \<Rightarrow> bool" where
  "ingested w e cy cy' \<longleftrightarrow> distinct cy' \<and>
     set cy' = (if dominated w cy e then set cy else insert e {x \<in> set cy. \<not> supersedes w e x})"

lemma ingested_dominated:
  assumes "path_laws w" "newer_laws w" "ingested w e cy cy'"
  shows "dominated w cy' e" "dominated w cy x \<Longrightarrow> dominated w cy' x"
proof -
  show d: "dominated w cy' e"
    using assms(3) by (auto simp: ingested_def dominated_def split: if_splits)
  assume "dominated w cy x"
  then obtain z where z: "z \<in> set cy" "z = x \<or> supersedes w z x"
    by (auto simp: dominated_def)
  show "dominated w cy' x"
  proof (cases "z \<in> set cy'")
    case True
    then show ?thesis
      using z by (auto simp: dominated_def)
  next
    case False
    then have "supersedes w e z" "e \<in> set cy'"
      using z assms(3) by (auto simp: ingested_def split: if_splits)
    then show ?thesis
      using dominated_trans [OF assms(1,2) d, of z] dominated_trans [OF assms(1,2), of cy' z x] z(2) by blast
  qed
qed

lemma knows_ingest_xy:
  assumes laws: "path_laws w" "newer_laws w" and xy: "knows w fp U r0 X0 started cx cy (RM_SendEntry m # ms) g"
    and ing: "ingested w (le_entry (rse_entry m)) cy cy'"
  shows "knows w fp U r0 X0 started cx cy' ms g"
proof -
  note K = knowsD [OF xy] and D = ingested_dominated [OF laws ing]
  have "dominated w cy' e \<or> pending ms g e" if "e \<in> X0" "in_range3d r0 e" "started" for e
  proof -
    have "dominated w cy e \<or> pending (RM_SendEntry m # ms) g e"
      using K(10) that by blast
    then show ?thesis
      using D by (auto simp: pending_def)
  qed
  then show ?thesis
    using K(1-9) D unfolding knows_def by auto
qed

lemma knows_ingest_yx:
  assumes laws: "path_laws w" "newer_laws w" and yx: "knows w fp U r0 Y0 started cy cx g (RM_SendEntry m # ms)"
    and ing: "ingested w e cy cy'" "e \<in> U" "dominated w cx e"
  shows "knows w fp U r0 Y0 started cy' cx g ms"
proof -
  note K = knowsD [OF yx] and D = ingested_dominated [OF laws ing(1)]
  have new: "x \<in> set cy' \<Longrightarrow> x \<in> set cy \<or> x = e" for x
    using ing(1) by (auto simp: ingested_def split: if_splits)
  have old: "x \<in> Y0 \<Longrightarrow> x \<in> set cy' \<Longrightarrow> x \<in> set cy" for x
    using ing(1) K(5) by (auto simp: ingested_def split: if_splits)
  have "fp_ok w fp U Y0 cy' m'" if m': "fp_ok w fp U Y0 cy m'" for m'
  proof -
    obtain xs where "rsf_fingerprint m' = fp_from_entries fp xs" "distinct xs" "set xs \<subseteq> U"
      "\<forall>e \<in> set xs. dominated w cy e" "\<forall>e \<in> Y0. e \<in> set cy \<longrightarrow> in_range3d (rsf_range m') e \<longrightarrow> e \<in> set xs"
      using m' unfolding fp_ok_def by blast
    then show ?thesis
      unfolding fp_ok_def using D(2) old by (intro exI [of _ xs]) blast
  qed
  moreover have "pending g (RM_SendEntry m # ms) x \<Longrightarrow> pending g ms x" for x
    by (auto simp: pending_def)
  moreover have "distinct cy'" "set cy' \<subseteq> U"
    using ing(1,2) K(2) new by (auto simp: ingested_def)
  moreover have "\<forall>x \<in> set cy'. x \<in> Y0 \<or> dominated w cx x"
    using K(6) new ing(3) by blast
  ultimately show ?thesis
    using K(3-10) D unfolding knows_def by blast
qed

lemma knows_drop:
  assumes "\<not> control m" "\<forall>e. m \<noteq> RM_SendEntry e"
  shows "knows w fp U r0 X0 started cx cy (m # ms) g \<Longrightarrow> knows w fp U r0 X0 started cx cy ms g"
    and "knows w fp U r0 Y0 started cy cx g (m # ms) \<Longrightarrow> knows w fp U r0 Y0 started cy cx g ms"
proof -
  have "sent_entries (m # ms) = sent_entries ms"
    using assms by (cases m) simp_all
  then have "pending (m # ms) g e \<longleftrightarrow> pending ms g e" "pending g (m # ms) e \<longleftrightarrow> pending g ms e" for e
    using assms by (auto simp: pending_def)
  then show "knows w fp U r0 X0 started cx cy (m # ms) g \<Longrightarrow> knows w fp U r0 X0 started cx cy ms g"
    "knows w fp U r0 Y0 started cy cx g (m # ms) \<Longrightarrow> knows w fp U r0 Y0 started cy cx g ms"
    using \<open>sent_entries (m # ms) = sent_entries ms\<close> unfolding knows_def by auto
qed

section \<open>The invariant\<close>

record 's recon_ctx =
  c_wdm :: wdm
  c_fp :: fp_env
  c_univ :: "Entry set"
  c_range :: Range3d
  c_namespace :: NamespaceId
  c_contents :: "'s \<Rightarrow> NamespaceId \<Rightarrow> Entry list"
  c_inv :: "'s \<Rightarrow> bool"

record recon_side =
  sd_role :: Role
  sd_intersection :: AoiIntersection
  sd_init :: "Entry set"

abbreviation sd_id :: "recon_side \<Rightarrow> TargetId"
  where "sd_id X \<equiv> ai_id (sd_intersection X)"

definition ctx_ok :: "'s recon_ctx \<Rightarrow> recon_side \<Rightarrow> recon_side \<Rightarrow> bool" where
  "ctx_ok c X Y \<longleftrightarrow>
     path_laws (c_wdm c) \<and> newer_laws (c_wdm c) \<and> range_laws (c_wdm c) \<and> no_collision (c_fp c) (c_univ c) \<and>
     single_prune (c_wdm c) (c_univ c) \<and> finite (c_univ c) \<and> card (c_univ c) < 2 ^ 64 \<and>
     (\<forall>e \<in> c_univ c. e_namespace_id e = c_namespace c) \<and>
     sd_role X \<noteq> sd_role Y \<and> prod.swap (sd_id X) = sd_id Y \<and>
     ai_namespace (sd_intersection X) = c_namespace c \<and> ai_namespace (sd_intersection Y) = c_namespace c \<and>
     area_to_range (c_wdm c) (ai_area (sd_intersection X)) = Some (c_range c) \<and>
     area_to_range (c_wdm c) (ai_area (sd_intersection Y)) = Some (c_range c)"

lemma ctx_ok_sym: "ctx_ok c X Y \<Longrightarrow> ctx_ok c Y X"
  unfolding ctx_ok_def by (metis swap_swap)

lemma ctx_okD:
  assumes "ctx_ok c X Y"
  shows "path_laws (c_wdm c)" "newer_laws (c_wdm c)" "range_laws (c_wdm c)" "no_collision (c_fp c) (c_univ c)"
    "single_prune (c_wdm c) (c_univ c)" "finite (c_univ c)" "card (c_univ c) < 2 ^ 64"
    "\<forall>e \<in> c_univ c. e_namespace_id e = c_namespace c"
    "sd_role X \<noteq> sd_role Y" "prod.swap (sd_id X) = sd_id Y"
    "ai_namespace (sd_intersection X) = c_namespace c" "ai_namespace (sd_intersection Y) = c_namespace c"
    "area_to_range (c_wdm c) (ai_area (sd_intersection X)) = Some (c_range c)"
    "area_to_range (c_wdm c) (ai_area (sd_intersection Y)) = Some (c_range c)"
  using assms unfolding ctx_ok_def by blast+

definition fresh_target :: "AoiIntersection \<Rightarrow> Target" where
  "fresh_target i = \<lparr> tg_intersection = i, tg_our_uncovered_ranges = {}, tg_started = False,
     tg_our_range_counter = 0, tg_their_range_counter = 0 \<rparr>"

abbreviation born :: "('s, 'cap, 'sg) recon \<Rightarrow> bool"
  where "born s \<equiv> rc_inbox s = []"

definition reconciled :: "AoiIntersection \<Rightarrow> ReconOutput list"
  where "reconciled i = [ReconciledArea (ai_namespace i) (ai_intersection i), ReconciledAll]"

text \<open>A peer before it took up its target, while it reconciles, and when it is done.\<close>

definition waiting :: "AoiIntersection \<Rightarrow> ('s, 'cap, 'sg) recon \<Rightarrow> Target \<Rightarrow> bool" where
  "waiting i s t \<longleftrightarrow> rc_inbox s = [i] \<and> rc_map s = [] \<and> t = fresh_target i \<and> rc_entry_state s = None \<and> rc_out s = []"

definition active :: "AoiIntersection \<Rightarrow> ('s, 'cap, 'sg) recon \<Rightarrow> Target \<Rightarrow> bool" where
  "active i s t \<longleftrightarrow> born s \<and> rc_map s = [(ai_id i, t)] \<and> \<not> (tg_is_complete t \<and> rc_entry_state s = None) \<and> rc_out s = []"

definition finished :: "AoiIntersection \<Rightarrow> ('s, 'cap, 'sg) recon \<Rightarrow> Target \<Rightarrow> bool" where
  "finished i s t \<longleftrightarrow> born s \<and> rc_map s = [] \<and> tg_is_complete t \<and> rc_entry_state s = None \<and> rc_out s = reconciled i"

definition peer_ok :: "AoiIntersection \<Rightarrow> ('s, 'cap, 'sg) recon \<Rightarrow> Target \<Rightarrow> bool" where
  "peer_ok i s t \<longleftrightarrow> \<not> rc_closed s \<and> tg_intersection t = i \<and>
     (\<forall>st. rc_entry_state s = Some st \<longrightarrow> es_target st = ai_id i) \<and> (waiting i s t \<or> active i s t \<or> finished i s t)"

definition alfie_born :: "recon_side \<Rightarrow> ('s, 'cap, 'sg) recon \<Rightarrow> recon_side \<Rightarrow> ('s, 'cap, 'sg) recon \<Rightarrow> bool"
  where "alfie_born X x Y y \<longleftrightarrow> (sd_role X = Alfie \<longrightarrow> born x) \<and> (sd_role Y = Alfie \<longrightarrow> born y)"

abbreviation c_ct :: "'s recon_ctx \<Rightarrow> ('s, 'cap, 'sg) recon \<Rightarrow> Entry list"
  where "c_ct c s \<equiv> c_contents c (rc_store s) (c_namespace c)"

definition half_inv ::
  "'s recon_ctx \<Rightarrow> recon_side \<Rightarrow> recon_side \<Rightarrow> ('s, 'cap, 'sg) recon \<Rightarrow> Target \<Rightarrow> ('s, 'cap, 'sg) recon \<Rightarrow> Target \<Rightarrow> bool" where
  "half_inv c X Y x tx y ty \<longleftrightarrow>
     peer_ok (sd_intersection X) x tx \<and> c_inv c (rc_store x) \<and>
     flow (sd_role X) (born x) (sd_id Y) tx (rc_sent x) ty (rc_sent y) (position_of (rc_entry_state y)) \<and>
     knows (c_wdm c) (c_fp c) (c_univ c) (c_range c) (sd_init X) (alfie_born X x Y y) (c_ct c x) (c_ct c y) (rc_sent x) (rc_sent y)"

definition peers_inv ::
  "'s recon_ctx \<Rightarrow> recon_side \<Rightarrow> recon_side \<Rightarrow> ('s, 'cap, 'sg) recon \<Rightarrow> Target \<Rightarrow> ('s, 'cap, 'sg) recon \<Rightarrow> Target \<Rightarrow> bool" where
  "peers_inv c X Y x tx y ty \<longleftrightarrow> half_inv c X Y x tx y ty \<and> half_inv c Y X y ty x tx"

lemma peers_inv_sym: "peers_inv c X Y x tx y ty \<Longrightarrow> peers_inv c Y X y ty x tx"
  by (simp add: peers_inv_def)

section \<open>Taking up and completing a target\<close>

definition holds_target :: "AoiIntersection \<Rightarrow> ('s, 'cap, 'sg) recon \<Rightarrow> Target \<Rightarrow> bool" where
  "holds_target i s t \<longleftrightarrow> rc_inbox s = [i] \<and> rc_map s = [] \<and> t = fresh_target i \<or> born s \<and> rc_map s = [(ai_id i, t)]"

lemma peer_ok_holds: "peer_ok i s t \<Longrightarrow> \<not> finished i s t \<Longrightarrow> holds_target i s t"
  by (auto simp: peer_ok_def holds_target_def waiting_def active_def)

lemma wp_get_eventually:
  assumes "holds_target i y t" "\<not> born y \<Longrightarrow> re_role v \<noteq> Alfie"
    and "Q t (y\<lparr> rc_inbox := [], rc_map := [(ai_id i, t)] \<rparr>)"
  shows "wp ok (get_eventually v (ai_id i)) Q y"
proof (cases "born y")
  case False
  then show ?thesis
    using assms
    by (simp add: get_eventually_def wp_simps holds_target_def init_target_def tg_init_def Let_def fresh_target_def)
next
  case True
  then have m: "rc_map y = [(ai_id i, t)]"
    using assms(1) by (simp add: holds_target_def)
  with True have "y\<lparr> rc_inbox := [], rc_map := [(ai_id i, t)] \<rparr> = y"
    by simp
  then have "Q t y"
    using assms(3) by metis
  then show ?thesis
    using m by (simp add: get_eventually_def wp_simps)
qed

lemma wp_put_complete:
  assumes "rc_map s = [(ai_id i, t0)]" "rc_inbox s = []" "rc_out s = []" "\<not> rc_closed s" "tg_intersection t = i"
    and "\<forall>st. rc_entry_state s = Some st \<longrightarrow> es_target st = ai_id i"
    and "\<And>s'. peer_ok i s' t \<Longrightarrow> born s' \<Longrightarrow> rc_sent s' = rc_sent s \<Longrightarrow> rc_store s' = rc_store s \<Longrightarrow>
      rc_entry_state s' = rc_entry_state s \<Longrightarrow> Q () s'"
  shows "wp ok (rbind (put_target (ai_id i) t) (\<lambda>_. complete_if_done (ai_id i) t)) Q s"
proof -
  let ?s = "s\<lparr> rc_map := [(ai_id i, t)] \<rparr>"
  let ?s2 = "s\<lparr> rc_map := [], rc_out := reconciled i \<rparr>"
  show ?thesis
  proof (cases "tg_is_complete t \<and> rc_entry_state s = None")
    case True
    then have "peer_ok i ?s2 t"
      using assms(2,4,5) by (simp add: peer_ok_def finished_def)
    then have "Q () ?s2"
      using assms(2,7) by simp
    then show ?thesis
      using True assms(1,3,5)
      by (simp add: put_target_def complete_if_done_def complete_target_def rc_yield_def wp_simps es_is_empty_def reconciled_def)
  next
    case False
    then have "peer_ok i ?s t"
      using assms(2-6) by (simp add: peer_ok_def active_def)
    then have "Q () ?s"
      using assms(2,7) by simp
    then show ?thesis
      using False assms(1) by (auto simp: put_target_def complete_if_done_def wp_simps es_is_empty_def)
  qed
qed

lemma length_universe:
  assumes "ctx_ok c X Y" "distinct ct" "set ct \<subseteq> c_univ c"
  shows "length ct < 2 ^ 64"
  using assms(2) distinct_card [OF assms(2)] card_mono [OF ctx_okD(6) [OF assms(1)] assms(3)] ctx_okD(7) [OF assms(1)]
  by linarith

text \<open>A peer that gets a message is not done, and is Betty when it has not taken up its target.\<close>

lemma receiver_ready:
  assumes "ctx_ok c X Y" "peers_inv c X Y x tx y ty" "rc_sent x = m # ms"
  shows "\<not> finished (sd_intersection Y) y ty" "waiting (sd_intersection Y) y ty \<Longrightarrow> sd_role Y \<noteq> Alfie" "born x"
proof -
  have F: "flow (sd_role X) (born x) (sd_id Y) tx (rc_sent x) ty (rc_sent y) (position_of (rc_entry_state y))"
    and G: "flow (sd_role Y) (born y) (sd_id X) ty (rc_sent y) tx (rc_sent x) (position_of (rc_entry_state x))"
    using assms(2) by (simp_all add: peers_inv_def half_inv_def)
  show "born x"
    using flowD(11) [OF F] assms(3) by auto
  show "\<not> finished (sd_intersection Y) y ty"
  proof
    assume fin: "finished (sd_intersection Y) y ty"
    then have "flow (sd_role X) (born x) (sd_id Y) tx (rc_sent x) ty (rc_sent y) Outside"
      using F by (simp add: finished_def position_of_def)
    from flow_complete(1) [OF this G] show False
      using fin assms(3) by (simp add: finished_def tg_is_complete_def)
  qed
  assume wt: "waiting (sd_intersection Y) y ty"
  show "sd_role Y \<noteq> Alfie"
  proof
    assume "sd_role Y = Alfie"
    then have "sd_role X \<noteq> Alfie"
      using ctx_okD(9) [OF assms(1)] by simp
    moreover have "covers (rc_sent x) = []"
      using flowD(2) [OF G] wt by (simp add: waiting_def fresh_target_def)
    ultimately have "filter control (rc_sent x) = []"
      using flowD(7) [OF F] covers_Nil_last [of "rc_sent x"] by metis
    moreover have "well_formed Outside (rc_sent x)"
      using flowD(6) [OF F] wt by (simp add: waiting_def position_of_def)
    ultimately show False
      using assms(3) well_formed_no_control by fastforce
  qed
qed

section \<open>Messages keep the invariant\<close>

lemma peer_ok_sent [simp]: "peer_ok i (x\<lparr> rc_sent := ms \<rparr>) t \<longleftrightarrow> peer_ok i x t"
  by (simp add: peer_ok_def waiting_def active_def finished_def)

lemma reply_inv:
  assumes ctx: "ctx_ok c X Y" and inv: "peers_inv c X Y x tx y ty" and f: "rc_sent x = m # ms" "control m"
    and acc: "accepted (cov m) (opens_range m) ty t1" and bt: "batch (c_fp c) (c_wdm c) (c_ct c y) t1 ty' b"
    and cl: "if opens_range m then closes (unat (tg_their_range_counter ty)) b else b = []"
    and rep: "replied (c_wdm c) (c_fp c) (c_ct c y) m b"
    and y': "peer_ok (sd_intersection Y) y' ty'" "born y'" "rc_sent y' = rc_sent y @ b" "rc_store y' = rc_store y"
    and wf: "well_formed (position_of (rc_entry_state y')) ms"
  shows "peers_inv c X Y (x\<lparr> rc_sent := ms \<rparr>) tx y' ty'"
proof -
  note C = ctx_okD [OF ctx] and R = receiver_ready [OF ctx inv f(1)]
  have hx: "half_inv c X Y x tx y ty" and hy: "half_inv c Y X y ty x tx"
    using inv by (simp_all add: peers_inv_def)
  have pos: "tg_intersection ty = sd_intersection Y"
    using hy by (simp add: half_inv_def peer_ok_def)
  have ab: "alfie_born X (x\<lparr> rc_sent := ms \<rparr>) Y y' = alfie_born X x Y y" "alfie_born Y y' X (x\<lparr> rc_sent := ms \<rparr>) = alfie_born Y y X x"
    and yb: "sd_role Y = Alfie \<longrightarrow> born y"
    using R y'(2) hy by (auto simp: alfie_born_def half_inv_def peer_ok_def active_def)
  have Kx: "knows (c_wdm c) (c_fp c) (c_univ c) (c_range c) (sd_init X) (alfie_born X x Y y) (c_ct c x) (c_ct c y) (m # ms) (rc_sent y)"
    and Ky: "knows (c_wdm c) (c_fp c) (c_univ c) (c_range c) (sd_init Y) (alfie_born Y y X x) (c_ct c y) (c_ct c x) (rc_sent y) (m # ms)"
    and Fx: "flow (sd_role X) (born x) (sd_id Y) tx (m # ms) ty (rc_sent y) (position_of (rc_entry_state y))"
    and Fy: "flow (sd_role Y) (born y) (sd_id X) ty (rc_sent y) tx (m # ms) (position_of (rc_entry_state x))"
    using hx hy f(1) by (simp_all add: half_inv_def)
  have sw: "prod.swap (tg_id ty) = sd_id X"
    using C(10) pos by (metis swap_swap)
  have "flow (sd_role X) (born x) (sd_id Y) tx ms ty' (rc_sent y @ b) (position_of (rc_entry_state y'))"
    by (rule flow_reply_xy [OF Fx f(2) acc bt cl wf])
  moreover have "flow (sd_role Y) True (sd_id X) ty' (rc_sent y @ b) tx ms (position_of (rc_entry_state x))"
    by (rule flow_reply_yx [OF Fy f(2) acc bt sw cl yb])
  moreover have "knows (c_wdm c) (c_fp c) (c_univ c) (c_range c) (sd_init X) (alfie_born X x Y y) (c_ct c x) (c_ct c y) ms (rc_sent y @ b)"
    using knowsD(1,2) [OF Ky] by (intro knows_reply_xy [OF C(1-4) Kx _ _ rep])
  moreover have "knows (c_wdm c) (c_fp c) (c_univ c) (c_range c) (sd_init Y) (alfie_born Y y X x) (c_ct c y) (c_ct c x) (rc_sent y @ b) ms"
    by (rule knows_reply_yx [OF C(1-4) Ky Kx rep bt])
  ultimately show ?thesis
    using hx hy y' ab unfolding peers_inv_def half_inv_def by simp
qed

definition env_ok :: "('s, 'cap, 'sg, 'blob) recon_env \<Rightarrow> 's recon_ctx \<Rightarrow> recon_side \<Rightarrow> bool"
  where "env_ok v c Y \<longleftrightarrow> re_wdm v = c_wdm c \<and> re_fp v = c_fp c \<and> re_role v = sd_role Y"

text \<open>The covers of a message that arrives are uncovered ranges of the receiver.\<close>

lemma covers_uncovered:
  assumes "peers_inv c X Y x tx y ty" "rc_sent x = m # ms"
  shows "set_option (cov m) \<subseteq> tg_our_uncovered_ranges ty"
proof
  fix n
  assume n: "n \<in> set_option (cov m)"
  have "flow (sd_role Y) (born y) (sd_id X) ty (rc_sent y) tx (m # ms) (position_of (rc_entry_state x))"
    using assms by (simp add: peers_inv_def half_inv_def)
  then have "unat n \<in> unat ` tg_our_uncovered_ranges ty"
    using flowD(2) n by fastforce
  then show "n \<in> tg_our_uncovered_ranges ty"
    by (metis imageE word_eq_unat_iff)
qed

text \<open>What is known of the peer that gets a message.\<close>

lemma arrival:
  assumes ctx: "ctx_ok c X Y" and inv: "peers_inv c X Y x tx y ty" and f: "rc_sent x = m # ms"
  shows "peer_ok (sd_intersection Y) y ty" "holds_target (sd_intersection Y) y ty" "tg_intersection ty = sd_intersection Y"
    "\<not> rc_closed y" "rc_out y = []" "to_target (sd_id Y) m" "well_formed (position_of (rc_entry_state y)) (m # ms)"
    "length (c_ct c y) < 2 ^ 64" "c_inv c (rc_store y)" "\<not> born y \<Longrightarrow> sd_role Y \<noteq> Alfie" "tg_namespace ty = c_namespace c"
proof -
  note R = receiver_ready [OF ctx inv f]
  have hy: "half_inv c Y X y ty x tx" and hx: "half_inv c X Y x tx y ty"
    using inv by (simp_all add: peers_inv_def)
  show po: "peer_ok (sd_intersection Y) y ty" and "c_inv c (rc_store y)"
    using hy by (simp_all add: half_inv_def)
  show "holds_target (sd_intersection Y) y ty"
    by (rule peer_ok_holds [OF po R(1)])
  show ti: "tg_intersection ty = sd_intersection Y" and "\<not> rc_closed y" "rc_out y = []"
    using po R(1) by (auto simp: peer_ok_def waiting_def active_def)
  then show "tg_namespace ty = c_namespace c"
    using ctx_okD(12) [OF ctx] by simp
  have F: "flow (sd_role X) (born x) (sd_id Y) tx (m # ms) ty (rc_sent y) (position_of (rc_entry_state y))"
    using hx f by (simp add: half_inv_def)
  show "to_target (sd_id Y) m" "well_formed (position_of (rc_entry_state y)) (m # ms)"
    using flowD(5,6) [OF F] by simp_all
  have K: "knows (c_wdm c) (c_fp c) (c_univ c) (c_range c) (sd_init Y) (alfie_born Y y X x) (c_ct c y) (c_ct c x) (rc_sent y) (rc_sent x)"
    using hy by (simp add: half_inv_def)
  show "length (c_ct c y) < 2 ^ 64"
    by (rule length_universe [OF ctx knowsD(1,2) [OF K]])
  show "\<not> born y \<Longrightarrow> sd_role Y \<noteq> Alfie"
    using R(2) po by (auto simp: peer_ok_def active_def finished_def)
qed

context entry_storage
begin

lemma deliver_fingerprint:
  fixes x y :: "('s, 'cap, 'sg) recon"
  assumes ctx: "ctx_ok c X Y" and env: "env_ok v c Y" and cc: "c_contents c = contents" "c_inv c = inv"
    and inv: "peers_inv c X Y x tx y ty" and f: "rc_sent x = RM_SendFingerprint m # ms"
  shows "wp peer_error (received_message v (RM_SendFingerprint m))
    (\<lambda>_ y'. \<exists>ty'. peers_inv c X Y (x\<lparr> rc_sent := ms \<rparr>) tx y' ty') y"
proof -
  let ?i = "sd_intersection Y"
  note A = arrival [OF ctx inv f]
  have idm: "rsf_handles m = ai_id ?i"
    using A(6) by simp
  have pos: "position_of (rc_entry_state y) = Outside" "well_formed Outside ms"
    using A(7) by simp_all
  let ?y = "y\<lparr> rc_inbox := [], rc_map := [(ai_id ?i, ty)] \<rparr>"
  have ct: "c_ct c y = contents (rc_store ?y) (tg_namespace ty)"
    using cc(1) A(11) by simp
  have rl: "range_laws (re_wdm v)" and cvd: "set_option (rsf_covers m) \<subseteq> tg_our_uncovered_ranges ty"
    using ctx_okD(3) [OF ctx] env covers_uncovered [OF inv f] by (simp_all add: env_ok_def)
  show ?thesis
    unfolding received_message.simps Let_def idm wp_rbind
  proof (rule wp_get_eventually [OF A(2)])
    show "\<not> born y \<Longrightarrow> re_role v \<noteq> Alfie"
      using A(10) env by (simp add: env_ok_def)
    show "wp peer_error (tg_received_send_fingerprint v m ty) (\<lambda>t. wp peer_error (put_target (ai_id ?i) t)
        (\<lambda>_. wp peer_error (complete_if_done (ai_id ?i) t) (\<lambda>_ y'. \<exists>ty'. peers_inv c X Y (x\<lparr> rc_sent := ms \<rparr>) tx y' ty'))) ?y"
    proof (rule wp_received_fingerprint [OF _ ct rl A(8) cvd])
      fix t1 t' s' b
      assume s: "sends b ?y s'" and acc: "accepted (rsf_covers m) True ty t1"
        and bt: "batch (re_fp v) (re_wdm v) (c_ct c y) t1 t' b" and cl: "closes (unat (tg_their_range_counter ty)) b"
        and rep: "rsf_fingerprint m = fp_from_entries (re_fp v) (entries_in (re_wdm v) (c_ct c y) (rsf_range m)) \<or>
          (\<forall>e. in_range3d (rsf_range m) e \<longrightarrow> (\<exists>rg. in_range3d rg e \<and> answered (re_wdm v) (c_ct c y) rg b))"
      note S = sends_fields [OF s]
      have t'i: "tg_intersection t' = ?i"
        using acc bt A(3) by (simp add: accepted_def batch_def grown_def)
      show "wp peer_error (put_target (ai_id ?i) t') (\<lambda>_. wp peer_error (complete_if_done (ai_id ?i) t')
          (\<lambda>_ y'. \<exists>ty'. peers_inv c X Y (x\<lparr> rc_sent := ms \<rparr>) tx y' ty')) s'"
        unfolding wp_rbind [symmetric]
      proof (rule wp_put_complete)
        fix y' :: "('s, 'cap, 'sg) recon"
        assume y': "peer_ok ?i y' t'" "born y'" "rc_sent y' = rc_sent s'" "rc_store y' = rc_store s'"
          "rc_entry_state y' = rc_entry_state s'"
        have "peers_inv c X Y (x\<lparr> rc_sent := ms \<rparr>) tx y' t'"
          using env rep acc bt cl S y' pos
          by (intro reply_inv [OF ctx inv f, of t1 t' b]) (simp_all add: env_ok_def replied_def)
        then show "\<exists>ty'. peers_inv c X Y (x\<lparr> rc_sent := ms \<rparr>) tx y' ty'" ..
      qed (use S A(1,4,5) t'i in \<open>simp_all add: peer_ok_def\<close>)
    qed (use A(4) in simp)
  qed
qed

lemma deliver_announce:
  fixes x y :: "('s, 'cap, 'sg) recon"
  assumes ctx: "ctx_ok c X Y" and env: "env_ok v c Y" and cc: "c_contents c = contents" "c_inv c = inv"
    and inv: "peers_inv c X Y x tx y ty" and f: "rc_sent x = RM_AnnounceEntries a # ms"
  shows "wp peer_error (received_message v (RM_AnnounceEntries a))
    (\<lambda>_ y'. \<exists>ty'. peers_inv c X Y (x\<lparr> rc_sent := ms \<rparr>) tx y' ty') y"
proof -
  let ?i = "sd_intersection Y"
  let ?e = "if rae_is_empty a then None else Some \<lparr> es_target = ai_id ?i, es_current_payload = None \<rparr>"
  note A = arrival [OF ctx inv f]
  have idm: "rae_handles a = ai_id ?i"
    using A(6) by simp
  have pos: "position_of (rc_entry_state y) = Outside" "well_formed (position_of ?e) ms"
    using A(7) by (simp, auto simp: position_of_def)
  then have e0: "rc_entry_state y = None"
    by (auto simp: position_of_def split: option.splits if_splits)
  let ?y = "y\<lparr> rc_entry_state := ?e, rc_inbox := [], rc_map := [(ai_id ?i, ty)] \<rparr>"
  have ct: "c_ct c y = contents (rc_store ?y) (tg_namespace ty)"
    using cc(1) A(11) by simp
  have cvd: "set_option (rae_covers a) \<subseteq> tg_our_uncovered_ranges ty"
    using covers_uncovered [OF inv f] by simp
  have "wp peer_error (rbind (get_eventually v (ai_id ?i)) (\<lambda>target.
         rbind (tg_received_announce_entries v a target) (\<lambda>target.
         rbind (put_target (ai_id ?i) target) (\<lambda>_. complete_if_done (ai_id ?i) target))))
      (\<lambda>_ y'. \<exists>ty'. peers_inv c X Y (x\<lparr> rc_sent := ms \<rparr>) tx y' ty') (y\<lparr> rc_entry_state := ?e \<rparr>)"
    unfolding wp_rbind
  proof (rule wp_get_eventually)
    show "holds_target ?i (y\<lparr> rc_entry_state := ?e \<rparr>) ty"
      using A(2) by (simp add: holds_target_def)
    show "\<not> born (y\<lparr> rc_entry_state := ?e \<rparr>) \<Longrightarrow> re_role v \<noteq> Alfie"
      using A(10) env by (simp add: env_ok_def)
    show "wp peer_error (tg_received_announce_entries v a ty) (\<lambda>t. wp peer_error (put_target (ai_id ?i) t)
        (\<lambda>_. wp peer_error (complete_if_done (ai_id ?i) t) (\<lambda>_ y'. \<exists>ty'. peers_inv c X Y (x\<lparr> rc_sent := ms \<rparr>) tx y' ty'))) ?y"
    proof (rule wp_received_announce [OF _ ct cvd])
      fix t1 t' s' b
      assume s: "sends b ?y s'" and acc: "accepted (rae_covers a) (rae_want_response a) ty t1"
        and bt: "batch (re_fp v) (re_wdm v) (c_ct c y) t1 t' b"
        and rep: "if rae_want_response a then closes (unat (tg_their_range_counter ty)) b \<and>
          set (entries_in (re_wdm v) (c_ct c y) (rae_range a)) \<subseteq> sent_entries b else b = []"
      note S = sends_fields [OF s]
      have t'i: "tg_intersection t' = ?i"
        using acc bt A(3) by (simp add: accepted_def batch_def grown_def)
      show "wp peer_error (put_target (ai_id ?i) t') (\<lambda>_. wp peer_error (complete_if_done (ai_id ?i) t')
          (\<lambda>_ y'. \<exists>ty'. peers_inv c X Y (x\<lparr> rc_sent := ms \<rparr>) tx y' ty')) s'"
        unfolding wp_rbind [symmetric]
      proof (rule wp_put_complete)
        fix y' :: "('s, 'cap, 'sg) recon"
        assume y': "peer_ok ?i y' t'" "born y'" "rc_sent y' = rc_sent s'" "rc_store y' = rc_store s'"
          "rc_entry_state y' = rc_entry_state s'"
        have "peers_inv c X Y (x\<lparr> rc_sent := ms \<rparr>) tx y' t'"
          using env rep acc bt S y' pos
          by (intro reply_inv [OF ctx inv f, of t1 t' b]) (simp_all add: env_ok_def replied_def split: if_splits)
        then show "\<exists>ty'. peers_inv c X Y (x\<lparr> rc_sent := ms \<rparr>) tx y' ty'" ..
      qed (use S A(1,4,5) t'i in \<open>auto simp: peer_ok_def split: if_splits\<close>)
    qed (use A(4) in simp)
  qed
  then show ?thesis
    by (simp add: with_entry_state_def es_received_announce_entries_def idm e0 wp_simps res_bind_def Let_def)
qed

end

text \<open>A message that belongs to an entry is taken, and the targets stay.\<close>

lemma entry_inv:
  assumes inv: "peers_inv c X Y x tx y ty" and f: "rc_sent x = m # ms" "\<not> control m" and y: "born y"
    and y': "peer_ok (sd_intersection Y) y' ty" "born y'" "rc_sent y' = rc_sent y" "c_inv c (rc_store y')"
    and wf: "well_formed (position_of (rc_entry_state y')) ms"
    and Kx: "\<And>st. knows (c_wdm c) (c_fp c) (c_univ c) (c_range c) (sd_init X) st (c_ct c x) (c_ct c y) (m # ms) (rc_sent y) \<Longrightarrow>
      knows (c_wdm c) (c_fp c) (c_univ c) (c_range c) (sd_init X) st (c_ct c x) (c_ct c y') ms (rc_sent y)"
    and Ky: "\<And>st. knows (c_wdm c) (c_fp c) (c_univ c) (c_range c) (sd_init Y) st (c_ct c y) (c_ct c x) (rc_sent y) (m # ms) \<Longrightarrow>
      knows (c_wdm c) (c_fp c) (c_univ c) (c_range c) (sd_init Y) st (c_ct c y') (c_ct c x) (rc_sent y) ms"
  shows "peers_inv c X Y (x\<lparr> rc_sent := ms \<rparr>) tx y' ty"
proof -
  have hx: "half_inv c X Y x tx y ty" and hy: "half_inv c Y X y ty x tx"
    using inv by (simp_all add: peers_inv_def)
  have ab: "alfie_born X (x\<lparr> rc_sent := ms \<rparr>) Y y' = alfie_born X x Y y" "alfie_born Y y' X (x\<lparr> rc_sent := ms \<rparr>) = alfie_born Y y X x"
    using y y'(2) by (auto simp: alfie_born_def)
  have Fx: "flow (sd_role X) (born x) (sd_id Y) tx (m # ms) ty (rc_sent y) (position_of (rc_entry_state y))"
    and Fy: "flow (sd_role Y) (born y) (sd_id X) ty (rc_sent y) tx (m # ms) (position_of (rc_entry_state x))"
    using hx hy f(1) by (simp_all add: half_inv_def)
  have "flow (sd_role X) (born x) (sd_id Y) tx ms ty (rc_sent y) (position_of (rc_entry_state y'))"
    by (rule flow_entry [OF Fx f(2) wf])
  moreover have "flow (sd_role Y) (born y') (sd_id X) ty (rc_sent y) tx ms (position_of (rc_entry_state x))"
    using flow_entry_back [OF Fy f(2)] y y'(2) by simp
  ultimately show ?thesis
    using hx hy y' ab f(1) Kx Ky unfolding peers_inv_def half_inv_def by simp
qed

lemma payload_inv:
  assumes inv: "peers_inv c X Y x tx y ty" and f: "rc_sent x = m # ms" "\<not> control m" "\<forall>e. m \<noteq> RM_SendEntry e" and y: "born y"
    and y': "peer_ok (sd_intersection Y) y' ty" "born y'" "rc_sent y' = rc_sent y" "rc_store y' = rc_store y"
    and wf: "well_formed (position_of (rc_entry_state y')) ms"
  shows "peers_inv c X Y (x\<lparr> rc_sent := ms \<rparr>) tx y' ty"
proof (rule entry_inv [OF inv f(1,2) y y'(1-3) _ wf])
  show "c_inv c (rc_store y')"
    using inv y'(4) by (simp add: peers_inv_def half_inv_def)
qed (unfold y'(4), (erule knows_drop [OF f(2,3)])+)

text \<open>A peer within the entries of an announcement.\<close>

lemma in_entries_active:
  assumes "peer_ok i y t" "position_of (rc_entry_state y) \<noteq> Outside"
  obtains st where "rc_entry_state y = Some st" "es_target st = ai_id i" "active i y t"
    "(es_current_payload st = None) = (position_of (rc_entry_state y) = BeforeEntry)"
  using assms by (auto simp: peer_ok_def waiting_def finished_def position_of_def split: option.splits if_splits)

lemma peer_ok_entry:
  assumes "active i y t" "peer_ok i y t" "es_target st = ai_id i"
  shows "peer_ok i (y\<lparr> rc_entry_state := Some st \<rparr>) t"
  using assms by (simp add: peer_ok_def active_def)

lemma deliver_payload:
  assumes ctx: "ctx_ok c X Y" and inv: "peers_inv c X Y x tx y ty" and f: "rc_sent x = RM_SendPayload m # ms"
  shows "wp peer_error (received_message v (RM_SendPayload m))
    (\<lambda>_ y'. \<exists>ty'. peers_inv c X Y (x\<lparr> rc_sent := ms \<rparr>) tx y' ty') y"
proof -
  note A = arrival [OF ctx inv f]
  have p: "position_of (rc_entry_state y) = InPayload" and wf: "well_formed InPayload ms"
    using A(7) by simp_all
  then obtain st pl where st: "rc_entry_state y = Some st" "es_target st = sd_id Y" "active (sd_intersection Y) y ty"
    "es_current_payload st = Some pl"
    using in_entries_active [OF A(1)] by (metis option.exhaust position.distinct(3,5))
  have "peers_inv c X Y (x\<lparr> rc_sent := ms \<rparr>) tx (y\<lparr> rc_entry_state := Some (st\<lparr> es_current_payload := Some pl' \<rparr>) \<rparr>) ty" for pl'
    using st A wf
    by (intro payload_inv [OF inv f]) (auto simp: active_def position_of_def peer_ok_entry)
  then show ?thesis
    using st by (auto simp: with_entry_state_def es_received_send_payload_def wp_simps res_bind_def es_get_mut_def ok_or_def
        cp_recv_chunk_def Let_def map_err_def peer_error_def)
qed

lemma deliver_terminate:
  assumes ctx: "ctx_ok c X Y" and inv: "peers_inv c X Y x tx y ty" and f: "rc_sent x = RM_TerminatePayload m # ms"
  shows "wp peer_error (received_message v (RM_TerminatePayload m))
    (\<lambda>_ y'. \<exists>ty'. peers_inv c X Y (x\<lparr> rc_sent := ms \<rparr>) tx y' ty') y"
proof -
  let ?i = "sd_intersection Y"
  note A = arrival [OF ctx inv f]
  have p: "position_of (rc_entry_state y) = InPayload" and wf: "well_formed (if rtp_is_final m then Outside else BeforeEntry) ms"
    using A(7) by simp_all
  then obtain st pl where st: "rc_entry_state y = Some st" "es_target st = sd_id Y" "active ?i y ty"
    "es_current_payload st = Some pl"
    using in_entries_active [OF A(1)] by (metis option.exhaust position.distinct(3,5))
  have go: "peers_inv c X Y (x\<lparr> rc_sent := ms \<rparr>) tx y' ty"
    if "peer_ok ?i y' ty" "born y'" "rc_sent y' = rc_sent y" "rc_store y' = rc_store y"
      "well_formed (position_of (rc_entry_state y')) ms" for y'
    using st(3) that by (intro payload_inv [OF inv f]) (auto simp: active_def)
  have fin: "wp peer_error (rbind (gets rc_map) (\<lambda>m. rbind (unwrap (map_of m (sd_id Y))) (\<lambda>target.
             if tg_is_complete target then complete_target (tg_id target) else ret ())))
       (\<lambda>_ y'. \<exists>ty'. peers_inv c X Y (x\<lparr> rc_sent := ms \<rparr>) tx y' ty') (y\<lparr> rc_entry_state := None \<rparr>)" if final: "rtp_is_final m"
  proof (cases "tg_is_complete ty")
    case True
    have "peers_inv c X Y (x\<lparr> rc_sent := ms \<rparr>) tx (y\<lparr> rc_entry_state := None, rc_map := [], rc_out := reconciled ?i \<rparr>) ty"
      using True st(3) A wf final
      by (intro go) (auto simp: peer_ok_def finished_def active_def position_of_def)
    then show ?thesis
      using True st(3) A(3,5) by (auto simp: wp_simps complete_target_def active_def rc_yield_def reconciled_def)
  next
    case False
    have "peers_inv c X Y (x\<lparr> rc_sent := ms \<rparr>) tx (y\<lparr> rc_entry_state := None \<rparr>) ty"
      using False st(3) A wf final
      by (intro go) (auto simp: peer_ok_def active_def position_of_def)
    then show ?thesis
      using False st(3) by (auto simp: wp_simps active_def)
  qed
  have "peers_inv c X Y (x\<lparr> rc_sent := ms \<rparr>) tx (y\<lparr> rc_entry_state := Some (st\<lparr> es_current_payload := None \<rparr>) \<rparr>) ty" if "\<not> rtp_is_final m"
    using that st A wf by (intro go) (auto simp: active_def position_of_def peer_ok_entry)
  then show ?thesis
    using st fin by (cases "rtp_is_final m") (auto simp: with_entry_state_def es_received_terminate_payload_def wp_simps
        res_bind_def es_get_mut_def ok_or_def cp_finalize_def map_err_def peer_error_def split: option.splits sum.splits)
qed

lemma wp_authorise:
  assumes "\<And>ae tok. ae_entry ae = le_entry (rse_entry m) \<Longrightarrow> Q ae (s\<lparr> rc_tokens := tok \<rparr>)"
  shows "wp peer_error (rc_authorise_entry v m) Q s"
  using assms
  by (auto simp: wp_def rc_authorise_entry_def poll_authorise_entry_def try_res_def map_err_def peer_error_def authorised_entry_new_def
      split: prod.splits poll.splits sum.splits if_splits)

lemma single_prune_length:
  assumes "single_prune w U" "e \<in> U" "distinct ct" "set ct \<subseteq> U"
  shows "length (filter (supersedes w e) ct) \<le> 1"
proof -
  have "\<forall>x \<in> set (filter (supersedes w e) ct). \<forall>y \<in> set (filter (supersedes w e) ct). x = y"
    using assms(1,2,4) by (auto simp: single_prune_def)
  then have "card (set (filter (supersedes w e) ct)) \<le> 1"
    by (intro card_le_Suc0_iff_eq [THEN iffD2, simplified One_nat_def [symmetric]]) simp_all
  then show ?thesis
    using assms(3) by (metis distinct_card distinct_filter)
qed

context entry_storage
begin

lemma wp_ingest:
  fixes s :: "('s, 'cap, 'sg) recon"
  assumes "inv (rc_store s)" "e_namespace_id (ae_entry e) = ns"
    and "length (filter (supersedes (re_wdm v) (ae_entry e)) (contents (rc_store s) ns)) \<le> 1"
    and "\<And>st'. inv st' \<Longrightarrow> ingested (re_wdm v) (ae_entry e) (contents (rc_store s) ns) (contents st' ns) \<Longrightarrow>
      Q () (s\<lparr> rc_store := st' \<rparr>)"
  shows "wp ok (rc_ingest v e) Q s"
proof -
  obtain b st' where st': "re_ingest_entry v e (Remote (re_session_id v)) (rc_store s) = Some (Ok (b, st'))" "inv st'"
    "set (contents st' ns) = (if dominated (re_wdm v) (contents (rc_store s) ns) (ae_entry e) then set (contents (rc_store s) ns)
       else insert (ae_entry e) {x \<in> set (contents (rc_store s) ns). \<not> supersedes (re_wdm v) (ae_entry e) x})"
    using ingest_law [OF assms(1-3)] by blast
  then have "ingested (re_wdm v) (ae_entry e) (contents (rc_store s) ns) (contents st' ns)"
    using distinct_contents [OF st'(2)] by (simp add: ingested_def)
  then show ?thesis
    using st' assms(4) by (simp add: rc_ingest_def wp_simps)
qed

lemma deliver_entry:
  fixes x y :: "('s, 'cap, 'sg) recon"
  assumes ctx: "ctx_ok c X Y" and env: "env_ok v c Y" and cc: "c_contents c = contents" "c_inv c = inv"
    and inv: "peers_inv c X Y x tx y ty" and f: "rc_sent x = RM_SendEntry m # ms"
  shows "wp peer_error (received_message v (RM_SendEntry m))
    (\<lambda>_ y'. \<exists>ty'. peers_inv c X Y (x\<lparr> rc_sent := ms \<rparr>) tx y' ty') y"
proof -
  let ?i = "sd_intersection Y" and ?e = "le_entry (rse_entry m)"
  note A = arrival [OF ctx inv f] and C = ctx_okD [OF ctx]
  have p: "position_of (rc_entry_state y) = BeforeEntry" and wf: "well_formed InPayload ms"
    using A(7) by simp_all
  then obtain st where st: "rc_entry_state y = Some st" "es_target st = sd_id Y" "active ?i y ty" "es_current_payload st = None"
    using in_entries_active [OF A(1)] by (metis position.distinct(1))
  have Kx: "knows (c_wdm c) (c_fp c) (c_univ c) (c_range c) (sd_init X) (alfie_born X x Y y) (c_ct c x) (c_ct c y) (RM_SendEntry m # ms) (rc_sent y)"
    and Ky: "knows (c_wdm c) (c_fp c) (c_univ c) (c_range c) (sd_init Y) (alfie_born Y y X x) (c_ct c y) (c_ct c x) (rc_sent y) (RM_SendEntry m # ms)"
    using inv f by (simp_all add: peers_inv_def half_inv_def)
  have eU: "?e \<in> c_univ c" and edom: "dominated (c_wdm c) (c_ct c x) ?e"
    using knowsD(8,9) [OF Kx] by simp_all
  have len: "length (filter (supersedes (re_wdm v) ?e) (contents (rc_store y) (c_namespace c))) \<le> 1"
    using single_prune_length [OF C(5) eU knowsD(1,2) [OF Ky]] env cc(1) by (simp add: env_ok_def)
  have go: "peers_inv c X Y (x\<lparr> rc_sent := ms \<rparr>) tx
      (y\<lparr> rc_tokens := tok, rc_entry_state := Some (st\<lparr> es_current_payload := Some pl \<rparr>), rc_store := st' \<rparr>) ty"
    if st': "inv st'" "ingested (re_wdm v) ?e (contents (rc_store y) (c_namespace c)) (contents st' (c_namespace c))" for tok pl st'
  proof -
    have "ingested (c_wdm c) ?e (c_ct c y) (c_contents c st' (c_namespace c))"
      using st'(2) env cc(1) by (simp add: env_ok_def)
    then show ?thesis
      using st A wf st'(1) cc(2) knows_ingest_xy [OF C(1,2)] knows_ingest_yx [OF C(1,2) _ _ eU edom]
      by (intro entry_inv [OF inv f]) (auto simp: active_def position_of_def peer_ok_def)
  qed
  show ?thesis
    unfolding received_message.simps wp_rbind
  proof (rule wp_authorise)
    fix ae :: "('cap, 'sg) AuthorisedEntry" and tok
    assume ae: "ae_entry ae = ?e"
    let ?y = "\<lambda>pl. y\<lparr> rc_tokens := tok, rc_entry_state := Some (st\<lparr> es_current_payload := Some pl \<rparr>) \<rparr>"
    have "wp peer_error (rc_ingest v ae) (\<lambda>_ y'. \<exists>ty'. peers_inv c X Y (x\<lparr> rc_sent := ms \<rparr>) tx y' ty') (?y pl)" for pl
    proof (rule wp_ingest)
      show "length (filter (supersedes (re_wdm v) (ae_entry ae)) (contents (rc_store (?y pl)) (c_namespace c))) \<le> 1"
        using len ae by simp
      fix st'
      assume "inv st'" "ingested (re_wdm v) (ae_entry ae) (contents (rc_store (?y pl)) (c_namespace c)) (contents st' (c_namespace c))"
      then have "peers_inv c X Y (x\<lparr> rc_sent := ms \<rparr>) tx ((?y pl)\<lparr> rc_store := st' \<rparr>) ty"
        using go ae by simp
      then show "\<exists>ty'. peers_inv c X Y (x\<lparr> rc_sent := ms \<rparr>) tx ((?y pl)\<lparr> rc_store := st' \<rparr>) ty'" ..
    qed (use A(9) cc(2) ae C(8) eU in simp_all)
    then show "wp peer_error (with_entry_state (\<lambda>e. res_bind (es_received_send_entry (e_payload_digest (ae_entry ae))
          (e_payload_length (ae_entry ae)) (le_available (rse_entry m)) e) (\<lambda>e'. Ok ((), e'))))
        (\<lambda>_. wp peer_error (rc_ingest v ae) (\<lambda>_ y'. \<exists>ty'. peers_inv c X Y (x\<lparr> rc_sent := ms \<rparr>) tx y' ty')) (y\<lparr> rc_tokens := tok \<rparr>)"
      using st by (simp add: with_entry_state_def wp_simps res_bind_def es_received_send_entry_def es_get_mut_def ok_or_def
          cp_ensure_none_def cp_is_active_def cp_set_def Let_def)
  qed
qed

lemma deliver:
  fixes x y :: "('s, 'cap, 'sg) recon"
  assumes "ctx_ok c X Y" "env_ok v c Y" "c_contents c = contents" "c_inv c = inv" "peers_inv c X Y x tx y ty" "rc_sent x = m # ms"
  shows "wp peer_error (received_message v m) (\<lambda>_ y'. \<exists>ty'. peers_inv c X Y (x\<lparr> rc_sent := ms \<rparr>) tx y' ty') y"
proof (cases m)
  case (RM_SendFingerprint m')
  show ?thesis
    unfolding RM_SendFingerprint by (rule deliver_fingerprint [OF assms(1-5) assms(6) [unfolded RM_SendFingerprint]])
next
  case (RM_AnnounceEntries m')
  show ?thesis
    unfolding RM_AnnounceEntries by (rule deliver_announce [OF assms(1-5) assms(6) [unfolded RM_AnnounceEntries]])
next
  case (RM_SendEntry m')
  show ?thesis
    unfolding RM_SendEntry by (rule deliver_entry [OF assms(1-5) assms(6) [unfolded RM_SendEntry]])
next
  case (RM_SendPayload m')
  show ?thesis
    unfolding RM_SendPayload by (rule deliver_payload [OF assms(1,5) assms(6) [unfolded RM_SendPayload]])
next
  case (RM_TerminatePayload m')
  show ?thesis
    unfolding RM_TerminatePayload by (rule deliver_terminate [OF assms(1,5) assms(6) [unfolded RM_TerminatePayload]])
qed

end

section \<open>Taking up the area\<close>

lemma flow_betty_born: "rx \<noteq> Alfie \<Longrightarrow> flow rx b idy tx f ty g p \<Longrightarrow> flow rx True idy tx f ty g p"
  unfolding flow_def by blast

lemma flow_initiate:
  assumes "flow Alfie False idy tx [] ty g p" "batch fp w ct tx t' [RM_SendFingerprint m]" "rsf_covers m = None"
    and "prod.swap (tg_id tx) = idy" "\<not> tg_started tx" "unat (tg_our_range_counter tx) = 0"
  shows "flow Alfie True idy t' [RM_SendFingerprint m] ty g p"
proof -
  note F = flowD [OF assms(1)]
  have t': "\<not> tg_started t'" "unat (tg_our_range_counter t') = 1" "unat ` tg_our_uncovered_ranges t' = {0..<1}"
    "unat (tg_their_range_counter t') = 0" "rsf_handles m = idy"
    using assms(2,4-6) F(8) by (auto simp: batch_def grown_def)
  have ty: "unat (tg_their_range_counter ty) = 0" "covers g = []" "\<not> tg_started ty"
    using F(1,4,10) assms(6) by auto
  show ?thesis
    using F(6) t' ty assms(3) unfolding flow_def by (simp add: openings_def)
qed

lemma flow_initiated:
  fixes g :: "'sg ReconciliationMessage list"
  assumes "flow ry b idx ty g tx [] q" "rsf_covers m = None" "grown k tx t'" "\<not> tg_started tx"
  shows "flow ry b idx ty g t' [RM_SendFingerprint m] q"
proof -
  have eq: "covers [RM_SendFingerprint m :: 'sg ReconciliationMessage] = covers ([] :: 'sg ReconciliationMessage list)" "tg_their_range_counter t' = tg_their_range_counter tx"
    "tg_started t' = tg_started tx"
    using assms(2,3) by (simp_all add: grown_def)
  show ?thesis
    using assms(1) unfolding flow_def eq .
qed

lemma fp_ok_own:
  assumes "range_laws w" "distinct cx" "set cx \<subseteq> U" "rsf_fingerprint m = fp_from_entries fp (entries_in w cx (rsf_range m))"
  shows "fp_ok w fp U X0 cx m"
  unfolding fp_ok_def using assms distinct_entries [of cx w "rsf_range m"]
  by (intro exI [of _ "entries_in w cx (rsf_range m)"]) (auto simp: in_entries [OF assms(1)] dominated_def)

lemma knows_initiate:
  assumes "range_laws w" "knows w fp U r0 X0 st cx cy [] g" "rsf_range m = r0"
    and "rsf_fingerprint m = fp_from_entries fp (entries_in w cx r0)"
  shows "knows w fp U r0 X0 True cx cy [RM_SendFingerprint m] g"
proof -
  note K = knowsD [OF assms(2)]
  have "fp_ok w fp U X0 cx m"
    using assms(3,4) by (intro fp_ok_own [OF assms(1) K(1,2)]) simp
  then show ?thesis
    using K(1-6) assms(3) unfolding knows_def pending_def by auto
qed

lemma knows_initiated:
  assumes "knows w fp U r0 Y0 st cy cx g []" "rsf_range m = r0"
  shows "knows w fp U r0 Y0 True cy cx g [RM_SendFingerprint m]"
  using knowsD(1-9) [OF assms(1)] assms(2) unfolding knows_def pending_def by auto

context entry_storage
begin

lemma wp_initiate:
  fixes s :: "('s, 'cap, 'sg) recon"
  assumes "\<not> rc_closed s" "ct = contents (rc_store s) (tg_namespace t)"
    and "area_to_range (re_wdm v) (ai_area (tg_intersection t)) = Some r0"
    and "\<And>t' s' m. sends [RM_SendFingerprint m] s s' \<Longrightarrow> rsf_range m = r0 \<Longrightarrow> rsf_covers m = None \<Longrightarrow>
      batch (re_fp v) (re_wdm v) ct t t' [RM_SendFingerprint m :: 'sg ReconciliationMessage] \<Longrightarrow> Q t' s'"
  shows "wp peer_error (tg_initiate v t) Q s"
proof -
  have "reader_fingerprint (re_fp v) (re_get_authorised_entries v (rc_store s)) (tg_namespace t) r0 =
      Ok (fp_from_entries (re_fp v) (entries_in (re_wdm v) ct r0))"
    using entry_reader.fingerprint_eq [OF reader] assms(2) by simp
  then show ?thesis
    using assms(3,4) by (auto simp: tg_initiate_def wp_simps intro!: wp_tg_send_fingerprint [OF assms(1)])
qed

lemma take_input_alfie:
  fixes x y :: "('s, 'cap, 'sg) recon"
  assumes ctx: "ctx_ok c X Y" and env: "env_ok v c X" and cc: "c_contents c = contents" "c_inv c = inv"
    and inv: "peers_inv c X Y x tx y ty" and w: "waiting (sd_intersection X) x tx" and al: "sd_role X = Alfie"
  shows "wp peer_error (init_target v (sd_intersection X)) (\<lambda>_ x'. \<exists>tx'. peers_inv c X Y x' tx' y ty) (x\<lparr> rc_inbox := [] \<rparr>)"
proof -
  let ?i = "sd_intersection X"
  note C = ctx_okD [OF ctx]
  have hx: "half_inv c X Y x tx y ty" and hy: "half_inv c Y X y ty x tx"
    using inv by (simp_all add: peers_inv_def)
  have W: "rc_inbox x = [?i]" "rc_map x = []" "tx = fresh_target ?i" "rc_entry_state x = None" "rc_out x = []" "\<not> rc_closed x"
    using w hx by (simp_all add: waiting_def half_inv_def peer_ok_def)
  have tx: "tg_intersection tx = ?i" "\<not> tg_started tx" "unat (tg_our_range_counter tx) = 0"
    using W(3) by (simp_all add: fresh_target_def)
  have Fx: "flow Alfie False (sd_id Y) tx (rc_sent x) ty (rc_sent y) (position_of (rc_entry_state y))"
    and Fy: "flow (sd_role Y) (born y) (sd_id X) ty (rc_sent y) tx (rc_sent x) Outside"
    using hx hy W(1,4) al by (simp_all add: half_inv_def position_of_def)
  have sx: "rc_sent x = []"
    using flowD(11) [OF Fx] by simp
  have ct: "c_ct c x = contents (rc_store (x\<lparr> rc_inbox := [] \<rparr>)) (tg_namespace tx)"
    using cc(1) tx(1) C(11) by simp
  have Kx: "knows (c_wdm c) (c_fp c) (c_univ c) (c_range c) (sd_init X) (alfie_born X x Y y) (c_ct c x) (c_ct c y) [] (rc_sent y)"
    and Ky: "knows (c_wdm c) (c_fp c) (c_univ c) (c_range c) (sd_init Y) (alfie_born Y y X x) (c_ct c y) (c_ct c x) (rc_sent y) []"
    using hx hy sx by (simp_all add: half_inv_def)
  have go: "peers_inv c X Y (s'\<lparr> rc_map := [(ai_id ?i, t')] \<rparr>) t' y ty"
    if s: "sends [RM_SendFingerprint m] (x\<lparr> rc_inbox := [] \<rparr>) s'" "rsf_range m = c_range c" "rsf_covers m = None"
      "batch (re_fp v) (re_wdm v) (c_ct c x) tx t' [RM_SendFingerprint m :: 'sg ReconciliationMessage]" for t' s' m
  proof -
    note S = sends_fields [OF s(1), simplified]
    have g: "grown 1 tx t'" and fp: "rsf_fingerprint m = fp_from_entries (c_fp c) (entries_in (c_wdm c) (c_ct c x) (c_range c))"
      using s(2,4) env by (simp_all add: batch_def env_ok_def)
    have "flow Alfie True (sd_id Y) t' [RM_SendFingerprint m] ty (rc_sent y) (position_of (rc_entry_state y))"
      using Fx C(10) tx sx by (intro flow_initiate [OF _ s(4,3)]) simp_all
    moreover have "flow (sd_role Y) (born y) (sd_id X) ty (rc_sent y) t' [RM_SendFingerprint m] Outside"
      using Fy sx tx(2) by (intro flow_initiated [OF _ s(3) g]) simp_all
    moreover have "peer_ok ?i (s'\<lparr> rc_map := [(ai_id ?i, t')] \<rparr>) t'"
      using S W g tx by (simp add: peer_ok_def active_def grown_def tg_is_complete_def)
    moreover have "sd_role Y \<noteq> Alfie"
      using C(9) al by simp
    ultimately show ?thesis
      using hx hy S W sx al knows_initiate [OF C(3) Kx s(2) fp] knows_initiated [OF Ky s(2)]
      unfolding peers_inv_def half_inv_def by (simp add: alfie_born_def position_of_def)
  qed
  have "wp peer_error (tg_initiate v tx) (\<lambda>t'. wp peer_error (rbind (modify (\<lambda>s. s\<lparr> rc_map := hm_insert (tg_id t') t' (rc_map s) \<rparr>)) (\<lambda>_.
       ret (tg_id t'))) (\<lambda>_ x'. \<exists>tx'. peers_inv c X Y x' tx' y ty)) (x\<lparr> rc_inbox := [] \<rparr>)"
  proof (rule wp_initiate [OF _ ct])
    fix t' s' m
    assume s: "sends [RM_SendFingerprint m] (x\<lparr> rc_inbox := [] \<rparr>) s'" "rsf_range m = c_range c" "rsf_covers m = None"
      "batch (re_fp v) (re_wdm v) (c_ct c x) tx t' [RM_SendFingerprint m :: 'sg ReconciliationMessage]"
    have "tg_intersection t' = ?i" "rc_map s' = []"
      using s(1,4) tx(1) W(2) by (simp_all add: batch_def grown_def sends_fields)
    then show "wp peer_error (rbind (modify (\<lambda>s. s\<lparr> rc_map := hm_insert (tg_id t') t' (rc_map s) \<rparr>)) (\<lambda>_.
       ret (tg_id t'))) (\<lambda>_ x'. \<exists>tx'. peers_inv c X Y x' tx' y ty) s'"
      using go [OF s] by (auto simp: wp_simps)
  qed (use W(6) C(13) env tx(1) in \<open>simp_all add: env_ok_def\<close>)
  then show ?thesis
    using W(3) al env by (simp add: init_target_def tg_init_def Let_def wp_simps env_ok_def fresh_target_def)
qed

lemma take_input_betty:
  fixes x y :: "('s, 'cap, 'sg) recon"
  assumes ctx: "ctx_ok c X Y" and env: "env_ok v c X"
    and inv: "peers_inv c X Y x tx y ty" and w: "waiting (sd_intersection X) x tx" and al: "sd_role X \<noteq> Alfie"
  shows "wp peer_error (init_target v (sd_intersection X)) (\<lambda>_ x'. \<exists>tx'. peers_inv c X Y x' tx' y ty) (x\<lparr> rc_inbox := [] \<rparr>)"
proof -
  let ?i = "sd_intersection X" and ?x = "x\<lparr> rc_inbox := [], rc_map := [(sd_id X, tx)] \<rparr>"
  have "peer_ok ?i ?x tx"
    using w inv by (auto simp: peers_inv_def half_inv_def peer_ok_def waiting_def active_def fresh_target_def tg_is_complete_def)
  then have "peers_inv c X Y ?x tx y ty"
    using inv al by (auto simp: peers_inv_def half_inv_def alfie_born_def intro: flow_betty_born)
  then show ?thesis
    using w al env by (auto simp: init_target_def tg_init_def Let_def wp_simps env_ok_def waiting_def fresh_target_def)
qed

lemma take_input:
  fixes x y :: "('s, 'cap, 'sg) recon"
  assumes "ctx_ok c X Y" "env_ok v c X" "c_contents c = contents" "c_inv c = inv" "peers_inv c X Y x tx y ty"
  shows "wp peer_error (received_input v) (\<lambda>_ x'. \<exists>tx'. peers_inv c X Y x' tx' y ty) x"
proof (cases "born x")
  case True
  then show ?thesis
    using assms(5) by (auto simp: received_input_def wp_simps)
next
  case False
  then have w: "waiting (sd_intersection X) x tx"
    using assms(5) by (auto simp: peers_inv_def half_inv_def peer_ok_def active_def finished_def)
  have "wp peer_error (init_target v (sd_intersection X)) (\<lambda>_ x'. \<exists>tx'. peers_inv c X Y x' tx' y ty) (x\<lparr> rc_inbox := [] \<rparr>)"
    using take_input_alfie [OF assms w] take_input_betty [OF assms(1,2,5) w] by blast
  then have "wp peer_error (init_target v (sd_intersection X)) (\<lambda>_. wp peer_error (ret ()) (\<lambda>_ x'. \<exists>tx'. peers_inv c X Y x' tx' y ty))
      (x\<lparr> rc_inbox := [] \<rparr>)"
    by (rule wp_mono) (simp add: wp_ret)
  then show ?thesis
    using w by (simp add: received_input_def wp_rbind wp_gets wp_modify waiting_def)
qed

end

text \<open>Static tokens do not touch the invariant.\<close>

lemma peers_inv_tokens:
  "peers_inv c X Y (x\<lparr> rc_sent_tokens := ks \<rparr>) tx (y\<lparr> rc_tokens := tok \<rparr>) ty \<longleftrightarrow> peers_inv c X Y x tx y ty"
  by (simp add: peers_inv_def half_inv_def peer_ok_def waiting_def active_def finished_def alfie_born_def)

end
