(* ===== verification/Reconciliation.thy ===== *)
theory Reconciliation
  imports Recon_Invariant
begin

text \<open>
  Two peers that reconcile one area: the reconcilers of both, each with its own store, and the messages
  that are under way between them, as an inductive step relation.  No peer ever runs into a protocol
  error, a peer which reports the area as reconciled has everything the other one had, and two peers
  with nothing under way are done.
\<close>

section \<open>Two peers\<close>

type_synonym ('s, 'cap, 'sg) peers = "('s, 'cap, 'sg) recon \<times> ('s, 'cap, 'sg) recon"

text \<open>
  A step: a message, a static token or an input of the inbox is processed.  The messages under way are
  those that were sent and not yet processed; the channels deliver them in order
  (theory \<open>Util_Channel\<close>).
\<close>

inductive peers_step ::
  "('s, 'cap, 'sg, 'blob) recon_env \<Rightarrow> ('s, 'cap, 'sg, 'blob) recon_env \<Rightarrow> ('s, 'cap, 'sg) peers \<Rightarrow> ('s, 'cap, 'sg) peers \<Rightarrow> bool"
  for va vb where
  message_b: "rc_sent a = m # ms \<Longrightarrow> received_message vb m b = (Done (), b') \<Longrightarrow>
     peers_step va vb (a, b) (a\<lparr> rc_sent := ms \<rparr>, b')"
| message_a: "rc_sent b = m # ms \<Longrightarrow> received_message va m a = (Done (), a') \<Longrightarrow>
     peers_step va vb (a, b) (a', b\<lparr> rc_sent := ms \<rparr>)"
| token_b: "rc_sent_tokens a = k # ks \<Longrightarrow>
     peers_step va vb (a, b) (a\<lparr> rc_sent_tokens := ks \<rparr>, b\<lparr> rc_tokens := snd (tokens_bind_theirs (sbs_static_token k) (rc_tokens b)) \<rparr>)"
| token_a: "rc_sent_tokens b = k # ks \<Longrightarrow>
     peers_step va vb (a, b) (a\<lparr> rc_tokens := snd (tokens_bind_theirs (sbs_static_token k) (rc_tokens a)) \<rparr>, b\<lparr> rc_sent_tokens := ks \<rparr>)"
| input_a: "received_input va a = (Done (), a') \<Longrightarrow> peers_step va vb (a, b) (a', b)"
| input_b: "received_input vb b = (Done (), b') \<Longrightarrow> peers_step va vb (a, b) (a, b')"

inductive_cases peers_stepE: "peers_step va vb p p'"

inductive peers_reach ::
  "('s, 'cap, 'sg, 'blob) recon_env \<Rightarrow> ('s, 'cap, 'sg, 'blob) recon_env \<Rightarrow> ('s, 'cap, 'sg) peers \<Rightarrow> ('s, 'cap, 'sg) peers \<Rightarrow> bool"
  for va vb p0 where
  start: "peers_reach va vb p0 p0"
| step: "peers_reach va vb p0 p \<Longrightarrow> peers_step va vb p p' \<Longrightarrow> peers_reach va vb p0 p'"

section \<open>The invariant holds in every reachable state\<close>

definition system_ok ::
  "('s, 'cap, 'sg, 'blob) recon_env \<Rightarrow> ('s, 'cap, 'sg, 'blob) recon_env \<Rightarrow> 's recon_ctx \<Rightarrow> recon_side \<Rightarrow> recon_side \<Rightarrow> bool" where
  "system_ok va vb c A B \<longleftrightarrow> ctx_ok c A B \<and> env_ok va c A \<and> env_ok vb c B \<and>
     entry_storage va (c_contents c) (c_inv c) \<and> entry_storage vb (c_contents c) (c_inv c)"

definition system_inv :: "'s recon_ctx \<Rightarrow> recon_side \<Rightarrow> recon_side \<Rightarrow> ('s, 'cap, 'sg) peers \<Rightarrow> bool"
  where "system_inv c A B p \<longleftrightarrow> (\<exists>ta tb. peers_inv c A B (fst p) ta (snd p) tb)"

lemma system_invI: "peers_inv c A B a ta b tb \<Longrightarrow> system_inv c A B (a, b)"
  by (auto simp: system_inv_def)

lemma system_deliver:
  assumes "system_ok va vb c A B" "system_inv c A B (a, b)"
  shows "rc_sent a = m # ms \<Longrightarrow> wp peer_error (received_message vb m) (\<lambda>_ b'. system_inv c A B (a\<lparr> rc_sent := ms \<rparr>, b')) b"
    and "rc_sent b = m # ms \<Longrightarrow> wp peer_error (received_message va m) (\<lambda>_ a'. system_inv c A B (a', b\<lparr> rc_sent := ms \<rparr>)) a"
proof -
  have ok: "ctx_ok c A B" "env_ok va c A" "env_ok vb c B"
      "entry_storage va (c_contents c) (c_inv c)" "entry_storage vb (c_contents c) (c_inv c)"
    using assms(1) by (simp_all add: system_ok_def)
  obtain ta tb where inv: "peers_inv c A B a ta b tb"
    using assms(2) by (auto simp: system_inv_def)
  show "wp peer_error (received_message vb m) (\<lambda>_ b'. system_inv c A B (a\<lparr> rc_sent := ms \<rparr>, b')) b" if "rc_sent a = m # ms"
    by (rule wp_mono [OF entry_storage.deliver [OF ok(5,1,3) refl refl inv that]]) (blast intro: system_invI)
  show "wp peer_error (received_message va m) (\<lambda>_ a'. system_inv c A B (a', b\<lparr> rc_sent := ms \<rparr>)) a" if "rc_sent b = m # ms"
    by (rule wp_mono [OF entry_storage.deliver [OF ok(4) ctx_ok_sym [OF ok(1)] ok(2) refl refl peers_inv_sym [OF inv] that]])
      (blast intro: system_invI peers_inv_sym)
qed

lemma system_input:
  assumes "system_ok va vb c A B" "system_inv c A B (a, b)"
  shows "wp peer_error (received_input va) (\<lambda>_ a'. system_inv c A B (a', b)) a"
    and "wp peer_error (received_input vb) (\<lambda>_ b'. system_inv c A B (a, b')) b"
proof -
  have ok: "ctx_ok c A B" "env_ok va c A" "env_ok vb c B"
      "entry_storage va (c_contents c) (c_inv c)" "entry_storage vb (c_contents c) (c_inv c)"
    using assms(1) by (simp_all add: system_ok_def)
  obtain ta tb where inv: "peers_inv c A B a ta b tb"
    using assms(2) by (auto simp: system_inv_def)
  show "wp peer_error (received_input va) (\<lambda>_ a'. system_inv c A B (a', b)) a"
    by (rule wp_mono [OF entry_storage.take_input [OF ok(4,1,2) refl refl inv]]) (blast intro: system_invI)
  show "wp peer_error (received_input vb) (\<lambda>_ b'. system_inv c A B (a, b')) b"
    by (rule wp_mono [OF entry_storage.take_input [OF ok(5) ctx_ok_sym [OF ok(1)] ok(3) refl refl peers_inv_sym [OF inv]]])
      (blast intro: system_invI peers_inv_sym)
qed

lemma system_step:
  assumes "peers_step va vb p p'" "system_ok va vb c A B" "system_inv c A B p"
  shows "system_inv c A B p'"
  using assms
proof (induction rule: peers_step.induct)
  case (message_b a m ms b b')
  then show ?case
    using wp_Done [OF system_deliver(1)] by blast
next
  case (message_a b m ms a a')
  then show ?case
    using wp_Done [OF system_deliver(2)] by blast
next
  case (token_b a k ks b)
  then show ?case
    by (simp add: system_inv_def peers_inv_tokens)
next
  case (token_a b k ks a)
  then obtain ta tb where "peers_inv c B A b tb a ta"
    by (auto simp: system_inv_def dest: peers_inv_sym)
  then have "peers_inv c B A (b\<lparr> rc_sent_tokens := ks \<rparr>) tb (a\<lparr> rc_tokens := snd (tokens_bind_theirs (sbs_static_token k) (rc_tokens a)) \<rparr>) ta"
    by (simp add: peers_inv_tokens)
  then show ?case
    by (rule system_invI [OF peers_inv_sym])
next
  case (input_a a a' b)
  then show ?case
    using wp_Done [OF system_input(1)] by blast
next
  case (input_b b b' a)
  then show ?case
    using wp_Done [OF system_input(2)] by blast
qed

lemma system_reach:
  assumes "peers_reach va vb p0 p" "system_ok va vb c A B" "system_inv c A B p0"
  shows "system_inv c A B p"
  using assms(1,3) by induction (use assms(2) system_step in blast)+

text \<open>Two reconcilers that start, each with its intersection in the inbox.\<close>

definition supersedes_within :: "wdm \<Rightarrow> Entry list \<Rightarrow> bool"
  where "supersedes_within w ct \<longleftrightarrow> (\<exists>x \<in> set ct. \<exists>y \<in> set ct. supersedes w x y)"

lemma flow_fresh: "flow r False i (fresh_target j) [] (fresh_target k) [] Outside"
  by (simp add: flow_def fresh_target_def)

lemma half_inv_start:
  assumes "\<not> supersedes_within (c_wdm c) (c_contents c sx (c_namespace c))" "c_inv c sx"
    and "distinct (c_contents c sx (c_namespace c))" "set (c_contents c sx (c_namespace c)) = sd_init X" "sd_init X \<subseteq> c_univ c"
    and "sd_role X = Alfie \<or> sd_role Y = Alfie"
  shows "half_inv c X Y (recon_new sx [sd_intersection X] :: ('s, 'cap, 'sg) recon) (fresh_target (sd_intersection X))
    (recon_new sy [sd_intersection Y]) (fresh_target (sd_intersection Y))"
proof -
  have "peer_ok (sd_intersection X) (recon_new sx [sd_intersection X] :: ('s, 'cap, 'sg) recon) (fresh_target (sd_intersection X))"
    by (simp add: peer_ok_def waiting_def recon_new_def) (simp add: fresh_target_def)
  moreover have "knows (c_wdm c) (c_fp c) (c_univ c) (c_range c) (sd_init X) False (c_contents c sx (c_namespace c))
      (c_contents c sy (c_namespace c)) ([] :: 'sg ReconciliationMessage list) []"
    using assms by (auto simp: knows_def supersedes_within_def dominated_def)
  ultimately show ?thesis
    using assms(2,6) by (auto simp: flow_fresh half_inv_def recon_new_def alfie_born_def position_of_def)
qed

section \<open>What the invariant gives\<close>

lemma half_inv_finished:
  assumes "peers_inv c X Y x tx y ty" "finished (sd_intersection X) x tx" "sd_role X = Alfie \<or> sd_role Y = Alfie"
  shows "set (c_ct c x) \<subseteq> c_univ c"
    and "e \<in> sd_init X \<union> sd_init Y \<Longrightarrow> in_range3d (c_range c) e \<Longrightarrow> dominated (c_wdm c) (c_ct c x) e"
proof -
  have hx: "half_inv c X Y x tx y ty" and hy: "half_inv c Y X y ty x tx"
    using assms(1) by (simp_all add: peers_inv_def)
  have fin: "born x" "tg_started tx" "tg_our_uncovered_ranges tx = {}" "rc_entry_state x = None"
    using assms(2) by (simp_all add: finished_def tg_is_complete_def)
  have Fx: "flow (sd_role X) True (sd_id Y) tx (rc_sent x) ty (rc_sent y) (position_of (rc_entry_state y))"
    and Fy: "flow (sd_role Y) (born y) (sd_id X) ty (rc_sent y) tx (rc_sent x) Outside"
    using hx hy fin by (simp_all add: half_inv_def position_of_def)
  have ab: "alfie_born Y y X x"
    using fin(1,2) flowD(10) [OF Fy] by (simp add: alfie_born_def)
  have sy: "rc_sent y = []" and "openings (rc_sent x) = 0"
    using flow_complete [OF Fy Fx fin(3,2)] by simp_all
  then have no: "\<not> opens_range m" if "m \<in> set (rc_sent x)" for m
    using that by (auto simp: openings_def filter_empty_conv)
  have Kx: "knows (c_wdm c) (c_fp c) (c_univ c) (c_range c) (sd_init X) (alfie_born X x Y y) (c_ct c x) (c_ct c y) (rc_sent x) (rc_sent y)"
    and Ky: "knows (c_wdm c) (c_fp c) (c_univ c) (c_range c) (sd_init Y) True (c_ct c y) (c_ct c x) [] (rc_sent x)"
    using hx hy ab sy by (simp_all add: half_inv_def)
  show "set (c_ct c x) \<subseteq> c_univ c"
    by (rule knowsD(2) [OF Kx])
  have "\<not> pending [] (rc_sent x) e"
    using no by (fastforce simp: pending_def)
  then show "dominated (c_wdm c) (c_ct c x) e" if "e \<in> sd_init X \<union> sd_init Y" "in_range3d (c_range c) e"
    using that knowsD(5) [OF Kx] knowsD(10) [OF Ky] by blast
qed

lemma quiet_alfie:
  assumes "flow Alfie True i tx [] ty [] p" "flow ry True j ty [] tx [] q"
  shows "tg_started tx" "tg_started ty" "tg_our_uncovered_ranges tx = {}" "tg_our_uncovered_ranges ty = {}"
proof -
  note F = flowD [OF assms(1)] and G = flowD [OF assms(2)]
  show u: "tg_our_uncovered_ranges tx = {}" "tg_our_uncovered_ranges ty = {}"
    using F(1,2) G(1,2) by simp_all
  have pos: "0 < unat (tg_our_range_counter tx)"
    using F(9) by simp
  then show "tg_started tx"
    using F(8) u(1) by auto
  show "tg_started ty"
    using pos F(1) G(8) by auto
qed

lemma quiet_finished:
  fixes x y :: "('s, 'cap, 'sg) recon"
  assumes "ctx_ok c X Y" "peers_inv c X Y x tx y ty" "rc_sent x = []" "rc_sent y = []" "born x" "born y"
  shows "finished (sd_intersection X) x tx \<and> finished (sd_intersection Y) y ty"
proof -
  have hx: "half_inv c X Y x tx y ty" and hy: "half_inv c Y X y ty x tx"
    using assms(2) by (simp_all add: peers_inv_def)
  have Fx: "flow (sd_role X) True (sd_id Y) tx ([] :: 'sg ReconciliationMessage list) ty [] (position_of (rc_entry_state y))"
    and Fy: "flow (sd_role Y) True (sd_id X) ty ([] :: 'sg ReconciliationMessage list) tx [] (position_of (rc_entry_state x))"
    using hx hy assms(3-6) by (simp_all add: half_inv_def)
  have "tg_is_complete tx \<and> tg_is_complete ty"
  proof (cases "sd_role X = Alfie")
    case True
    show ?thesis
      using quiet_alfie [OF Fx [unfolded True] Fy] by (simp add: tg_is_complete_def)
  next
    case False
    then have Y: "sd_role Y = Alfie"
      using ctx_okD(9) [OF assms(1)] by (cases "sd_role X"; cases "sd_role Y") simp_all
    show ?thesis
      using quiet_alfie [OF Fy [unfolded Y] Fx] by (simp add: tg_is_complete_def)
  qed
  moreover have "rc_entry_state x = None" "rc_entry_state y = None"
    using flowD(6) [OF Fx] flowD(6) [OF Fy] by (auto simp: position_of_def split: option.splits if_splits)
  ultimately show ?thesis
    using hx hy assms(5,6) by (auto simp: half_inv_def peer_ok_def waiting_def active_def)
qed

section \<open>Peers with in-memory stores\<close>

text \<open>An environment whose entry storage is the in-memory store.\<close>

definition mem_env ::
  "(('cap, 'sg) EntryStore, 'cap, 'sg, 'blob) recon_env \<Rightarrow> (('cap, 'sg) EntryStore, 'cap, 'sg, 'blob) recon_env" where
  "mem_env v = v\<lparr> re_get_authorised_entries := mem_get_authorised_entries (re_wdm v),
     re_ingest_entry := (\<lambda>e origin st. map_option (\<lambda>(b, ws, st'). Ok (b, st')) (mem_ingest_entry (re_wdm v) e origin st)) \<rparr>"

lemma mem_env_fields [simp]:
  "re_wdm (mem_env v) = re_wdm v" "re_fp (mem_env v) = re_fp v" "re_role (mem_env v) = re_role v"
  by (simp_all add: mem_env_def)

lemma mem_ingest_contents:
  assumes "newer_laws w" "mem_inv w st" "length (filter (supersedes w (ae_entry e)) (mem_contents st (e_namespace_id (ae_entry e)))) \<le> 1"
  shows "\<exists>b ws st'. mem_ingest_entry w e origin st = Some (b, ws, st') \<and> mem_inv w st' \<and>
    set (mem_contents st' (e_namespace_id (ae_entry e))) =
      (if dominated w (mem_contents st (e_namespace_id (ae_entry e))) (ae_entry e) then set (mem_contents st (e_namespace_id (ae_entry e)))
       else insert (ae_entry e) {x \<in> set (mem_contents st (e_namespace_id (ae_entry e))). \<not> supersedes w (ae_entry e) x})"
proof -
  let ?ns = "e_namespace_id (ae_entry e)" and ?s = "ns_store st (e_namespace_id (ae_entry e))"
  have inv: "ns_inv w ?ns (ns_entries ?s)"
    using assms(2) by (simp add: mem_inv_def)
  have dom: "dominated w (mem_contents st ?ns) (ae_entry e) \<longleftrightarrow> refused w (ae_entry e) (ns_entries ?s)"
    by (auto simp: dominated_def refused_def mem_contents_ns_store)
  show ?thesis
  proof (cases "refused w (ae_entry e) (ns_entries ?s)")
    case True
    then show ?thesis
      using ns_ingest_refused [OF True] mem_inv_set [OF assms(2) inv] dom
      by (auto simp: mem_ingest_entry_def mem_contents_ns_store Let_def)
  next
    case False
    have "length (superseded_by w (ae_entry e) (ns_entries ?s)) \<le> 1"
      using assms(3) by (simp add: superseded_by_def mem_contents_ns_store filter_map comp_def)
    with False obtain ws s' where s': "ns_ingest_entry w e origin ?s = Some (True, ws, s')"
      and "ns_entries s' = filter (\<lambda>x. \<not> supersedes w (ae_entry e) (ae_entry x)) (ns_entries ?s) @ [e]"
      using ns_ingest_accepted by blast
    moreover from this have "mem_inv w (set_ns_store ?ns s' st)"
      using ns_inv_ingest [OF assms(1) inv False] mem_inv_set [OF assms(2)] by simp
    ultimately show ?thesis
      using False dom by (auto simp: mem_ingest_entry_def mem_contents_ns_store Let_def)
  qed
qed

interpretation mem_storage: entry_storage "mem_env v" mem_contents "\<lambda>st. newer_laws (re_wdm v) \<and> mem_inv (re_wdm v) st"
  for v :: "(('cap, 'sg) EntryStore, 'cap, 'sg, 'blob) recon_env"
proof
  fix st :: "('cap, 'sg) EntryStore" and ns r
  show "\<exists>l. re_get_authorised_entries (mem_env v) st ns r = Ok (map Ok l) \<and>
      map ae_entry l = filter (w_range3d_includes_entry (re_wdm (mem_env v)) r) (mem_contents st ns)"
    using mem.gae_filter [of "re_wdm v" st ns r] by (simp add: mem_env_def)
next
  fix st :: "('cap, 'sg) EntryStore" and ns x y
  assume st: "newer_laws (re_wdm v) \<and> mem_inv (re_wdm v) st"
  then have "ns_inv (re_wdm v) ns (ns_entries (ns_store st ns))"
    by (simp add: mem_inv_def)
  then show "distinct (mem_contents st ns)" "x \<in> set (mem_contents st ns) \<Longrightarrow> e_namespace_id x = ns"
    "x \<in> set (mem_contents st ns) \<Longrightarrow> y \<in> set (mem_contents st ns) \<Longrightarrow> \<not> supersedes (re_wdm (mem_env v)) x y"
    by (auto simp: ns_inv_def mem_contents_ns_store)
next
  fix st :: "('cap, 'sg) EntryStore" and ns origin and e :: "('cap, 'sg) AuthorisedEntry"
  assume st: "newer_laws (re_wdm v) \<and> mem_inv (re_wdm v) st" "e_namespace_id (ae_entry e) = ns"
    "length (filter (supersedes (re_wdm (mem_env v)) (ae_entry e)) (mem_contents st ns)) \<le> 1"
  then show "\<exists>b st'. re_ingest_entry (mem_env v) e origin st = Some (Ok (b, st')) \<and>
      (newer_laws (re_wdm v) \<and> mem_inv (re_wdm v) st') \<and>
      set (mem_contents st' ns) =
        (if dominated (re_wdm (mem_env v)) (mem_contents st ns) (ae_entry e) then set (mem_contents st ns)
         else insert (ae_entry e) {x \<in> set (mem_contents st ns). \<not> supersedes (re_wdm (mem_env v)) (ae_entry e) x})"
    using mem_ingest_contents [of "re_wdm v" st e origin] by (auto simp: mem_env_def)
qed

text \<open>
  What the two sides have to agree on: the data model and the fingerprints, their roles, and an area
  both know under the two handles, exchanged (as the area of interest finder reports it).  Fingerprints must not collide on the
  entries of the two stores, and no entry of them may supersede two others.
\<close>

definition all_entries :: "('cap, 'sg) EntryStore \<Rightarrow> ('cap, 'sg) EntryStore \<Rightarrow> NamespaceId \<Rightarrow> Entry set"
  where "all_entries sa sb ns = set (mem_contents sa ns) \<union> set (mem_contents sb ns)"

definition can_reconcile ::
  "(('cap, 'sg) EntryStore, 'cap, 'sg, 'blob) recon_env \<Rightarrow> (('cap, 'sg) EntryStore, 'cap, 'sg, 'blob) recon_env
   \<Rightarrow> AoiIntersection \<Rightarrow> AoiIntersection \<Rightarrow> ('cap, 'sg) EntryStore \<Rightarrow> ('cap, 'sg) EntryStore \<Rightarrow> Range3d \<Rightarrow> bool" where
  "can_reconcile va vb ia ib sa sb r0 \<longleftrightarrow>
     (let w = re_wdm va; ns = ai_namespace ia; U = all_entries sa sb ns
      in re_wdm vb = w \<and> re_fp vb = re_fp va \<and> re_role va \<noteq> re_role vb \<and>
         path_laws w \<and> newer_laws w \<and> range_laws w \<and> mem_inv w sa \<and> mem_inv w sb \<and>
         prod.swap (ai_id ia) = ai_id ib \<and> ai_namespace ib = ns \<and>
         area_to_range w (ai_area ia) = Some r0 \<and> area_to_range w (ai_area ib) = Some r0 \<and>
         no_collision (re_fp va) U \<and> single_prune w U \<and> card U < 2 ^ 64)"

definition peers_start ::
  "AoiIntersection \<Rightarrow> AoiIntersection \<Rightarrow> 's \<Rightarrow> 's \<Rightarrow> ('s, 'cap, 'sg) peers"
  where "peers_start ia ib sa sb = (recon_new sa [ia], recon_new sb [ib])"

definition start_ctx ::
  "(('cap, 'sg) EntryStore, 'cap, 'sg, 'blob) recon_env \<Rightarrow> AoiIntersection \<Rightarrow> ('cap, 'sg) EntryStore \<Rightarrow> ('cap, 'sg) EntryStore
   \<Rightarrow> Range3d \<Rightarrow> ('cap, 'sg) EntryStore recon_ctx" where
  "start_ctx v i sa sb r0 = \<lparr> c_wdm = re_wdm v, c_fp = re_fp v, c_univ = all_entries sa sb (ai_namespace i), c_range = r0,
     c_namespace = ai_namespace i, c_contents = mem_contents, c_inv = (\<lambda>st. newer_laws (re_wdm v) \<and> mem_inv (re_wdm v) st) \<rparr>"

definition start_side ::
  "('s, 'cap, 'sg, 'blob) recon_env \<Rightarrow> AoiIntersection \<Rightarrow> ('cap2, 'sg2) EntryStore \<Rightarrow> recon_side" where
  "start_side v i st = \<lparr> sd_role = re_role v, sd_intersection = i, sd_init = set (mem_contents st (ai_namespace i)) \<rparr>"

lemma start_system_ok:
  fixes va vb :: "(('cap, 'sg) EntryStore, 'cap, 'sg, 'blob) recon_env"
  assumes "can_reconcile va vb ia ib sa sb r0"
  shows "system_ok (mem_env va) (mem_env vb) (start_ctx va ia sa sb r0) (start_side va ia sa) (start_side vb ib sb)"
proof -
  note c = assms [unfolded can_reconcile_def Let_def]
  have nsp: "\<forall>e \<in> all_entries sa sb (ai_namespace ia). e_namespace_id e = ai_namespace ia"
    using c mem_storage.contents_namespace [of va] by (auto simp: all_entries_def)
  have "ctx_ok (start_ctx va ia sa sb r0) (start_side va ia sa) (start_side vb ib sb)"
    using c nsp by (simp add: ctx_ok_def start_ctx_def start_side_def) (simp add: all_entries_def)
  moreover have "entry_storage (mem_env vb) mem_contents (\<lambda>st. newer_laws (re_wdm va) \<and> mem_inv (re_wdm va) st)"
    using c mem_storage.entry_storage_axioms [of vb] by simp
  ultimately show ?thesis
    using c mem_storage.entry_storage_axioms [of va]
    by (simp add: system_ok_def env_ok_def) (simp add: start_ctx_def start_side_def)
qed

lemma start_system_inv:
  fixes va vb :: "(('cap, 'sg) EntryStore, 'cap, 'sg, 'blob) recon_env"
  assumes "can_reconcile va vb ia ib sa sb r0"
  shows "system_inv (start_ctx va ia sa sb r0) (start_side va ia sa) (start_side vb ib sb)
    (peers_start ia ib sa sb :: (('cap, 'sg) EntryStore, 'cap2, 'sg2) peers)"
proof -
  note c = assms [unfolded can_reconcile_def Let_def]
  let ?c = "start_ctx va ia sa sb r0"
  have m: "\<not> supersedes_within (re_wdm va) (mem_contents st ns)" "distinct (mem_contents st ns)" if "mem_inv (re_wdm va) st" for st :: "('cap, 'sg) EntryStore" and ns
    using that c mem_storage.contents_maximal [of va] mem_storage.distinct_contents [of va]
    by (auto simp: supersedes_within_def)
  have role: "re_role va = Alfie \<or> re_role vb = Alfie"
    using c by (cases "re_role va"; cases "re_role vb") simp_all
  have "half_inv ?c (start_side va ia sa) (start_side vb ib sb)
      (recon_new sa [sd_intersection (start_side va ia sa)] :: (('cap, 'sg) EntryStore, 'cap2, 'sg2) recon)
      (fresh_target (sd_intersection (start_side va ia sa)))
      (recon_new sb [sd_intersection (start_side vb ib sb)]) (fresh_target (sd_intersection (start_side vb ib sb)))"
    by (rule half_inv_start) (use c m role in \<open>auto simp: start_ctx_def start_side_def all_entries_def\<close>)
  moreover have "half_inv ?c (start_side vb ib sb) (start_side va ia sa)
      (recon_new sb [sd_intersection (start_side vb ib sb)] :: (('cap, 'sg) EntryStore, 'cap2, 'sg2) recon)
      (fresh_target (sd_intersection (start_side vb ib sb)))
      (recon_new sa [sd_intersection (start_side va ia sa)]) (fresh_target (sd_intersection (start_side va ia sa)))"
    by (rule half_inv_start) (use c m role in \<open>auto simp: start_ctx_def start_side_def all_entries_def\<close>)
  ultimately show ?thesis
    by (auto simp: system_inv_def peers_inv_def peers_start_def start_side_def)
qed

lemma reachable_inv:
  assumes "can_reconcile va vb ia ib sa sb r0" "peers_reach (mem_env va) (mem_env vb) (peers_start ia ib sa sb) (a, b)"
  obtains ta tb where "peers_inv (start_ctx va ia sa sb r0) (start_side va ia sa) (start_side vb ib sb) a ta b tb"
  using system_reach [OF assms(2) start_system_ok [OF assms(1)] start_system_inv [OF assms(1)]]
  by (auto simp: system_inv_def)

lemma reported_finished:
  assumes "peers_inv c X Y x tx y ty" "ReconciledAll \<in> set (rc_out x)"
  shows "finished (sd_intersection X) x tx"
  using assms by (auto simp: peers_inv_def half_inv_def peer_ok_def waiting_def active_def)

lemma start_roles:
  "can_reconcile va vb ia ib sa sb r0 \<Longrightarrow>
   sd_role (start_side va ia sa) = Alfie \<or> sd_role (start_side vb ib sb) = Alfie"
  by (cases "re_role va"; cases "re_role vb") (simp_all add: can_reconcile_def start_side_def Let_def)

lemma start_init:
  "can_reconcile va vb ia ib sa sb r0 \<Longrightarrow>
   sd_init (start_side va ia sa) \<union> sd_init (start_side vb ib sb) = all_entries sa sb (ai_namespace ia)"
  by (simp add: can_reconcile_def start_side_def all_entries_def Let_def)

lemma finished_has_all:
  assumes "can_reconcile va vb ia ib sa sb r0"
    and "peers_inv (start_ctx va ia sa sb r0) (start_side va ia sa) (start_side vb ib sb) a ta b tb"
  shows "finished ia a ta \<Longrightarrow> set (mem_contents (rc_store a) (ai_namespace ia)) \<subseteq> all_entries sa sb (ai_namespace ia) \<and>
      (\<forall>e \<in> all_entries sa sb (ai_namespace ia). in_range3d r0 e \<longrightarrow> dominated (re_wdm va) (mem_contents (rc_store a) (ai_namespace ia)) e)"
    and "finished ib b tb \<Longrightarrow> set (mem_contents (rc_store b) (ai_namespace ia)) \<subseteq> all_entries sa sb (ai_namespace ia) \<and>
      (\<forall>e \<in> all_entries sa sb (ai_namespace ia). in_range3d r0 e \<longrightarrow> dominated (re_wdm va) (mem_contents (rc_store b) (ai_namespace ia)) e)"
proof -
  note F = half_inv_finished [OF assms(2) _ start_roles [OF assms(1)], unfolded start_init [OF assms(1)]]
  note G = half_inv_finished [OF peers_inv_sym [OF assms(2)] _ start_roles [OF assms(1), THEN disj_commute [THEN iffD1]],
      unfolded Un_commute [of "sd_init (start_side vb ib sb)"] start_init [OF assms(1)]]
  show "set (mem_contents (rc_store a) (ai_namespace ia)) \<subseteq> all_entries sa sb (ai_namespace ia) \<and>
      (\<forall>e \<in> all_entries sa sb (ai_namespace ia). in_range3d r0 e \<longrightarrow> dominated (re_wdm va) (mem_contents (rc_store a) (ai_namespace ia)) e)"
    if "finished ia a ta"
    using F that by (simp add: start_ctx_def start_side_def)
  show "set (mem_contents (rc_store b) (ai_namespace ia)) \<subseteq> all_entries sa sb (ai_namespace ia) \<and>
      (\<forall>e \<in> all_entries sa sb (ai_namespace ia). in_range3d r0 e \<longrightarrow> dominated (re_wdm va) (mem_contents (rc_store b) (ai_namespace ia)) e)"
    if "finished ib b tb"
    using G that by (simp add: start_ctx_def start_side_def)
qed




section \<open>Two peers on which the hypotheses hold\<close>

text \<open>A schedule, to compute a reachable state.\<close>

datatype event = MessageB | MessageA | TokenB | TokenA | InputA | InputB

definition done_state :: "unit outcome \<times> 's \<Rightarrow> 's option"
  where "done_state r = (case r of (Done _, s) \<Rightarrow> Some s | _ \<Rightarrow> None)"

fun peers_do ::
  "('s, 'cap, 'sg, 'blob) recon_env \<Rightarrow> ('s, 'cap, 'sg, 'blob) recon_env \<Rightarrow> event \<Rightarrow> ('s, 'cap, 'sg) peers \<Rightarrow> ('s, 'cap, 'sg) peers option" where
  "peers_do va vb MessageB (a, b) = (case rc_sent a of [] \<Rightarrow> None
     | m # ms \<Rightarrow> map_option (\<lambda>b'. (a\<lparr> rc_sent := ms \<rparr>, b')) (done_state (received_message vb m b)))"
| "peers_do va vb MessageA (a, b) = (case rc_sent b of [] \<Rightarrow> None
     | m # ms \<Rightarrow> map_option (\<lambda>a'. (a', b\<lparr> rc_sent := ms \<rparr>)) (done_state (received_message va m a)))"
| "peers_do va vb TokenB (a, b) = (case rc_sent_tokens a of [] \<Rightarrow> None
     | k # ks \<Rightarrow> Some (a\<lparr> rc_sent_tokens := ks \<rparr>, b\<lparr> rc_tokens := snd (tokens_bind_theirs (sbs_static_token k) (rc_tokens b)) \<rparr>))"
| "peers_do va vb TokenA (a, b) = (case rc_sent_tokens b of [] \<Rightarrow> None
     | k # ks \<Rightarrow> Some (a\<lparr> rc_tokens := snd (tokens_bind_theirs (sbs_static_token k) (rc_tokens a)) \<rparr>, b\<lparr> rc_sent_tokens := ks \<rparr>))"
| "peers_do va vb InputA (a, b) = map_option (\<lambda>a'. (a', b)) (done_state (received_input va a))"
| "peers_do va vb InputB (a, b) = map_option (\<lambda>b'. (a, b')) (done_state (received_input vb b))"

fun peers_run ::
  "('s, 'cap, 'sg, 'blob) recon_env \<Rightarrow> ('s, 'cap, 'sg, 'blob) recon_env \<Rightarrow> event list \<Rightarrow> ('s, 'cap, 'sg) peers \<Rightarrow> ('s, 'cap, 'sg) peers option" where
  "peers_run va vb [] p = Some p"
| "peers_run va vb (ev # evs) p = Option.bind (peers_do va vb ev p) (peers_run va vb evs)"

lemma done_state_Some: "done_state r = Some s \<longleftrightarrow> r = (Done (), s)"
  by (auto simp: done_state_def split: prod.splits outcome.splits)

lemma peers_do_step: "peers_do va vb ev p = Some p' \<Longrightarrow> peers_step va vb p p'"
  by (induction va vb ev p rule: peers_do.induct)
    (auto simp: done_state_Some split: list.splits intro: peers_step.intros)

lemma peers_run_reach: "peers_reach va vb p0 p \<Longrightarrow> peers_run va vb evs p = Some p' \<Longrightarrow> peers_reach va vb p0 p'"
proof (induction evs arbitrary: p)
  case (Cons ev evs)
  then obtain p1 where "peers_do va vb ev p = Some p1" "peers_run va vb evs p1 = Some p'"
    by (auto simp: Option.bind_eq_Some_conv)
  then show ?case
    using Cons.IH [OF peers_reach.step [OF Cons.prems(1) peers_do_step]] by simp
qed simp

definition demo_aoi :: "u64 \<Rightarrow> u64 \<Rightarrow> AoiIntersection" where
  "demo_aoi ours theirs = \<lparr> ai_our_handle = AreaOfInterestHandle ours, ai_their_handle = AreaOfInterestHandle theirs,
     ai_intersection = \<lparr> aoi_area = area_new_path [], aoi_max_count = 0, aoi_max_size = 0 \<rparr>,
     ai_namespace = e_namespace_id demo_entry \<rparr>"

definition one_fp :: fp_env where
  "one_fp = \<lparr> blake3 = \<lambda>bs. replicate 31 0 @ [1], point_as_slice = \<lambda>p. concat (ws_z p) \<rparr>"

definition demo_recon_env :: "Role \<Rightarrow> ((unit, u8) EntryStore, unit, u8, unit) recon_env" where
  "demo_recon_env role = \<lparr> re_wdm = demo_wdm, re_fp = one_fp, re_role = role, re_session_id = 1,
     re_max_eager_payload_size = 0, re_waker = 0,
     re_get_authorised_entries = \<lambda>st ns r. Ok [], re_ingest_entry = \<lambda>e origin st. None,
     re_is_authorised_write = \<lambda>e t. True, re_get_payload = \<lambda>d. Ok None, re_verifiable_stream = \<lambda>b n. Ok [],
     re_import_alive = \<lambda>cp. True, re_import_stream = \<lambda>d a b bs. Ok () \<rparr>"

abbreviation demo_left :: "(unit, u8) EntryStore"
  where "demo_left \<equiv> demo_store [entry_at [[1]] 5]"

abbreviation demo_peers :: "((unit, u8) EntryStore, unit, u8) peers"
  where "demo_peers \<equiv> peers_start (demo_aoi 1 2) (demo_aoi 2 1) demo_left (demo_store [])"

definition demo_schedule :: "event list"
  where "demo_schedule = [InputA, MessageB, MessageA, MessageB, TokenB, MessageB, MessageB]"

lemma demo_run:
  "case peers_run (mem_env (demo_recon_env Alfie)) (mem_env (demo_recon_env Betty)) demo_schedule demo_peers of
     None \<Rightarrow> False
   | Some (a, b) \<Rightarrow> length (rc_out b) = 2 \<and> rc_out b ! 1 = ReconciledAll \<and> rc_sent a = [] \<and> rc_sent b = [] \<and>
       rc_inbox a = [] \<and> rc_inbox b = [] \<and>
       mem_contents (rc_store b) (e_namespace_id demo_entry) = [ae_entry (entry_at [[1]] 5)]"
  by code_simp

lemma demo_reach:
  obtains a b where "peers_reach (mem_env (demo_recon_env Alfie)) (mem_env (demo_recon_env Betty)) demo_peers (a, b)"
    "ReconciledAll \<in> set (rc_out b)" "rc_sent a = []" "rc_sent b = []" "rc_inbox a = []" "rc_inbox b = []"
    "mem_contents (rc_store b) (e_namespace_id demo_entry) = [ae_entry (entry_at [[1]] 5)]"
proof -
  obtain a b where ab: "peers_run (mem_env (demo_recon_env Alfie)) (mem_env (demo_recon_env Betty)) demo_schedule demo_peers = Some (a, b)"
    "length (rc_out b) = 2" "rc_out b ! 1 = ReconciledAll" "rc_sent a = []" "rc_sent b = []" "rc_inbox a = []" "rc_inbox b = []"
    "mem_contents (rc_store b) (e_namespace_id demo_entry) = [ae_entry (entry_at [[1]] 5)]"
    using demo_run by (auto split: option.splits)
  moreover have "ReconciledAll \<in> set (rc_out b)"
    by (metis ab(2,3) nth_mem one_less_numeral_iff semiring_norm(76))
  ultimately show ?thesis
    using that peers_run_reach [OF peers_reach.start ab(1)] by blast
qed

lemma one_fp_no_collision: "no_collision one_fp {e}"
proof -
  have "fp_from_entries one_fp [e] \<noteq> fp_from_entries one_fp []"
    by (simp add: fp_from_entries_def fp_add_entries_def fp_add_entry_def fp_default_def fp_bitxor_def lift_entry_def
        lift_stored_entry_def one_fp_def numeral_eq_Suc)
  moreover have "xs = [] \<or> xs = [e]" if "distinct xs" "set xs \<subseteq> {e}" for xs
    using that by (cases xs; cases "tl xs") auto
  ultimately show ?thesis
    unfolding no_collision_def by metis
qed

lemma demo_range: "area_to_range demo_wdm (area_new_path []) = Some full_range"
  by (simp add: area_to_range_def area_new_path_def demo_wdm_def full_range_def range_full_subspaces_def range_full_times_def)

lemma demo_entries: "all_entries demo_left (demo_store []) (e_namespace_id demo_entry) = {ae_entry (entry_at [[1]] 5)}"
  by (simp add: all_entries_def mem_contents_ns_store)

lemma demo_can_reconcile:
  "can_reconcile (demo_recon_env Alfie) (demo_recon_env Betty) (demo_aoi 1 2) (demo_aoi 2 1) demo_left (demo_store []) full_range"
proof -
  have "mem_inv demo_wdm demo_left" "mem_inv demo_wdm (demo_store [])"
    by (rule demo_store_inv, simp add: ns_inv_def)+
  moreover have "demo_wdm = re_wdm (demo_recon_env r)" "one_fp = re_fp (demo_recon_env r)" for r
    by (simp_all add: demo_recon_env_def)
  moreover have "ai_namespace (demo_aoi i j) = e_namespace_id demo_entry" "ai_area (demo_aoi i j) = area_new_path []"
    "prod.swap (ai_id (demo_aoi i j)) = ai_id (demo_aoi j i)" for i j
    by (simp_all add: demo_aoi_def ai_area_def ai_id_def)
  moreover have "re_role (demo_recon_env Alfie) \<noteq> re_role (demo_recon_env Betty)"
    by (simp add: demo_recon_env_def)
  ultimately show ?thesis
    using demo_path_laws demo_newer_laws demo_range_laws demo_range one_fp_no_collision
    by (simp add: can_reconcile_def Let_def demo_entries single_prune_def)
qed




end
