(* ===== verification/Pai.thy ===== *)
theory Pai
  imports Outcome Aoi_Finder
begin

text \<open>
  Private area intersection: the fragments of a read capability (\<open>proto/pai.rs\<close>) and the finder that
  exchanges them with the other peer (\<open>session/pai_finder.rs\<close>).  The group, its hash and scalar
  multiplication (\<open>curve25519_dalek\<close>, \<open>sha2\<close>), the prefixes and the encoding of a path
  (\<open>willow_data_model\<close>) and the area that a capability grants (\<open>meadowcap\<close>) are arguments, in the record
  \<open>psi_env\<close>; so is the text that \<open>Debug\<close> prints for a handle.
\<close>

section \<open>Fragments\<close>

record ('g, 'sc, 'cap) psi_env =
  psi_hash :: "bytes \<Rightarrow> 'g"
  psi_mult :: "'g \<Rightarrow> 'sc \<Rightarrow> 'g"
  psi_compress :: "'g \<Rightarrow> bytes"
  psi_decompress :: "bytes \<Rightarrow> 'g option"
  psi_encode_path :: "path \<Rightarrow> bytes"
  psi_all_prefixes :: "path \<Rightarrow> path list"
  psi_granted_area :: "'cap \<Rightarrow> Area"
  psi_granted_namespace :: "'cap \<Rightarrow> NamespaceId"
  psi_debug :: "ResourceHandle \<Rightarrow> string"

definition group_from_bytes :: "('g, 'sc, 'cap) psi_env \<Rightarrow> bytes \<Rightarrow> string + 'g"
  where "group_from_bytes v bs = ok_or ''Invalid Psi Group'' (psi_decompress v bs)"

definition group_to_bytes :: "('g, 'sc, 'cap) psi_env \<Rightarrow> 'g \<Rightarrow> bytes"
  where "group_to_bytes v g = psi_compress v g"

type_synonym FragmentTriple = "NamespaceId \<times> SubspaceId \<times> path"
type_synonym FragmentPair = "NamespaceId \<times> path"

datatype Fragment = Pair FragmentPair | Triple FragmentTriple

fun fragment_into_parts :: "Fragment \<Rightarrow> NamespaceId \<times> AreaSubspace \<times> path" where
  "fragment_into_parts (Pair (namespace_id, path)) = (namespace_id, AnySubspace, path)"
| "fragment_into_parts (Triple (namespace_id, subspace_id, path)) = (namespace_id, IdSubspace subspace_id, path)"

fun fragment_encode :: "('g, 'sc, 'cap) psi_env \<Rightarrow> Fragment \<Rightarrow> bytes \<Rightarrow> bytes" where
  "fragment_encode v (Pair (namespace_id, path)) consumer = ns_encode namespace_id consumer @ psi_encode_path v path"
| "fragment_encode v (Triple (namespace_id, subspace_id, path)) consumer =
     user_encode subspace_id (ns_encode namespace_id consumer) @ psi_encode_path v path"

definition hash_into_group :: "('g, 'sc, 'cap) psi_env \<Rightarrow> Fragment \<Rightarrow> 'g"
  where "hash_into_group v fragment = psi_hash v (fragment_encode v fragment [])"

definition scalar_mult :: "('g, 'sc, 'cap) psi_env \<Rightarrow> 'g \<Rightarrow> 'sc \<Rightarrow> 'g"
  where "scalar_mult v grp scalar = psi_mult v grp scalar"

definition is_group_equal :: "'g \<Rightarrow> 'g \<Rightarrow> bool"
  where "is_group_equal a b \<longleftrightarrow> a = b"

datatype FragmentKind = Primary | Secondary

definition kind_is_secondary :: "FragmentKind \<Rightarrow> bool"
  where "kind_is_secondary k \<longleftrightarrow> k = Secondary"

datatype FragmentSet =
    FS_Complete "FragmentPair list"
  | FS_Selective (fs_primary: "FragmentTriple list") (fs_secondary: "FragmentPair list")

datatype FragmentKit =
    FK_Complete NamespaceId path
  | FK_Selective NamespaceId SubspaceId path

fun into_fragment_set :: "('g, 'sc, 'cap) psi_env \<Rightarrow> FragmentKit \<Rightarrow> FragmentSet" where
  "into_fragment_set v (FK_Complete namespace_id path) =
     FS_Complete (map (\<lambda>prefix. (namespace_id, prefix)) (psi_all_prefixes v path))"
| "into_fragment_set v (FK_Selective namespace_id subspace_id path) =
     FS_Selective (map (\<lambda>prefix. (namespace_id, subspace_id, prefix)) (psi_all_prefixes v path))
       (map (\<lambda>prefix. (namespace_id, prefix)) (psi_all_prefixes v path))"

definition get_fragment_kit :: "('g, 'sc, 'cap) psi_env \<Rightarrow> 'cap \<Rightarrow> FragmentKit" where
  "get_fragment_kit v cap =
     (let granted_area = psi_granted_area v cap;
          granted_namespace = psi_granted_namespace v cap;
          granted_path = a_path granted_area
      in case a_subspace granted_area of
           AnySubspace \<Rightarrow> FK_Complete granted_namespace granted_path
         | IdSubspace granted_subspace \<Rightarrow> FK_Selective granted_namespace granted_subspace granted_path)"

section \<open>The state of the finder\<close>

datatype OnIntersection = DoNothing | BindReadCap | RequestSubspaceCap | ReplyReadCap

fun on_intersection_new :: "FragmentKind \<Rightarrow> bool \<Rightarrow> OnIntersection" where
  "on_intersection_new Primary True = BindReadCap"
| "on_intersection_new Primary False = ReplyReadCap"
| "on_intersection_new Secondary True = RequestSubspaceCap"
| "on_intersection_new Secondary False = DoNothing"

record ('cap, 'scap) LocalFragmentInfo =
  lf_on_intersection :: OnIntersection
  lf_authorisation :: "('cap, 'scap) ReadAuthorisation"
  lf_namespace_id :: NamespaceId
  lf_path :: path
  lf_subspace :: AreaSubspace

definition local_fragment_info_new ::
  "('cap, 'scap) ReadAuthorisation \<Rightarrow> Fragment \<Rightarrow> FragmentKind \<Rightarrow> bool \<Rightarrow> ('cap, 'scap) LocalFragmentInfo" where
  "local_fragment_info_new authorisation fragment kind is_most_specific =
     (let (namespace_id, subspace, path) = fragment_into_parts fragment
      in \<lparr> lf_on_intersection = on_intersection_new kind is_most_specific, lf_authorisation = authorisation,
           lf_namespace_id = namespace_id, lf_path = path, lf_subspace = subspace \<rparr>)"

definition to_pai_intersection :: "('cap, 'scap) LocalFragmentInfo \<Rightarrow> IntersectionHandle \<Rightarrow> ('cap, 'scap) PaiIntersection"
  where "to_pai_intersection info handle = \<lparr> pi_authorisation = lf_authorisation info, pi_handle = handle \<rparr>"

datatype PendingState = PS_Pending | PS_Complete

record 'g GroupState =
  gs_group :: 'g
  gs_state :: PendingState
  gs_is_secondary :: bool

definition new_pending :: "'g \<Rightarrow> bool \<Rightarrow> 'g GroupState"
  where "new_pending grp is_secondary = \<lparr> gs_group = grp, gs_state = PS_Pending, gs_is_secondary = is_secondary \<rparr>"

definition new_complete :: "'g \<Rightarrow> bool \<Rightarrow> 'g GroupState"
  where "new_complete grp is_secondary = \<lparr> gs_group = grp, gs_state = PS_Complete, gs_is_secondary = is_secondary \<rparr>"

definition to_bind_fragment_message :: "('g, 'sc, 'cap) psi_env \<Rightarrow> 'g GroupState \<Rightarrow> PaiBindFragment" where
  "to_bind_fragment_message v s = \<lparr> pbf_group_member = group_to_bytes v (gs_group s), pbf_is_secondary = gs_is_secondary s \<rparr>"

definition gs_is_complete :: "'g GroupState \<Rightarrow> bool"
  where "gs_is_complete s \<longleftrightarrow> gs_state s = PS_Complete"

definition completes_with :: "'g GroupState \<Rightarrow> 'g GroupState \<Rightarrow> bool" where
  "completes_with s other =
     (if \<not> gs_is_complete s \<or> \<not> gs_is_complete other then False
      else if gs_is_secondary s \<and> gs_is_secondary other then False
      else if \<not> is_group_equal (gs_group s) (gs_group other) then False
      else True)"

datatype ('cap, 'scap) PaiInput =
    Established
  | InSubmitAuthorisation "('cap, 'scap) ReadAuthorisation"
  | ReceivedMessage "Error + IntersectionMessage"
  | ReceivedSubspaceCapRequest IntersectionHandle
  | ReceivedVerifiedSubspaceCapReply IntersectionHandle NamespaceId
  | ReceivedReadCapForIntersection IntersectionHandle

datatype ('cap, 'scap, 'sg) PaiOutput =
    PO_SendMessage "('cap, 'scap, 'sg) Message"
  | NewIntersection "('cap, 'scap) PaiIntersection"
  | SignAndSendSubspaceCap IntersectionHandle 'scap

text \<open>Outputs are yielded in order; \<open>pf_out\<close> is the list of all of them.\<close>

record ('g, 'sc, 'cap, 'scap, 'sg) PaiFinder =
  pf_out :: "('cap, 'scap, 'sg) PaiOutput list"
  pf_scalar :: 'sc
  pf_fragments_info :: "(IntersectionHandle, ('cap, 'scap) LocalFragmentInfo) hash_map"
  pf_ours :: "(IntersectionHandle, 'g GroupState) ResourceMap"
  pf_theirs :: "(IntersectionHandle, 'g GroupState) ResourceMap"
  pf_requested_subspace_cap_handles :: "IntersectionHandle set"
  pf_submitted :: "('cap, 'scap) ReadAuthorisation set"
  pf_pending :: "('cap, 'scap) ReadAuthorisation list option"

type_synonym ('g, 'sc, 'cap, 'scap, 'sg, 'a) pai_prog = "(('g, 'sc, 'cap, 'scap, 'sg) PaiFinder, 'a) prog"

definition pai_new :: "'sc \<Rightarrow> ('g, 'sc, 'cap, 'scap, 'sg) PaiFinder" where
  "pai_new scalar = \<lparr> pf_out = [], pf_scalar = scalar, pf_fragments_info = [], pf_ours = rm_default, pf_theirs = rm_default,
     pf_requested_subspace_cap_handles = {}, pf_submitted = {}, pf_pending = Some [] \<rparr>"

section \<open>Operations\<close>

definition pai_yield :: "('cap, 'scap, 'sg) PaiOutput \<Rightarrow> ('g, 'sc, 'cap, 'scap, 'sg, unit) pai_prog"
  where "pai_yield x = modify (\<lambda>s. s\<lparr> pf_out := pf_out s @ [x] \<rparr>)"

text \<open>An error that passes through \<open>anyhow\<close>: a missing resource is known by its text.\<close>

definition missing_text :: "('g, 'sc, 'cap) psi_env \<Rightarrow> ResourceHandle \<Rightarrow> string"
  where "missing_text v h = ''missing resource '' @ psi_debug v h"

definition try_get_anyhow ::
  "('g, 'sc, 'cap) psi_env \<Rightarrow> IntersectionHandle \<Rightarrow> (IntersectionHandle, 'g GroupState) ResourceMap \<Rightarrow> string + 'g GroupState" where
  "try_get_anyhow v h m = ok_or (missing_text v (RH_Intersection h)) (rm_get m h)"

definition fragment_info ::
  "IntersectionHandle \<Rightarrow> ('g, 'sc, 'cap, 'scap, 'sg) PaiFinder \<Rightarrow> MissingResource + ('cap, 'scap) LocalFragmentInfo"
  where "fragment_info handle s = ok_or (MissingResource (RH_Intersection handle)) (map_of (pf_fragments_info s) handle)"

definition submit_fragment ::
  "('g, 'sc, 'cap) psi_env \<Rightarrow> ('cap, 'scap) ReadAuthorisation \<Rightarrow> Fragment \<Rightarrow> FragmentKind \<Rightarrow> bool
   \<Rightarrow> ('g, 'sc, 'cap, 'scap, 'sg, IntersectionHandle) pai_prog" where
  "submit_fragment v authorisation fragment kind is_most_specific =
     rbind (gets pf_scalar) (\<lambda>scalar.
       let unmixed = hash_into_group v fragment;
           multiplied = scalar_mult v unmixed scalar;
           group_state = new_pending multiplied (kind_is_secondary kind);
           message = to_bind_fragment_message v group_state
       in
         rbind (gets (\<lambda>s. rm_bind IntersectionHandle group_state (pf_ours s))) (\<lambda>(handle, ws, m).
         rbind (modify (\<lambda>s. s\<lparr> pf_ours := m \<rparr>)) (\<lambda>_.
         rbind (modify (\<lambda>s. s\<lparr> pf_fragments_info := hm_insert handle
             (local_fragment_info_new authorisation fragment kind is_most_specific) (pf_fragments_info s) \<rparr>)) (\<lambda>_.
         rbind (pai_yield (PO_SendMessage (M_PaiBindFragment message))) (\<lambda>_. ret handle)))))"

text \<open>The loops of \<open>submit_authorisation\<close>: the last fragment is the most specific one.\<close>

fun submit_fragments ::
  "('g, 'sc, 'cap) psi_env \<Rightarrow> ('cap, 'scap) ReadAuthorisation \<Rightarrow> FragmentKind \<Rightarrow> Fragment list
   \<Rightarrow> ('g, 'sc, 'cap, 'scap, 'sg, unit) pai_prog" where
  "submit_fragments v authorisation kind [] = ret ()"
| "submit_fragments v authorisation kind (fragment # fragments) =
     rbind (submit_fragment v authorisation fragment kind (fragments = [])) (\<lambda>_.
       submit_fragments v authorisation kind fragments)"

definition submit_authorisation ::
  "('g, 'sc, 'cap) psi_env \<Rightarrow> ('cap, 'scap) ReadAuthorisation \<Rightarrow> ('g, 'sc, 'cap, 'scap, 'sg, unit) pai_prog" where
  "submit_authorisation v authorisation =
     rbind (gets pf_submitted) (\<lambda>submitted.
       if authorisation \<in> submitted then ret ()
       else
         rbind (modify (\<lambda>s. s\<lparr> pf_submitted := insert authorisation (pf_submitted s) \<rparr>)) (\<lambda>_.
           case into_fragment_set v (get_fragment_kit v (ra_read_cap authorisation)) of
             FS_Complete pairs \<Rightarrow> submit_fragments v authorisation Primary (map Pair pairs)
           | FS_Selective primary secondary \<Rightarrow>
               rbind (submit_fragments v authorisation Primary (map Triple primary)) (\<lambda>_.
                 submit_fragments v authorisation Secondary (map Pair secondary))))"

fun submit_authorisations ::
  "('g, 'sc, 'cap) psi_env \<Rightarrow> ('cap, 'scap) ReadAuthorisation list \<Rightarrow> ('g, 'sc, 'cap, 'scap, 'sg, unit) pai_prog" where
  "submit_authorisations v [] = ret ()"
| "submit_authorisations v (a # as) = rbind (submit_authorisation v a) (\<lambda>_. submit_authorisations v as)"

text \<open>The loop of \<open>check_for_intersection\<close>.\<close>

fun check_loop ::
  "Scope \<Rightarrow> IntersectionHandle \<Rightarrow> 'g GroupState \<Rightarrow> (IntersectionHandle \<times> 'g GroupState) list
   \<Rightarrow> ('g, 'sc, 'cap, 'scap, 'sg, unit) pai_prog" where
  "check_loop scope handle intersection [] = ret ()"
| "check_loop scope handle intersection ((other_handle, other_intersection) # others) =
     (if \<not> completes_with other_intersection intersection then check_loop scope handle intersection others
      else
        let our_handle = (case scope of Ours \<Rightarrow> handle | Theirs \<Rightarrow> other_handle)
        in rbind (gets (fragment_info our_handle)) (\<lambda>r.
           rbind (try_res (map_err error_from_missing_resource r)) (\<lambda>info.
           rbind (case lf_on_intersection info of
                    BindReadCap \<Rightarrow> pai_yield (NewIntersection (to_pai_intersection info our_handle))
                  | RequestSubspaceCap \<Rightarrow>
                      rbind (modify (\<lambda>s. s\<lparr> pf_requested_subspace_cap_handles :=
                          insert our_handle (pf_requested_subspace_cap_handles s) \<rparr>)) (\<lambda>_.
                        pai_yield (PO_SendMessage (M_PaiRequestSubspaceCapability \<lparr> prs_handle = handle \<rparr>)))
                  | ReplyReadCap \<Rightarrow> ret ()
                  | DoNothing \<Rightarrow> ret ()) (\<lambda>_.
             check_loop scope handle intersection others))))"

definition check_for_intersection :: "IntersectionHandle \<Rightarrow> Scope \<Rightarrow> ('g, 'sc, 'cap, 'scap, 'sg, unit) pai_prog" where
  "check_for_intersection handle scope =
     rbind (gets (\<lambda>s. case scope of Ours \<Rightarrow> (pf_ours s, pf_theirs s) | Theirs \<Rightarrow> (pf_theirs s, pf_ours s)))
       (\<lambda>(store_to_get_handle_from, store_to_check_against).
     rbind (try_res (map_err error_from_missing_resource (rm_try_get RH_Intersection handle store_to_get_handle_from))) (\<lambda>intersection.
       if \<not> gs_is_complete intersection then ret ()
       else check_loop scope handle intersection (rm_iter store_to_check_against)))"

text \<open>
  \<open>receive_bind\<close> and \<open>receive_reply\<close> return errors of \<open>anyhow\<close>, so an error of
  \<open>check_for_intersection\<close> reaches the session as an error of the local store.
\<close>

definition via_anyhow :: "('g, 'sc, 'cap) psi_env \<Rightarrow> ('s, 'a) prog \<Rightarrow> ('s, 'a) prog" where
  "via_anyhow v m = (\<lambda>s. case m s of
     (Failed (E_MissingResource h), s') \<Rightarrow> (Failed (E_Store (missing_text v h)), s') | r \<Rightarrow> r)"

definition receive_bind :: "('g, 'sc, 'cap) psi_env \<Rightarrow> PaiBindFragment \<Rightarrow> ('g, 'sc, 'cap, 'scap, 'sg, unit) pai_prog" where
  "receive_bind v message =
     rbind (try_anyhow (group_from_bytes v (pbf_group_member message))) (\<lambda>unmixed.
     rbind (gets pf_scalar) (\<lambda>scalar.
       let multiplied = scalar_mult v unmixed scalar;
           group_state = new_complete multiplied (pbf_is_secondary message)
       in
         rbind (gets (\<lambda>s. rm_bind IntersectionHandle group_state (pf_theirs s))) (\<lambda>(handle, ws, m).
         rbind (modify (\<lambda>s. s\<lparr> pf_theirs := m \<rparr>)) (\<lambda>_.
         rbind (pai_yield (PO_SendMessage (M_PaiReplyFragment
                  \<lparr> prf_handle = handle, prf_group_member = group_to_bytes v multiplied \<rparr>))) (\<lambda>_.
           via_anyhow v (check_for_intersection handle Theirs))))))"

definition receive_reply :: "('g, 'sc, 'cap) psi_env \<Rightarrow> PaiReplyFragment \<Rightarrow> ('g, 'sc, 'cap, 'scap, 'sg, unit) pai_prog" where
  "receive_reply v message =
     rbind (try_anyhow (group_from_bytes v (prf_group_member message))) (\<lambda>group.
     rbind (gets pf_ours) (\<lambda>ours.
     rbind (try_anyhow (try_get_anyhow v (prf_handle message) ours)) (\<lambda>our_state.
       let next_state = new_complete group (gs_is_secondary our_state)
       in via_anyhow v (
         rbind (try_res (rm_update RH_Intersection (prf_handle message) next_state ours)) (\<lambda>m.
         rbind (modify (\<lambda>s. s\<lparr> pf_ours := m \<rparr>)) (\<lambda>_.
           check_for_intersection (prf_handle message) Ours))))))"

fun read_cap_loop ::
  "('g, 'sc, 'cap) psi_env \<Rightarrow> 'g GroupState \<Rightarrow> (IntersectionHandle \<times> 'g GroupState) list
   \<Rightarrow> ('g, 'sc, 'cap, 'scap, 'sg, unit) pai_prog" where
  "read_cap_loop v their_intersection [] = ret ()"
| "read_cap_loop v their_intersection ((our_handle, our_intersection) # ours) =
     (if \<not> completes_with our_intersection their_intersection then read_cap_loop v their_intersection ours
      else rbind (gets (fragment_info our_handle)) (\<lambda>r.
           rbind (try_res (map_err error_from_missing_resource r)) (\<lambda>info.
           rbind (if lf_on_intersection info = ReplyReadCap
                  then pai_yield (NewIntersection (to_pai_intersection info our_handle)) else ret ()) (\<lambda>_.
             read_cap_loop v their_intersection ours))))"

definition received_read_cap_for_intersection ::
  "('g, 'sc, 'cap) psi_env \<Rightarrow> IntersectionHandle \<Rightarrow> ('g, 'sc, 'cap, 'scap, 'sg, unit) pai_prog" where
  "received_read_cap_for_intersection v their_handle =
     rbind (gets (\<lambda>s. (pf_theirs s, pf_ours s))) (\<lambda>(theirs, ours).
     rbind (try_anyhow (try_get_anyhow v their_handle theirs)) (\<lambda>their_intersection.
       via_anyhow v (read_cap_loop v their_intersection (rm_iter ours))))"

definition received_verified_subspace_cap_reply ::
  "IntersectionHandle \<Rightarrow> NamespaceId \<Rightarrow> ('g, 'sc, 'cap, 'scap, 'sg, unit) pai_prog" where
  "received_verified_subspace_cap_reply handle namespace_id =
     rbind (gets pf_requested_subspace_cap_handles) (\<lambda>requested.
       if handle \<notin> requested then fail (E_Pai SubspaceCapRequestForInvalidHandle)
       else
         rbind (modify (\<lambda>s. s\<lparr> pf_requested_subspace_cap_handles := pf_requested_subspace_cap_handles s - {handle} \<rparr>)) (\<lambda>_.
         rbind (gets pf_ours) (\<lambda>ours.
         rbind (try_res (map_err (\<lambda>e. E_Pai (PE_MissingResource e)) (rm_try_get RH_Intersection handle ours))) (\<lambda>_.
         rbind (gets (fragment_info handle)) (\<lambda>r.
         rbind (try_res (map_err (\<lambda>e. E_Pai (PE_MissingResource e)) r)) (\<lambda>info.
           if lf_namespace_id info \<noteq> namespace_id then fail (E_Pai SubspaceCapRequestForWrongNamespace)
           else pai_yield (NewIntersection (to_pai_intersection info handle))))))))"

fun subspace_cap_loop ::
  "IntersectionHandle \<Rightarrow> 'g GroupState \<Rightarrow> (IntersectionHandle \<times> 'g GroupState) list
   \<Rightarrow> ('g, 'sc, 'cap, 'scap, 'sg, unit) pai_prog" where
  "subspace_cap_loop handle result [] = ret ()"
| "subspace_cap_loop handle result ((our_handle, intersection) # ours) =
     (if \<not> gs_is_complete intersection then subspace_cap_loop handle result ours
      else if \<not> is_group_equal (gs_group result) (gs_group intersection) then subspace_cap_loop handle result ours
      else rbind (gets (fragment_info our_handle)) (\<lambda>r.
           rbind (try_res (map_err error_from_missing_resource r)) (\<lambda>info.
           rbind (case ra_subspace_cap (lf_authorisation info) of
                    None \<Rightarrow> ret () | Some cap \<Rightarrow> pai_yield (SignAndSendSubspaceCap handle cap)) (\<lambda>_.
             subspace_cap_loop handle result ours))))"

definition received_subspace_cap_request :: "IntersectionHandle \<Rightarrow> ('g, 'sc, 'cap, 'scap, 'sg, unit) pai_prog" where
  "received_subspace_cap_request handle =
     rbind (gets (\<lambda>s. (pf_theirs s, pf_ours s))) (\<lambda>(theirs, ours).
     rbind (try_res (map_err error_from_missing_resource (rm_try_get RH_Intersection handle theirs))) (\<lambda>result.
       subspace_cap_loop handle result (rm_iter ours)))"

fun pai_input ::
  "('g, 'sc, 'cap) psi_env \<Rightarrow> ('cap, 'scap) PaiInput \<Rightarrow> ('g, 'sc, 'cap, 'scap, 'sg, unit) pai_prog" where
  "pai_input v (InSubmitAuthorisation auth) =
     rbind (gets pf_pending) (\<lambda>pending. case pending of
         Some p \<Rightarrow> modify (\<lambda>s. s\<lparr> pf_pending := Some (List.insert auth p) \<rparr>)
       | None \<Rightarrow> submit_authorisation v auth)"
| "pai_input v Established =
     rbind (gets pf_pending) (\<lambda>pending.
     rbind (modify (\<lambda>s. s\<lparr> pf_pending := None \<rparr>)) (\<lambda>_.
       case pending of Some p \<Rightarrow> submit_authorisations v p | None \<Rightarrow> ret ()))"
| "pai_input v (ReceivedMessage message) =
     rbind (try_res message) (\<lambda>m. case m of
         IM_BindFragment m \<Rightarrow> receive_bind v m
       | IM_ReplyFragment m \<Rightarrow> receive_reply v m)"
| "pai_input v (ReceivedSubspaceCapRequest handle) = received_subspace_cap_request handle"
| "pai_input v (ReceivedVerifiedSubspaceCapReply handle namespace) = received_verified_subspace_cap_reply handle namespace"
| "pai_input v (ReceivedReadCapForIntersection handle) = received_read_cap_for_intersection v handle"

fun pai_run :: "('g, 'sc, 'cap) psi_env \<Rightarrow> ('cap, 'scap) PaiInput list \<Rightarrow> ('g, 'sc, 'cap, 'scap, 'sg, unit) pai_prog" where
  "pai_run v [] = ret ()"
| "pai_run v (input # inbox) = rbind (pai_input v input) (\<lambda>_. pai_run v inbox)"

end
