(* ===== verification/Pai_Exchange.thy ===== *)
theory Pai_Exchange
  imports Pai
begin

text \<open>
  Two private area intersection finders that exchange their fragments over channels that deliver in order.
  The invariant of the exchange gives that no message is ever refused, and that after all messages were
  processed each finder has reported exactly those of its authorisations whose area contains an area of
  the other peer.
\<close>

section \<open>Two finders\<close>

text \<open>The messages of the intersection channel among the outputs.\<close>

definition im_of :: "('cap, 'scap, 'sg) PaiOutput \<Rightarrow> IntersectionMessage option" where
  "im_of x = (case x of
     PO_SendMessage m \<Rightarrow> (case intersection_try_from m of Inr i \<Rightarrow> Some i | Inl _ \<Rightarrow> None)
   | _ \<Rightarrow> None)"

definition im_msgs :: "('cap, 'scap, 'sg) PaiOutput list \<Rightarrow> IntersectionMessage list"
  where "im_msgs xs = List.map_filter im_of xs"

fun is_message :: "('cap, 'scap) PaiInput \<Rightarrow> bool" where
  "is_message (ReceivedMessage _) \<longleftrightarrow> True"
| "is_message _ \<longleftrightarrow> False"

text \<open>A finder and how many of its messages the other one has processed.\<close>

type_synonym ('g, 'sc, 'cap, 'scap, 'sg) pai_side = "('g, 'sc, 'cap, 'scap, 'sg) PaiFinder \<times> nat"

inductive pai_step ::
  "('g, 'sc, 'cap) psi_env \<Rightarrow> ('g, 'sc, 'cap, 'scap, 'sg) pai_side \<times> ('g, 'sc, 'cap, 'scap, 'sg) pai_side
   \<Rightarrow> ('g, 'sc, 'cap, 'scap, 'sg) pai_side \<times> ('g, 'sc, 'cap, 'scap, 'sg) pai_side \<Rightarrow> bool"
  for v where
  deliver_b: "drop ka (im_msgs (pf_out a)) = m # ms \<Longrightarrow> pai_input v (ReceivedMessage (Ok m)) b = (Done (), b') \<Longrightarrow>
     pai_step v ((a, ka), (b, kb)) ((a, Suc ka), (b', kb))"
| deliver_a: "drop kb (im_msgs (pf_out b)) = m # ms \<Longrightarrow> pai_input v (ReceivedMessage (Ok m)) a = (Done (), a') \<Longrightarrow>
     pai_step v ((a, ka), (b, kb)) ((a', ka), (b, Suc kb))"
| input_a: "\<not> is_message i \<Longrightarrow> pai_input v i a = (Done (), a') \<Longrightarrow> pai_step v ((a, ka), (b, kb)) ((a', ka), (b, kb))"
| input_b: "\<not> is_message i \<Longrightarrow> pai_input v i b = (Done (), b') \<Longrightarrow> pai_step v ((a, ka), (b, kb)) ((a, ka), (b', kb))"

inductive pai_reach ::
  "('g, 'sc, 'cap) psi_env \<Rightarrow> 'sc \<Rightarrow> 'sc \<Rightarrow> ('g, 'sc, 'cap, 'scap, 'sg) pai_side \<times> ('g, 'sc, 'cap, 'scap, 'sg) pai_side \<Rightarrow> bool"
  for v sa sb where
  pai_start: "pai_reach v sa sb ((pai_new sa, 0), (pai_new sb, 0))"
| pai_next: "pai_reach v sa sb p \<Longrightarrow> pai_step v p p' \<Longrightarrow> pai_reach v sa sb p'"

section \<open>Messages\<close>

fun bind_of :: "IntersectionMessage \<Rightarrow> PaiBindFragment option" where
  "bind_of (IM_BindFragment m) = Some m"
| "bind_of (IM_ReplyFragment m) = None"

fun reply_of :: "IntersectionMessage \<Rightarrow> PaiReplyFragment option" where
  "reply_of (IM_BindFragment m) = None"
| "reply_of (IM_ReplyFragment m) = Some m"

definition binds :: "IntersectionMessage list \<Rightarrow> PaiBindFragment list"
  where "binds ms = List.map_filter bind_of ms"

definition replies :: "IntersectionMessage list \<Rightarrow> PaiReplyFragment list"
  where "replies ms = List.map_filter reply_of ms"

lemma map_filter_append: "List.map_filter f (xs @ ys) = List.map_filter f xs @ List.map_filter f ys"
  by (simp add: List.map_filter_def)

lemma im_msgs_simps [simp]:
  "im_msgs [] = []" "im_msgs (xs @ ys) = im_msgs xs @ im_msgs ys"
  "im_msgs [PO_SendMessage (M_PaiBindFragment m)] = [IM_BindFragment m]"
  "im_msgs [PO_SendMessage (M_PaiReplyFragment r)] = [IM_ReplyFragment r]"
  "im_msgs [PO_SendMessage (M_PaiRequestSubspaceCapability q)] = []"
  "im_msgs [NewIntersection p] = []" "im_msgs [SignAndSendSubspaceCap h cap] = []"
  by (simp_all add: im_msgs_def map_filter_append im_of_def intersection_try_from_def map_filter_simps)

lemma binds_simps [simp]:
  "binds [] = []" "binds (xs @ ys) = binds xs @ binds ys" "binds (IM_BindFragment m # ms) = m # binds ms"
  "binds (IM_ReplyFragment r # ms) = binds ms"
  by (simp_all add: binds_def map_filter_append map_filter_simps)

lemma replies_simps [simp]:
  "replies [] = []" "replies (xs @ ys) = replies xs @ replies ys" "replies (IM_BindFragment m # ms) = replies ms"
  "replies (IM_ReplyFragment r # ms) = r # replies ms"
  by (simp_all add: replies_def map_filter_append map_filter_simps)

lemma length_binds: "length (binds ms) \<le> length ms" and length_replies: "length (replies ms) \<le> length ms"
  by (simp_all add: binds_def replies_def List.map_filter_def)

lemma binds_take:
  assumes "binds ms = xs"
  shows "binds (take k ms) = take (length (binds (take k ms))) xs"
proof -
  have "xs = binds (take k ms) @ binds (drop k ms)"
    using assms by (metis append_take_drop_id binds_simps(2))
  then show ?thesis
    by simp
qed

lemma replies_take:
  assumes "replies ms = xs"
  shows "replies (take k ms) = take (length (replies (take k ms))) xs"
proof -
  have "xs = replies (take k ms) @ replies (drop k ms)"
    using assms by (metis append_take_drop_id replies_simps(2))
  then show ?thesis
    by simp
qed

section \<open>Fragments of an authorisation\<close>

record ('cap, 'scap) frag =
  fr_fragment :: Fragment
  fr_kind :: FragmentKind
  fr_specific :: bool
  fr_auth :: "('cap, 'scap) ReadAuthorisation"

fun mk_frags :: "('cap, 'scap) ReadAuthorisation \<Rightarrow> FragmentKind \<Rightarrow> Fragment list \<Rightarrow> ('cap, 'scap) frag list" where
  "mk_frags auth kind [] = []"
| "mk_frags auth kind (f # fs) = \<lparr> fr_fragment = f, fr_kind = kind, fr_specific = (fs = []), fr_auth = auth \<rparr> # mk_frags auth kind fs"

definition auth_frags :: "('g, 'sc, 'cap) psi_env \<Rightarrow> ('cap, 'scap) ReadAuthorisation \<Rightarrow> ('cap, 'scap) frag list" where
  "auth_frags v auth = (case into_fragment_set v (get_fragment_kit v (ra_read_cap auth)) of
     FS_Complete pairs \<Rightarrow> mk_frags auth Primary (map Pair pairs)
   | FS_Selective primary secondary \<Rightarrow> mk_frags auth Primary (map Triple primary) @ mk_frags auth Secondary (map Pair secondary))"

abbreviation fr_hash :: "('g, 'sc, 'cap) psi_env \<Rightarrow> ('cap, 'scap) frag \<Rightarrow> 'g"
  where "fr_hash v f \<equiv> hash_into_group v (fr_fragment f)"

definition fr_pending :: "('g, 'sc, 'cap) psi_env \<Rightarrow> 'sc \<Rightarrow> ('cap, 'scap) frag \<Rightarrow> 'g GroupState"
  where "fr_pending v sx f = new_pending (psi_mult v (fr_hash v f) sx) (fr_kind f = Secondary)"

definition fr_done :: "('g, 'sc, 'cap) psi_env \<Rightarrow> 'sc \<Rightarrow> 'sc \<Rightarrow> ('cap, 'scap) frag \<Rightarrow> 'g GroupState"
  where "fr_done v sx sy f = new_complete (psi_mult v (psi_mult v (fr_hash v f) sx) sy) (fr_kind f = Secondary)"

definition fr_bind :: "('g, 'sc, 'cap) psi_env \<Rightarrow> 'sc \<Rightarrow> ('cap, 'scap) frag \<Rightarrow> PaiBindFragment" where
  "fr_bind v sx f = \<lparr> pbf_group_member = psi_compress v (psi_mult v (fr_hash v f) sx), pbf_is_secondary = (fr_kind f = Secondary) \<rparr>"

definition fr_info :: "('cap, 'scap) frag \<Rightarrow> ('cap, 'scap) LocalFragmentInfo"
  where "fr_info f = local_fragment_info_new (fr_auth f) (fr_fragment f) (fr_kind f) (fr_specific f)"

abbreviation handles :: "nat \<Rightarrow> IntersectionHandle list"
  where "handles n \<equiv> map (IntersectionHandle \<circ> of_nat) [0..<n]"

abbreviation h_numbered :: "'g GroupState list \<Rightarrow> (IntersectionHandle, 'g GroupState) ResourceMap \<Rightarrow> bool"
  where "h_numbered \<equiv> rm_numbered IntersectionHandle"

lemma inj_handle: "inj IntersectionHandle"
  by (simp add: inj_def)

definition infos :: "('cap, 'scap) frag list \<Rightarrow> (IntersectionHandle, ('cap, 'scap) LocalFragmentInfo) hash_map"
  where "infos fs = zip (handles (length fs)) (map fr_info fs)"

lemma handle_notin: "i < 2 ^ 64 \<Longrightarrow> IntersectionHandle (of_nat i) \<notin> set (handles i)"
  by (auto simp: of_nat_u64_inj)

lemma infos_snoc: "length fs < 2 ^ 64 \<Longrightarrow> hm_insert (IntersectionHandle (of_nat (length fs))) (fr_info f) (infos fs) = infos (fs @ [f])"
  unfolding infos_def by (subst hm_keys_insert_new) (auto simp: of_nat_u64_inj)

lemma infos_get:
  assumes "length fs < 2 ^ 64" "i < length fs"
  shows "map_of (infos fs) (IntersectionHandle (of_nat i)) = Some (fr_info (fs ! i))"
proof -
  have "distinct (handles (length fs))"
    using assms(1) by (auto simp: distinct_map inj_on_def of_nat_u64_inj)
  moreover have "(IntersectionHandle (of_nat i), fr_info (fs ! i)) \<in> set (infos fs)"
    using assms(2) by (auto simp: infos_def set_zip intro!: exI [of _ i])
  ultimately show ?thesis
    by (simp add: infos_def)
qed

lemma wp_submit_fragments:
  assumes "h_numbered xs (pf_ours s)" "pf_fragments_info s = infos fs" "length xs = length fs" "length fs + length l < 2 ^ 64"
    and "\<And>m. h_numbered (xs @ map (fr_pending v (pf_scalar s)) (mk_frags auth kind l)) m \<Longrightarrow>
      Q () (s\<lparr> pf_ours := m, pf_fragments_info := infos (fs @ mk_frags auth kind l),
        pf_out := pf_out s @ map (\<lambda>f. PO_SendMessage (M_PaiBindFragment (fr_bind v (pf_scalar s) f))) (mk_frags auth kind l) \<rparr>)"
  shows "wp ok (submit_fragments v auth kind l) Q s"
  using assms
proof (induction l arbitrary: s xs fs)
  case Nil
  then show ?case
    using Nil(5) [of "pf_ours s"] Nil(1,2) by (cases s) (simp add: wp_simps)
next
  case (Cons x l)
  let ?f = "\<lparr> fr_fragment = x, fr_kind = kind, fr_specific = (l = []), fr_auth = auth \<rparr>"
  obtain h ws m where b: "rm_bind IntersectionHandle (fr_pending v (pf_scalar s) ?f) (pf_ours s) = (h, ws, m)"
    by (metis prod_cases3)
  have h: "h = IntersectionHandle (of_nat (length fs))"
    using rm_bind_effect(1) [OF b] Cons.prems(1,3) by (simp add: rm_numbered_def)
  have n: "h_numbered (xs @ [fr_pending v (pf_scalar s) ?f]) m"
    using rm_numbered_bind(1) [OF inj_handle Cons.prems(1) b] Cons.prems(3,4) by simp
  let ?s = "s\<lparr> pf_ours := m, pf_fragments_info := infos (fs @ [?f]),
      pf_out := pf_out s @ [PO_SendMessage (M_PaiBindFragment (fr_bind v (pf_scalar s) ?f))] \<rparr>"
  have "wp ok (submit_fragments v auth kind l) Q ?s"
  proof (rule Cons.IH)
    show "h_numbered (xs @ [fr_pending v (pf_scalar s) ?f]) (pf_ours ?s)" "pf_fragments_info ?s = infos (fs @ [?f])"
      using n by simp_all
    fix m'
    assume "h_numbered ((xs @ [fr_pending v (pf_scalar s) ?f]) @ map (fr_pending v (pf_scalar ?s)) (mk_frags auth kind l)) m'"
    then show "Q () (?s\<lparr> pf_ours := m', pf_fragments_info := infos ((fs @ [?f]) @ mk_frags auth kind l),
        pf_out := pf_out ?s @ map (\<lambda>f. PO_SendMessage (M_PaiBindFragment (fr_bind v (pf_scalar ?s) f))) (mk_frags auth kind l) \<rparr>)"
      using Cons.prems(5) [of m'] by simp
  qed (use Cons.prems(3,4) in simp_all)
  moreover have "pf_fragments_info s = infos fs" "length fs < 2 ^ 64"
    using Cons.prems(2,4) by simp_all
  ultimately show ?case
    using b h infos_snoc [of fs ?f]
    by (simp add: submit_fragment_def wp_simps pai_yield_def Let_def fr_pending_def fr_bind_def fr_info_def kind_is_secondary_def
        to_bind_fragment_message_def scalar_mult_def group_to_bytes_def new_pending_def)
qed

lemma mk_frags_length [simp]: "length (mk_frags auth kind l) = length l"
  by (induction l) simp_all

text \<open>A finder has submitted the fragments \<open>fs\<close> more.\<close>

definition submits ::
  "('g, 'sc, 'cap) psi_env \<Rightarrow> ('cap, 'scap) frag list \<Rightarrow> 'g GroupState list \<Rightarrow> ('cap, 'scap) frag list
   \<Rightarrow> ('g, 'sc, 'cap, 'scap, 'sg) PaiFinder \<Rightarrow> ('g, 'sc, 'cap, 'scap, 'sg) PaiFinder \<Rightarrow> bool" where
  "submits v fs xs new s s' \<longleftrightarrow>
     h_numbered (xs @ map (fr_pending v (pf_scalar s)) new) (pf_ours s') \<and> pf_fragments_info s' = infos (fs @ new) \<and>
     pf_out s' = pf_out s @ map (\<lambda>f. PO_SendMessage (M_PaiBindFragment (fr_bind v (pf_scalar s) f))) new \<and>
     pf_theirs s' = pf_theirs s \<and> pf_scalar s' = pf_scalar s \<and>
     pf_requested_subspace_cap_handles s' = pf_requested_subspace_cap_handles s"

lemma submits_trans:
  assumes "submits v fs xs n1 s s1" "submits v (fs @ n1) (xs @ map (fr_pending v (pf_scalar s)) n1) n2 s1 s2"
  shows "submits v fs xs (n1 @ n2) s s2"
  using assms by (simp add: submits_def)

lemma wp_submit_list:
  assumes "h_numbered xs (pf_ours s)" "pf_fragments_info s = infos fs" "length xs = length fs" "length fs + length l < 2 ^ 64"
    and "\<And>s'. submits v fs xs (mk_frags auth kind l) s s' \<Longrightarrow> pf_submitted s' = pf_submitted s \<Longrightarrow> pf_pending s' = pf_pending s \<Longrightarrow> Q () s'"
  shows "wp ok (submit_fragments v auth kind l) Q s"
  by (rule wp_submit_fragments [OF assms(1-4)]) (rule assms(5), simp_all add: submits_def)

lemma wp_submit_authorisation:
  assumes "h_numbered xs (pf_ours s)" "pf_fragments_info s = infos fs" "length xs = length fs"
    and "length fs + length (auth_frags v auth) < 2 ^ 64"
    and "\<And>s'. submits v fs xs (if auth \<in> pf_submitted s then [] else auth_frags v auth) s s' \<Longrightarrow>
      pf_submitted s' = insert auth (pf_submitted s) \<Longrightarrow> pf_pending s' = pf_pending s \<Longrightarrow> Q () s'"
  shows "wp ok (submit_authorisation v auth) Q s"
proof (cases "auth \<in> pf_submitted s")
  case True
  have "submits v fs xs [] s s"
    using assms(1-3) by (simp add: submits_def)
  then show ?thesis
    using True assms(5) by (simp add: submit_authorisation_def wp_simps insert_absorb)
next
  case False
  let ?s = "s\<lparr> pf_submitted := insert auth (pf_submitted s) \<rparr>"
  have pre: "h_numbered xs (pf_ours ?s)" "pf_fragments_info ?s = infos fs"
    using assms(1,2) by simp_all
  have fin: "Q () s'" if "submits v fs xs (auth_frags v auth) ?s s'" "pf_submitted s' = pf_submitted ?s" "pf_pending s' = pf_pending ?s" for s'
    using assms(5) [of s'] that False by (simp add: submits_def)
  show ?thesis
  proof (cases "into_fragment_set v (get_fragment_kit v (ra_read_cap auth))")
    case (FS_Complete pairs)
    then have "wp ok (submit_fragments v auth Primary (map Pair pairs)) Q ?s"
      using assms(4) fin by (intro wp_submit_list [OF pre assms(3)]) (simp_all add: auth_frags_def)
    then show ?thesis
      using False FS_Complete by (simp add: submit_authorisation_def wp_simps)
  next
    case (FS_Selective primary secondary)
    let ?n = "mk_frags auth Primary (map Triple primary)"
    have af: "auth_frags v auth = ?n @ mk_frags auth Secondary (map Pair secondary)"
      using FS_Selective by (simp add: auth_frags_def)
    have "wp ok (submit_fragments v auth Primary (map Triple primary)) (\<lambda>_. wp ok (submit_fragments v auth Secondary (map Pair secondary)) Q) ?s"
    proof (rule wp_submit_list [OF pre assms(3)])
      fix s1
      assume s1: "submits v fs xs ?n ?s s1" "pf_submitted s1 = pf_submitted ?s" "pf_pending s1 = pf_pending ?s"
      show "wp ok (submit_fragments v auth Secondary (map Pair secondary)) Q s1"
      proof (rule wp_submit_list)
        show "h_numbered (xs @ map (fr_pending v (pf_scalar ?s)) ?n) (pf_ours s1)" "pf_fragments_info s1 = infos (fs @ ?n)"
          using s1(1) by (simp_all add: submits_def)
        fix s2
        assume "submits v (fs @ ?n) (xs @ map (fr_pending v (pf_scalar ?s)) ?n) (mk_frags auth Secondary (map Pair secondary)) s1 s2"
          "pf_submitted s2 = pf_submitted s1" "pf_pending s2 = pf_pending s1"
        then show "Q () s2"
          using fin [of s2] submits_trans [OF s1(1)] s1(2,3) af by simp
      qed (use assms(3,4) af in simp_all)
    qed (use assms(4) af in simp)
    then show ?thesis
      using False FS_Selective by (simp add: submit_authorisation_def wp_simps)
  qed
qed

section \<open>Looking for intersections\<close>

lemma wp_via_anyhow: "wp (\<lambda>_. False) m Q s \<Longrightarrow> wp ok (via_anyhow v m) Q s"
  by (auto simp: wp_def via_anyhow_def split: prod.splits outcome.splits Error.splits)

text \<open>Outputs that come with an intersection: reports for handles of \<open>P\<close>, and requests for subspace capabilities.\<close>

definition extends ::
  "(('cap, 'scap) PaiIntersection \<Rightarrow> bool) \<Rightarrow> ('g, 'sc, 'cap, 'scap, 'sg) PaiFinder \<Rightarrow> ('g, 'sc, 'cap, 'scap, 'sg) PaiFinder \<Rightarrow> bool" where
  "extends P s s' \<longleftrightarrow> (\<exists>outs req. s' = s\<lparr> pf_out := pf_out s @ outs, pf_requested_subspace_cap_handles := req \<rparr> \<and>
     im_msgs outs = [] \<and> (\<forall>p. NewIntersection p \<in> set outs \<longleftrightarrow> P p) \<and>
     (\<forall>h \<in> req. h \<in> pf_requested_subspace_cap_handles s \<or>
        (\<exists>info. map_of (pf_fragments_info s) h = Some info \<and> lf_on_intersection info = RequestSubspaceCap)))"

lemma extends_refl: "extends (\<lambda>p. False) s s"
  unfolding extends_def by (intro exI [of _ "[]"] exI [of _ "pf_requested_subspace_cap_handles s"]) simp

lemma extends_trans:
  assumes "extends P s s'" "extends P' s' s''"
  shows "extends (\<lambda>p. P p \<or> P' p) s s''"
proof -
  obtain o1 r1 where 1: "s' = s\<lparr> pf_out := pf_out s @ o1, pf_requested_subspace_cap_handles := r1 \<rparr>" "im_msgs o1 = []"
    "\<forall>p. NewIntersection p \<in> set o1 \<longleftrightarrow> P p"
    "\<forall>h \<in> r1. h \<in> pf_requested_subspace_cap_handles s \<or>
        (\<exists>info. map_of (pf_fragments_info s) h = Some info \<and> lf_on_intersection info = RequestSubspaceCap)"
    using assms(1) unfolding extends_def by blast
  obtain o2 r2 where 2: "s'' = s'\<lparr> pf_out := pf_out s' @ o2, pf_requested_subspace_cap_handles := r2 \<rparr>" "im_msgs o2 = []"
    "\<forall>p. NewIntersection p \<in> set o2 \<longleftrightarrow> P' p"
    "\<forall>h \<in> r2. h \<in> pf_requested_subspace_cap_handles s' \<or>
        (\<exists>info. map_of (pf_fragments_info s') h = Some info \<and> lf_on_intersection info = RequestSubspaceCap)"
    using assms(2) unfolding extends_def by blast
  show ?thesis
    unfolding extends_def using 1 2 by (intro exI [of _ "o1 @ o2"] exI [of _ r2]) auto
qed

lemma extends_fields:
  assumes "extends P s s'"
  shows "pf_scalar s' = pf_scalar s" "pf_fragments_info s' = pf_fragments_info s" "pf_ours s' = pf_ours s" "pf_theirs s' = pf_theirs s"
    "pf_submitted s' = pf_submitted s" "pf_pending s' = pf_pending s" "im_msgs (pf_out s') = im_msgs (pf_out s)"
    "NewIntersection p \<in> set (pf_out s') \<longleftrightarrow> NewIntersection p \<in> set (pf_out s) \<or> P p"
    "h \<in> pf_requested_subspace_cap_handles s' \<Longrightarrow> h \<in> pf_requested_subspace_cap_handles s \<or>
        (\<exists>info. map_of (pf_fragments_info s) h = Some info \<and> lf_on_intersection info = RequestSubspaceCap)"
  using assms by (auto simp: extends_def)

lemma extends_cong: "extends P s s' \<Longrightarrow> (\<And>p. P p \<longleftrightarrow> P' p) \<Longrightarrow> extends P' s s'"
  by (simp add: extends_def)

text \<open>What the loop over the other side's fragments reports.\<close>

definition loop_reports ::
  "Scope \<Rightarrow> IntersectionHandle \<Rightarrow> 'g GroupState \<Rightarrow> (IntersectionHandle \<times> 'g GroupState) list
   \<Rightarrow> (IntersectionHandle, ('cap, 'scap) LocalFragmentInfo) hash_map \<Rightarrow> ('cap, 'scap) PaiIntersection \<Rightarrow> bool" where
  "loop_reports scope h st others known p \<longleftrightarrow>
     (\<exists>oh os info. (oh, os) \<in> set others \<and> completes_with os st \<and>
        map_of known (case scope of Ours \<Rightarrow> h | Theirs \<Rightarrow> oh) = Some info \<and> lf_on_intersection info = BindReadCap \<and>
        p = to_pai_intersection info (case scope of Ours \<Rightarrow> h | Theirs \<Rightarrow> oh))"

lemma wp_check_loop:
  assumes "\<forall>(oh, os) \<in> set others. completes_with os st \<longrightarrow> map_of (pf_fragments_info s) (case scope of Ours \<Rightarrow> h | Theirs \<Rightarrow> oh) \<noteq> None"
    and "\<And>s'. extends (loop_reports scope h st others (pf_fragments_info s)) s s' \<Longrightarrow> Q () s'"
  shows "wp ok (check_loop scope h st others) Q s"
  using assms
proof (induction others arbitrary: s)
  case Nil
  have "extends (loop_reports scope h st [] (pf_fragments_info s)) s s"
    by (rule extends_cong [OF extends_refl]) (simp add: loop_reports_def)
  then show ?case
    using Nil(2) by (simp add: wp_simps)
next
  case (Cons x others)
  obtain oh os where x: "x = (oh, os)"
    by fastforce
  let ?our = "case scope of Ours \<Rightarrow> h | Theirs \<Rightarrow> oh"
  have rest: "wp ok (check_loop scope h st others) Q s1"
    if s1: "extends (loop_reports scope h st [(oh, os)] (pf_fragments_info s)) s s1" for s1
  proof (rule Cons.IH)
    show "\<forall>(oh, os) \<in> set others. completes_with os st \<longrightarrow> map_of (pf_fragments_info s1) (case scope of Ours \<Rightarrow> h | Theirs \<Rightarrow> oh) \<noteq> None"
      using Cons.prems(1) extends_fields(2) [OF s1] by auto
    fix s'
    assume "extends (loop_reports scope h st others (pf_fragments_info s1)) s1 s'"
    from extends_trans [OF s1 this] show "Q () s'"
      unfolding extends_fields(2) [OF s1]
      by (intro Cons.prems(2)) (elim extends_cong, auto simp: loop_reports_def x)
  qed
  show ?case
  proof (cases "completes_with os st")
    case False
    have "extends (loop_reports scope h st [(oh, os)] (pf_fragments_info s)) s s"
      by (rule extends_cong [OF extends_refl]) (simp add: loop_reports_def False)
    then show ?thesis
      using rest False by (simp add: x)
  next
    case True
    then obtain info where info: "map_of (pf_fragments_info s) ?our = Some info"
      using Cons.prems(1) x by auto
    have rep: "loop_reports scope h st [(oh, os)] (pf_fragments_info s) p \<longleftrightarrow>
        lf_on_intersection info = BindReadCap \<and> p = to_pai_intersection info ?our" for p
      using True info by (auto simp: loop_reports_def)
    have ext: "extends (loop_reports scope h st [(oh, os)] (pf_fragments_info s)) s s1"
      if "s1 = s\<lparr> pf_out := pf_out s @ outs, pf_requested_subspace_cap_handles := req \<rparr>" "im_msgs outs = []"
        "\<And>p. NewIntersection p \<in> set outs \<longleftrightarrow> lf_on_intersection info = BindReadCap \<and> p = to_pai_intersection info ?our"
        "req \<subseteq> (if lf_on_intersection info = RequestSubspaceCap then {?our} else {}) \<union> pf_requested_subspace_cap_handles s" for s1 outs req
      unfolding extends_def rep using that info
      by (intro exI [of _ outs] exI [of _ req]) (auto split: if_splits)
    show ?thesis
    proof (cases "lf_on_intersection info")
      case BindReadCap
      then have "wp ok (check_loop scope h st others) Q (s\<lparr> pf_out := pf_out s @ [NewIntersection (to_pai_intersection info ?our)] \<rparr>)"
        by (intro rest ext [where outs = "[NewIntersection (to_pai_intersection info ?our)]" and req = "pf_requested_subspace_cap_handles s"]) auto
      then show ?thesis
        using True info BindReadCap by (simp add: x wp_simps fragment_info_def ok_or_def Let_def pai_yield_def)
    next
      case RequestSubspaceCap
      let ?m = "PO_SendMessage (M_PaiRequestSubspaceCapability \<lparr> prs_handle = h \<rparr>)"
      have "wp ok (check_loop scope h st others) Q (s\<lparr> pf_requested_subspace_cap_handles := insert ?our (pf_requested_subspace_cap_handles s),
          pf_out := pf_out s @ [?m] \<rparr>)"
        using RequestSubspaceCap
        by (intro rest ext [where outs = "[?m]" and req = "insert ?our (pf_requested_subspace_cap_handles s)"]) auto
      then show ?thesis
        using True info RequestSubspaceCap by (simp add: x wp_simps fragment_info_def ok_or_def Let_def pai_yield_def)
    next
      case ReplyReadCap
      then have "wp ok (check_loop scope h st others) Q s"
        by (intro rest ext [where outs = "[]" and req = "pf_requested_subspace_cap_handles s"]) auto
      then show ?thesis
        using True info ReplyReadCap by (simp add: x wp_simps fragment_info_def ok_or_def Let_def)
    next
      case DoNothing
      then have "wp ok (check_loop scope h st others) Q s"
        by (intro rest ext [where outs = "[]" and req = "pf_requested_subspace_cap_handles s"]) auto
      then show ?thesis
        using True info DoNothing by (simp add: x wp_simps fragment_info_def ok_or_def Let_def)
    qed
  qed
qed

section \<open>The invariant of the exchange\<close>

text \<open>
  What the program relies on: a group element survives its encoding, scalar multiplication commutes, and
  multiplying with the two scalars is injective.
\<close>

definition psi_laws :: "('g, 'sc, 'cap) psi_env \<Rightarrow> 'sc \<Rightarrow> 'sc \<Rightarrow> bool" where
  "psi_laws v sa sb \<longleftrightarrow> (\<forall>g. psi_decompress v (psi_compress v g) = Some g) \<and>
     (\<forall>g s t. psi_mult v (psi_mult v g s) t = psi_mult v (psi_mult v g t) s) \<and>
     inj (\<lambda>g. psi_mult v (psi_mult v g sa) sb)"

lemma psi_laws_sym: "psi_laws v sa sb \<Longrightarrow> psi_laws v sb sa"
  by (simp add: psi_laws_def)

definition matches :: "('g, 'sc, 'cap) psi_env \<Rightarrow> ('cap, 'scap) frag \<Rightarrow> ('cap, 'scap) frag \<Rightarrow> bool"
  where "matches v f g \<longleftrightarrow> fr_hash v f = fr_hash v g \<and> \<not> (fr_kind f = Secondary \<and> fr_kind g = Secondary)"

lemma completes_done:
  assumes "psi_laws v sx sy"
  shows "completes_with (fr_done v sx sy f) (fr_done v sy sx g) \<longleftrightarrow> matches v f g"
proof -
  have "psi_mult v (psi_mult v (fr_hash v g) sy) sx = psi_mult v (psi_mult v (fr_hash v g) sx) sy"
    using assms by (simp add: psi_laws_def)
  moreover have "psi_mult v (psi_mult v a sx) sy = psi_mult v (psi_mult v b sx) sy \<longleftrightarrow> a = b" for a b
    using assms by (auto simp: psi_laws_def dest: injD)
  ultimately show ?thesis
    by (auto simp: completes_with_def fr_done_def new_complete_def gs_is_complete_def is_group_equal_def matches_def)
qed

lemma completes_pending: "\<not> completes_with (fr_pending v sx f) st"
  by (simp add: completes_with_def fr_pending_def new_pending_def gs_is_complete_def)

definition bcount :: "nat \<Rightarrow> ('g, 'sc, 'cap, 'scap, 'sg) PaiFinder \<Rightarrow> nat"
  where "bcount k x = length (binds (take k (im_msgs (pf_out x))))"

definition rcount :: "nat \<Rightarrow> ('g, 'sc, 'cap, 'scap, 'sg) PaiFinder \<Rightarrow> nat"
  where "rcount k x = length (replies (take k (im_msgs (pf_out x))))"

abbreviation nth_handle :: "nat \<Rightarrow> IntersectionHandle"
  where "nth_handle i \<equiv> IntersectionHandle (of_nat i)"

definition fr_reply :: "('g, 'sc, 'cap) psi_env \<Rightarrow> 'sc \<Rightarrow> 'sc \<Rightarrow> ('cap, 'scap) frag list \<Rightarrow> nat \<Rightarrow> PaiReplyFragment" where
  "fr_reply v sx sy fx i = \<lparr> prf_handle = nth_handle i,
     prf_group_member = psi_compress v (psi_mult v (psi_mult v (fr_hash v (fx ! i)) sx) sy) \<rparr>"

text \<open>The fragments of which a finder binds its read capability when they intersect.\<close>

definition fr_binds :: "('cap, 'scap) frag \<Rightarrow> bool"
  where "fr_binds f \<longleftrightarrow> fr_kind f = Primary \<and> fr_specific f"

lemma fr_info_fields:
  "lf_on_intersection (fr_info f) = on_intersection_new (fr_kind f) (fr_specific f)"
  "lf_on_intersection (fr_info f) = BindReadCap \<longleftrightarrow> fr_binds f"
  by (cases "fr_kind f"; cases "fr_specific f"; simp add: fr_info_def local_fragment_info_new_def fr_binds_def split: prod.splits)+

definition our_states :: "('g, 'sc, 'cap) psi_env \<Rightarrow> 'sc \<Rightarrow> 'sc \<Rightarrow> nat \<Rightarrow> ('cap, 'scap) frag list \<Rightarrow> 'g GroupState list" where
  "our_states v sx sy c fx = map (fr_done v sx sy) (take c fx) @ map (fr_pending v sx) (drop c fx)"

lemma our_states_length [simp]: "length (our_states v sx sy c fx) = length fx"
  by (simp add: our_states_def)

definition bound_report :: "('g, 'sc, 'cap, 'scap, 'sg) PaiFinder \<Rightarrow> ('cap, 'scap) frag list \<Rightarrow> ('cap, 'scap) PaiIntersection \<Rightarrow> bool" where
  "bound_report x fx p \<longleftrightarrow> NewIntersection p \<in> set (pf_out x) \<and>
     (\<exists>info. map_of (infos fx) (pi_handle p) = Some info \<and> lf_on_intersection info = BindReadCap)"

text \<open>
  \<open>x\<close> has submitted the fragments \<open>fx\<close> and the other finder \<open>y\<close> the fragments \<open>fy\<close>; \<open>kx\<close> and \<open>ky\<close> count the
  processed messages of both.
\<close>

definition half ::
  "('g, 'sc, 'cap) psi_env \<Rightarrow> ('cap, 'scap) frag list \<Rightarrow> ('cap, 'scap) frag list \<Rightarrow> ('g, 'sc, 'cap, 'scap, 'sg) PaiFinder \<Rightarrow> nat
   \<Rightarrow> ('g, 'sc, 'cap, 'scap, 'sg) PaiFinder \<Rightarrow> nat \<Rightarrow> bool" where
  "half v fx fy x kx y ky \<longleftrightarrow>
     pf_fragments_info x = infos fx \<and> kx \<le> length (im_msgs (pf_out x)) \<and>
     h_numbered (our_states v (pf_scalar x) (pf_scalar y) (rcount ky y) fx) (pf_ours x) \<and>
     binds (im_msgs (pf_out x)) = map (fr_bind v (pf_scalar x)) fx \<and>
     h_numbered (map (fr_done v (pf_scalar x) (pf_scalar y)) (take (bcount kx x) fx)) (pf_theirs y) \<and>
     replies (im_msgs (pf_out y)) = map (fr_reply v (pf_scalar x) (pf_scalar y) fx) [0..<bcount kx x] \<and>
     (\<forall>h \<in> pf_requested_subspace_cap_handles x.
        \<exists>info. map_of (infos fx) h = Some info \<and> lf_on_intersection info = RequestSubspaceCap) \<and>
     (\<forall>p. NewIntersection p \<in> set (pf_out x) \<longrightarrow> map_of (infos fx) (pi_handle p) \<noteq> None) \<and>
     (\<forall>p. bound_report x fx p \<longleftrightarrow> (\<exists>i < rcount ky y. p = to_pai_intersection (fr_info (fx ! i)) (nth_handle i) \<and>
        fr_binds (fx ! i) \<and> (\<exists>j < bcount ky y. matches v (fx ! i) (fy ! j)))) \<and>
     (\<exists>as. set as = pf_submitted x \<and> fx = concat (map (auth_frags v) as)) \<and>
     psi_laws v (pf_scalar x) (pf_scalar y)"

lemma halfD:
  assumes "half v fx fy x kx y ky"
  shows "pf_fragments_info x = infos fx" "kx \<le> length (im_msgs (pf_out x))"
    "h_numbered (our_states v (pf_scalar x) (pf_scalar y) (rcount ky y) fx) (pf_ours x)"
    "binds (im_msgs (pf_out x)) = map (fr_bind v (pf_scalar x)) fx"
    "h_numbered (map (fr_done v (pf_scalar x) (pf_scalar y)) (take (bcount kx x) fx)) (pf_theirs y)"
    "replies (im_msgs (pf_out y)) = map (fr_reply v (pf_scalar x) (pf_scalar y) fx) [0..<bcount kx x]"
    "\<forall>h \<in> pf_requested_subspace_cap_handles x.
        \<exists>info. map_of (infos fx) h = Some info \<and> lf_on_intersection info = RequestSubspaceCap"
    "\<forall>p. NewIntersection p \<in> set (pf_out x) \<longrightarrow> map_of (infos fx) (pi_handle p) \<noteq> None"
    "\<forall>p. bound_report x fx p \<longleftrightarrow> (\<exists>i < rcount ky y. p = to_pai_intersection (fr_info (fx ! i)) (nth_handle i) \<and>
        fr_binds (fx ! i) \<and> (\<exists>j < bcount ky y. matches v (fx ! i) (fy ! j)))"
    "\<exists>as. set as = pf_submitted x \<and> fx = concat (map (auth_frags v) as)" "psi_laws v (pf_scalar x) (pf_scalar y)"
  using assms unfolding half_def by blast+

lemma bcount_le: "bcount k x \<le> length (binds (im_msgs (pf_out x)))" and rcount_le: "rcount k x \<le> length (replies (im_msgs (pf_out x)))"
proof -
  have "length (binds (im_msgs (pf_out x))) = bcount k x + length (binds (drop k (im_msgs (pf_out x))))"
    "length (replies (im_msgs (pf_out x))) = rcount k x + length (replies (drop k (im_msgs (pf_out x))))"
    unfolding bcount_def rcount_def by (metis append_take_drop_id binds_simps(2) length_append,
        metis append_take_drop_id replies_simps(2) length_append)
  then show "bcount k x \<le> length (binds (im_msgs (pf_out x)))" "rcount k x \<le> length (replies (im_msgs (pf_out x)))"
    by simp_all
qed

lemma half_counts:
  assumes "half v fx fy x kx y ky"
  shows "bcount kx x \<le> length fx" "rcount ky y \<le> bcount kx x" "length fx < 2 ^ 64"
    "length (replies (im_msgs (pf_out y))) = bcount kx x" "length (binds (im_msgs (pf_out x))) = length fx"
proof -
  note H = halfD [OF assms]
  show "bcount kx x \<le> length fx" "rcount ky y \<le> bcount kx x"
    using bcount_le [of kx x] rcount_le [of ky y] H(4,6) by simp_all
  show "length fx < 2 ^ 64"
    using H(3) by (simp add: rm_numbered_def)
  show "length (replies (im_msgs (pf_out y))) = bcount kx x" "length (binds (im_msgs (pf_out x))) = length fx"
    using H(4,6) by simp_all
qed

lemma counts_append:
  assumes "im_msgs (pf_out x') = im_msgs (pf_out x) @ l" "k \<le> length (im_msgs (pf_out x))"
  shows "bcount k x' = bcount k x" "rcount k x' = rcount k x"
  using assms by (simp_all add: bcount_def rcount_def)

text \<open>The other finder changes without binding a fragment of ours.\<close>

lemma half_other:
  assumes h: "half v fx fy x kx y ky" and k: "ky \<le> length (im_msgs (pf_out y))"
    and y': "pf_scalar y' = pf_scalar y" "pf_theirs y' = pf_theirs y" "im_msgs (pf_out y') = im_msgs (pf_out y) @ l" "replies l = []"
    and fy': "\<And>j. j < bcount ky y \<Longrightarrow> fy' ! j = fy ! j"
  shows "half v fx fy' x kx y' ky"
proof -
  note c = counts_append [OF y'(3) k]
  have m: "(\<exists>j < bcount ky y. matches v f (fy' ! j)) \<longleftrightarrow> (\<exists>j < bcount ky y. matches v f (fy ! j))" for f
    using fy' by auto
  show ?thesis
    using h y' unfolding half_def c m by simp
qed

text \<open>A finder submits more fragments.\<close>

lemma bound_report_more:
  assumes "length (fx @ new) < 2 ^ 64" "\<forall>p. NewIntersection p \<in> set (pf_out x) \<longrightarrow> map_of (infos fx) (pi_handle p) \<noteq> None"
    and "\<forall>p. NewIntersection p \<in> set (pf_out x') \<longleftrightarrow> NewIntersection p \<in> set (pf_out x)"
  shows "bound_report x' (fx @ new) p \<longleftrightarrow> bound_report x fx p"
    and "NewIntersection p \<in> set (pf_out x') \<Longrightarrow> map_of (infos (fx @ new)) (pi_handle p) \<noteq> None"
    and "map_of (infos fx) h = Some info \<Longrightarrow> map_of (infos (fx @ new)) h = Some info"
proof -
  have parts: "infos (fx @ new) = infos fx @ zip (map nth_handle [length fx..<length fx + length new]) (map fr_info new)"
    unfolding infos_def by (simp add: upt_add_eq_append [of 0 "length fx" "length new"] comp_def)
  then show m: "map_of (infos fx) h = Some info \<Longrightarrow> map_of (infos (fx @ new)) h = Some info" for h info
    by (simp add: parts map_add_def)
  show "NewIntersection p \<in> set (pf_out x') \<Longrightarrow> map_of (infos (fx @ new)) (pi_handle p) \<noteq> None"
    using assms(2,3) m by fastforce
  show "bound_report x' (fx @ new) p \<longleftrightarrow> bound_report x fx p"
    unfolding bound_report_def using assms(2,3) m by (metis not_None_eq option.inject)
qed

lemma half_submits:
  assumes h: "half v fx fy x kx y ky"
    and s: "submits v fx (our_states v (pf_scalar x) (pf_scalar y) (rcount ky y) fx) new x x'"
    and sub: "\<exists>as. set as = pf_submitted x' \<and> fx @ new = concat (map (auth_frags v) as)"
  shows "half v (fx @ new) fy x' kx y ky"
proof -
  note H = halfD [OF h] and C = half_counts [OF h]
  have out: "im_msgs (pf_out x') = im_msgs (pf_out x) @ map (\<lambda>f. IM_BindFragment (fr_bind v (pf_scalar x) f)) new"
    and sc: "pf_scalar x' = pf_scalar x" and inf: "pf_fragments_info x' = infos (fx @ new)"
    and req: "pf_requested_subspace_cap_handles x' = pf_requested_subspace_cap_handles x"
    and new: "\<forall>p. NewIntersection p \<in> set (pf_out x') \<longleftrightarrow> NewIntersection p \<in> set (pf_out x)"
    using s by (auto simp: submits_def im_msgs_def map_filter_append List.map_filter_def im_of_def intersection_try_from_def comp_def)
  have b: "binds (map (\<lambda>f. IM_BindFragment (fr_bind v (pf_scalar x) f)) new) = map (fr_bind v (pf_scalar x)) new"
    by (induction new) simp_all
  note c = counts_append [OF out H(2)]
  have os: "our_states v (pf_scalar x) (pf_scalar y) (rcount ky y) (fx @ new) =
      our_states v (pf_scalar x) (pf_scalar y) (rcount ky y) fx @ map (fr_pending v (pf_scalar x)) new"
    using C(1,2) by (simp add: our_states_def)
  have n: "h_numbered (our_states v (pf_scalar x) (pf_scalar y) (rcount ky y) (fx @ new)) (pf_ours x')"
    using s unfolding os submits_def by blast
  then have len: "length (fx @ new) < 2 ^ 64"
    by (simp add: rm_numbered_def)
  note B = bound_report_more [OF len H(8) new]
  have t: "take (bcount kx x) (fx @ new) = take (bcount kx x) fx" and i: "i < rcount ky y \<Longrightarrow> (fx @ new) ! i = fx ! i" for i
    using C(1,2) by (simp_all add: nth_append)
  have r: "map (fr_reply v (pf_scalar x) (pf_scalar y) (fx @ new)) [0..<bcount kx x] = map (fr_reply v (pf_scalar x) (pf_scalar y) fx) [0..<bcount kx x]"
    using C(1) by (simp add: fr_reply_def nth_append)
  show ?thesis
    unfolding half_def
  proof (intro conjI)
    show "\<forall>p. bound_report x' (fx @ new) p \<longleftrightarrow> (\<exists>i < rcount ky y. p = to_pai_intersection (fr_info ((fx @ new) ! i)) (nth_handle i) \<and>
        fr_binds ((fx @ new) ! i) \<and> (\<exists>j < bcount ky y. matches v ((fx @ new) ! i) (fy ! j)))"
      using H(9) unfolding B(1) by (simp add: i cong: conj_cong)
    show "\<forall>h \<in> pf_requested_subspace_cap_handles x'.
        \<exists>info. map_of (infos (fx @ new)) h = Some info \<and> lf_on_intersection info = RequestSubspaceCap"
      using H(7) B(3) unfolding req by blast
    show "\<forall>p. NewIntersection p \<in> set (pf_out x') \<longrightarrow> map_of (infos (fx @ new)) (pi_handle p) \<noteq> None"
      using B(2) by blast
    show "h_numbered (map (fr_done v (pf_scalar x') (pf_scalar y)) (take (bcount kx x') (fx @ new))) (pf_theirs y)"
      using H(5) unfolding c(1) sc t .
  qed (use H n out sc inf b c r sub in \<open>simp_all\<close>)
qed

section \<open>Messages keep the invariant\<close>

lemma take_Suc_drop: "drop k l = m # ms \<Longrightarrow> take (Suc k) l = take k l @ [m] \<and> Suc k \<le> length l"
  by (metis Suc_leI drop_eq_Nil2 hd_drop_conv_nth leI list.distinct(1) list.sel(1) take_Suc_conv_app_nth)

lemma counts_Suc:
  assumes "drop k (im_msgs (pf_out x)) = m # ms"
  shows "Suc k \<le> length (im_msgs (pf_out x))"
    "bcount (Suc k) x = bcount k x + length (binds [m])" "rcount (Suc k) x = rcount k x + length (replies [m])"
  using take_Suc_drop [OF assms] by (simp_all add: bcount_def rcount_def)

lemma next_bind:
  assumes "half v fx fy x kx y ky" "drop kx (im_msgs (pf_out x)) = IM_BindFragment m # ms"
  shows "bcount kx x < length fx" "m = fr_bind v (pf_scalar x) (fx ! bcount kx x)"
proof -
  have "binds (im_msgs (pf_out x)) = binds (take kx (im_msgs (pf_out x))) @ m # binds ms"
    by (metis append_take_drop_id assms(2) binds_simps(2,3))
  then have eq: "map (fr_bind v (pf_scalar x)) fx = binds (take kx (im_msgs (pf_out x))) @ m # binds ms"
    using halfD(4) [OF assms(1)] by simp
  from arg_cong [OF eq, of length] show len: "bcount kx x < length fx"
    by (simp add: bcount_def)
  show "m = fr_bind v (pf_scalar x) (fx ! bcount kx x)"
    using arg_cong [OF eq, of "\<lambda>l. l ! bcount kx x"] len by (simp add: nth_append bcount_def)
qed

lemma next_reply:
  assumes "half v fy fx y ky x kx" "drop kx (im_msgs (pf_out x)) = IM_ReplyFragment m # ms"
  shows "rcount kx x < bcount ky y" "m = fr_reply v (pf_scalar y) (pf_scalar x) fy (rcount kx x)"
proof -
  have "replies (im_msgs (pf_out x)) = replies (take kx (im_msgs (pf_out x))) @ m # replies ms"
    by (metis append_take_drop_id assms(2) replies_simps(2,4))
  then have eq: "map (fr_reply v (pf_scalar y) (pf_scalar x) fy) [0..<bcount ky y] = replies (take kx (im_msgs (pf_out x))) @ m # replies ms"
    using halfD(6) [OF assms(1)] by simp
  from arg_cong [OF eq, of length] show len: "rcount kx x < bcount ky y"
    by (simp add: rcount_def)
  show "m = fr_reply v (pf_scalar y) (pf_scalar x) fy (rcount kx x)"
    using arg_cong [OF eq, of "\<lambda>l. l ! rcount kx x"] len by (simp add: nth_append rcount_def)
qed

lemma set_numbered:
  assumes "h_numbered xs m"
  shows "(h, x) \<in> set (rm_iter m) \<longleftrightarrow> (\<exists>i < length xs. h = nth_handle i \<and> x = xs ! i)"
proof -
  have "(h, x) \<in> set (rm_iter m) \<longleftrightarrow> (\<exists>i < length xs. h = handles (length xs) ! i \<and> x = xs ! i)"
    using assms by (simp add: rm_numbered_def rm_iter_def set_zip del: nth_map) blast
  then show ?thesis
    by (simp cong: conj_cong)
qed

lemma our_states_nth:
  "i < length fx \<Longrightarrow> our_states v sx sy c fx ! i = (if i < c then fr_done v sx sy (fx ! i) else fr_pending v sx (fx ! i))"
  by (auto simp: our_states_def nth_append)

text \<open>What is reported when a fragment of the other side arrives, and when a reply does.\<close>

lemma reports_theirs:
  assumes "psi_laws v sy sx" "h_numbered (our_states v sy sx c fy) m" "length fy < 2 ^ 64" "c \<le> length fy"
  shows "loop_reports Theirs h (fr_done v sx sy g) (rm_iter m) (infos fy) p \<longleftrightarrow>
    (\<exists>i < c. p = to_pai_intersection (fr_info (fy ! i)) (nth_handle i) \<and> fr_binds (fy ! i) \<and> matches v (fy ! i) g)"
proof -
  have "loop_reports Theirs h (fr_done v sx sy g) (rm_iter m) (infos fy) p \<longleftrightarrow>
    (\<exists>i < length fy. completes_with (our_states v sy sx c fy ! i) (fr_done v sx sy g) \<and>
       (\<exists>info. map_of (infos fy) (nth_handle i) = Some info \<and> lf_on_intersection info = BindReadCap \<and>
         p = to_pai_intersection info (nth_handle i)))"
    unfolding loop_reports_def set_numbered [OF assms(2)] our_states_length by auto
  also have "\<dots> \<longleftrightarrow> (\<exists>i < length fy. completes_with (our_states v sy sx c fy ! i) (fr_done v sx sy g) \<and>
       fr_binds (fy ! i) \<and> p = to_pai_intersection (fr_info (fy ! i)) (nth_handle i))"
    by (simp add: infos_get [OF assms(3)] fr_info_fields(2) cong: conj_cong)
  also have "\<dots> \<longleftrightarrow> (\<exists>i < length fy. i < c \<and> matches v (fy ! i) g \<and>
       fr_binds (fy ! i) \<and> p = to_pai_intersection (fr_info (fy ! i)) (nth_handle i))"
    by (auto simp: our_states_nth completes_done [OF assms(1)] completes_pending split: if_splits cong: conj_cong)
  finally show ?thesis
    using assms(4) by (auto intro: order_less_le_trans)
qed

lemma reports_ours:
  assumes "psi_laws v sx sy" "h_numbered (map (fr_done v sx sy) l) m" "length fy < 2 ^ 64" "c < length fy"
  shows "loop_reports Ours (nth_handle c) (fr_done v sy sx (fy ! c)) (rm_iter m) (infos fy) p \<longleftrightarrow>
    p = to_pai_intersection (fr_info (fy ! c)) (nth_handle c) \<and> fr_binds (fy ! c) \<and> (\<exists>j < length l. matches v (fy ! c) (l ! j))"
proof -
  have e: "completes_with (fr_done v sx sy (l ! j)) (fr_done v sy sx (fy ! c)) \<longleftrightarrow> matches v (fy ! c) (l ! j)" for j
    using completes_done [OF assms(1), of "l ! j" "fy ! c"] by (auto simp: matches_def)
  have "loop_reports Ours (nth_handle c) (fr_done v sy sx (fy ! c)) (rm_iter m) (infos fy) p \<longleftrightarrow>
    (\<exists>j < length l. completes_with (map (fr_done v sx sy) l ! j) (fr_done v sy sx (fy ! c))) \<and>
      (\<exists>info. map_of (infos fy) (nth_handle c) = Some info \<and> lf_on_intersection info = BindReadCap \<and>
         p = to_pai_intersection info (nth_handle c))"
    unfolding loop_reports_def set_numbered [OF assms(2)] Scope.case length_map by blast
  then show ?thesis
    using infos_get [OF assms(3,4)] by (auto simp: fr_info_fields(2) e)
qed

text \<open>A fragment of \<open>x\<close> arrives at \<open>y\<close>.\<close>

lemma deliver_bind:
  assumes hx: "half v fx fy x kx y ky" and hy: "half v fy fx y ky x kx"
    and m: "drop kx (im_msgs (pf_out x)) = IM_BindFragment m # ms" and len: "length (im_msgs (pf_out y)) + 1 < 2 ^ 64"
  shows "wp (\<lambda>_. False) (receive_bind v m) (\<lambda>_ y'. half v fx fy x (Suc kx) y' ky \<and> half v fy fx y' ky x (Suc kx)) y"
proof -
  let ?r = "bcount kx x" and ?sx = "pf_scalar x" and ?sy = "pf_scalar y"
  let ?f = "fx ! ?r" and ?h = "nth_handle (bcount kx x)"
  note X = halfD [OF hx] and Y = halfD [OF hy] and CX = half_counts [OF hx] and CY = half_counts [OF hy]
  note laws = X(11) and B = next_bind [OF hx m] and K = counts_Suc [OF m, simplified]
  have "?r \<le> length (im_msgs (pf_out y))"
    using CX(4) length_replies [of "im_msgs (pf_out y)"] by simp
  obtain h ws t where b: "rm_bind IntersectionHandle (fr_done v ?sx ?sy ?f) (pf_theirs y) = (h, ws, t)"
    by (metis prod_cases3)
  have rl: "length (map (fr_done v ?sx ?sy) (take ?r fx)) = ?r"
    using B(1) by simp
  have h: "h = ?h"
    using rm_bind_effect(1) [OF b] X(5) rl by (simp add: rm_numbered_def)
  have t: "h_numbered (map (fr_done v ?sx ?sy) (take (Suc ?r) fx)) t"
    using rm_numbered_bind(1) [OF inj_handle X(5) b] \<open>?r \<le> length (im_msgs (pf_out y))\<close> len rl B(1)
    by (simp add: take_Suc_conv_app_nth)
  let ?y = "y\<lparr> pf_theirs := t, pf_out := pf_out y @ [PO_SendMessage (M_PaiReplyFragment (fr_reply v ?sx ?sy fx ?r))] \<rparr>"
  have get: "rm_try_get RH_Intersection ?h t = Ok (fr_done v ?sx ?sy ?f)"
    using rm_numbered_get [OF inj_handle t, of ?r] B(1) by (simp add: rm_try_get_def ok_or_def)
  have fin: "half v fx fy x (Suc kx) y' ky \<and> half v fy fx y' ky x (Suc kx)"
    if e: "extends (loop_reports Theirs ?h (fr_done v ?sx ?sy ?f) (rm_iter (pf_ours y)) (infos fy)) ?y y'" for y'
  proof -
    note E = extends_fields [OF e, simplified]
    have out: "im_msgs (pf_out y') = im_msgs (pf_out y) @ [IM_ReplyFragment (fr_reply v ?sx ?sy fx ?r)]"
      using E(7) by simp
    note c = counts_append [OF out Y(2)]
    have rep: "loop_reports Theirs ?h (fr_done v ?sx ?sy ?f) (rm_iter (pf_ours y)) (infos fy) p \<longleftrightarrow>
        (\<exists>i < rcount kx x. p = to_pai_intersection (fr_info (fy ! i)) (nth_handle i) \<and> fr_binds (fy ! i) \<and> matches v (fy ! i) ?f)" for p
      using CY(1,2) by (intro reports_theirs [OF psi_laws_sym [OF laws] Y(3) CY(3)]) simp
    have known: "map_of (infos fy) (nth_handle i) = Some (fr_info (fy ! i))" if "i < rcount kx x" for i
      using that CY(1,2) by (intro infos_get [OF CY(3)]) simp
    have "half v fx fy x (Suc kx) y' ky"
      unfolding half_def using X K c E out t by simp
    moreover have "half v fy fx y' ky x (Suc kx)"
      unfolding half_def
    proof (intro conjI)
      show "\<forall>p. NewIntersection p \<in> set (pf_out y') \<longrightarrow> map_of (infos fy) (pi_handle p) \<noteq> None"
        using Y(8) E(8) rep known by (auto simp: to_pai_intersection_def)
      have "bound_report y' fy p \<longleftrightarrow> bound_report y fy p \<or> (\<exists>i < rcount kx x. p = to_pai_intersection (fr_info (fy ! i)) (nth_handle i) \<and>
          fr_binds (fy ! i) \<and> matches v (fy ! i) ?f)" for p
        unfolding bound_report_def E(8) rep using known by (auto simp: to_pai_intersection_def fr_info_fields(2))
      then show "\<forall>p. bound_report y' fy p \<longleftrightarrow> (\<exists>i < rcount (Suc kx) x. p = to_pai_intersection (fr_info (fy ! i)) (nth_handle i) \<and>
          fr_binds (fy ! i) \<and> (\<exists>j < bcount (Suc kx) x. matches v (fy ! i) (fx ! j)))"
        unfolding K(2,3) using Y(9) by (auto simp: less_Suc_eq)
      show "\<forall>h \<in> pf_requested_subspace_cap_handles y'.
          \<exists>info. map_of (infos fy) h = Some info \<and> lf_on_intersection info = RequestSubspaceCap"
        using E(9) Y(1,7) by auto
    qed (use Y K c E out in \<open>simp_all\<close>)
    ultimately show ?thesis ..
  qed
  have "wp (\<lambda>_. False) (check_loop Theirs ?h (fr_done v ?sx ?sy ?f) (rm_iter (pf_ours y)))
      (\<lambda>_ y'. half v fx fy x (Suc kx) y' ky \<and> half v fy fx y' ky x (Suc kx)) ?y"
  proof (rule wp_check_loop)
    show "\<forall>(oh, os) \<in> set (rm_iter (pf_ours y)). completes_with os (fr_done v ?sx ?sy ?f) \<longrightarrow>
        map_of (pf_fragments_info ?y) (case Theirs of Ours \<Rightarrow> ?h | Theirs \<Rightarrow> oh) \<noteq> None"
      using infos_get [OF CY(3)] Y(1) by (auto simp: set_numbered [OF Y(3)])
  qed (use fin Y(1) in simp)
  then have "wp (\<lambda>_. False) (check_for_intersection ?h Theirs)
      (\<lambda>_ y'. half v fx fy x (Suc kx) y' ky \<and> half v fy fx y' ky x (Suc kx)) ?y"
    using get by (simp add: check_for_intersection_def wp_simps fr_done_def new_complete_def gs_is_complete_def)
  from wp_via_anyhow [OF this, of "\<lambda>_. False" v] show ?thesis
    using b h laws unfolding B(2)
    by (simp add: receive_bind_def wp_simps group_from_bytes_def ok_or_def psi_laws_def fr_bind_def Let_def pai_yield_def
        scalar_mult_def fr_done_def fr_reply_def group_to_bytes_def)
qed

text \<open>A reply of \<open>x\<close> to a fragment of \<open>y\<close> arrives.\<close>

lemma our_states_Suc:
  "c < length fy \<Longrightarrow> (our_states v sy sx c fy)[c := fr_done v sy sx (fy ! c)] = our_states v sy sx (Suc c) fy"
  by (rule nth_equalityI) (auto simp: our_states_nth nth_list_update less_Suc_eq)

lemma deliver_reply:
  assumes hx: "half v fx fy x kx y ky" and hy: "half v fy fx y ky x kx"
    and m: "drop kx (im_msgs (pf_out x)) = IM_ReplyFragment m # ms"
  shows "wp (\<lambda>_. False) (receive_reply v m) (\<lambda>_ y'. half v fx fy x (Suc kx) y' ky \<and> half v fy fx y' ky x (Suc kx)) y"
proof -
  let ?c = "rcount kx x" and ?sx = "pf_scalar x" and ?sy = "pf_scalar y"
  let ?f = "fy ! ?c" and ?h = "nth_handle (rcount kx x)"
  note X = halfD [OF hx] and Y = halfD [OF hy] and CX = half_counts [OF hx] and CY = half_counts [OF hy]
  note laws = X(11) and B = next_reply [OF hy m] and K = counts_Suc [OF m, simplified]
  have cl: "?c < length fy"
    using B(1) CY(1) by simp
  have get: "rm_get (pf_ours y) ?h = Some (fr_pending v ?sy ?f)"
    using rm_numbered_get [OF inj_handle Y(3), of ?c] cl by (simp add: our_states_nth)
  obtain o' where upd: "rm_update RH_Intersection ?h (fr_done v ?sy ?sx ?f) (pf_ours y) = Ok o'"
    using get by (simp add: rm_update_def)
  have o': "h_numbered (our_states v ?sy ?sx (Suc ?c) fy) o'"
    using rm_numbered_update [OF inj_handle Y(3) _ upd] cl by (simp add: our_states_Suc)
  let ?y = "y\<lparr> pf_ours := o' \<rparr>"
  have get': "rm_try_get RH_Intersection ?h o' = Ok (fr_done v ?sy ?sx ?f)"
    using rm_numbered_get [OF inj_handle o', of ?c] cl by (simp add: rm_try_get_def ok_or_def our_states_nth)
  have fin: "half v fx fy x (Suc kx) y' ky \<and> half v fy fx y' ky x (Suc kx)"
    if e: "extends (loop_reports Ours ?h (fr_done v ?sy ?sx ?f) (rm_iter (pf_theirs y)) (infos fy)) ?y y'" for y'
  proof -
    note E = extends_fields [OF e, simplified]
    have out: "im_msgs (pf_out y') = im_msgs (pf_out y) @ []"
      using E(7) by simp
    note c = counts_append [OF out Y(2)]
    have tk: "length (take (bcount kx x) fx) = bcount kx x" "j < bcount kx x \<Longrightarrow> take (bcount kx x) fx ! j = fx ! j" for j
      using CX(1) by simp_all
    have rep: "loop_reports Ours ?h (fr_done v ?sy ?sx ?f) (rm_iter (pf_theirs y)) (infos fy) p \<longleftrightarrow>
        p = to_pai_intersection (fr_info ?f) ?h \<and> fr_binds ?f \<and> (\<exists>j < bcount kx x. matches v ?f (fx ! j))" for p
      using reports_ours [OF laws X(5) CY(3) cl, of p] tk by (auto cong: conj_cong)
    have known: "map_of (infos fy) ?h = Some (fr_info ?f)"
      by (rule infos_get [OF CY(3) cl])
    have "half v fx fy x (Suc kx) y' ky"
      unfolding half_def using X K c E out by simp
    moreover have "half v fy fx y' ky x (Suc kx)"
      unfolding half_def
    proof (intro conjI)
      show "\<forall>p. NewIntersection p \<in> set (pf_out y') \<longrightarrow> map_of (infos fy) (pi_handle p) \<noteq> None"
        using Y(8) E(8) rep known by (auto simp: to_pai_intersection_def)
      have "bound_report y' fy p \<longleftrightarrow> bound_report y fy p \<or>
          p = to_pai_intersection (fr_info ?f) ?h \<and> fr_binds ?f \<and> (\<exists>j < bcount kx x. matches v ?f (fx ! j))" for p
        unfolding bound_report_def E(8) rep using known by (auto simp: to_pai_intersection_def fr_info_fields(2))
      then show "\<forall>p. bound_report y' fy p \<longleftrightarrow> (\<exists>i < rcount (Suc kx) x. p = to_pai_intersection (fr_info (fy ! i)) (nth_handle i) \<and>
          fr_binds (fy ! i) \<and> (\<exists>j < bcount (Suc kx) x. matches v (fy ! i) (fx ! j)))"
        unfolding K(2,3) using Y(9) by (auto simp: less_Suc_eq)
      show "\<forall>h \<in> pf_requested_subspace_cap_handles y'.
          \<exists>info. map_of (infos fy) h = Some info \<and> lf_on_intersection info = RequestSubspaceCap"
        using E(9) Y(1,7) by auto
    qed (use Y K c E out o' in \<open>simp_all\<close>)
    ultimately show ?thesis ..
  qed
  have "wp (\<lambda>_. False) (check_loop Ours ?h (fr_done v ?sy ?sx ?f) (rm_iter (pf_theirs y)))
      (\<lambda>_ y'. half v fx fy x (Suc kx) y' ky \<and> half v fy fx y' ky x (Suc kx)) ?y"
    by (rule wp_check_loop) (use fin Y(1) infos_get [OF CY(3) cl] in auto)
  then have "wp (\<lambda>_. False) (rbind (try_res (rm_update RH_Intersection ?h (fr_done v ?sy ?sx ?f) (pf_ours y))) (\<lambda>m.
         rbind (modify (\<lambda>s. s\<lparr> pf_ours := m \<rparr>)) (\<lambda>_. check_for_intersection ?h Ours)))
      (\<lambda>_ y'. half v fx fy x (Suc kx) y' ky \<and> half v fy fx y' ky x (Suc kx)) y"
    using get' upd by (simp add: check_for_intersection_def wp_simps fr_done_def new_complete_def gs_is_complete_def)
  from wp_via_anyhow [OF this, of "\<lambda>_. False" v] show ?thesis
    using get laws unfolding B(2)
    by (simp add: receive_reply_def wp_simps group_from_bytes_def ok_or_def psi_laws_def fr_reply_def Let_def try_get_anyhow_def
        fr_done_def fr_pending_def new_pending_def)
qed

section \<open>Inputs keep the invariant\<close>

text \<open>Outputs that report no fragment whose read capability is to be bound.\<close>

lemma half_extends:
  assumes h: "half v fx fy x kx y ky" and e: "extends P x x'"
    and P: "\<And>p. P p \<Longrightarrow> \<exists>info. map_of (infos fx) (pi_handle p) = Some info \<and> lf_on_intersection info \<noteq> BindReadCap"
  shows "half v fx fy x' kx y ky"
proof -
  note H = halfD [OF h] and E = extends_fields [OF e]
  have c: "bcount k x' = bcount k x" for k
    by (simp add: bcount_def E(7))
  have b: "bound_report x' fx p \<longleftrightarrow> bound_report x fx p" for p
    unfolding bound_report_def E(8) using P by fastforce
  show ?thesis
    unfolding half_def b c
  proof (intro conjI)
    show "\<forall>p. NewIntersection p \<in> set (pf_out x') \<longrightarrow> map_of (infos fx) (pi_handle p) \<noteq> None"
      unfolding E(8) using H(8) P by fastforce
    show "\<forall>h \<in> pf_requested_subspace_cap_handles x'.
        \<exists>info. map_of (infos fx) h = Some info \<and> lf_on_intersection info = RequestSubspaceCap"
      using E(9) H(1,7) by auto
  qed (use H E(1-7) in simp_all)
qed

lemma extends_both:
  assumes "half v fx fy x kx y ky" "half v fy fx y ky x kx" "extends P x x'"
    and "\<And>p. P p \<Longrightarrow> \<exists>info. map_of (infos fx) (pi_handle p) = Some info \<and> lf_on_intersection info \<noteq> BindReadCap"
  shows "half v fx fy x' kx y ky \<and> half v fy fx y ky x' kx"
proof
  show "half v fx fy x' kx y ky"
    by (rule half_extends [OF assms(1,3,4)])
  show "half v fy fx y ky x' kx"
    using extends_fields [OF assms(3)] by (intro half_other [OF assms(2) halfD(2) [OF assms(1)], of _ "[]"]) simp_all
qed

definition not_bound :: "(IntersectionHandle, ('cap, 'scap) LocalFragmentInfo) hash_map \<Rightarrow> ('cap, 'scap) PaiIntersection \<Rightarrow> bool"
  where "not_bound known p \<longleftrightarrow> (\<exists>info. map_of known (pi_handle p) = Some info \<and> lf_on_intersection info \<noteq> BindReadCap)"

definition quiet :: "('g, 'sc, 'cap, 'scap, 'sg) PaiFinder \<Rightarrow> ('g, 'sc, 'cap, 'scap, 'sg) PaiFinder \<Rightarrow> bool"
  where "quiet s s' \<longleftrightarrow> (\<exists>P. extends P s s' \<and> (\<forall>p. P p \<longrightarrow> not_bound (pf_fragments_info s) p))"

lemma quiet_refl: "quiet s s"
  unfolding quiet_def using extends_refl by blast

lemma quiet_trans:
  assumes "quiet s s'" "quiet s' s''"
  shows "quiet s s''"
proof -
  obtain P P' where "extends P s s'" "\<forall>p. P p \<longrightarrow> not_bound (pf_fragments_info s) p" "extends P' s' s''"
    "\<forall>p. P' p \<longrightarrow> not_bound (pf_fragments_info s') p"
    using assms unfolding quiet_def by blast
  then show ?thesis
    unfolding quiet_def using extends_trans extends_fields(2) by (metis (no_types, lifting))
qed

lemma quiet_yield:
  assumes "im_msgs [x] = []" "\<And>p. x = NewIntersection p \<Longrightarrow> not_bound (pf_fragments_info s) p"
  shows "quiet s (s\<lparr> pf_out := pf_out s @ [x] \<rparr>)"
proof -
  have "extends (\<lambda>p. x = NewIntersection p) s (s\<lparr> pf_out := pf_out s @ [x] \<rparr>)"
    unfolding extends_def using assms(1)
    by (intro exI [of _ "[x]"] exI [of _ "pf_requested_subspace_cap_handles s"]) auto
  then show ?thesis
    unfolding quiet_def using assms(2) by blast
qed

lemma quiet_both:
  assumes "half v fx fy x kx y ky" "half v fy fx y ky x kx" "quiet x x'"
  shows "half v fx fy x' kx y ky \<and> half v fy fx y ky x' kx"
  using extends_both [OF assms(1,2)] assms(3) halfD(1) [OF assms(1)] unfolding quiet_def not_bound_def by metis

lemma wp_via_anyhow_any: "wp (\<lambda>_. True) m Q s \<Longrightarrow> wp (\<lambda>_. True) (via_anyhow v m) Q s"
  by (auto simp: wp_def via_anyhow_def split: prod.splits outcome.splits Error.splits)

lemma wp_read_cap_loop:
  "(\<And>s'. quiet s s' \<Longrightarrow> Q () s') \<Longrightarrow> wp (\<lambda>_. True) (read_cap_loop v st ours) Q s"
proof (induction ours arbitrary: s)
  case Nil
  then show ?case
    by (simp add: wp_simps quiet_refl)
next
  case (Cons x ours)
  obtain oh os where x: "x = (oh, os)"
    by fastforce
  have rest: "wp (\<lambda>_. True) (read_cap_loop v st ours) Q s1" if "quiet s s1" for s1
    using Cons.prems quiet_trans [OF that] by (intro Cons.IH) blast
  have "quiet s (s\<lparr> pf_out := pf_out s @ [NewIntersection (to_pai_intersection info oh)] \<rparr>)"
    if "map_of (pf_fragments_info s) oh = Some info" "lf_on_intersection info = ReplyReadCap" for info
    using that by (intro quiet_yield) (auto simp: not_bound_def to_pai_intersection_def)
  then show ?case
    using rest quiet_refl
    by (auto simp: x wp_simps fragment_info_def ok_or_def pai_yield_def map_err_def split: option.splits)
qed

lemma wp_subspace_cap_loop:
  "(\<And>s'. quiet s s' \<Longrightarrow> Q () s') \<Longrightarrow> wp (\<lambda>_. True) (subspace_cap_loop h st ours) Q s"
proof (induction ours arbitrary: s)
  case Nil
  then show ?case
    by (simp add: wp_simps quiet_refl)
next
  case (Cons x ours)
  obtain oh os where x: "x = (oh, os)"
    by fastforce
  have rest: "wp (\<lambda>_. True) (subspace_cap_loop h st ours) Q s1" if "quiet s s1" for s1
    using Cons.prems quiet_trans [OF that] by (intro Cons.IH) blast
  have "quiet s (s\<lparr> pf_out := pf_out s @ [SignAndSendSubspaceCap h cap] \<rparr>)" for cap
    by (intro quiet_yield) simp_all
  then show ?case
    using rest quiet_refl
    by (auto simp: x wp_simps fragment_info_def ok_or_def pai_yield_def map_err_def split: option.splits)
qed

lemma wp_verified_reply:
  assumes "\<forall>h \<in> pf_requested_subspace_cap_handles s.
      \<exists>info. map_of (pf_fragments_info s) h = Some info \<and> lf_on_intersection info = RequestSubspaceCap"
    and "\<And>s'. quiet s s' \<Longrightarrow> Q () s'"
  shows "wp (\<lambda>_. True) (received_verified_subspace_cap_reply h ns) Q s"
proof -
  let ?s = "s\<lparr> pf_requested_subspace_cap_handles := pf_requested_subspace_cap_handles s - {h} \<rparr>"
  have "quiet s (?s\<lparr> pf_out := pf_out s @ [NewIntersection (to_pai_intersection info h)] \<rparr>)"
    if "h \<in> pf_requested_subspace_cap_handles s" "map_of (pf_fragments_info s) h = Some info" for info
  proof (rule quiet_trans [of s ?s])
    have "extends (\<lambda>p. False) s ?s"
      unfolding extends_def
      by (intro exI [of _ "[]"] exI [of _ "pf_requested_subspace_cap_handles s - {h}"]) auto
    then show "quiet s ?s"
      unfolding quiet_def by blast
    have "lf_on_intersection info = RequestSubspaceCap"
      using assms(1) that by auto
    then show "quiet ?s (?s\<lparr> pf_out := pf_out s @ [NewIntersection (to_pai_intersection info h)] \<rparr>)"
      using quiet_yield [of "NewIntersection (to_pai_intersection info h)" ?s] that
      by (simp add: not_bound_def to_pai_intersection_def)
  qed
  then show ?thesis
    using assms(2)
    by (auto simp: received_verified_subspace_cap_reply_def wp_simps fragment_info_def ok_or_def pai_yield_def map_err_def
        split: option.splits sum.splits)
qed

text \<open>How many messages submitting sends.\<close>

lemma wp_submit_count:
  "wp ok (submit_fragments v auth kind l) (\<lambda>_ s'. length (im_msgs (pf_out s')) = length (im_msgs (pf_out s)) + length l) s"
proof (induction l arbitrary: s)
  case (Cons x l)
  show ?case
    unfolding submit_fragments.simps wp_rbind
    using Cons.IH by (auto simp: submit_fragment_def wp_simps Let_def pai_yield_def intro!: wp_mono [OF Cons.IH] split: prod.splits)
qed (simp add: wp_simps)

lemma wp_submit_authorisation_count:
  "wp ok (submit_authorisation v auth) (\<lambda>_ s'. length (im_msgs (pf_out s')) =
     length (im_msgs (pf_out s)) + (if auth \<in> pf_submitted s then 0 else length (auth_frags v auth))) s"
  by (auto simp: submit_authorisation_def wp_simps auth_frags_def split: FragmentSet.splits
      intro!: wp_mono [OF wp_submit_count])

text \<open>The two halves, of a state in which the handles do not run out.\<close>

definition both ::
  "('g, 'sc, 'cap) psi_env \<Rightarrow> ('g, 'sc, 'cap, 'scap, 'sg) PaiFinder \<Rightarrow> nat \<Rightarrow> ('g, 'sc, 'cap, 'scap, 'sg) PaiFinder \<Rightarrow> nat \<Rightarrow> bool" where
  "both v x kx y ky \<longleftrightarrow> length (im_msgs (pf_out x)) < 2 ^ 64 \<longrightarrow> length (im_msgs (pf_out y)) < 2 ^ 64 \<longrightarrow>
     (\<exists>fx fy. half v fx fy x kx y ky \<and> half v fy fx y ky x kx)"

lemma both_sym: "both v x kx y ky \<Longrightarrow> both v y ky x kx"
  unfolding both_def by blast

lemma both_submit:
  assumes hx: "half v fx fy x kx y ky" and hy: "half v fy fx y ky x kx"
  shows "wp (\<lambda>_. True) (submit_authorisation v auth) (\<lambda>_ x'. both v x' kx y ky) x"
proof (cases "length fx + length (auth_frags v auth) < 2 ^ 64 \<or> auth \<in> pf_submitted x")
  case False
  have "length (im_msgs (pf_out x)) \<ge> length fx"
    using half_counts(5) [OF hx] length_binds [of "im_msgs (pf_out x)"] by simp
  then show ?thesis
    using False by (intro wp_mono [OF wp_submit_authorisation_count]) (simp add: both_def)
next
  case True
  note X = halfD [OF hx] and C = half_counts [OF hx]
  have fin: "both v x' kx y ky"
    if s: "submits v fx (our_states v (pf_scalar x) (pf_scalar y) (rcount ky y) fx) new x x'" "pf_submitted x' = insert auth (pf_submitted x)"
      "new = (if auth \<in> pf_submitted x then [] else auth_frags v auth)" for x' new
  proof -
    obtain as where as: "set as = pf_submitted x" "fx = concat (map (auth_frags v) as)"
      using X(10) by blast
    have sub: "\<exists>as. set as = pf_submitted x' \<and> fx @ new = concat (map (auth_frags v) as)"
    proof (cases "auth \<in> pf_submitted x")
      case True
      then show ?thesis
        using as s(2,3) by (intro exI [of _ as]) auto
    next
      case False
      then show ?thesis
        using as s(2,3) by (intro exI [of _ "as @ [auth]"]) auto
    qed
    have "half v fy (fx @ new) y ky x' kx"
    proof (rule half_other [OF hy X(2)])
      show "im_msgs (pf_out x') = im_msgs (pf_out x) @ map (\<lambda>f. IM_BindFragment (fr_bind v (pf_scalar x) f)) new"
        using s(1) by (auto simp: submits_def im_msgs_def map_filter_append List.map_filter_def im_of_def intersection_try_from_def comp_def)
      show "replies (map (\<lambda>f. IM_BindFragment (fr_bind v (pf_scalar x) f)) new) = []"
        by (induction new) simp_all
    qed (use s(1) C(1) in \<open>simp_all add: submits_def nth_append\<close>)
    then show ?thesis
      using half_submits [OF hx s(1) sub] unfolding both_def by blast
  qed
  show ?thesis
  proof (cases "auth \<in> pf_submitted x")
    case True
    then show ?thesis
      using hx hy by (auto simp: submit_authorisation_def wp_simps both_def)
  next
    case False
    then show ?thesis
      using True fin by (intro wp_submit_authorisation [OF X(3,1)]) simp_all
  qed
qed

lemma wp_both_submit:
  assumes "both v x kx y ky"
  shows "wp (\<lambda>_. True) (submit_authorisation v auth) (\<lambda>_ x'. both v x' kx y ky) x"
proof (cases "length (im_msgs (pf_out x)) < 2 ^ 64 \<and> length (im_msgs (pf_out y)) < 2 ^ 64")
  case True
  then show ?thesis
    using assms both_submit unfolding both_def by blast
next
  case False
  then show ?thesis
    by (intro wp_mono [OF wp_submit_authorisation_count]) (auto simp: both_def)
qed

lemma wp_both_submits:
  "both v x kx y ky \<Longrightarrow> wp (\<lambda>_. True) (submit_authorisations v l) (\<lambda>_ x'. both v x' kx y ky) x"
proof (induction l arbitrary: x)
  case (Cons a l)
  show ?case
    unfolding submit_authorisations.simps wp_rbind
    by (rule wp_mono [OF wp_both_submit [OF Cons.prems]]) (rule Cons.IH)
qed (simp add: wp_simps)

lemma both_pending: "both v (x\<lparr> pf_pending := p \<rparr>) kx y ky \<longleftrightarrow> both v x kx y ky"
  by (simp add: both_def half_def bcount_def rcount_def bound_report_def)

lemma quiet_msgs: "quiet x x' \<Longrightarrow> im_msgs (pf_out x') = im_msgs (pf_out x)"
  unfolding quiet_def using extends_fields(7) by blast

lemma both_quiet: "both v x kx y ky \<Longrightarrow> quiet x x' \<Longrightarrow> both v x' kx y ky"
  unfolding both_def using quiet_both quiet_msgs by metis

lemma wp_both_input:
  assumes "both v x kx y ky" "\<not> is_message i" "pai_input v i x = (Done (), x')"
    and "length (im_msgs (pf_out x)) < 2 ^ 64" "length (im_msgs (pf_out y)) < 2 ^ 64"
  shows "both v x' kx y ky"
proof -
  obtain fx fy where hx: "half v fx fy x kx y ky" "half v fy fx y ky x kx"
    using assms(1,4,5) unfolding both_def by blast
  have q: "both v x' kx y ky" if "quiet x x'" for x'
    using both_quiet [OF assms(1) that] .
  have "wp (\<lambda>_. True) (pai_input v i) (\<lambda>_ x'. both v x' kx y ky) x"
  proof (cases i)
    case Established
    then show ?thesis
      using assms(1) by (auto simp: wp_simps both_pending intro: wp_both_submits split: option.splits)
  next
    case (InSubmitAuthorisation auth)
    then show ?thesis
      using assms(1) by (auto simp: wp_simps both_pending intro: wp_both_submit split: option.splits)
  next
    case (ReceivedMessage m)
    then show ?thesis
      using assms(2) by simp
  next
    case (ReceivedSubspaceCapRequest h)
    have "wp (\<lambda>_. True) (subspace_cap_loop h st ours) (\<lambda>_ x'. both v x' kx y ky) x" for st ours
      by (rule wp_subspace_cap_loop) (rule q)
    then show ?thesis
      using ReceivedSubspaceCapRequest by (auto simp: received_subspace_cap_request_def wp_simps split: sum.splits)
  next
    case (ReceivedVerifiedSubspaceCapReply h ns)
    have "wp (\<lambda>_. True) (received_verified_subspace_cap_reply h ns) (\<lambda>_ x'. both v x' kx y ky) x"
      using halfD(1,7) [OF hx(1)] q by (intro wp_verified_reply) auto
    then show ?thesis
      using ReceivedVerifiedSubspaceCapReply by simp
  next
    case (ReceivedReadCapForIntersection h)
    have "wp (\<lambda>_. True) (via_anyhow v (read_cap_loop v st ours)) (\<lambda>_ x'. both v x' kx y ky) x" for st ours
      by (rule wp_via_anyhow_any [OF wp_read_cap_loop]) (rule q)
    then show ?thesis
      using ReceivedReadCapForIntersection by (auto simp: received_read_cap_for_intersection_def wp_simps split: sum.splits)
  qed
  then show ?thesis
    using wp_Done assms(3) by fastforce
qed

lemma wp_both_message:
  assumes "both v x kx y ky" "drop kx (im_msgs (pf_out x)) = m # ms"
    and "length (im_msgs (pf_out x)) < 2 ^ 64" "length (im_msgs (pf_out y)) + 1 < 2 ^ 64"
  shows "wp (\<lambda>_. False) (pai_input v (ReceivedMessage (Ok m))) (\<lambda>_ y'. both v x (Suc kx) y' ky) y"
proof -
  obtain fx fy where h: "half v fx fy x kx y ky" "half v fy fx y ky x kx"
    using assms(1,3,4) unfolding both_def by auto
  show ?thesis
  proof (cases m)
    case (IM_BindFragment b)
    then have "wp (\<lambda>_. False) (receive_bind v b) (\<lambda>_ y'. half v fx fy x (Suc kx) y' ky \<and> half v fy fx y' ky x (Suc kx)) y"
      using assms(2,4) by (intro deliver_bind [OF h]) auto
    then show ?thesis
      using IM_BindFragment by (auto simp: wp_simps both_def elim!: wp_mono)
  next
    case (IM_ReplyFragment r)
    then have "wp (\<lambda>_. False) (receive_reply v r) (\<lambda>_ y'. half v fx fy x (Suc kx) y' ky \<and> half v fy fx y' ky x (Suc kx)) y"
      using assms(2) by (intro deliver_reply [OF h]) auto
    then show ?thesis
      using IM_ReplyFragment by (auto simp: wp_simps both_def elim!: wp_mono)
  qed
qed

text \<open>Outputs are only added.\<close>

abbreviation grows :: "('g, 'sc, 'cap, 'scap, 'sg) PaiFinder \<Rightarrow> ('g, 'sc, 'cap, 'scap, 'sg, 'a) pai_prog \<Rightarrow> bool"
  where "grows s m \<equiv> wp (\<lambda>_. True) m (\<lambda>_ s'. prefix (pf_out s) (pf_out s')) s"

lemma grows_bind:
  fixes s :: "('g, 'sc, 'cap, 'scap, 'sg) PaiFinder"
  assumes "grows s m" "\<And>a s1. grows s1 (f a)"
  shows "grows s (rbind m f)"
  unfolding wp_rbind
proof (rule wp_mono [OF assms(1)])
  fix a and s1 :: "('g, 'sc, 'cap, 'scap, 'sg) PaiFinder"
  assume "prefix (pf_out s) (pf_out s1)"
  then show "wp (\<lambda>_. True) (f a) (\<lambda>_ s'. prefix (pf_out s) (pf_out s')) s1"
    by (intro wp_mono [OF assms(2)]) (rule prefix_order.trans)
qed

lemma grows_basic:
  "grows s (ret a)" "grows s (gets g)" "grows s (try_res r)" "grows s (try_anyhow q)" "grows s (fail e)" "grows s (pai_yield x)"
  "grows s (modify (\<lambda>s. s\<lparr> pf_ours := m \<rparr>))" "grows s (modify (\<lambda>s. s\<lparr> pf_theirs := m \<rparr>))"
  "grows s (modify (\<lambda>s. s\<lparr> pf_fragments_info := I s \<rparr>))" "grows s (modify (\<lambda>s. s\<lparr> pf_submitted := S s \<rparr>))"
  "grows s (modify (\<lambda>s. s\<lparr> pf_pending := p \<rparr>))" "grows s (modify (\<lambda>s. s\<lparr> pf_requested_subspace_cap_handles := R s \<rparr>))"
  by (auto simp: wp_simps pai_yield_def split: sum.splits)

lemma grows_submit_fragments: "grows s (submit_fragments v auth kind l)"
  by (induction l arbitrary: s)
    (auto simp: submit_fragment_def Let_def intro!: grows_bind grows_basic split: prod.splits)

lemma grows_submit: "grows s (submit_authorisation v auth)"
  unfolding submit_authorisation_def
  by (intro grows_bind grows_basic) (auto intro!: grows_bind grows_basic grows_submit_fragments split: FragmentSet.splits)

lemma grows_submits: "grows s (submit_authorisations v l)"
  by (induction l arbitrary: s) (auto intro!: grows_bind grows_basic grows_submit)

lemma grows_check_loop: "grows s (check_loop scope h st others)"
  by (induction others arbitrary: s)
    (auto simp: Let_def intro!: grows_bind grows_basic split: OnIntersection.splits)

lemma grows_check: "grows s (check_for_intersection h scope)"
  unfolding check_for_intersection_def
  by (intro grows_bind grows_basic) (auto intro!: grows_bind grows_basic grows_check_loop split: prod.splits)

lemma grows_read_cap_loop: "grows s (read_cap_loop v st ours)"
  by (induction ours arbitrary: s) (auto intro!: grows_bind grows_basic)

lemma grows_subspace_cap_loop: "grows s (subspace_cap_loop h st ours)"
  by (induction ours arbitrary: s) (auto intro!: grows_bind grows_basic split: option.splits)

lemma grows_input: "grows s (pai_input v i)"
proof (cases i)
  case (ReceivedMessage r)
  have "grows s (receive_bind v b)" "grows s (receive_reply v q)" for s :: "('a, 'b, 'c, 'd, 'e) PaiFinder" and b q
    unfolding receive_bind_def receive_reply_def Let_def
    by (auto intro!: grows_bind grows_basic wp_via_anyhow_any grows_check split: prod.splits)
  then show ?thesis
    using ReceivedMessage by (auto intro!: grows_bind grows_basic split: IntersectionMessage.splits)
qed (auto simp: received_subspace_cap_request_def received_verified_subspace_cap_reply_def received_read_cap_for_intersection_def
    intro!: grows_bind grows_basic grows_submit grows_submits grows_subspace_cap_loop grows_read_cap_loop wp_via_anyhow_any
    split: option.splits prod.splits)

lemma input_length:
  assumes "pai_input v i x = (Done (), x')"
  shows "length (im_msgs (pf_out x)) \<le> length (im_msgs (pf_out x'))"
  using wp_Done [OF grows_input assms] by (auto simp: prefix_def)

definition pai_inv ::
  "('g, 'sc, 'cap) psi_env \<Rightarrow> ('g, 'sc, 'cap, 'scap, 'sg) pai_side \<times> ('g, 'sc, 'cap, 'scap, 'sg) pai_side \<Rightarrow> bool" where
  "pai_inv v p = (case p of ((a, ka), (b, kb)) \<Rightarrow>
     length (im_msgs (pf_out a)) + 1 < 2 ^ 64 \<and> length (im_msgs (pf_out b)) + 1 < 2 ^ 64 \<longrightarrow> both v a ka b kb)"

lemma pai_inv_step:
  assumes "pai_step v p p'" "pai_inv v p"
  shows "pai_inv v p'"
  using assms
proof (induction rule: pai_step.induct)
  case (deliver_b ka a m ms b b' kb)
  then show ?case
    using wp_Done [OF wp_both_message, of v a ka b kb m ms "()" b'] input_length [OF deliver_b(2)]
    by (auto simp: pai_inv_def)
next
  case (deliver_a kb b m ms a a' ka)
  then show ?case
    using wp_Done [OF wp_both_message, of v b kb a ka m ms "()" a'] input_length [OF deliver_a(2)]
      both_sym [of v a ka b kb] both_sym [of v b "Suc kb" a' ka]
    by (auto simp: pai_inv_def)
next
  case (input_a i a a' ka b kb)
  then show ?case
    using wp_both_input [of v a ka b kb i a'] input_length [OF input_a(2)] by (auto simp: pai_inv_def)
next
  case (input_b i b b' a ka kb)
  then show ?case
    using wp_both_input [of v b kb a ka i b'] input_length [OF input_b(2)]
      both_sym [of v a ka b kb] both_sym [of v b' kb a ka]
    by (auto simp: pai_inv_def)
qed

lemma pai_inv_reach:
  assumes "pai_reach v sa sb p" "psi_laws v sa sb"
  shows "pai_inv v p"
  using assms(1)
proof induction
  case pai_start
  have "half v [] [] (pai_new s) 0 (pai_new t) 0" if "psi_laws v s t" for s t
    using that by (auto simp: half_def pai_new_def infos_def rm_numbered_def our_states_def rm_default_def bcount_def rcount_def bound_report_def)
  then show ?case
    using assms(2) psi_laws_sym [OF assms(2)] by (auto simp: pai_inv_def both_def)
next
  case (pai_next p p')
  then show ?case
    using pai_inv_step by blast
qed

section \<open>What the finders report\<close>

text \<open>The area of a capability contains that of another one, apart from the times.\<close>

definition covers_cap :: "('g, 'sc, 'cap) psi_env \<Rightarrow> 'cap \<Rightarrow> 'cap \<Rightarrow> bool" where
  "covers_cap v c d \<longleftrightarrow> psi_granted_namespace v c = psi_granted_namespace v d \<and>
     prefix (a_path (psi_granted_area v c)) (a_path (psi_granted_area v d)) \<and>
     (a_subspace (psi_granted_area v c) = AnySubspace \<or> a_subspace (psi_granted_area v c) = a_subspace (psi_granted_area v d))"

lemma mk_frags_set:
  "f \<in> set (mk_frags auth kind l) \<Longrightarrow> fr_fragment f \<in> set l \<and> fr_kind f = kind \<and> fr_auth f = auth"
  "x \<in> set l \<Longrightarrow> \<exists>f \<in> set (mk_frags auth kind l). fr_fragment f = x \<and> fr_kind f = kind"
  "f \<in> set (mk_frags auth kind l) \<and> fr_specific f \<longleftrightarrow> l \<noteq> [] \<and> f = \<lparr> fr_fragment = last l, fr_kind = kind, fr_specific = True, fr_auth = auth \<rparr>"
  by (induction l) auto

lemma auth_frags_binds:
  assumes "psi_all_prefixes v = prefixes"
  shows "f \<in> set (auth_frags v auth) \<and> fr_binds f \<longleftrightarrow>
    f = \<lparr> fr_fragment = (case a_subspace (psi_granted_area v (ra_read_cap auth)) of
             AnySubspace \<Rightarrow> Pair (psi_granted_namespace v (ra_read_cap auth), a_path (psi_granted_area v (ra_read_cap auth)))
           | IdSubspace s \<Rightarrow> Triple (psi_granted_namespace v (ra_read_cap auth), s, a_path (psi_granted_area v (ra_read_cap auth)))),
         fr_kind = Primary, fr_specific = True, fr_auth = auth \<rparr>"
proof -
  have ne: "prefixes p \<noteq> []" "last (prefixes p) = p" for p :: path
    by simp_all
  have prim: "f \<in> set (mk_frags auth Primary l) \<and> fr_binds f \<longleftrightarrow> f \<in> set (mk_frags auth Primary l) \<and> fr_specific f" for l
    using mk_frags_set(1) by (auto simp: fr_binds_def)
  have sec: "\<not> (f \<in> set (mk_frags auth Secondary l) \<and> fr_binds f)" for l
    using mk_frags_set(1) by (fastforce simp: fr_binds_def)
  show ?thesis
  proof (cases "a_subspace (psi_granted_area v (ra_read_cap auth))")
    case AnySubspace
    then show ?thesis
      by (simp add: auth_frags_def get_fragment_kit_def Let_def assms prim mk_frags_set(3) last_map)
  next
    case (IdSubspace s)
    then have "f \<in> set (auth_frags v auth) \<and> fr_binds f \<longleftrightarrow>
        f \<in> set (mk_frags auth Primary (map Triple (map (\<lambda>p. (psi_granted_namespace v (ra_read_cap auth), s, p))
          (prefixes (a_path (psi_granted_area v (ra_read_cap auth))))))) \<and> fr_binds f"
      using sec by (auto simp: auth_frags_def get_fragment_kit_def Let_def assms)
    then show ?thesis
      using IdSubspace unfolding prim mk_frags_set(3) by (simp add: last_map comp_def)
  qed
qed

lemma auth_frags_pair:
  assumes "psi_all_prefixes v = prefixes"
  shows "(\<exists>g \<in> set (auth_frags v auth). fr_fragment g = Pair (ns, p)) \<longleftrightarrow>
    ns = psi_granted_namespace v (ra_read_cap auth) \<and> prefix p (a_path (psi_granted_area v (ra_read_cap auth)))"
    and "(\<exists>g \<in> set (auth_frags v auth). fr_fragment g = Triple (ns, s, p)) \<longleftrightarrow>
    ns = psi_granted_namespace v (ra_read_cap auth) \<and> prefix p (a_path (psi_granted_area v (ra_read_cap auth))) \<and>
    a_subspace (psi_granted_area v (ra_read_cap auth)) = IdSubspace s"
proof -
  have m: "(\<exists>g \<in> set (mk_frags auth kind l). fr_fragment g = x) \<longleftrightarrow> x \<in> set l" for kind l x
    using mk_frags_set(1,2) by metis
  show "(\<exists>g \<in> set (auth_frags v auth). fr_fragment g = Pair (ns, p)) \<longleftrightarrow>
    ns = psi_granted_namespace v (ra_read_cap auth) \<and> prefix p (a_path (psi_granted_area v (ra_read_cap auth)))"
    "(\<exists>g \<in> set (auth_frags v auth). fr_fragment g = Triple (ns, s, p)) \<longleftrightarrow>
    ns = psi_granted_namespace v (ra_read_cap auth) \<and> prefix p (a_path (psi_granted_area v (ra_read_cap auth))) \<and>
    a_subspace (psi_granted_area v (ra_read_cap auth)) = IdSubspace s"
    by (auto simp: auth_frags_def get_fragment_kit_def Let_def assms bex_Un m split: AreaSubspace.splits)
qed

definition fragments_of :: "('g, 'sc, 'cap) psi_env \<Rightarrow> ('cap, 'scap) ReadAuthorisation set \<Rightarrow> Fragment set"
  where "fragments_of v S = {fr_fragment f | f auth. auth \<in> S \<and> f \<in> set (auth_frags v auth)}"

lemma bound_matches:
  assumes "psi_all_prefixes v = prefixes" "f \<in> set (auth_frags v \<alpha>)" "fr_binds f"
    and "inj_on (hash_into_group v) (fragments_of v S)" "\<alpha> \<in> S" "\<beta> \<in> S"
  shows "(\<exists>g \<in> set (auth_frags v \<beta>). matches v f g) \<longleftrightarrow> covers_cap v (ra_read_cap \<alpha>) (ra_read_cap \<beta>)"
proof -
  have f: "f = \<lparr> fr_fragment = (case a_subspace (psi_granted_area v (ra_read_cap \<alpha>)) of
             AnySubspace \<Rightarrow> Pair (psi_granted_namespace v (ra_read_cap \<alpha>), a_path (psi_granted_area v (ra_read_cap \<alpha>)))
           | IdSubspace s \<Rightarrow> Triple (psi_granted_namespace v (ra_read_cap \<alpha>), s, a_path (psi_granted_area v (ra_read_cap \<alpha>)))),
         fr_kind = Primary, fr_specific = True, fr_auth = \<alpha> \<rparr>"
    using auth_frags_binds [OF assms(1)] assms(2,3) by blast
  have "matches v f g \<longleftrightarrow> fr_fragment g = fr_fragment f" if "g \<in> set (auth_frags v \<beta>)" for g
  proof -
    have "fr_fragment f \<in> fragments_of v S" "fr_fragment g \<in> fragments_of v S"
      using that assms(2,5,6) by (auto simp: fragments_of_def)
    then have "fr_hash v f = fr_hash v g \<longleftrightarrow> fr_fragment g = fr_fragment f"
      using inj_onD [OF assms(4)] by auto
    then show ?thesis
      using assms(3) by (auto simp: matches_def fr_binds_def)
  qed
  then have "(\<exists>g \<in> set (auth_frags v \<beta>). matches v f g) \<longleftrightarrow> (\<exists>g \<in> set (auth_frags v \<beta>). fr_fragment g = fr_fragment f)"
    by blast
  then show ?thesis
    by (auto simp: f auth_frags_pair [OF assms(1)] covers_cap_def split: AreaSubspace.splits)
qed

lemma fr_info_auth [simp]: "pi_authorisation (to_pai_intersection (fr_info f) h) = fr_auth f"
  by (simp add: to_pai_intersection_def fr_info_def local_fragment_info_new_def split: prod.splits)

lemma auth_frags_auth: "f \<in> set (auth_frags v auth) \<Longrightarrow> fr_auth f = auth"
  using mk_frags_set(1) by (fastforce simp: auth_frags_def split: FragmentSet.splits)

lemma collect_owned:
  assumes "\<And>x f. f \<in> F x \<Longrightarrow> own f = x"
  shows "{own f | f. f \<in> (\<Union>x \<in> S. F x) \<and> B f \<and> M f} = {x \<in> S. \<exists>f \<in> F x. B f \<and> M f}"
  using assms by blast


text \<open>
  C19: No message of the exchange is refused: in every state that the two finders can reach, the finder
  that gets the next fragment or reply processes it without an error.
\<close>

theorem pai_messages_accepted:
  assumes "psi_laws v sa sb" "pai_reach v sa sb ((a, ka), (b, kb))"
    and "drop ka (im_msgs (pf_out a)) = m # ms" "length (im_msgs (pf_out a)) + 1 < 2 ^ 64" "length (im_msgs (pf_out b)) + 1 < 2 ^ 64"
  shows "\<forall>e. fst (pai_input v (ReceivedMessage (Ok m)) b) \<noteq> Failed e"
proof -
  have "both v a ka b kb"
    using pai_inv_reach [OF assms(2,1)] assms(4,5) by (simp add: pai_inv_def)
  from wp_safe [OF wp_both_message [OF this assms(3)]] show ?thesis
    using assms(4,5) by simp
qed

section \<open>Two finders on which the hypotheses hold\<close>

definition demo_psi :: "(bytes \<times> nat, nat, Area) psi_env" where
  "demo_psi = \<lparr> psi_hash = \<lambda>bs. (bs, 0), psi_mult = \<lambda>(bs, n) s. (bs, n + s),
     psi_compress = \<lambda>(bs, n). replicate n 1 @ 0 # bs,
     psi_decompress = \<lambda>bs. let n = length (takeWhile (\<lambda>b. b = 1) bs) in Some (drop (Suc n) bs, n),
     psi_encode_path = \<lambda>p. concat (map (\<lambda>c. of_nat (length c) # c) p), psi_all_prefixes = prefixes,
     psi_granted_area = \<lambda>a. a, psi_granted_namespace = \<lambda>a. NamespaceId [7], psi_debug = \<lambda>h. [] \<rparr>"

lemma demo_psi_laws: "psi_laws demo_psi 1 2"
proof -
  have "takeWhile (\<lambda>b. b = 1) (replicate n 1 @ 0 # bs) = replicate n (1 :: u8)" for n bs
    by (induction n) simp_all
  then show ?thesis
    by (auto simp: psi_laws_def demo_psi_def inj_def Let_def)
qed

definition demo_grant :: "path \<Rightarrow> (Area, unit) ReadAuthorisation"
  where "demo_grant p = \<lparr> ra_read_cap = area_new_path p, ra_subspace_cap = None \<rparr>"

datatype pai_event = DeliverB | DeliverA | PaiInputA "(Area, unit) PaiInput" | PaiInputB "(Area, unit) PaiInput"

type_synonym demo_finder = "(bytes \<times> nat, nat, Area, unit, unit) PaiFinder"
type_synonym demo_finders = "(demo_finder \<times> nat) \<times> (demo_finder \<times> nat)"

definition finished_state :: "unit outcome \<times> 's \<Rightarrow> 's option"
  where "finished_state r = (case r of (Done _, s) \<Rightarrow> Some s | _ \<Rightarrow> None)"

fun pai_do :: "pai_event \<Rightarrow> demo_finders \<Rightarrow> demo_finders option" where
  "pai_do DeliverB ((a, ka), (b, kb)) = (case drop ka (im_msgs (pf_out a)) of [] \<Rightarrow> None
     | m # ms \<Rightarrow> map_option (\<lambda>b'. ((a, Suc ka), (b', kb))) (finished_state (pai_input demo_psi (ReceivedMessage (Ok m)) b)))"
| "pai_do DeliverA ((a, ka), (b, kb)) = (case drop kb (im_msgs (pf_out b)) of [] \<Rightarrow> None
     | m # ms \<Rightarrow> map_option (\<lambda>a'. ((a', ka), (b, Suc kb))) (finished_state (pai_input demo_psi (ReceivedMessage (Ok m)) a)))"
| "pai_do (PaiInputA i) ((a, ka), (b, kb)) =
     (if is_message i then None else map_option (\<lambda>a'. ((a', ka), (b, kb))) (finished_state (pai_input demo_psi i a)))"
| "pai_do (PaiInputB i) ((a, ka), (b, kb)) =
     (if is_message i then None else map_option (\<lambda>b'. ((a, ka), (b', kb))) (finished_state (pai_input demo_psi i b)))"

fun pai_do_all :: "pai_event list \<Rightarrow> demo_finders \<Rightarrow> demo_finders option" where
  "pai_do_all [] p = Some p"
| "pai_do_all (ev # evs) p = Option.bind (pai_do ev p) (pai_do_all evs)"

lemma finished_state_Some: "finished_state r = Some s \<longleftrightarrow> r = (Done (), s)"
  by (auto simp: finished_state_def split: prod.splits outcome.splits)

lemma pai_do_step: "pai_do ev p = Some p' \<Longrightarrow> pai_step demo_psi p p'"
  by (induction ev p rule: pai_do.induct)
    (auto simp: finished_state_Some split: list.splits if_splits intro: pai_step.intros)

lemma pai_do_all_reach: "pai_reach demo_psi sa sb p \<Longrightarrow> pai_do_all evs p = Some p' \<Longrightarrow> pai_reach demo_psi sa sb p'"
proof (induction evs arbitrary: p)
  case (Cons ev evs)
  then obtain p1 where "pai_do ev p = Some p1" "pai_do_all evs p1 = Some p'"
    by (auto simp: Option.bind_eq_Some_conv)
  then show ?case
    using Cons.IH [OF pai_next [OF Cons.prems(1) pai_do_step]] by simp
qed simp

definition demo_events :: "pai_event list" where
  "demo_events = [PaiInputA (InSubmitAuthorisation (demo_grant [[1]])), PaiInputA Established, PaiInputB Established,
     DeliverB, PaiInputB (InSubmitAuthorisation (demo_grant [[1], [2]])), DeliverA, DeliverB, DeliverA, DeliverA, DeliverA, DeliverA,
     DeliverB, DeliverB, DeliverB]"

lemma demo_finders_run:
  "case pai_do_all demo_events ((pai_new 1, 0), (pai_new 2, 0)) of
     None \<Rightarrow> False
   | Some ((a, ka), (b, kb)) \<Rightarrow> ka = length (im_msgs (pf_out a)) \<and> kb = length (im_msgs (pf_out b)) \<and> ka = 5 \<and> kb = 5 \<and>
       pf_submitted a = {demo_grant [[1]]} \<and> pf_submitted b = {demo_grant [[1], [2]]}"
  by code_simp

lemma demo_finders_reach:
  obtains a b :: demo_finder where "pai_reach demo_psi 1 2 ((a, 5), (b, 5))" "length (im_msgs (pf_out a)) = 5" "length (im_msgs (pf_out b)) = 5"
    "pf_submitted a = {demo_grant [[1]]}" "pf_submitted b = {demo_grant [[1], [2]]}"
proof -
  obtain a ka b kb where r: "pai_do_all demo_events ((pai_new 1, 0), (pai_new 2, 0)) = Some ((a, ka), (b, kb))"
    "ka = length (im_msgs (pf_out a))" "kb = length (im_msgs (pf_out b))" "ka = 5" "kb = 5"
    "pf_submitted a = {demo_grant [[1]]}" "pf_submitted b = {demo_grant [[1], [2]]}"
    using demo_finders_run by (auto split: option.splits)
  then show ?thesis
    using pai_do_all_reach [OF pai_start r(1)] by (intro that) simp_all
qed

lemma demo_fragments: "fragments_of demo_psi ({demo_grant [[1]]} \<union> {demo_grant [[1], [2]]}) =
    {Pair (NamespaceId [7], []), Pair (NamespaceId [7], [[1]]), Pair (NamespaceId [7], [[1], [2]])}"
proof -
  have "fr_fragment ` set (auth_frags demo_psi (demo_grant p)) = (\<lambda>q. Pair (NamespaceId [7], q)) ` set (prefixes p)" for p
  proof -
    have "fr_fragment ` set (mk_frags auth kind l) = set l" for auth :: "(Area, unit) ReadAuthorisation" and kind l
      by (induction l) auto
    then show ?thesis
      by (simp add: auth_frags_def get_fragment_kit_def demo_psi_def demo_grant_def area_new_path_def image_image Let_def)
  qed
  note f = this
  have "fragments_of demo_psi S = (\<Union>a \<in> S. fr_fragment ` set (auth_frags demo_psi a))" for S :: "(Area, unit) ReadAuthorisation set"
    by (auto simp: fragments_of_def)
  then show ?thesis
    by (auto simp: f)
qed


theorem pai_messages_accepted_witness:
  "\<exists>(a :: demo_finder) (b :: demo_finder) m ms. pai_reach demo_psi 1 2 ((a, 0), (b, 0)) \<and> im_msgs (pf_out a) = m # ms \<and>
     (\<forall>e. fst (pai_input demo_psi (ReceivedMessage (Ok m)) b) \<noteq> Failed e)"
proof -
  let ?p = "((pai_new 1, 0), (pai_new 2, 0)) :: demo_finders"
  have "case pai_do_all (take 2 demo_events) ?p of None \<Rightarrow> False
      | Some ((a, ka), (b, kb)) \<Rightarrow> length (im_msgs (pf_out a)) = 2 \<and> length (im_msgs (pf_out b)) = 0 \<and> ka = 0 \<and> kb = 0"
    by code_simp
  then obtain a b where ab: "pai_do_all (take 2 demo_events) ?p = Some ((a, 0), (b, 0))" "length (im_msgs (pf_out a)) = 2" "im_msgs (pf_out b) = []"
    by (auto split: option.splits)
  then obtain m ms where m: "im_msgs (pf_out a) = m # ms"
    by (cases "im_msgs (pf_out a)") auto
  have r: "pai_reach demo_psi 1 2 ((a, 0), (b, 0))"
    by (rule pai_do_all_reach [OF pai_start ab(1)])
  show ?thesis
    using pai_messages_accepted [OF demo_psi_laws r] r m ab(2,3) by (intro exI [of _ a] exI [of _ b] exI [of _ m] exI [of _ ms]) simp
qed

end
