(* ===== verification/Data_Channel.thy ===== *)
theory Data_Channel
  imports Reconciler
begin

text \<open>
  The data channel (\<open>session/data.rs\<close>): entries that are ingested while a session runs are sent to the other
  peer with their payloads.  The sender subscribes to the store for every intersection and forwards what the
  streams deliver; the state of the sender holds what it sent.  The receiver authorises and ingests entries and
  imports payloads.  The storage, the payload store and the check of a token are arguments, in the record
  \<open>data_env\<close>; the streams are those of the in-memory store.
\<close>

section \<open>The sender\<close>

record ('s, 'cap, 'sg, 'blob) data_env =
  de_wdm :: wdm
  de_waker :: waker
  de_session_id :: u64
  de_ingest_entry :: "('cap, 'sg) AuthorisedEntry \<Rightarrow> EntryOrigin \<Rightarrow> 's \<Rightarrow> (string + bool \<times> 's) option"
  de_is_authorised_write :: "Entry \<Rightarrow> ('cap, 'sg) AuthorisationToken \<Rightarrow> bool"
  de_get_payload :: "PayloadDigest \<Rightarrow> string + 'blob option"
  de_verifiable_stream :: "'blob \<Rightarrow> u64 \<Rightarrow> string + bytes"
  de_import_alive :: "CurrentPayload \<Rightarrow> bool"
  de_import_stream :: "PayloadDigest \<Rightarrow> u64 \<Rightarrow> u64 \<Rightarrow> bytes \<Rightarrow> string + unit"

record ('cap, 'sg) DataSender =
  ds_store :: "('cap, 'sg) EntryStore option"
  ds_entry_stream :: "EventStream list"
  ds_session_id :: u64
  ds_static_tokens :: "'cap StaticTokens"
  ds_closed :: bool
  ds_sent_tokens :: "'cap SetupBindStaticToken list"
  ds_sent :: "'sg DataMessage list"

definition data_sender_new :: "('cap, 'sg) EntryStore \<Rightarrow> 'cap StaticTokens \<Rightarrow> u64 \<Rightarrow> ('cap, 'sg) DataSender" where
  "data_sender_new store static_tokens session_id =
     \<lparr> ds_store = Some store, ds_entry_stream = [], ds_session_id = session_id, ds_static_tokens = static_tokens,
       ds_closed = False, ds_sent_tokens = [], ds_sent = [] \<rparr>"

definition ds_send :: "'sg DataMessage \<Rightarrow> (('cap, 'sg) DataSender, unit) prog" where
  "ds_send m =
     (\<lambda>s. if ds_closed s then (Failed (E_Write WE_Closed), s) else (Done (), s\<lparr> ds_sent := ds_sent s @ [m] \<rparr>))"

fun ds_send_all :: "'sg DataMessage list \<Rightarrow> (('cap, 'sg) DataSender, unit) prog" where
  "ds_send_all [] = ret ()"
| "ds_send_all (m # ms) = rbind (ds_send m) (\<lambda>_. ds_send_all ms)"

definition ds_bind_and_send_ours :: "'cap \<Rightarrow> (('cap, 'sg) DataSender, StaticTokenHandle) prog" where
  "ds_bind_and_send_ours tok =
     (\<lambda>s. case bind_and_send_ours tok (ds_static_tokens s) of
        (h, msgs, tokens) \<Rightarrow>
          if msgs \<noteq> [] \<and> ds_closed s then (Failed (E_Write WE_Closed), s\<lparr> ds_static_tokens := tokens \<rparr>)
          else (Done h, s\<lparr> ds_static_tokens := tokens, ds_sent_tokens := ds_sent_tokens s @ msgs \<rparr>))"

definition send_entry :: "('s, 'cap, 'sg, 'blob) data_env \<Rightarrow> ('cap, 'sg) AuthorisedEntry \<Rightarrow> (('cap, 'sg) DataSender, unit) prog" where
  "send_entry v authorised_entry =
     (let e = ae_entry authorised_entry; token = ae_token authorised_entry; offset = 0 in
      rbind (ds_bind_and_send_ours (t_capability token)) (\<lambda>static_token_handle.
      rbind (ds_send (DM_SendEntry
        \<lparr> dse_entry = e, dse_static_token_handle = static_token_handle, dse_dynamic_token = t_signature token,
          dse_offset = offset \<rparr>)) (\<lambda>_.
      rbind (try_res (send_payload_chunked (de_get_payload v) (de_verifiable_stream v) (e_payload_digest e) offset
        (\<lambda>bytes. DM_SendPayload \<lparr> dsp_bytes = bytes \<rparr>))) (\<lambda>(sent, msgs). ds_send_all msgs))))"

definition data_params :: "u64 \<Rightarrow> SubscribeParams"
  where "data_params session_id = \<lparr> ignore_empty_payloads = False, ignore_remote = Some session_id, ingest_only = True \<rparr>"

text \<open>\<open>DataSender::run\<close>: an intersection arrives.\<close>

definition ds_on_intersection :: "AoiIntersection \<Rightarrow> (('cap, 'sg) DataSender, unit) prog" where
  "ds_on_intersection intersection =
     modify (\<lambda>s. case ds_store s of
       None \<Rightarrow> s
     | Some st \<Rightarrow>
         (let (stream, st') = mem_subscribe_area (ai_namespace intersection) (aoi_area (ai_intersection intersection))
                (data_params (ds_session_id s)) st
          in s\<lparr> ds_store := Some st', ds_entry_stream := ds_entry_stream s @ [stream] \<rparr>))"

text \<open>
  \<open>DataSender::run\<close>: the group polls its \<open>k\<close>th stream.  A stream that ended leaves the group.  The filter
  of the stream treats any other event than an ingestion as unreachable.
\<close>

definition ds_poll_stream :: "('s, 'cap, 'sg, 'blob) data_env \<Rightarrow> nat \<Rightarrow> (('cap, 'sg) DataSender, unit) prog" where
  "ds_poll_stream v k =
     (\<lambda>s. if length (ds_entry_stream s) \<le> k then (Blocked, s)
      else case stream_poll_next (de_wdm v) (de_waker v) (ds_store s) (ds_entry_stream s ! k) of
        None \<Rightarrow> (Blocked, s)
      | Some (Pending, st, stream) \<Rightarrow> (Blocked, s\<lparr> ds_store := st, ds_entry_stream := (ds_entry_stream s)[k := stream] \<rparr>)
      | Some (Ready None, st, stream) \<Rightarrow>
          (Done (), s\<lparr> ds_store := st, ds_entry_stream := take k (ds_entry_stream s) @ drop (Suc k) (ds_entry_stream s) \<rparr>)
      | Some (Ready (Some event), st, stream) \<Rightarrow>
          (let s' = s\<lparr> ds_store := st, ds_entry_stream := (ds_entry_stream s)[k := stream] \<rparr>
           in case event of
                Ingested _ e _ \<Rightarrow> send_entry v e s'
              | Pruned _ _ \<Rightarrow> (Panicked, s')))"

section \<open>The receiver\<close>

record ('s, 'cap) DataReceiver =
  dr_store :: 's
  dr_current_payload :: CurrentPayload
  dr_static_tokens :: "'cap StaticTokens"
  dr_imported :: "(PayloadDigest \<times> u64 \<times> u64 \<times> bytes) list"

definition data_receiver_new :: "'s \<Rightarrow> 'cap StaticTokens \<Rightarrow> ('s, 'cap) DataReceiver" where
  "data_receiver_new store static_tokens =
     \<lparr> dr_store = store, dr_current_payload = None, dr_static_tokens = static_tokens, dr_imported = [] \<rparr>"

definition dr_authorise_entry ::
  "('s, 'cap, 'sg, 'blob) data_env \<Rightarrow> 'sg DataSendEntry \<Rightarrow> (('s, 'cap) DataReceiver, ('cap, 'sg) AuthorisedEntry) prog" where
  "dr_authorise_entry v message =
     (\<lambda>s. case poll_authorise_entry (de_is_authorised_write v) (dse_entry message)
              (dse_static_token_handle message) (dse_dynamic_token message) (de_waker v) (dr_static_tokens s) of
        (Pending, tokens) \<Rightarrow> (Blocked, s\<lparr> dr_static_tokens := tokens \<rparr>)
      | (Ready r, tokens) \<Rightarrow> try_res r (s\<lparr> dr_static_tokens := tokens \<rparr>))"

definition on_send_entry ::
  "('s, 'cap, 'sg, 'blob) data_env \<Rightarrow> 'sg DataSendEntry \<Rightarrow> (('s, 'cap) DataReceiver, unit) prog" where
  "on_send_entry v message =
     rbind (gets dr_current_payload) (\<lambda>cp.
     rbind (try_res (cp_ensure_none cp)) (\<lambda>_.
     rbind (dr_authorise_entry v message) (\<lambda>authorised_entry.
     rbind (gets dr_store) (\<lambda>st.
     rbind (unwrap (de_ingest_entry v authorised_entry (Remote (de_session_id v)) st)) (\<lambda>r.
     rbind (try_anyhow r) (\<lambda>(_, st').
     rbind (modify (\<lambda>s. s\<lparr> dr_store := st' \<rparr>)) (\<lambda>_.
     rbind (try_res (cp_set (e_payload_digest (ae_entry authorised_entry)) (e_payload_length (ae_entry authorised_entry))
              None (Some (dse_offset message)) cp)) (\<lambda>cp'.
     modify (\<lambda>s. s\<lparr> dr_current_payload := cp' \<rparr>)))))))))"

text \<open>The import that a payload ends with, for the record of imports.\<close>

definition cp_import :: "CurrentPayload \<Rightarrow> (PayloadDigest \<times> u64 \<times> u64 \<times> bytes) list" where
  "cp_import cp =
     (case cp of
        Some state \<Rightarrow>
          (case cp_writer state of
             Some chunks \<Rightarrow> [(cp_payload_digest state, cp_total_length state, cp_offset state, concat chunks)]
           | None \<Rightarrow> [])
      | None \<Rightarrow> [])"

definition on_send_payload ::
  "('s, 'cap, 'sg, 'blob) data_env \<Rightarrow> DataSendPayload \<Rightarrow> (('s, 'cap) DataReceiver, unit) prog" where
  "on_send_payload v message =
     rbind (gets dr_current_payload) (\<lambda>cp.
     let (r, cp') = cp_recv_chunk (de_import_alive v cp) (dsp_bytes message) cp in
     rbind (modify (\<lambda>s. s\<lparr> dr_current_payload := cp' \<rparr>)) (\<lambda>_.
     rbind (try_anyhow r) (\<lambda>_.
     if cp_is_complete cp'
     then
       (let (r', cp'') = cp_finalize (de_import_stream v) cp' in
        rbind (modify (\<lambda>s. s\<lparr> dr_current_payload := cp'' \<rparr>)) (\<lambda>_.
        rbind (try_res r') (\<lambda>_.
        modify (\<lambda>s. s\<lparr> dr_imported := dr_imported s @ cp_import cp' \<rparr>))))
     else ret ())))"

fun on_message :: "('s, 'cap, 'sg, 'blob) data_env \<Rightarrow> 'sg DataMessage \<Rightarrow> (('s, 'cap) DataReceiver, unit) prog" where
  "on_message v (DM_SendEntry message) = on_send_entry v message"
| "on_message v (DM_SendPayload message) = on_send_payload v message"
| "on_message v (DM_SetMetadata _) = ret ()"

fun on_messages :: "('s, 'cap, 'sg, 'blob) data_env \<Rightarrow> 'sg DataMessage list \<Rightarrow> (('s, 'cap) DataReceiver, unit) prog" where
  "on_messages v [] = ret ()"
| "on_messages v (m # ms) = rbind (on_message v m) (\<lambda>_. on_messages v ms)"

definition dr_bind_tokens :: "'cap SetupBindStaticToken list \<Rightarrow> ('s, 'cap) DataReceiver \<Rightarrow> ('s, 'cap) DataReceiver" where
  "dr_bind_tokens msgs s =
     s\<lparr> dr_static_tokens := fold (\<lambda>m r. snd (tokens_bind_theirs (sbs_static_token m) r)) msgs (dr_static_tokens s) \<rparr>"

section \<open>Transfer of entries\<close>

text \<open>
  The sender sends entries; for each, the receiver binds the tokens and handles the messages that were sent.
\<close>

fun data_transfer ::
  "('s, 'cap, 'sg, 'blob) data_env \<Rightarrow> ('s, 'cap, 'sg, 'blob) data_env \<Rightarrow> ('cap, 'sg) AuthorisedEntry list
   \<Rightarrow> ('cap, 'sg) DataSender \<Rightarrow> ('s, 'cap) DataReceiver \<Rightarrow> (('cap, 'sg) DataSender \<times> ('s, 'cap) DataReceiver) option" where
  "data_transfer vs vr [] s r = Some (s, r)"
| "data_transfer vs vr (e # es) s r =
     (case send_entry vs e s of
        (Done _, s') \<Rightarrow>
          (case on_messages vr (drop (length (ds_sent s)) (ds_sent s'))
               (dr_bind_tokens (drop (length (ds_sent_tokens s)) (ds_sent_tokens s')) r) of
             (Done _, r') \<Rightarrow> data_transfer vs vr es s' r'
           | _ \<Rightarrow> None)
      | _ \<Rightarrow> None)"

fun ingest_all ::
  "('s, 'cap, 'sg, 'blob) data_env \<Rightarrow> ('cap, 'sg) AuthorisedEntry list \<Rightarrow> 's \<Rightarrow> 's option" where
  "ingest_all v [] st = Some st"
| "ingest_all v (e # es) st =
     (case de_ingest_entry v e (Remote (de_session_id v)) st of
        Some (Inr (_, st')) \<Rightarrow> ingest_all v es st'
      | _ \<Rightarrow> None)"

text \<open>
  The chunks of a stream hold at least as many bytes as announced, and only the last one reaches that number.
\<close>

definition stream_fits :: "u64 \<Rightarrow> bytes \<Rightarrow> bool" where
  "stream_fits len data \<longleftrightarrow>
     data \<noteq> [] \<and> length data < 2 ^ 64 \<and> unat len \<le> length data \<and>
     (CHUNK_SIZE < length data \<longrightarrow> length (concat (butlast (chunks_of CHUNK_SIZE data))) < unat len)"

definition payload_ready ::
  "('s, 'cap, 'sg, 'blob) data_env \<Rightarrow> ('s, 'cap, 'sg, 'blob) data_env \<Rightarrow> Entry \<Rightarrow> bytes \<Rightarrow> bool" where
  "payload_ready vs vr e data \<longleftrightarrow>
     (\<exists>blob. de_get_payload vs (e_payload_digest e) = Ok (Some blob) \<and> de_verifiable_stream vs blob 0 = Ok data) \<and>
     stream_fits (e_payload_length e) data \<and>
     de_import_stream vr (e_payload_digest e) (e_payload_length e) 0 data = Ok ()"

lemma prog_simps:
  "rbind (modify f) g s = g () (f s)" "rbind (gets h) k s = k (h s) s"
  "rbind (try_res (Inr a)) k s = k a s" "rbind (unwrap (Some a)) k s = k a s" "rbind (try_anyhow (Inr a)) k s = k a s"
  "rbind (ret a) k s = k a s" "modify f s = (Done (), f s)" "ret a s = (Done a, s)"
  by (simp_all add: rbind_def modify_def gets_def try_res_def unwrap_def try_anyhow_def ret_def)

lemma rbind_Done: "m s = (Done a, s') \<Longrightarrow> rbind m f s = f a s'"
  by (simp add: rbind_def)

lemma ds_send_all_run: "\<not> ds_closed s \<Longrightarrow> ds_send_all ms s = (Done (), s\<lparr> ds_sent := ds_sent s @ ms \<rparr>)"
  by (induction ms arbitrary: s) (simp_all add: prog_simps rbind_def ds_send_def)

lemma send_entry_run:
  assumes "\<not> ds_closed s" "bind_and_send_ours (t_capability (ae_token e)) (ds_static_tokens s) = (h, toks, tokens)"
    and "de_get_payload v (e_payload_digest (ae_entry e)) = Ok (Some blob)" "de_verifiable_stream v blob 0 = Ok data"
  shows "send_entry v e s = (Done (), s\<lparr> ds_static_tokens := tokens, ds_sent_tokens := ds_sent_tokens s @ toks,
    ds_sent := ds_sent s @ DM_SendEntry \<lparr> dse_entry = ae_entry e, dse_static_token_handle = h,
        dse_dynamic_token = t_signature (ae_token e), dse_offset = 0 \<rparr>
      # map (\<lambda>bytes. DM_SendPayload \<lparr> dsp_bytes = bytes \<rparr>) (chunks_of CHUNK_SIZE data) \<rparr>)"
proof -
  let ?s = "s\<lparr> ds_static_tokens := tokens, ds_sent_tokens := ds_sent_tokens s @ toks \<rparr>"
  have bind: "ds_bind_and_send_ours (t_capability (ae_token e)) s = (Done h, ?s)"
    using assms(1,2) by (simp add: ds_bind_and_send_ours_def)
  have send: "ds_send m ?s = (Done (), ?s\<lparr> ds_sent := ds_sent s @ [m] \<rparr>)" for m
    using assms(1) by (simp add: ds_send_def)
  show ?thesis
    using assms by (simp add: send_entry_def Let_def rbind_Done bind send send_payload_chunked_def prog_simps
        ds_send_all_run)
qed

lemma recv_chunks_run:
  assumes "\<And>cp. de_import_alive v cp" "dr_current_payload r = Some st" "cs \<noteq> []"
    and "unat (cp_received_length st) + length (concat cs) < 2 ^ 64"
    and "unat (cp_expected_length st) \<le> unat (cp_received_length st) + length (concat cs)"
    and "1 < length cs \<Longrightarrow> unat (cp_received_length st) + length (concat (butlast cs)) < unat (cp_expected_length st)"
    and "data = concat (case cp_writer st of None \<Rightarrow> [] | Some ws \<Rightarrow> ws) @ concat cs"
    and "de_import_stream v (cp_payload_digest st) (cp_total_length st) (cp_offset st) data = Ok ()"
  shows "on_messages v (map (\<lambda>bytes. DM_SendPayload \<lparr> dsp_bytes = bytes \<rparr>) cs) r = (Done (),
    r\<lparr> dr_current_payload := None,
       dr_imported := dr_imported r @ [(cp_payload_digest st, cp_total_length st, cp_offset st, data)] \<rparr>)"
  using assms(2-)
proof (induction cs arbitrary: r st)
  case (Cons c cs)
  let ?st = "st\<lparr> cp_writer := Some ((case cp_writer st of None \<Rightarrow> [] | Some cs \<Rightarrow> cs) @ [c]),
      cp_received_length := cp_received_length st + of_nat (length c) \<rparr>"
  let ?r = "r\<lparr> dr_current_payload := Some ?st \<rparr>"
  have u: "unat (cp_received_length ?st) = unat (cp_received_length st) + length c"
    using Cons.prems(3) by (simp add: unat_word_ariths unat_of_nat)
  have chunk: "cp_recv_chunk (de_import_alive v (dr_current_payload r)) c (dr_current_payload r) = (Ok (), Some ?st)"
    using assms(1) Cons.prems(1) by (simp add: cp_recv_chunk_def Let_def)
  show ?case
  proof (cases "cs = []")
    case True
    then have done_: "cp_is_complete (Some ?st)"
      using Cons.prems(4) u by (simp add: cp_is_complete_def word_le_nat_alt)
    have "on_message v (DM_SendPayload \<lparr> dsp_bytes = c \<rparr>) r = (Done (), ?r\<lparr> dr_current_payload := None,
        dr_imported := dr_imported r @ [(cp_payload_digest st, cp_total_length st, cp_offset st, data)] \<rparr>)"
      using True done_ Cons.prems(6,7) chunk
      by (simp add: on_send_payload_def prog_simps Let_def cp_finalize_def cp_import_def)
    then show ?thesis using True by (simp add: rbind_def prog_simps)
  next
    case False
    then have less: "unat (cp_received_length st) + length (concat (butlast (c # cs))) < unat (cp_expected_length st)"
      using Cons.prems(5) by simp
    then have "\<not> cp_is_complete (Some ?st)"
      using u False by (simp add: cp_is_complete_def word_le_nat_alt)
    then have step: "on_message v (DM_SendPayload \<lparr> dsp_bytes = c \<rparr>) r = (Done (), ?r)"
      using chunk by (simp add: on_send_payload_def prog_simps)
    have "on_messages v (map (\<lambda>bytes. DM_SendPayload \<lparr> dsp_bytes = bytes \<rparr>) cs) ?r = (Done (),
        ?r\<lparr> dr_current_payload := None,
          dr_imported := dr_imported ?r @ [(cp_payload_digest ?st, cp_total_length ?st, cp_offset ?st, data)] \<rparr>)"
      by (rule Cons.IH [of ?r ?st])
        (use Cons.prems less u False in \<open>simp_all del: length_concat unat_of_nat add: split: option.splits\<close>)
    then show ?thesis using step by (simp add: rbind_def)
  qed
qed simp

lemma dr_authorise_run:
  assumes "rm_get (tk_theirs (dr_static_tokens r)) h = Some (t_capability (ae_token e))"
    and "de_is_authorised_write v (ae_entry e) (ae_token e)"
  shows "dr_authorise_entry v \<lparr> dse_entry = ae_entry e, dse_static_token_handle = h,
      dse_dynamic_token = t_signature (ae_token e), dse_offset = 0 \<rparr> r = (Done e, r)"
proof -
  have tok: "\<lparr> t_capability = t_capability (ae_token e), t_signature = t_signature (ae_token e) \<rparr> = ae_token e"
    by (cases "ae_token e") simp
  show ?thesis
    using assms
    by (simp add: dr_authorise_entry_def poll_authorise_entry_def rm_poll_get_eventually_def authorised_entry_new_def try_res_def tok)
qed

lemma on_send_entry_run:
  assumes "dr_current_payload r = None" "rm_get (tk_theirs (dr_static_tokens r)) h = Some (t_capability (ae_token e))"
    and "de_is_authorised_write v (ae_entry e) (ae_token e)"
    and "de_ingest_entry v e (Remote (de_session_id v)) (dr_store r) = Some (Ok (b, st'))"
  shows "on_message v (DM_SendEntry \<lparr> dse_entry = ae_entry e, dse_static_token_handle = h,
      dse_dynamic_token = t_signature (ae_token e), dse_offset = 0 \<rparr>) r =
    (Done (), r\<lparr> dr_store := st', dr_current_payload := Some \<lparr> cp_payload_digest = e_payload_digest (ae_entry e),
       cp_expected_length = e_payload_length (ae_entry e), cp_received_length = 0,
       cp_total_length = e_payload_length (ae_entry e), cp_offset = 0, cp_writer = None \<rparr> \<rparr>)"
  using dr_authorise_run [OF assms(2,3)] assms(1,4)
  by (simp add: on_send_entry_def rbind_Done prog_simps cp_ensure_none_def cp_is_active_def cp_set_def)

lemma chunks_of_Nil_iff: "0 < n \<Longrightarrow> chunks_of n bs = [] \<longleftrightarrow> bs = []"
  by (simp add: chunks_of.simps [of n bs])

lemma concat_chunks_of: "0 < n \<Longrightarrow> concat (chunks_of n bs) = bs"
proof (induction n bs rule: chunks_of.induct)
  case (1 n bs)
  then show ?case by (cases "bs = []") (simp_all add: chunks_of.simps [of n bs] chunks_of.simps [of n "[]"])
qed

lemma length_chunks_of: "0 < n \<Longrightarrow> 1 < length (chunks_of n bs) \<Longrightarrow> n < length bs"
  by (cases "drop n bs = []") (auto simp: chunks_of.simps [of n bs] chunks_of.simps [of n "[]"] split: if_splits)

lemma CHUNK_SIZE_pos: "0 < CHUNK_SIZE"
  by (simp add: CHUNK_SIZE_def)

lemma bind_ours_next:
  assumes "bind_and_send_ours tok s = (h, msgs, s')" "\<not> rm_full (tk_ours s)"
  shows "unat (next_handle (tk_ours s')) \<le> unat (next_handle (tk_ours s)) + 1"
proof (cases "rm_find tok (tk_ours s)")
  case None
  obtain k ws m where b: "rm_bind StaticTokenHandle tok (tk_ours s) = (k, ws, m)" by (metis prod_cases3)
  then have "s' = s\<lparr> tk_ours := m \<rparr>"
    using assms(1) by (auto simp: bind_and_send_ours_def rm_bind_if_new_cases None)
  then show ?thesis
    using rm_bind_effect(2) [OF b] assms(2) by (simp add: unat_Suc_u64 rm_not_full)
next
  case (Some k)
  then show ?thesis using assms(1) by (auto simp: bind_and_send_ours_def rm_bind_if_new_cases)
qed

lemma data_transfer_one:
  assumes "tokens_mirror (ds_static_tokens s) (dr_static_tokens r)" "\<not> rm_full (tk_ours (ds_static_tokens s))"
    and "\<not> ds_closed s" "dr_current_payload r = None" "\<And>cp. de_import_alive vr cp"
    and "de_is_authorised_write vr (ae_entry e) (ae_token e)" "payload_ready vs vr (ae_entry e) data"
    and "de_ingest_entry vr e (Remote (de_session_id vr)) (dr_store r) = Some (Ok (b, st'))"
  obtains s' r' where "data_transfer vs vr (e # es) s r = data_transfer vs vr es s' r'"
    and "tokens_mirror (ds_static_tokens s') (dr_static_tokens r')" "\<not> ds_closed s'" "dr_current_payload r' = None"
    and "dr_store r' = st'" "dr_imported r' = dr_imported r @ [(e_payload_digest (ae_entry e), e_payload_length (ae_entry e), 0, data)]"
    and "unat (next_handle (tk_ours (ds_static_tokens s'))) \<le> unat (next_handle (tk_ours (ds_static_tokens s))) + 1"
proof -
  obtain h toks tokens where bind: "bind_and_send_ours (t_capability (ae_token e)) (ds_static_tokens s) = (h, toks, tokens)"
    by (metis prod_cases3)
  obtain blob where blob: "de_get_payload vs (e_payload_digest (ae_entry e)) = Ok (Some blob)" "de_verifiable_stream vs blob 0 = Ok data"
    and fits: "stream_fits (e_payload_length (ae_entry e)) data"
    and imp: "de_import_stream vr (e_payload_digest (ae_entry e)) (e_payload_length (ae_entry e)) 0 data = Ok ()"
    using assms(7) by (auto simp: payload_ready_def)
  let ?chunks = "chunks_of CHUNK_SIZE data" and ?r = "dr_bind_tokens toks r"
  let ?m = "\<lparr> dse_entry = ae_entry e, dse_static_token_handle = h, dse_dynamic_token = t_signature (ae_token e), dse_offset = 0 \<rparr>"
  let ?cp = "\<lparr> cp_payload_digest = e_payload_digest (ae_entry e), cp_expected_length = e_payload_length (ae_entry e),
    cp_received_length = 0, cp_total_length = e_payload_length (ae_entry e), cp_offset = 0, cp_writer = None \<rparr>"
  note send = send_entry_run [OF assms(3) bind blob]
  have tok: "tokens_mirror tokens (dr_static_tokens ?r)" "rm_get (tk_theirs (dr_static_tokens ?r)) h = Some (t_capability (ae_token e))"
    using bind_ours_mirror [OF assms(1,2) bind refl] by (simp_all add: dr_bind_tokens_def)
  have cur: "dr_current_payload ?r = None" "dr_store ?r = dr_store r" "dr_imported ?r = dr_imported r"
    using assms(4) by (simp_all add: dr_bind_tokens_def)
  have entry: "on_message vr (DM_SendEntry ?m) ?r = (Done (), ?r\<lparr> dr_store := st', dr_current_payload := Some ?cp \<rparr>)"
    using assms(8) cur by (intro on_send_entry_run [OF _ tok(2) assms(6)]) simp_all
  have chunks: "on_messages vr (map (\<lambda>bytes. DM_SendPayload \<lparr> dsp_bytes = bytes \<rparr>) ?chunks) (?r\<lparr> dr_store := st', dr_current_payload := Some ?cp \<rparr>) =
      (Done (), ?r\<lparr> dr_store := st', dr_current_payload := None,
        dr_imported := dr_imported r @ [(e_payload_digest (ae_entry e), e_payload_length (ae_entry e), 0, data)] \<rparr>)"
    using recv_chunks_run [where v = vr and cs = ?chunks and st = ?cp and data = data
        and r = "?r\<lparr> dr_store := st', dr_current_payload := Some ?cp \<rparr>"] fits imp assms(5) cur
      concat_chunks_of [OF CHUNK_SIZE_pos, of data] length_chunks_of [OF CHUNK_SIZE_pos, of data]
    by (simp add: chunks_of_Nil_iff [OF CHUNK_SIZE_pos] stream_fits_def del: length_concat)
  have msgs: "on_messages vr (DM_SendEntry ?m # map (\<lambda>bytes. DM_SendPayload \<lparr> dsp_bytes = bytes \<rparr>) ?chunks) ?r =
      (Done (), ?r\<lparr> dr_store := st', dr_current_payload := None,
        dr_imported := dr_imported r @ [(e_payload_digest (ae_entry e), e_payload_length (ae_entry e), 0, data)] \<rparr>)"
    using entry chunks by (simp add: rbind_Done del: on_message.simps)
  have "unat (next_handle (tk_ours tokens)) \<le> unat (next_handle (tk_ours (ds_static_tokens s))) + 1"
    by (rule bind_ours_next [OF bind assms(2)])
  then show thesis
    using send tok(1) assms(3)
    by (intro that [of "snd (send_entry vs e s)" "?r\<lparr> dr_store := st', dr_current_payload := None,
        dr_imported := dr_imported r @ [(e_payload_digest (ae_entry e), e_payload_length (ae_entry e), 0, data)] \<rparr>"])
      (simp_all add: msgs del: on_messages.simps)
qed



text \<open>An environment on which the hypotheses hold: the payload of every digest is the five bytes \<open>1, \<dots>, 5\<close>.\<close>

definition demo_data_env :: "((unit, u8) AuthorisedEntry list, unit, u8, unit) data_env" where
  "demo_data_env = \<lparr> de_wdm = demo_wdm, de_waker = 0, de_session_id = 1,
     de_ingest_entry = (\<lambda>e origin st. Some (Ok (True, st @ [e]))), de_is_authorised_write = (\<lambda>e token. True),
     de_get_payload = (\<lambda>digest. Ok (Some ())), de_verifiable_stream = (\<lambda>blob offset. Ok [1, 2, 3, 4, 5]),
     de_import_alive = (\<lambda>cp. True), de_import_stream = (\<lambda>digest total_len offset data. Ok ()) \<rparr>"

lemma demo_stream_fits: "stream_fits 5 [1, 2, 3, 4, 5]"
  by (simp add: stream_fits_def CHUNK_SIZE_def)


section \<open>What the sender forwards\<close>

definition streams_ok :: "('cap, 'sg) DataSender \<Rightarrow> bool" where
  "streams_ok s \<longleftrightarrow> (\<forall>stream \<in> set (ds_entry_stream s). es_params stream = data_params (ds_session_id s))"

lemma ds_on_intersection_streams: "streams_ok s \<Longrightarrow> streams_ok (snd (ds_on_intersection i s))"
  by (auto simp: streams_ok_def ds_on_intersection_def modify_def mem_subscribe_area_def Let_def split: option.splits)

lemma eq_poll_loop_filter:
  assumes "eq_poll_loop q flt cx j = Some x"
  shows "fst x = Ready (Some (n, e)) \<longrightarrow> flt e"
proof (rule eq_poll_loop.raw_induct [where P = "\<lambda>q flt cx j x. fst x = Ready (Some (n, e)) \<longrightarrow> flt e", OF _ assms])
  fix loop and q :: "'a EventQueue" and flt cx j x
  assume IH: "\<And>q flt cx j x. loop q flt cx j = Some x \<Longrightarrow> fst x = Ready (Some (n, e)) \<longrightarrow> flt e"
    and step: "(case eq_get q j of
        Some event \<Rightarrow> if flt event then Some (Ready (Some (j + 1, event)), q) else loop q flt cx (j + 1)
      | None \<Rightarrow> Some (Pending, q\<lparr> eq_wakers := eq_wakers q @ [cx] \<rparr>)) = Some x"
  show "fst x = Ready (Some (n, e)) \<longrightarrow> flt e"
    using step IH [of q flt cx "j + 1" x] by (auto split: option.splits if_splits)
qed

lemma eq_poll_filter: "eq_poll_next q i flt cx = Some (Ready (Some (n, e)), q') \<Longrightarrow> flt e"
  using eq_poll_loop_filter [of q flt cx i "(Ready (Some (n, e)), q')" n e] by (auto simp: eq_poll_next_def split: if_splits)

text \<open>
  The streams of the sender only deliver ingestions, of entries in their area that did not come from this
  session, so the arm for other events is unreachable and no entry is sent back to where it came from.
\<close>

lemma sender_streams_deliver:
  assumes "es_params stream = data_params sid" "stream_poll_next w cx store stream = Some (Ready (Some event), store', stream')"
  obtains i e origin where "event = Ingested i e origin" "origin \<noteq> Remote sid" "e_namespace_id (ae_entry e) = es_namespace stream"
    "w_area_includes_entry w (es_area stream) (ae_entry e)"
proof -
  have "event_matches w (es_namespace stream) (es_area stream) (es_params stream) event"
    using assms(2)
    by (auto simp: stream_poll_next_def Let_def dest!: eq_poll_filter split: option.splits poll.splits prod.splits)
  then show thesis
    using that assms(1)
    by (cases event) (auto simp: data_params_def params_includes_origin_def split: EntryOrigin.splits)
qed

section \<open>Payloads that end a session\<close>

text \<open>
  An entry whose payload the sender does not have is sent without chunks; the receiver keeps waiting for the
  payload, and the next entry is refused after it was ingested.
\<close>

lemma missing_payload_sends_entry_only:
  assumes "\<not> ds_closed s" "bind_and_send_ours (t_capability (ae_token e)) (ds_static_tokens s) = (h, toks, tokens)"
    and "de_get_payload v (e_payload_digest (ae_entry e)) = Ok None"
  shows "send_entry v e s = (Done (), s\<lparr> ds_static_tokens := tokens, ds_sent_tokens := ds_sent_tokens s @ toks,
    ds_sent := ds_sent s @ [DM_SendEntry \<lparr> dse_entry = ae_entry e, dse_static_token_handle = h,
        dse_dynamic_token = t_signature (ae_token e), dse_offset = 0 \<rparr>] \<rparr>)"
proof -
  let ?s = "s\<lparr> ds_static_tokens := tokens, ds_sent_tokens := ds_sent_tokens s @ toks \<rparr>"
  have bind: "ds_bind_and_send_ours (t_capability (ae_token e)) s = (Done h, ?s)"
    using assms(1,2) by (simp add: ds_bind_and_send_ours_def)
  have send: "ds_send m ?s = (Done (), ?s\<lparr> ds_sent := ds_sent s @ [m] \<rparr>)" for m
    using assms(1) by (simp add: ds_send_def)
  show ?thesis
    using assms by (simp add: send_entry_def Let_def rbind_Done bind send send_payload_chunked_def prog_simps)
qed

lemma entry_after_missing_payload_refused:
  assumes "dr_current_payload r = Some st" "cp_writer st = None"
    and "rm_get (tk_theirs (dr_static_tokens r)) h = Some (t_capability (ae_token e))"
    and "de_is_authorised_write v (ae_entry e) (ae_token e)"
    and "de_ingest_entry v e (Remote (de_session_id v)) (dr_store r) = Some (Ok (b, st'))"
  shows "on_message v (DM_SendEntry \<lparr> dse_entry = ae_entry e, dse_static_token_handle = h,
      dse_dynamic_token = t_signature (ae_token e), dse_offset = 0 \<rparr>) r =
    (Failed E_InvalidMessageInCurrentState, r\<lparr> dr_store := st' \<rparr>)"
  using dr_authorise_run [OF assms(3,4)] assms(1,2,5)
  by (simp add: on_send_entry_def rbind_Done prog_simps cp_ensure_none_def cp_is_active_def cp_set_def)
    (simp add: rbind_def try_res_def)

text \<open>
  The received length counts the bytes of the stream: a stream that is longer than the payload, with a further
  chunk after the announced length was reached, is cut off, and its next chunk is refused.
\<close>

lemma long_stream_refused:
  assumes "dr_current_payload r = None"
  shows "fst (on_message v (DM_SendPayload m) r) = Failed (E_Store ''received a message that is not valid in the current session state'')"
  using assms by (simp add: on_send_payload_def rbind_def gets_def modify_def cp_recv_chunk_def try_anyhow_def try_res_def)

end
