(* ===== verification/Caps_Auth.thy ===== *)
theory Caps_Auth
  imports Memory_Store Aoi_Finder
begin

text \<open>
  Capabilities: the selectors of \<open>interest.rs\<close>, the in-memory store of capabilities
  (\<open>CapsStore\<close> in \<open>store/memory.rs\<close>) and \<open>Auth\<close> (\<open>store/auth.rs\<close>), which imports, creates, selects and
  delegates capabilities and resolves interests.  The functions of the crate \<open>meadowcap\<close> are the record
  \<open>meadowcap_fns\<close>, with what the code relies on in \<open>meadowcap_laws\<close>.  \<open>Auth\<close> is generic over a storage;
  the functions of the traits \<open>CapsStorage\<close> and \<open>SecretStorage\<close> that it calls are the record
  \<open>auth_storage\<close>, with the contract as the locale \<open>caps_storage\<close>.  The only panic is that of
  \<open>Point::into_area\<close>, so an operation that selects a capability returns an \<open>option\<close>.
\<close>

section \<open>The crate meadowcap\<close>

datatype AccessMode = AM_Read | AM_Write

record ('cap, 'scap, 'sk) meadowcap_fns =
  mc_granted_namespace :: "'cap \<Rightarrow> NamespaceId"
  mc_receiver :: "'cap \<Rightarrow> UserId"
  mc_granted_area :: "'cap \<Rightarrow> Area"
  mc_access_mode :: "'cap \<Rightarrow> AccessMode"
  mc_delegations_len :: "'cap \<Rightarrow> nat"
  mc_new_communal :: "NamespaceId \<Rightarrow> UserId \<Rightarrow> AccessMode \<Rightarrow> string + 'cap"
  mc_new_owned :: "NamespaceId \<Rightarrow> 'sk NamespaceSecretKey \<Rightarrow> UserId \<Rightarrow> AccessMode \<Rightarrow> string + 'cap"
  mc_delegate :: "'cap \<Rightarrow> 'sk UserSecretKey \<Rightarrow> UserId \<Rightarrow> Area \<Rightarrow> string + 'cap"
  mc_subspace_new :: "NamespaceId \<Rightarrow> 'sk NamespaceSecretKey \<Rightarrow> UserId \<Rightarrow> SignatureError + 'scap"
  mc_subspace_delegate :: "'scap \<Rightarrow> 'sk UserSecretKey \<Rightarrow> UserId \<Rightarrow> SignatureError + 'scap"
  mc_show_signature_error :: "SignatureError \<Rightarrow> string"

text \<open>
  A new capability is for the given namespace, user and mode; a delegation is signed by the receiver,
  keeps namespace and mode, and hands an included area to the new user.
\<close>

definition meadowcap_laws ::
  "wdm \<Rightarrow> ('sk UserSecretKey \<Rightarrow> UserId) \<Rightarrow> ('cap, 'scap, 'sk) meadowcap_fns \<Rightarrow> bool" where
  "meadowcap_laws w uid mc \<longleftrightarrow>
     (\<forall>ns u m c. mc_new_communal mc ns u m = Ok c \<longrightarrow>
        mc_granted_namespace mc c = ns \<and> mc_receiver mc c = u \<and> mc_access_mode mc c = m) \<and>
     (\<forall>ns k u m c. mc_new_owned mc ns k u m = Ok c \<longrightarrow>
        mc_granted_namespace mc c = ns \<and> mc_receiver mc c = u \<and> mc_access_mode mc c = m) \<and>
     (\<forall>c k u a c'. mc_delegate mc c k u a = Ok c' \<longrightarrow>
        uid k = mc_receiver mc c \<and> w_area_includes_area w (mc_granted_area mc c) a \<and>
        mc_granted_namespace mc c' = mc_granted_namespace mc c \<and> mc_access_mode mc c' = mc_access_mode mc c \<and>
        mc_receiver mc c' = u \<and> mc_granted_area mc c' = a)"

definition includes_transitive :: "wdm \<Rightarrow> bool" where
  "includes_transitive w \<longleftrightarrow> (\<forall>a b c. w_area_includes_area w a b \<longrightarrow> w_area_includes_area w b c \<longrightarrow>
     w_area_includes_area w a c)"

section \<open>Read authorisations\<close>

definition ra_new :: "'cap \<Rightarrow> 'scap option \<Rightarrow> ('cap, 'scap) ReadAuthorisation"
  where "ra_new read_cap subspace_cap = \<lparr> ra_read_cap = read_cap, ra_subspace_cap = subspace_cap \<rparr>"

definition ra_new_owned ::
  "('sk, 'vk, 'sg, 'rng) ed25519 \<Rightarrow> ('cap, 'scap, 'sk) meadowcap_fns \<Rightarrow> 'sk NamespaceSecretKey \<Rightarrow> UserId
   \<Rightarrow> string + ('cap, 'scap) ReadAuthorisation" where
  "ra_new_owned d mc namespace_secret user_key =
     res_bind (mc_new_owned mc (npk_id d (nsk_public_key d namespace_secret)) namespace_secret user_key AM_Read) (\<lambda>read_cap.
     res_bind (map_err (mc_show_signature_error mc)
       (mc_subspace_new mc (npk_id d (nsk_public_key d namespace_secret)) namespace_secret user_key)) (\<lambda>subspace_cap.
     Ok (ra_new read_cap (Some subspace_cap))))"

definition ra_delegate ::
  "('cap, 'scap, 'sk) meadowcap_fns \<Rightarrow> ('cap, 'scap) ReadAuthorisation \<Rightarrow> 'sk UserSecretKey \<Rightarrow> UserId \<Rightarrow> Area
   \<Rightarrow> string + ('cap, 'scap) ReadAuthorisation" where
  "ra_delegate mc self user_secret new_user new_area =
     res_bind
       (case ra_subspace_cap self of
          Some subspace_cap \<Rightarrow>
            if a_subspace new_area = AnySubspace \<and> a_path new_area \<noteq> []
            then res_bind (map_err (mc_show_signature_error mc) (mc_subspace_delegate mc subspace_cap user_secret new_user))
                   (\<lambda>c. Ok (Some c))
            else Ok None
        | None \<Rightarrow> Ok None) (\<lambda>subspace_cap.
     res_bind (mc_delegate mc (ra_read_cap self) user_secret new_user new_area) (\<lambda>read_cap.
     Ok (ra_new read_cap subspace_cap)))"

definition is_wider_than :: "wdm \<Rightarrow> ('cap, 'scap, 'sk) meadowcap_fns \<Rightarrow> 'cap \<Rightarrow> 'cap \<Rightarrow> bool" where
  "is_wider_than w mc a b \<longleftrightarrow>
     w_area_includes_area w (mc_granted_area mc a) (mc_granted_area mc b) \<or>
     mc_granted_area mc a = mc_granted_area mc b \<and> mc_delegations_len mc a < mc_delegations_len mc b"

section \<open>Selectors and interests\<close>

datatype UserSelector = AnyUser | ExactUser UserId

fun us_includes :: "UserSelector \<Rightarrow> UserId \<Rightarrow> bool" where
  "us_includes AnyUser user \<longleftrightarrow> True"
| "us_includes (ExactUser u) user \<longleftrightarrow> u = user"

datatype AreaSelector = WidestArea | ContainsArea Area | ContainsPoint Point

fun as_is_covered_by :: "wdm \<Rightarrow> AreaSelector \<Rightarrow> Area \<Rightarrow> bool option" where
  "as_is_covered_by w WidestArea other = Some True"
| "as_is_covered_by w (ContainsArea area) other = Some (w_area_includes_area w other area)"
| "as_is_covered_by w (ContainsPoint point) other = area_includes_point w other point"

record CapSelector =
  cs_namespace_id :: NamespaceId
  cs_receiver :: UserSelector
  cs_granted_area :: AreaSelector

definition cs_new :: "NamespaceId \<Rightarrow> UserSelector \<Rightarrow> AreaSelector \<Rightarrow> CapSelector" where
  "cs_new namespace_id receiver granted_area =
     \<lparr> cs_namespace_id = namespace_id, cs_receiver = receiver, cs_granted_area = granted_area \<rparr>"

definition cs_with_user :: "NamespaceId \<Rightarrow> UserId \<Rightarrow> CapSelector"
  where "cs_with_user namespace_id user_id = cs_new namespace_id (ExactUser user_id) WidestArea"

definition cs_any :: "NamespaceId \<Rightarrow> CapSelector"
  where "cs_any namespace = cs_new namespace AnyUser WidestArea"

definition cs_for_entry :: "Entry \<Rightarrow> UserSelector \<Rightarrow> CapSelector" where
  "cs_for_entry entry user_id =
     \<lparr> cs_namespace_id = e_namespace_id entry, cs_receiver = user_id,
       cs_granted_area = ContainsPoint (point_from_entry entry) \<rparr>"

definition cs_is_covered_by :: "wdm \<Rightarrow> ('cap, 'scap, 'sk) meadowcap_fns \<Rightarrow> CapSelector \<Rightarrow> 'cap \<Rightarrow> bool option" where
  "cs_is_covered_by w mc s cap =
     (if cs_namespace_id s = mc_granted_namespace mc cap \<and> us_includes (cs_receiver s) (mc_receiver mc cap)
      then as_is_covered_by w (cs_granted_area s) (mc_granted_area mc cap)
      else Some False)"

datatype AreaOfInterestSelector = WidestAoi | ExactAois "AreaOfInterest list"

datatype Interests = AllInterests | Select "(CapSelector, AreaOfInterestSelector) hash_map"

text \<open>A \<open>HashSet\<close> is a list without repetitions in the order of its iteration.\<close>

definition hs_insert :: "'a \<Rightarrow> 'a list \<Rightarrow> 'a list"
  where "hs_insert x xs = (if x \<in> set xs then xs else xs @ [x])"

definition hs_extend :: "'a list \<Rightarrow> 'a list \<Rightarrow> 'a list"
  where "hs_extend xs ys = fold hs_insert ys xs"

type_synonym InterestBuilder = "(CapSelector, AreaOfInterestSelector) hash_map"

definition ib_add :: "CapSelector \<Rightarrow> AreaOfInterestSelector \<Rightarrow> InterestBuilder \<Rightarrow> InterestBuilder"
  where "ib_add cap areas b = hm_insert cap areas b"

definition ib_add_full_cap :: "CapSelector \<Rightarrow> InterestBuilder \<Rightarrow> InterestBuilder"
  where "ib_add_full_cap cap b = ib_add cap WidestAoi b"

definition ib_add_area :: "CapSelector \<Rightarrow> AreaOfInterest list \<Rightarrow> InterestBuilder \<Rightarrow> InterestBuilder" where
  "ib_add_area cap aois b =
     (case map_of b cap of
        None \<Rightarrow> hm_insert cap (ExactAois (hs_extend [] aois)) b
      | Some WidestAoi \<Rightarrow> b
      | Some (ExactAois existing) \<Rightarrow> hm_insert cap (ExactAois (hs_extend existing aois)) b)"

definition ib_build :: "InterestBuilder \<Rightarrow> Interests"
  where "ib_build b = Select b"

definition area_into_area_of_interest :: "Area \<Rightarrow> AreaOfInterest"
  where "area_into_area_of_interest a = \<lparr> aoi_area = a, aoi_max_count = 0, aoi_max_size = 0 \<rparr>"

datatype RestrictArea = NoRestriction | Restrict Area

fun ra_or_default :: "RestrictArea \<Rightarrow> Area \<Rightarrow> Area" where
  "ra_or_default NoRestriction dflt = dflt"
| "ra_or_default (Restrict area) dflt = area"

record DelegateTo =
  dt_user :: UserId
  dt_restrict_area :: RestrictArea

section \<open>Capability packs\<close>

datatype ('cap, 'scap) CapabilityPack = PackRead "('cap, 'scap) ReadAuthorisation" | PackWrite 'cap

fun pack_cap :: "('cap, 'scap) CapabilityPack \<Rightarrow> 'cap" where
  "pack_cap (PackRead auth) = ra_read_cap auth"
| "pack_cap (PackWrite cap) = cap"

fun pack_mode :: "('cap, 'scap) CapabilityPack \<Rightarrow> AccessMode" where
  "pack_mode (PackRead auth) = AM_Read"
| "pack_mode (PackWrite cap) = AM_Write"

fun cp_receiver :: "('cap, 'scap, 'sk) meadowcap_fns \<Rightarrow> ('cap, 'scap) CapabilityPack \<Rightarrow> UserId" where
  "cp_receiver mc (PackRead auth) = mc_receiver mc (ra_read_cap auth)"
| "cp_receiver mc (PackWrite cap) = mc_receiver mc cap"

fun cp_namespace :: "('cap, 'scap, 'sk) meadowcap_fns \<Rightarrow> ('cap, 'scap) CapabilityPack \<Rightarrow> NamespaceId" where
  "cp_namespace mc (PackRead auth) = ra_namespace (mc_granted_namespace mc) auth"
| "cp_namespace mc (PackWrite cap) = mc_granted_namespace mc cap"

fun cp_is_valid :: "('cap, 'scap, 'sk) meadowcap_fns \<Rightarrow> ('cap, 'scap) CapabilityPack \<Rightarrow> bool" where
  "cp_is_valid mc (PackRead auth) \<longleftrightarrow> mc_access_mode mc (ra_read_cap auth) = AM_Read"
| "cp_is_valid mc (PackWrite cap) \<longleftrightarrow> mc_access_mode mc cap = AM_Write"

definition cp_validate :: "('cap, 'scap, 'sk) meadowcap_fns \<Rightarrow> ('cap, 'scap) CapabilityPack \<Rightarrow> AuthError + unit"
  where "cp_validate mc p = (if \<not> cp_is_valid mc p then Err AE_InvalidPack else Ok ())"

section \<open>The in-memory store of capabilities\<close>

record ('cap, 'scap) CapsStore =
  write_caps :: "(NamespaceId, 'cap list) hash_map"
  read_caps :: "(NamespaceId, ('cap, 'scap) ReadAuthorisation list) hash_map"

definition caps_default :: "('cap, 'scap) CapsStore"
  where "caps_default = \<lparr> write_caps = [], read_caps = [] \<rparr>"

definition unwrap_or_default :: "'a list option \<Rightarrow> 'a list"
  where "unwrap_or_default x = (case x of None \<Rightarrow> [] | Some xs \<Rightarrow> xs)"

fun filter_opt :: "('a \<Rightarrow> bool option) \<Rightarrow> 'a list \<Rightarrow> 'a list option" where
  "filter_opt f [] = Some []"
| "filter_opt f (x # xs) =
     Option.bind (f x) (\<lambda>b. map_option (\<lambda>ys. if b then x # ys else ys) (filter_opt f xs))"

fun iter_reduce :: "('a \<Rightarrow> 'a \<Rightarrow> 'a) \<Rightarrow> 'a list \<Rightarrow> 'a option" where
  "iter_reduce f [] = None"
| "iter_reduce f (x # xs) = Some (foldl f x xs)"

definition caps_get_write_cap ::
  "wdm \<Rightarrow> ('cap, 'scap, 'sk) meadowcap_fns \<Rightarrow> ('cap, 'scap) CapsStore \<Rightarrow> CapSelector \<Rightarrow> (string + 'cap option) option" where
  "caps_get_write_cap w mc s selector =
     map_option (\<lambda>candidates. Ok (iter_reduce (\<lambda>prev next. if is_wider_than w mc next prev then next else prev) candidates))
       (filter_opt (cs_is_covered_by w mc selector) (unwrap_or_default (map_of (write_caps s) (cs_namespace_id selector))))"

definition caps_get_read_cap ::
  "wdm \<Rightarrow> ('cap, 'scap, 'sk) meadowcap_fns \<Rightarrow> ('cap, 'scap) CapsStore \<Rightarrow> CapSelector
   \<Rightarrow> (string + ('cap, 'scap) ReadAuthorisation option) option" where
  "caps_get_read_cap w mc s selector =
     map_option (\<lambda>candidates. Ok (iter_reduce
         (\<lambda>prev next. if is_wider_than w mc (ra_read_cap next) (ra_read_cap prev) then next else prev) candidates))
       (filter_opt (\<lambda>auth. cs_is_covered_by w mc selector (ra_read_cap auth))
         (unwrap_or_default (map_of (read_caps s) (cs_namespace_id selector))))"

definition caps_list_write_caps :: "('cap, 'scap) CapsStore \<Rightarrow> NamespaceId option \<Rightarrow> string + 'cap list" where
  "caps_list_write_caps s namespace =
     Ok (case namespace of
           Some ns \<Rightarrow> unwrap_or_default (map_of (write_caps s) ns)
         | None \<Rightarrow> concat (map snd (write_caps s)))"

definition caps_list_read_caps ::
  "('cap, 'scap) CapsStore \<Rightarrow> NamespaceId option \<Rightarrow> string + ('cap, 'scap) ReadAuthorisation list" where
  "caps_list_read_caps s namespace =
     Ok (case namespace of
           Some ns \<Rightarrow> unwrap_or_default (map_of (read_caps s) ns)
         | None \<Rightarrow> concat (map snd (read_caps s)))"

fun caps_insert ::
  "('cap, 'scap, 'sk) meadowcap_fns \<Rightarrow> ('cap, 'scap) CapabilityPack \<Rightarrow> ('cap, 'scap) CapsStore \<Rightarrow> ('cap, 'scap) CapsStore" where
  "caps_insert mc (PackRead cap) s =
     (let ns = mc_granted_namespace mc (ra_read_cap cap)
      in s\<lparr> read_caps := hm_insert ns (unwrap_or_default (map_of (read_caps s) ns) @ [cap]) (read_caps s) \<rparr>)"
| "caps_insert mc (PackWrite cap) s =
     (let ns = mc_granted_namespace mc cap
      in s\<lparr> write_caps := hm_insert ns (unwrap_or_default (map_of (write_caps s) ns) @ [cap]) (write_caps s) \<rparr>)"

section \<open>Authorisation\<close>

record ('c, 'cap, 'scap, 'sk) auth_storage =
  as_get_user :: "UserId \<Rightarrow> string + 'sk UserSecretKey option"
  as_get_namespace :: "NamespaceId \<Rightarrow> string + 'sk NamespaceSecretKey option"
  as_insert :: "('cap, 'scap) CapabilityPack \<Rightarrow> 'c \<Rightarrow> string + 'c"
  as_list_read_caps :: "'c \<Rightarrow> NamespaceId option \<Rightarrow> string + ('cap, 'scap) ReadAuthorisation list"
  as_get_write_cap :: "'c \<Rightarrow> CapSelector \<Rightarrow> (string + 'cap option) option"
  as_get_read_cap :: "'c \<Rightarrow> CapSelector \<Rightarrow> (string + ('cap, 'scap) ReadAuthorisation option) option"

definition mem_auth_storage ::
  "wdm \<Rightarrow> ('cap, 'scap, 'sk) meadowcap_fns \<Rightarrow> 'sk SecretStore
   \<Rightarrow> (('cap, 'scap) CapsStore, 'cap, 'scap, 'sk) auth_storage" where
  "mem_auth_storage w mc secrets =
     \<lparr> as_get_user = ss_get_user secrets,
       as_get_namespace = ss_get_namespace secrets,
       as_insert = \<lambda>p s. Ok (caps_insert mc p s),
       as_list_read_caps = caps_list_read_caps,
       as_get_write_cap = caps_get_write_cap w mc,
       as_get_read_cap = caps_get_read_cap w mc \<rparr>"

text \<open>The \<open>?\<close> operator on a computation that may also panic.\<close>

definition pr_bind :: "('e + 'a) option \<Rightarrow> ('a \<Rightarrow> ('e + 'b) option) \<Rightarrow> ('e + 'b) option" where
  "pr_bind m f = (case m of None \<Rightarrow> None | Some (Inl e) \<Rightarrow> Some (Inl e) | Some (Inr a) \<Rightarrow> f a)"

lemma pr_bind_eq_Ok: "pr_bind m f = Some (Inr b) \<longleftrightarrow> (\<exists>a. m = Some (Inr a) \<and> f a = Some (Inr b))"
  by (auto simp: pr_bind_def split: option.splits sum.splits)

lemma map_err_eq_Inr: "map_err f r = Inr a \<longleftrightarrow> r = Inr a"
  by (cases r) simp_all

lemma ok_or_eq_Inr: "ok_or e x = Inr a \<longleftrightarrow> x = Some a"
  by (cases x) simp_all

lemmas ok_results = pr_bind_eq_Ok res_bind_eq_Inr map_err_eq_Inr ok_or_eq_Inr

definition auth_get_write_cap ::
  "('c, 'cap, 'scap, 'sk) auth_storage \<Rightarrow> 'c \<Rightarrow> CapSelector \<Rightarrow> (AuthError + 'cap option) option"
  where "auth_get_write_cap S c selector = map_option (map_err AE_Other) (as_get_write_cap S c selector)"

definition auth_get_read_cap ::
  "('c, 'cap, 'scap, 'sk) auth_storage \<Rightarrow> 'c \<Rightarrow> CapSelector \<Rightarrow> (AuthError + ('cap, 'scap) ReadAuthorisation option) option"
  where "auth_get_read_cap S c selector = map_option (map_err AE_Other) (as_get_read_cap S c selector)"

definition auth_list_read_caps ::
  "('c, 'cap, 'scap, 'sk) auth_storage \<Rightarrow> 'c \<Rightarrow> string + ('cap, 'scap) ReadAuthorisation list"
  where "auth_list_read_caps S c = as_list_read_caps S c None"

fun import_caps ::
  "('cap, 'scap, 'sk) meadowcap_fns \<Rightarrow> ('c, 'cap, 'scap, 'sk) auth_storage \<Rightarrow> ('cap, 'scap) CapabilityPack list
   \<Rightarrow> 'c \<Rightarrow> (AuthError + unit) \<times> 'c" where
  "import_caps mc S [] c = (Ok (), c)"
| "import_caps mc S (cap # caps) c =
     (case cp_validate mc cap of
        Inl e \<Rightarrow> (Err e, c)
      | Inr _ \<Rightarrow>
          (let user_id = cp_receiver mc cap
           in case has_user (as_get_user S) user_id of
                Inl e \<Rightarrow> (Err (AE_Other e), c)
              | Inr b \<Rightarrow>
                  if \<not> b then (Err (AE_MissingUserSecret user_id), c)
                  else (case as_insert S cap c of
                          Inl e \<Rightarrow> (Err (AE_Other e), c)
                        | Inr c' \<Rightarrow> import_caps mc S caps c')))"

fun insert_caps_unchecked ::
  "('c, 'cap, 'scap, 'sk) auth_storage \<Rightarrow> ('cap, 'scap) CapabilityPack list \<Rightarrow> 'c \<Rightarrow> (AuthError + unit) \<times> 'c" where
  "insert_caps_unchecked S [] c = (Ok (), c)"
| "insert_caps_unchecked S (cap # caps) c =
     (case as_insert S cap c of
        Inl e \<Rightarrow> (Err (AE_Other e), c)
      | Inr c' \<Rightarrow> insert_caps_unchecked S caps c')"

text \<open>The areas that a selector asks for, given the capability that was selected.\<close>

definition granted_aoi :: "('cap, 'scap, 'sk) meadowcap_fns \<Rightarrow> ('cap, 'scap) ReadAuthorisation \<Rightarrow> AreaOfInterest"
  where "granted_aoi mc auth = \<lparr> aoi_area = mc_granted_area mc (ra_read_cap auth), aoi_max_count = 0, aoi_max_size = 0 \<rparr>"

fun resolve_select ::
  "('cap, 'scap, 'sk) meadowcap_fns \<Rightarrow> ('c, 'cap, 'scap, 'sk) auth_storage \<Rightarrow> 'c
   \<Rightarrow> (CapSelector \<times> AreaOfInterestSelector) list \<Rightarrow> ('cap, 'scap) InterestMap
   \<Rightarrow> (AuthError + ('cap, 'scap) InterestMap) option" where
  "resolve_select mc S c [] out = Some (Ok out)"
| "resolve_select mc S c ((cap_selector, aoi_selector) # interests) out =
     pr_bind (auth_get_read_cap S c cap_selector) (\<lambda>cap.
       case cap of
         None \<Rightarrow> resolve_select mc S c interests out
       | Some cap \<Rightarrow>
           (let entry = unwrap_or_default (map_of out cap);
                entry' = (case aoi_selector of
                            WidestAoi \<Rightarrow> hs_insert (granted_aoi mc cap) entry
                          | ExactAois aois \<Rightarrow> fold hs_insert aois entry)
            in resolve_select mc S c interests (hm_insert cap entry' out)))"

fun resolve_interests ::
  "('cap, 'scap, 'sk) meadowcap_fns \<Rightarrow> ('c, 'cap, 'scap, 'sk) auth_storage \<Rightarrow> Interests \<Rightarrow> 'c
   \<Rightarrow> (AuthError + ('cap, 'scap) InterestMap) option" where
  "resolve_interests mc S AllInterests c =
     Some (res_bind (map_err AE_Other (auth_list_read_caps S c)) (\<lambda>auths.
       Ok (fold (\<lambda>auth out. hm_insert auth [granted_aoi mc auth] out) auths [])))"
| "resolve_interests mc S (Select interests) c = resolve_select mc S c interests []"

definition create_read_cap ::
  "('cap, 'scap, 'sk) meadowcap_fns \<Rightarrow> ('c, 'cap, 'scap, 'sk) auth_storage \<Rightarrow> NamespaceId \<Rightarrow> UserId
   \<Rightarrow> AuthError + ('cap, 'scap) CapabilityPack" where
  "create_read_cap mc S namespace_key user_key =
     res_bind
       (if ns_is_communal namespace_key
        then res_bind (map_err AE_CreateCommunalCap (mc_new_communal mc namespace_key user_key AM_Read)) (\<lambda>read_cap.
          Ok (ra_new read_cap None))
        else res_bind (map_err AE_Other (as_get_namespace S namespace_key)) (\<lambda>secret.
          res_bind (ok_or (AE_MissingNamespaceSecret namespace_key) secret) (\<lambda>namespace_secret.
          res_bind (map_err AE_CreateOwnedCap (mc_new_owned mc namespace_key namespace_secret user_key AM_Read)) (\<lambda>read_cap.
          res_bind (map_err AE_SubspaceCapDelegationFailed
            (mc_subspace_new mc namespace_key namespace_secret user_key)) (\<lambda>subspace_cap.
          Ok (ra_new read_cap (Some subspace_cap))))))) (\<lambda>cap.
     Ok (PackRead cap))"

definition create_write_cap ::
  "('cap, 'scap, 'sk) meadowcap_fns \<Rightarrow> ('c, 'cap, 'scap, 'sk) auth_storage \<Rightarrow> NamespaceId \<Rightarrow> UserId
   \<Rightarrow> AuthError + ('cap, 'scap) CapabilityPack" where
  "create_write_cap mc S namespace_key user_key =
     res_bind
       (if ns_is_communal namespace_key
        then map_err AE_CreateCommunalCap (mc_new_communal mc namespace_key user_key AM_Write)
        else res_bind (map_err AE_Other (as_get_namespace S namespace_key)) (\<lambda>secret.
          res_bind (ok_or (AE_MissingNamespaceSecret namespace_key) secret) (\<lambda>namespace_secret.
          map_err AE_CreateOwnedCap (mc_new_owned mc namespace_key namespace_secret user_key AM_Write)))) (\<lambda>cap.
     Ok (PackWrite cap))"

definition create_full_caps ::
  "('cap, 'scap, 'sk) meadowcap_fns \<Rightarrow> ('c, 'cap, 'scap, 'sk) auth_storage \<Rightarrow> NamespaceId \<Rightarrow> UserId \<Rightarrow> 'c
   \<Rightarrow> (AuthError + ('cap, 'scap) CapabilityPack list) \<times> 'c" where
  "create_full_caps mc S namespace_id user_id c =
     (case res_bind (create_read_cap mc S namespace_id user_id) (\<lambda>read_cap.
             res_bind (create_write_cap mc S namespace_id user_id) (\<lambda>write_cap. Ok [read_cap, write_cap])) of
        Inl e \<Rightarrow> (Err e, c)
      | Inr pack \<Rightarrow>
          (case insert_caps_unchecked S pack c of
             (Inl e, c') \<Rightarrow> (Err e, c')
           | (Inr _, c') \<Rightarrow> (Ok pack, c')))"

definition delegate_read_cap ::
  "('cap, 'scap, 'sk) meadowcap_fns \<Rightarrow> ('c, 'cap, 'scap, 'sk) auth_storage \<Rightarrow> CapSelector \<Rightarrow> UserId \<Rightarrow> RestrictArea \<Rightarrow> 'c
   \<Rightarrow> (AuthError + ('cap, 'scap) CapabilityPack) option" where
  "delegate_read_cap mc S frm to restrict_area c =
     pr_bind (auth_get_read_cap S c frm) (\<lambda>found. Some (
       res_bind (ok_or AE_NoCapability found) (\<lambda>auth.
         let read_cap = ra_read_cap auth; user_id = mc_receiver mc read_cap in
         res_bind (map_err AE_Other (as_get_user S user_id)) (\<lambda>secret.
         res_bind (ok_or (AE_MissingUserSecret user_id) secret) (\<lambda>user_secret.
         let area = ra_or_default restrict_area (mc_granted_area mc read_cap) in
         res_bind (map_err AE_DelegationFailed (mc_delegate mc read_cap user_secret to area)) (\<lambda>new_read_cap.
         res_bind
           (case ra_subspace_cap auth of
              Some subspace_cap \<Rightarrow>
                if a_subspace area = AnySubspace
                then res_bind (map_err AE_SubspaceCapDelegationFailed (mc_subspace_delegate mc subspace_cap user_secret to))
                       (\<lambda>x. Ok (Some x))
                else Ok None
            | None \<Rightarrow> Ok None) (\<lambda>new_subspace_cap.
         Ok (PackRead (ra_new new_read_cap new_subspace_cap)))))))))"

definition delegate_write_cap ::
  "('cap, 'scap, 'sk) meadowcap_fns \<Rightarrow> ('c, 'cap, 'scap, 'sk) auth_storage \<Rightarrow> CapSelector \<Rightarrow> UserId \<Rightarrow> RestrictArea \<Rightarrow> 'c
   \<Rightarrow> (AuthError + ('cap, 'scap) CapabilityPack) option" where
  "delegate_write_cap mc S frm to restrict_area c =
     pr_bind (auth_get_write_cap S c frm) (\<lambda>found. Some (
       res_bind (ok_or AE_NoCapability found) (\<lambda>cap.
         res_bind (map_err AE_Other (as_get_user S (mc_receiver mc cap))) (\<lambda>secret.
         res_bind (ok_or (AE_MissingUserSecret (mc_receiver mc cap)) secret) (\<lambda>user_secret.
         let area = ra_or_default restrict_area (mc_granted_area mc cap) in
         res_bind (map_err AE_DelegationFailed (mc_delegate mc cap user_secret to area)) (\<lambda>new_cap.
         Ok (PackWrite new_cap)))))))"

text \<open>The packs that \<open>delegate_full_caps\<close> creates, before it stores them.\<close>

definition delegate_packs ::
  "('cap, 'scap, 'sk) meadowcap_fns \<Rightarrow> ('c, 'cap, 'scap, 'sk) auth_storage \<Rightarrow> CapSelector \<Rightarrow> AccessMode \<Rightarrow> DelegateTo
   \<Rightarrow> 'c \<Rightarrow> (AuthError + ('cap, 'scap) CapabilityPack list) option" where
  "delegate_packs mc S frm access_mode to c =
     pr_bind (delegate_read_cap mc S frm (dt_user to) (dt_restrict_area to) c) (\<lambda>read_cap.
       if access_mode = AM_Write
       then pr_bind (delegate_write_cap mc S frm (dt_user to) (dt_restrict_area to) c) (\<lambda>write_cap.
         Some (Ok [read_cap, write_cap]))
       else Some (Ok [read_cap]))"

definition delegate_full_caps ::
  "('cap, 'scap, 'sk) meadowcap_fns \<Rightarrow> ('c, 'cap, 'scap, 'sk) auth_storage \<Rightarrow> CapSelector \<Rightarrow> AccessMode \<Rightarrow> DelegateTo
   \<Rightarrow> bool \<Rightarrow> 'c \<Rightarrow> ((AuthError + ('cap, 'scap) CapabilityPack list) \<times> 'c) option" where
  "delegate_full_caps mc S frm access_mode to store c =
     map_option
       (\<lambda>r. case r of
          Inl e \<Rightarrow> (Err e, c)
        | Inr out \<Rightarrow>
            if store
            then (case insert_caps_unchecked S out c of
                    (Inl e, c') \<Rightarrow> (Err e, c')
                  | (Inr _, c') \<Rightarrow> (Ok out, c'))
            else (Ok out, c))
       (delegate_packs mc S frm access_mode to c)"

section \<open>The interface of a capability store\<close>

text \<open>
  What \<open>Auth\<close> relies on: the packs that a store holds, what insertion adds, and that a selected or
  listed capability is one of them and covered by the selector.
\<close>

abbreviation cap_covers :: "wdm \<Rightarrow> ('cap, 'scap, 'sk) meadowcap_fns \<Rightarrow> CapSelector \<Rightarrow> 'cap \<Rightarrow> bool"
  where "cap_covers w mc sel cap \<equiv> cs_is_covered_by w mc sel cap = Some True"

text \<open>A delegated pack comes from a held capability that the selector covers, whose receiver's secret we have.\<close>

definition delegated_from ::
  "wdm \<Rightarrow> ('cap, 'scap, 'sk) meadowcap_fns \<Rightarrow> ('c, 'cap, 'scap, 'sk) auth_storage
   \<Rightarrow> ('cap, 'scap) CapabilityPack set \<Rightarrow> CapSelector \<Rightarrow> UserId \<Rightarrow> RestrictArea \<Rightarrow> ('cap, 'scap) CapabilityPack \<Rightarrow> bool" where
  "delegated_from w mc S packs sel to restrict p \<longleftrightarrow>
     (\<exists>q k. q \<in> packs \<and> pack_mode q = pack_mode p \<and> cap_covers w mc sel (pack_cap q) \<and>
        as_get_user S (mc_receiver mc (pack_cap q)) = Ok (Some k) \<and>
        mc_delegate mc (pack_cap q) k to (ra_or_default restrict (mc_granted_area mc (pack_cap q))) = Ok (pack_cap p))"

locale caps_storage =
  fixes w :: wdm
    and mc :: "('cap, 'scap, 'sk) meadowcap_fns"
    and S :: "('c, 'cap, 'scap, 'sk) auth_storage"
    and held :: "'c \<Rightarrow> ('cap, 'scap) CapabilityPack set"
  assumes insert_held: "as_insert S p c = Ok c' \<Longrightarrow> held c' = insert p (held c)"
    and get_read_held: "as_get_read_cap S c sel = Some (Ok (Some a)) \<Longrightarrow>
      PackRead a \<in> held c \<and> cap_covers w mc sel (ra_read_cap a)"
    and get_write_held: "as_get_write_cap S c sel = Some (Ok (Some b)) \<Longrightarrow>
      PackWrite b \<in> held c \<and> cap_covers w mc sel b"
    and list_read_held: "as_list_read_caps S c None = Ok l \<Longrightarrow> PackRead ` set l = {p \<in> held c. pack_mode p = AM_Read}"
begin

lemma insert_unchecked_held:
  "insert_caps_unchecked S ps c = (r, c') \<Longrightarrow> held c \<subseteq> held c' \<and> held c' \<subseteq> held c \<union> set ps \<and>
     (r = Ok () \<longrightarrow> held c' = held c \<union> set ps)"
proof (induction ps arbitrary: c)
  case (Cons p ps)
  show ?case
  proof (cases "as_insert S p c")
    case (Inr c1)
    then show ?thesis
      using Cons.IH [of c1] Cons.prems insert_held [OF Inr] by auto
  qed (use Cons.prems in auto)
qed auto

lemma delegate_read_from:
  assumes "delegate_read_cap mc S sel to restrict c = Some (Ok p)"
  shows "pack_mode p = AM_Read \<and> delegated_from w mc S (held c) sel to restrict p"
proof -
  obtain a k nc sc where a: "as_get_read_cap S c sel = Some (Ok (Some a))"
    and k: "as_get_user S (mc_receiver mc (ra_read_cap a)) = Ok (Some k)"
    and nc: "mc_delegate mc (ra_read_cap a) k to (ra_or_default restrict (mc_granted_area mc (ra_read_cap a))) = Ok nc"
    and p: "p = PackRead (ra_new nc sc)"
    using assms
    by (auto simp: delegate_read_cap_def auth_get_read_cap_def ok_results Let_def)
  show ?thesis
    unfolding delegated_from_def p using get_read_held [OF a] k nc
    by (intro conjI exI [of _ "PackRead a"] exI [of _ k]) (simp_all add: ra_new_def)
qed

lemma delegate_write_from:
  assumes "delegate_write_cap mc S sel to restrict c = Some (Ok p)"
  shows "pack_mode p = AM_Write \<and> delegated_from w mc S (held c) sel to restrict p"
proof -
  obtain b k nc where b: "as_get_write_cap S c sel = Some (Ok (Some b))"
    and k: "as_get_user S (mc_receiver mc b) = Ok (Some k)"
    and nc: "mc_delegate mc b k to (ra_or_default restrict (mc_granted_area mc b)) = Ok nc"
    and p: "p = PackWrite nc"
    using assms
    by (auto simp: delegate_write_cap_def auth_get_write_cap_def ok_results Let_def)
  show ?thesis
    unfolding delegated_from_def p using get_write_held [OF b] k nc
    by (intro conjI exI [of _ "PackWrite b"] exI [of _ k]) simp_all
qed

lemma delegate_packs_from:
  "delegate_packs mc S sel mode to c = Some (Ok ps) \<Longrightarrow> p \<in> set ps \<Longrightarrow>
     delegated_from w mc S (held c) sel (dt_user to) (dt_restrict_area to) p"
  using delegate_read_from [of sel "dt_user to" "dt_restrict_area to" c]
    delegate_write_from [of sel "dt_user to" "dt_restrict_area to" c]
  by (auto simp: delegate_packs_def ok_results split: if_splits)

lemma delegate_full_from:
  assumes "delegate_full_caps mc S sel mode to store c = Some (r, c')" "p \<in> held c'" "p \<notin> held c"
  shows "delegated_from w mc S (held c) sel (dt_user to) (dt_restrict_area to) p"
proof -
  obtain x where x: "delegate_packs mc S sel mode to c = Some x"
    using assms(1) by (auto simp: delegate_full_caps_def)
  with assms obtain ps where ps: "x = Ok ps" and store
    by (cases x) (auto simp: delegate_full_caps_def split: if_splits)
  obtain r' where "insert_caps_unchecked S ps c = (r', c')"
    using assms(1) x ps \<open>store\<close> by (auto simp: delegate_full_caps_def split: prod.splits sum.splits)
  then have "p \<in> set ps"
    using insert_unchecked_held [of ps c r' c'] assms(2,3) by blast
  then show ?thesis
    using delegate_packs_from x ps by blast
qed

lemma delegate_full_held:
  assumes "delegate_full_caps mc S sel mode to store c = Some (Ok ps, c')"
  shows "delegate_packs mc S sel mode to c = Some (Ok ps)" "held c' = (if store then held c \<union> set ps else held c)"
proof -
  obtain x where x: "delegate_packs mc S sel mode to c = Some x"
    using assms(1) by (auto simp: delegate_full_caps_def)
  with assms show "delegate_packs mc S sel mode to c = Some (Ok ps)"
    by (cases x) (auto simp: delegate_full_caps_def split: if_splits prod.splits sum.splits)
  with assms show "held c' = (if store then held c \<union> set ps else held c)"
    using insert_unchecked_held [of ps c] by (auto simp: delegate_full_caps_def split: if_splits prod.splits sum.splits)
qed

end

section \<open>The in-memory store holds the contract\<close>

definition caps_held :: "('cap, 'scap) CapsStore \<Rightarrow> ('cap, 'scap) CapabilityPack set" where
  "caps_held s = PackRead ` set (concat (map snd (read_caps s))) \<union> PackWrite ` set (concat (map snd (write_caps s)))"

lemma filter_opt_eq: "filter_opt f xs = Some ys \<Longrightarrow> ys = filter (\<lambda>x. f x = Some True) xs \<and> (\<forall>x \<in> set xs. f x \<noteq> None)"
  by (induction xs arbitrary: ys) (auto simp: bind_eq_Some_conv)

lemma foldl_choice: "(\<And>a b. f a b = a \<or> f a b = b) \<Longrightarrow> foldl f x xs \<in> set (x # xs)"
proof (induction xs arbitrary: x)
  case (Cons y ys)
  show ?case
    using Cons.IH [of "f x y", OF Cons.prems] Cons.prems [of x y] by auto
qed simp

lemma iter_reduce_choice: "(\<And>a b. f a b = a \<or> f a b = b) \<Longrightarrow> iter_reduce f xs = Some r \<Longrightarrow> r \<in> set xs"
  using foldl_choice [of f] by (cases xs) auto

lemma bucket_subset: "set (unwrap_or_default (map_of m k)) \<subseteq> set (concat (map snd m))"
  by (cases "map_of m k") (auto simp: unwrap_or_default_def dest: map_of_SomeD)

lemma bucket_insert:
  "set (concat (map snd (hm_insert k (unwrap_or_default (map_of m k) @ [x]) m))) = insert x (set (concat (map snd m)))"
  by (induction m) (auto simp: unwrap_or_default_def)

lemma caps_insert_held: "caps_held (caps_insert mc p s) = insert p (caps_held s)"
  by (cases p) (simp_all add: caps_held_def Let_def bucket_insert del: set_concat set_map)

lemma select_from:
  assumes "map_option (\<lambda>cs. Ok (iter_reduce (\<lambda>prev next. if g next prev then next else prev) cs)) (filter_opt f xs)
    = Some (Ok (Some a))"
  shows "a \<in> set xs \<and> f a = Some True"
proof -
  obtain cs where cs: "filter_opt f xs = Some cs"
    and r: "iter_reduce (\<lambda>prev next. if g next prev then next else prev) cs = Some a"
    using assms by (cases "filter_opt f xs") simp_all
  have "a \<in> set cs"
    by (rule iter_reduce_choice [OF _ r]) simp
  then show ?thesis
    using filter_opt_eq [OF cs] by simp
qed

lemma caps_get_read_cap_from:
  "caps_get_read_cap w mc s sel = Some (Ok (Some a)) \<Longrightarrow> PackRead a \<in> caps_held s \<and> cap_covers w mc sel (ra_read_cap a)"
  unfolding caps_get_read_cap_def
  by (drule select_from) (use bucket_subset [of "read_caps s" "cs_namespace_id sel"] in \<open>auto simp: caps_held_def\<close>)

lemma caps_get_write_cap_from:
  "caps_get_write_cap w mc s sel = Some (Ok (Some a)) \<Longrightarrow> PackWrite a \<in> caps_held s \<and> cap_covers w mc sel a"
  unfolding caps_get_write_cap_def
  by (drule select_from) (use bucket_subset [of "write_caps s" "cs_namespace_id sel"] in \<open>auto simp: caps_held_def\<close>)

interpretation mem_caps: caps_storage w mc "mem_auth_storage w mc secrets" caps_held
  for w mc secrets
proof
  show "caps_held c' = insert p (caps_held c)" if "as_insert (mem_auth_storage w mc secrets) p c = Ok c'" for p c c'
    using that caps_insert_held [of mc p c] by (simp add: mem_auth_storage_def)
  show "PackRead ` set l = {p \<in> caps_held c. pack_mode p = AM_Read}"
    if "as_list_read_caps (mem_auth_storage w mc secrets) c None = Ok l" for c l
    using that by (auto simp: mem_auth_storage_def caps_list_read_caps_def caps_held_def)
qed (simp_all add: mem_auth_storage_def caps_get_read_cap_from caps_get_write_cap_from)

section \<open>Selection\<close>

text \<open>Every capability is filed under its namespace, in one bucket per namespace.\<close>

definition caps_store_inv :: "('cap, 'scap, 'sk) meadowcap_fns \<Rightarrow> ('cap, 'scap) CapsStore \<Rightarrow> bool" where
  "caps_store_inv mc s \<longleftrightarrow>
     (\<forall>(ns, as) \<in> set (read_caps s). \<forall>a \<in> set as. mc_granted_namespace mc (ra_read_cap a) = ns) \<and>
     (\<forall>(ns, bs) \<in> set (write_caps s). \<forall>b \<in> set bs. mc_granted_namespace mc b = ns) \<and>
     distinct (hm_keys (read_caps s)) \<and> distinct (hm_keys (write_caps s))"

lemma caps_default_inv: "caps_store_inv mc caps_default"
  by (simp add: caps_store_inv_def caps_default_def)

lemma buckets_insert:
  "(\<forall>(ns, as) \<in> set m. \<forall>a \<in> set as. g a = ns) \<Longrightarrow>
     \<forall>(ns, as) \<in> set (hm_insert (g x) (unwrap_or_default (map_of m (g x)) @ [x]) m). \<forall>a \<in> set as. g a = ns"
  by (induction m) (auto simp: unwrap_or_default_def)

lemma caps_insert_inv: "caps_store_inv mc s \<Longrightarrow> caps_store_inv mc (caps_insert mc p s)"
  using buckets_insert [of "read_caps s" "\<lambda>a. mc_granted_namespace mc (ra_read_cap a)"]
    buckets_insert [of "write_caps s" "mc_granted_namespace mc"]
  by (cases p) (simp_all add: caps_store_inv_def Let_def)

lemma bucket_complete:
  assumes "\<forall>(ns, as) \<in> set m. \<forall>a \<in> set as. g a = ns" "distinct (hm_keys m)" "a \<in> set (concat (map snd m))"
  shows "a \<in> set (unwrap_or_default (map_of m (g a)))"
proof -
  obtain ns as where "(ns, as) \<in> set m" "a \<in> set as"
    using assms(3) by auto
  moreover from this have "g a = ns"
    using assms(1) by auto
  ultimately show ?thesis
    using assms(2) by (simp add: unwrap_or_default_def)
qed

text \<open>Reducing by \<open>is_wider_than\<close> ends with a capability that none of the candidates strictly includes.\<close>

lemma reduce_widest:
  fixes area :: "'x \<Rightarrow> Area" and wider :: "'x \<Rightarrow> 'x \<Rightarrow> bool"
  assumes trans: "includes_transitive w"
    and wider: "\<And>a b. w_area_includes_area w (area a) (area b) \<Longrightarrow> wider a b"
    and wider_area: "\<And>a b. wider a b \<Longrightarrow> w_area_includes_area w (area a) (area b) \<or> area a = area b"
    and r: "r = foldl (\<lambda>prev next. if wider next prev then next else prev) x xs"
  shows "(w_area_includes_area w (area r) (area x) \<or> area r = area x) \<and>
    (\<forall>c \<in> set (x # xs). w_area_includes_area w (area c) (area r) \<longrightarrow> w_area_includes_area w (area r) (area c))"
  using r
proof (induction xs arbitrary: x)
  case (Cons y ys)
  note t = trans [unfolded includes_transitive_def, rule_format]
  show ?case
  proof (cases "wider y x")
    case True
    with Cons have "(w_area_includes_area w (area r) (area y) \<or> area r = area y) \<and>
        (\<forall>c \<in> set (y # ys). w_area_includes_area w (area c) (area r) \<longrightarrow> w_area_includes_area w (area r) (area c))"
      by simp
    moreover from this True have "w_area_includes_area w (area r) (area x) \<or> area r = area x"
      using wider_area [of y x] t [of "area r" "area y" "area x"] by metis
    ultimately show ?thesis
      by auto
  next
    case False
    with Cons have r: "w_area_includes_area w (area r) (area x) \<or> area r = area x"
        "\<forall>c \<in> set (x # ys). w_area_includes_area w (area c) (area r) \<longrightarrow> w_area_includes_area w (area r) (area c)"
      by simp_all
    moreover have "\<not> w_area_includes_area w (area y) (area r)"
      using False wider [of y x] r(1) t [of "area y" "area r" "area x"] by metis
    ultimately show ?thesis
      by auto
  qed
qed auto

lemma select_widest:
  assumes "includes_transitive w"
    and "map_option (\<lambda>cs. Ok (iter_reduce (\<lambda>prev next. if is_wider_than w mc (g next) (g prev) then next else prev) cs))
      (filter_opt f xs) = Some (Ok r)"
  shows "case r of
      None \<Rightarrow> \<forall>c \<in> set xs. f c = Some False
    | Some a \<Rightarrow> \<forall>c \<in> set xs. f c = Some True \<longrightarrow>
        w_area_includes_area w (mc_granted_area mc (g c)) (mc_granted_area mc (g a)) \<longrightarrow>
        w_area_includes_area w (mc_granted_area mc (g a)) (mc_granted_area mc (g c))"
proof -
  obtain cs where cs: "filter_opt f xs = Some cs"
    and r: "r = iter_reduce (\<lambda>prev next. if is_wider_than w mc (g next) (g prev) then next else prev) cs"
    using assms(2) by (cases "filter_opt f xs") simp_all
  show ?thesis
  proof (cases cs)
    case Nil
    have "filter (\<lambda>x. f x = Some True) xs = []" "\<forall>x \<in> set xs. f x \<noteq> None"
      using filter_opt_eq [OF cs] Nil by simp_all
    then have "f c = Some False" if "c \<in> set xs" for c
      using that by (cases "f c") (auto simp: filter_empty_conv)
    then show ?thesis
      by (simp add: r Nil)
  next
    case (Cons y ys)
    let ?a = "foldl (\<lambda>prev next. if is_wider_than w mc (g next) (g prev) then next else prev) y ys"
    have "\<forall>c \<in> set cs. w_area_includes_area w (mc_granted_area mc (g c)) (mc_granted_area mc (g ?a)) \<longrightarrow>
        w_area_includes_area w (mc_granted_area mc (g ?a)) (mc_granted_area mc (g c))"
      using reduce_widest [OF assms(1), of "\<lambda>x. mc_granted_area mc (g x)" "\<lambda>a b. is_wider_than w mc (g a) (g b)" ?a y ys]
      unfolding Cons by (auto simp: is_wider_than_def)
    moreover have "c \<in> set cs" if "c \<in> set xs" "f c = Some True" for c
      using filter_opt_eq [OF cs] that by simp
    moreover have "r = Some ?a"
      by (simp add: r Cons)
    ultimately show ?thesis
      by simp
  qed
qed

text \<open>
  C33: Selection of a capability.  \<open>get_read_cap\<close> returns none only when no held capability matches the
  selector; otherwise it returns a held capability that matches, and no other matching capability
  grants a strictly wider area.
\<close>

theorem caps_selection_widest:
  assumes "includes_transitive w" "caps_store_inv mc s" "caps_get_read_cap w mc s sel = Some (Ok r)"
  shows "case r of
      None \<Rightarrow> \<forall>c. PackRead c \<in> caps_held s \<longrightarrow> \<not> cap_covers w mc sel (ra_read_cap c)
    | Some a \<Rightarrow> PackRead a \<in> caps_held s \<and> cap_covers w mc sel (ra_read_cap a) \<and>
        (\<forall>c. PackRead c \<in> caps_held s \<longrightarrow> cap_covers w mc sel (ra_read_cap c) \<longrightarrow>
           w_area_includes_area w (mc_granted_area mc (ra_read_cap c)) (mc_granted_area mc (ra_read_cap a)) \<longrightarrow>
           w_area_includes_area w (mc_granted_area mc (ra_read_cap a)) (mc_granted_area mc (ra_read_cap c)))"
proof -
  let ?b = "unwrap_or_default (map_of (read_caps s) (cs_namespace_id sel))"
  have in_b: "c \<in> set ?b" if "PackRead c \<in> caps_held s" "cap_covers w mc sel (ra_read_cap c)" for c
  proof -
    have "mc_granted_namespace mc (ra_read_cap c) = cs_namespace_id sel"
      using that(2) by (auto simp: cs_is_covered_by_def split: if_splits)
    moreover have "c \<in> set (concat (map snd (read_caps s)))"
      using that(1) by (auto simp: caps_held_def)
    ultimately show ?thesis
      using bucket_complete [of "read_caps s" "\<lambda>a. mc_granted_namespace mc (ra_read_cap a)" c] assms(2)
      unfolding caps_store_inv_def by simp
  qed
  note wide = select_widest [OF assms(1), of mc ra_read_cap, OF assms(3) [unfolded caps_get_read_cap_def]]
  show ?thesis
  proof (cases r)
    case None
    then show ?thesis
      using wide in_b by fastforce
  next
    case (Some a)
    then show ?thesis
      using wide in_b caps_get_read_cap_from assms(3) by fastforce
  qed
qed

section \<open>Delegation\<close>

text \<open>A sequence of delegations; a failed one leaves the store as it is or with some of its packs.\<close>

record delegation =
  dl_from :: CapSelector
  dl_mode :: AccessMode
  dl_to :: DelegateTo
  dl_store :: bool

fun delegate_all ::
  "('cap, 'scap, 'sk) meadowcap_fns \<Rightarrow> ('c, 'cap, 'scap, 'sk) auth_storage \<Rightarrow> delegation list \<Rightarrow> 'c \<Rightarrow> 'c option" where
  "delegate_all mc S [] c = Some c"
| "delegate_all mc S (d # ds) c =
     Option.bind (delegate_full_caps mc S (dl_from d) (dl_mode d) (dl_to d) (dl_store d) c) (\<lambda>(r, c').
       delegate_all mc S ds c')"

text \<open>One pack stays within another: same kind, namespace and mode, and an included area.\<close>

definition pack_within :: "wdm \<Rightarrow> ('cap, 'scap, 'sk) meadowcap_fns \<Rightarrow> ('cap, 'scap) CapabilityPack
   \<Rightarrow> ('cap, 'scap) CapabilityPack \<Rightarrow> bool" where
  "pack_within w mc p q \<longleftrightarrow> pack_mode p = pack_mode q \<and>
     mc_granted_namespace mc (pack_cap p) = mc_granted_namespace mc (pack_cap q) \<and>
     mc_access_mode mc (pack_cap p) = mc_access_mode mc (pack_cap q) \<and>
     w_area_includes_area w (mc_granted_area mc (pack_cap q)) (mc_granted_area mc (pack_cap p))"

lemma delegated_within:
  assumes "meadowcap_laws w uid mc" "delegated_from w mc S packs sel to restrict p"
  shows "\<exists>q \<in> packs. pack_within w mc p q" "mc_receiver mc (pack_cap p) = to"
proof -
  obtain q k where "q \<in> packs" "pack_mode q = pack_mode p"
    and "mc_delegate mc (pack_cap q) k to (ra_or_default restrict (mc_granted_area mc (pack_cap q))) = Ok (pack_cap p)"
    using assms(2) unfolding delegated_from_def by blast
  moreover from this(3) assms(1) have "mc_receiver mc (pack_cap p) = to"
    "w_area_includes_area w (mc_granted_area mc (pack_cap q)) (mc_granted_area mc (pack_cap p))"
    "mc_granted_namespace mc (pack_cap p) = mc_granted_namespace mc (pack_cap q)"
    "mc_access_mode mc (pack_cap p) = mc_access_mode mc (pack_cap q)"
    unfolding meadowcap_laws_def by metis+
  ultimately show "\<exists>q \<in> packs. pack_within w mc p q" "mc_receiver mc (pack_cap p) = to"
    unfolding pack_within_def by metis+
qed

lemma pack_within_trans:
  "includes_transitive w \<Longrightarrow> pack_within w mc p q \<Longrightarrow> pack_within w mc q r \<Longrightarrow> pack_within w mc p r"
  unfolding pack_within_def includes_transitive_def by metis

text \<open>
  C17: Delegation confines.  After any sequence of delegations, each of which may store its packs, a
  pack in the store that was not there before is for one of the users delegated to, and its area is
  included in that of a capability of the same kind, mode and namespace that we held at the start.
\<close>

theorem delegation_confined:
  assumes "meadowcap_laws w uid mc" "includes_transitive w"
    and "delegate_all mc (mem_auth_storage w mc secrets) ds s = Some s'"
    and "p \<in> caps_held s'" "p \<notin> caps_held s"
  shows "(\<exists>q \<in> caps_held s. pack_within w mc p q) \<and> mc_receiver mc (pack_cap p) \<in> dt_user ` dl_to ` set ds"
  using assms(3-5)
proof (induction ds arbitrary: s)
  case (Cons d ds)
  obtain r s1 where d: "delegate_full_caps mc (mem_auth_storage w mc secrets) (dl_from d) (dl_mode d) (dl_to d) (dl_store d) s
      = Some (r, s1)" and ds: "delegate_all mc (mem_auth_storage w mc secrets) ds s1 = Some s'"
    using Cons.prems(1) by (auto simp: bind_eq_Some_conv)
  have new: "(\<exists>q \<in> caps_held s. pack_within w mc x q) \<and> mc_receiver mc (pack_cap x) = dt_user (dl_to d)"
    if "x \<in> caps_held s1" "x \<notin> caps_held s" for x
    using delegated_within [OF assms(1) mem_caps.delegate_full_from [OF d that]] by blast
  show ?case
  proof (cases "p \<in> caps_held s1")
    case True
    then show ?thesis
      using new [of p] Cons.prems(3) by auto
  next
    case False
    then obtain q where "q \<in> caps_held s1" "pack_within w mc p q"
      and "mc_receiver mc (pack_cap p) \<in> dt_user ` dl_to ` set ds"
      using Cons.IH [OF ds Cons.prems(2)] by blast
    then show ?thesis
      using new [of q] pack_within_trans [OF assms(2), of mc p q] by auto
  qed
qed simp

section \<open>Import\<close>

text \<open>
  Import.  Packs are stored in order up to the first that is refused, and stay stored; the import
  succeeds exactly when none is refused, and otherwise returns the reason of the first refusal: a pack
  of the wrong access mode, or one for a user whose secret key we do not have.
\<close>

theorem import_caps_outcome:
  "let S = mem_auth_storage w mc secrets;
       usable = (\<lambda>p. cp_is_valid mc p \<and> map_of (ss_user secrets) (cp_receiver mc p) \<noteq> None);
       (r, s') = import_caps mc S packs s
   in caps_held s' = caps_held s \<union> set (takeWhile usable packs) \<and>
      r = (case dropWhile usable packs of
             [] \<Rightarrow> Ok ()
           | p # _ \<Rightarrow> Err (if cp_is_valid mc p then AE_MissingUserSecret (cp_receiver mc p) else AE_InvalidPack))"
proof (induction packs arbitrary: s)
  case (Cons p ps)
  show ?case
    using Cons.IH [of "caps_insert mc p s"]
    by (cases "cp_is_valid mc p"; cases "map_of (ss_user secrets) (cp_receiver mc p)")
      (auto simp: cp_validate_def has_user_def mem_auth_storage_def ss_get_user_def Let_def caps_insert_held
        split: prod.splits)
qed (simp add: Let_def)

section \<open>Resolution of interests\<close>

fun selector_aois ::
  "('cap, 'scap, 'sk) meadowcap_fns \<Rightarrow> AreaOfInterestSelector \<Rightarrow> ('cap, 'scap) ReadAuthorisation \<Rightarrow> AreaOfInterest list" where
  "selector_aois mc WidestAoi auth = [granted_aoi mc auth]"
| "selector_aois mc (ExactAois aois) auth = aois"

abbreviation interest_set :: "('cap, 'scap) InterestMap \<Rightarrow> ('cap, 'scap) ReadAuthorisation \<Rightarrow> AreaOfInterest set"
  where "interest_set m a \<equiv> set (unwrap_or_default (map_of m a))"

lemma set_hs_insert [simp]: "set (hs_insert x xs) = insert x (set xs)"
  by (auto simp: hs_insert_def)

lemma set_fold_hs_insert [simp]: "set (fold hs_insert ys xs) = set ys \<union> set xs"
  by (induction ys arbitrary: xs) auto

lemma ex_pair_Cons: "(\<exists>s x. (s, x) \<in> set ((s0, x0) # xs) \<and> P s x) \<longleftrightarrow> P s0 x0 \<or> (\<exists>s x. (s, x) \<in> set xs \<and> P s x)"
  by auto

lemma resolve_select_exact:
  assumes "resolve_select mc S c xs out = Some (Ok m)"
  shows "(aoi \<in> interest_set m a \<longleftrightarrow> aoi \<in> interest_set out a \<or>
      (\<exists>sel x. (sel, x) \<in> set xs \<and> auth_get_read_cap S c sel = Some (Ok (Some a)) \<and> aoi \<in> set (selector_aois mc x a))) \<and>
    (map_of m a \<noteq> None \<longleftrightarrow> map_of out a \<noteq> None \<or>
      (\<exists>sel x. (sel, x) \<in> set xs \<and> auth_get_read_cap S c sel = Some (Ok (Some a))))"
  using assms
proof (induction xs arbitrary: out)
  case (Cons sx xs)
  obtain sel x where sx: "sx = (sel, x)"
    by force
  obtain cap where g: "auth_get_read_cap S c sel = Some (Ok cap)"
    using Cons.prems by (auto simp: sx pr_bind_eq_Ok)
  show ?case
  proof (cases cap)
    case None
    then show ?thesis
      using Cons.IH [of out] Cons.prems g unfolding sx ex_pair_Cons by (simp add: pr_bind_def)
  next
    case (Some b)
    define out' where "out' = hm_insert b (case x of
        WidestAoi \<Rightarrow> hs_insert (granted_aoi mc b) (unwrap_or_default (map_of out b))
      | ExactAois aois \<Rightarrow> fold hs_insert aois (unwrap_or_default (map_of out b))) out"
    have m: "resolve_select mc S c xs out' = Some (Ok m)"
      using Cons.prems g Some by (simp add: sx pr_bind_def out'_def Let_def)
    have out': "interest_set out' a = (if a = b then set (selector_aois mc x b) else {}) \<union> interest_set out a"
        "map_of out' a \<noteq> None \<longleftrightarrow> a = b \<or> map_of out a \<noteq> None"
      by (cases x; simp add: out'_def hm_simps; simp add: unwrap_or_default_def)+
    show ?thesis
      using Cons.IH [OF m] g Some out' unfolding sx ex_pair_Cons by (cases "a = b") auto
  qed
qed simp

lemma resolve_all_exact:
  "map_of (fold (\<lambda>auth out. hm_insert auth [granted_aoi mc auth] out) auths out) a =
     (if a \<in> set auths then Some [granted_aoi mc a] else map_of out a)"
  by (induction auths arbitrary: out) (auto simp: hm_simps)

text \<open>
  C34: Resolution of interests.  All interests resolve to the full areas of all held read capabilities;
  selected interests resolve to exactly the areas asked for, each under the capability that its
  selector picks.  Only held capabilities occur.
\<close>

theorem resolve_interests_exact:
  assumes "resolve_interests mc (mem_auth_storage w mc secrets) interests s = Some (Ok m)"
  shows "interest_set m a =
      (case interests of
         AllInterests \<Rightarrow> if PackRead a \<in> caps_held s then {granted_aoi mc a} else {}
       | Select xs \<Rightarrow> {aoi. \<exists>sel x. (sel, x) \<in> set xs \<and> caps_get_read_cap w mc s sel = Some (Ok (Some a)) \<and>
           aoi \<in> set (selector_aois mc x a)}) \<and>
    (map_of m a \<noteq> None \<longrightarrow> PackRead a \<in> caps_held s)"
proof (cases interests)
  case AllInterests
  have "PackRead a \<in> caps_held s \<longleftrightarrow> a \<in> set (concat (map snd (read_caps s)))"
    by (auto simp: caps_held_def)
  moreover have "m = fold (\<lambda>auth out. hm_insert auth [granted_aoi mc auth] out) (concat (map snd (read_caps s))) []"
    using assms AllInterests by (simp add: auth_list_read_caps_def mem_auth_storage_def caps_list_read_caps_def)
  ultimately have "map_of m a = (if PackRead a \<in> caps_held s then Some [granted_aoi mc a] else None)"
    using resolve_all_exact [of mc "concat (map snd (read_caps s))" "[]" a] by simp
  then show ?thesis
    using AllInterests by (simp add: unwrap_or_default_def)
next
  case (Select xs)
  have sel: "auth_get_read_cap (mem_auth_storage w mc secrets) s sel = Some (Ok (Some a)) \<longleftrightarrow>
      caps_get_read_cap w mc s sel = Some (Ok (Some a))" for sel
    by (auto simp: auth_get_read_cap_def mem_auth_storage_def map_err_eq_Inr)
  have "resolve_select mc (mem_auth_storage w mc secrets) s xs [] = Some (Ok m)"
    using assms Select by simp
  note m = resolve_select_exact [OF this, of _ a, unfolded sel]
  have "interest_set m a = {aoi. \<exists>sel x. (sel, x) \<in> set xs \<and> caps_get_read_cap w mc s sel = Some (Ok (Some a)) \<and>
      aoi \<in> set (selector_aois mc x a)}"
    using m by (intro set_eqI) (simp add: unwrap_or_default_def)
  moreover have "PackRead a \<in> caps_held s" if "map_of m a \<noteq> None"
    using m that caps_get_read_cap_from [of w mc s _ a] by auto
  ultimately show ?thesis
    by (simp add: Select)
qed

section \<open>An instance\<close>

record demo_cap =
  dc_namespace :: NamespaceId
  dc_receiver :: UserId
  dc_area :: Area
  dc_mode :: AccessMode
  dc_delegations :: nat

definition demo_meadowcap :: "(demo_cap, unit, u8) meadowcap_fns" where
  "demo_meadowcap =
     \<lparr> mc_granted_namespace = dc_namespace, mc_receiver = dc_receiver, mc_granted_area = dc_area,
       mc_access_mode = dc_mode, mc_delegations_len = dc_delegations,
       mc_new_communal = \<lambda>ns u m.
         if ns_is_communal ns
         then Ok \<lparr> dc_namespace = ns, dc_receiver = u,
           dc_area = \<lparr> a_subspace = IdSubspace u, a_path = [], a_times = range_full_times \<rparr>, dc_mode = m, dc_delegations = 0 \<rparr>
         else Err ''not communal'',
       mc_new_owned = \<lambda>ns k u m.
         if \<not> ns_is_communal ns \<and> nsk_id demo_scheme k = ns
         then Ok \<lparr> dc_namespace = ns, dc_receiver = u, dc_area = area_new_path [], dc_mode = m, dc_delegations = 0 \<rparr>
         else Err ''not owned'',
       mc_delegate = \<lambda>c k u a.
         if usk_id demo_scheme k = dc_receiver c \<and> w_area_includes_area demo_wdm (dc_area c) a
         then Ok \<lparr> dc_namespace = dc_namespace c, dc_receiver = u, dc_area = a, dc_mode = dc_mode c,
           dc_delegations = dc_delegations c + 1 \<rparr>
         else Err ''delegation failed'',
       mc_subspace_new = \<lambda>ns k u. Ok (), mc_subspace_delegate = \<lambda>c k u. Ok (),
       mc_show_signature_error = \<lambda>e. ''signature error'' \<rparr>"

lemma demo_meadowcap_laws: "meadowcap_laws demo_wdm (usk_id demo_scheme) demo_meadowcap"
  by (auto simp: meadowcap_laws_def demo_meadowcap_def split: if_splits)

lemma demo_includes_transitive: "includes_transitive demo_wdm"
proof -
  have "range_includes_range a c" if "range_includes_range a b" "range_includes_range b c" for a b c :: "Timestamp Range"
    using that by (cases a; cases b; cases c; cases "range_end a"; cases "range_end b"; cases "range_end c")
      (auto simp: min_def split: if_splits)
  moreover have "subspace_includes a c" if "subspace_includes a b" "subspace_includes b c" for a b c
    using that by (cases a; cases b) auto
  ultimately show ?thesis
    unfolding includes_transitive_def demo_wdm_def
    by (auto simp: demo_includes_area_def intro: prefix_order.trans)
qed

definition demo_user :: "u8 \<Rightarrow> UserId"
  where "demo_user k = usk_id demo_scheme (UserSecretKey k)"

definition demo_secrets :: "u8 SecretStore" where
  "demo_secrets = \<lparr> ss_user = [(demo_user 5, UserSecretKey 5)], ss_namespace = [] \<rparr>"

definition demo_mc_cap :: "path \<Rightarrow> nat \<Rightarrow> demo_cap" where
  "demo_mc_cap p n = \<lparr> dc_namespace = e_namespace_id demo_entry, dc_receiver = demo_user 5, dc_area = area_new_path p,
     dc_mode = AM_Read, dc_delegations = n \<rparr>"

definition demo_caps_store :: "(demo_cap, unit) CapsStore" where
  "demo_caps_store = caps_insert demo_meadowcap (PackRead (ra_new (demo_mc_cap [] 0) None))
     (caps_insert demo_meadowcap (PackRead (ra_new (demo_mc_cap [[1]] 1) None)) caps_default)"

lemma demo_select:
  "caps_get_read_cap demo_wdm demo_meadowcap demo_caps_store (cs_any (e_namespace_id demo_entry)) =
     Some (Ok (Some (ra_new (demo_mc_cap [] 0) None)))"
  by code_simp

lemma demo_caps_store_inv: "caps_store_inv demo_meadowcap demo_caps_store"
  unfolding demo_caps_store_def by (intro caps_insert_inv caps_default_inv)

lemma demo_caps_held:
  "caps_held demo_caps_store = {PackRead (ra_new (demo_mc_cap [] 0) None), PackRead (ra_new (demo_mc_cap [[1]] 1) None)}"
proof -
  have "caps_held (caps_default :: (demo_cap, unit) CapsStore) = {}"
    by (simp add: caps_held_def caps_default_def)
  then show ?thesis
    by (simp only: demo_caps_store_def caps_insert_held)
qed

lemma caps_selection_widest_witness:
  "\<not> (\<exists>c. PackRead c \<in> caps_held demo_caps_store \<and>
     cap_covers demo_wdm demo_meadowcap (cs_any (e_namespace_id demo_entry)) (ra_read_cap c) \<and>
     w_area_includes_area demo_wdm (dc_area (ra_read_cap c)) (area_new_path []) \<and>
     \<not> w_area_includes_area demo_wdm (area_new_path []) (dc_area (ra_read_cap c)))"
  using caps_selection_widest [OF demo_includes_transitive demo_caps_store_inv demo_select]
  by (auto simp: demo_meadowcap_def ra_new_def demo_mc_cap_def)

definition demo_delegation :: delegation where
  "demo_delegation = \<lparr> dl_from = cs_any (e_namespace_id demo_entry), dl_mode = AM_Read,
     dl_to = \<lparr> dt_user = demo_user 7, dt_restrict_area = Restrict (area_new_path [[2]]) \<rparr>, dl_store = True \<rparr>"

definition demo_delegated :: "(demo_cap, unit) CapabilityPack" where
  "demo_delegated = PackRead (ra_new (demo_mc_cap [[2]] 1 \<lparr> dc_receiver := demo_user 7 \<rparr>) None)"

lemma demo_delegate_all:
  "delegate_all demo_meadowcap (mem_auth_storage demo_wdm demo_meadowcap demo_secrets) [demo_delegation] demo_caps_store =
     Some (caps_insert demo_meadowcap demo_delegated demo_caps_store)"
  by code_simp

lemma demo_users: "demo_user 5 \<noteq> demo_user 7"
  by code_simp

lemma delegation_confined_witness:
  "\<exists>q \<in> caps_held demo_caps_store. pack_within demo_wdm demo_meadowcap demo_delegated q"
proof -
  have "demo_delegated \<notin> caps_held demo_caps_store"
    using demo_users
    by (simp add: demo_caps_held demo_delegated_def ra_new_def demo_mc_cap_def)
  then show ?thesis
    using delegation_confined [OF demo_meadowcap_laws demo_includes_transitive demo_delegate_all]
    by (simp add: caps_insert_held)
qed

lemma resolve_interests_exact_witness:
  "\<exists>m. resolve_interests demo_meadowcap (mem_auth_storage demo_wdm demo_meadowcap demo_secrets) AllInterests demo_caps_store
      = Some (Ok m) \<and> interest_set m (ra_new (demo_mc_cap [] 0) None) = {aoi_with_area (area_new_path [])}"
proof -
  obtain m where m: "resolve_interests demo_meadowcap (mem_auth_storage demo_wdm demo_meadowcap demo_secrets) AllInterests
      demo_caps_store = Some (Ok m)"
    by (simp add: auth_list_read_caps_def mem_auth_storage_def caps_list_read_caps_def)
  moreover have "PackRead (ra_new (demo_mc_cap [] 0) None) \<in> caps_held demo_caps_store"
    by (simp add: demo_caps_held)
  ultimately show ?thesis
    using resolve_interests_exact [OF m, of "ra_new (demo_mc_cap [] 0) None"]
    by (simp add: granted_aoi_def aoi_with_area_def demo_meadowcap_def demo_mc_cap_def ra_new_def)
qed

end
