(* ===== verification/Intents.thy ===== *)
theory Intents
  imports Caps_Auth Outcome
begin

text \<open>
  Intents (\<open>session/intents.rs\<close>): what a user wants to synchronise, the events that the session emits for
  it, and the dispatcher that tracks the open interests of every intent.  Event channels are numbered; an
  event that is sent is appended to the list of its channel, and sending fails once the receiver is
  dropped.  (A sender waits while the channel is full; the receiver has to be polled, so waiting only
  delays.)  What the dispatcher yields is appended to its list of outputs.  The dispatcher's \<open>auth\<close> is the
  function \<open>ie_resolve\<close>, an instance of \<open>resolve_interests\<close>; \<open>None\<close> is its panic.
\<close>

section \<open>Data\<close>

datatype EventKind =
    CapabilityIntersection NamespaceId Area
  | InterestIntersection NamespaceId AreaOfInterest
  | Reconciled NamespaceId AreaOfInterest
  | ReconciledAll
  | Abort Error

fun ev_namespace :: "EventKind \<Rightarrow> NamespaceId option" where
  "ev_namespace (CapabilityIntersection namespace _) = Some namespace"
| "ev_namespace (InterestIntersection namespace _) = Some namespace"
| "ev_namespace (Reconciled namespace _) = Some namespace"
| "ev_namespace _ = None"

datatype IntentUpdate = IU_AddInterests Interests | IU_Close

record SessionInit =
  si_interests :: Interests
  si_mode :: SessionMode

record IntentChannels =
  ic_event_tx :: nat
  ic_update_rx :: nat

record Intent =
  in_init :: SessionInit
  in_channels :: "IntentChannels option"

definition intent_new :: "SessionInit \<Rightarrow> nat \<Rightarrow> nat \<Rightarrow> Intent"
  where "intent_new init event_tx update_rx =
    \<lparr> in_init = init, in_channels = Some \<lparr> ic_event_tx = event_tx, ic_update_rx = update_rx \<rparr> \<rparr>"

definition intent_new_detached :: "SessionInit \<Rightarrow> Intent"
  where "intent_new_detached init = \<lparr> in_init = init, in_channels = None \<rparr>"

datatype Completion = Complete | Partial | Nothing

text \<open>\<open>IntentHandle::complete\<close> over the events that the handle receives until its channel closes.\<close>

fun complete_loop :: "EventKind list \<Rightarrow> bool \<Rightarrow> bool \<Rightarrow> Error + Completion" where
  "complete_loop [] complete partial = Ok (if complete then Complete else if partial then Partial else Nothing)"
| "complete_loop (ev # evs) complete partial =
     (case ev of
        ReconciledAll \<Rightarrow> complete_loop evs True partial
      | Reconciled _ _ \<Rightarrow> complete_loop evs complete True
      | Abort error \<Rightarrow> Err error
      | _ \<Rightarrow> complete_loop evs complete partial)"

definition handle_complete :: "EventKind list \<Rightarrow> Error + Completion"
  where "handle_complete evs = complete_loop evs False False"

section \<open>Event channels\<close>

record event_chans =
  ch_sent :: "nat \<Rightarrow> EventKind list"
  ch_closed :: "nat \<Rightarrow> bool"

datatype ChannelReceiverDropped = ChannelReceiverDropped

definition chan_send :: "nat \<Rightarrow> EventKind \<Rightarrow> event_chans \<Rightarrow> (ChannelReceiverDropped + unit) \<times> event_chans" where
  "chan_send tx ev ch =
     (if ch_closed ch tx then (Err ChannelReceiverDropped, ch)
      else (Ok (), ch\<lparr> ch_sent := (ch_sent ch)(tx := ch_sent ch tx @ [ev]) \<rparr>))"

definition send_abort :: "Error \<Rightarrow> Intent \<Rightarrow> event_chans \<Rightarrow> event_chans" where
  "send_abort error intent ch =
     (case in_channels intent of
        None \<Rightarrow> ch
      | Some channels \<Rightarrow> snd (chan_send (ic_event_tx channels) (Abort error) ch))"

section \<open>One intent\<close>

type_synonym NamespaceInterests = "(NamespaceId, AreaOfInterest list) hash_map"

record IntentInfo =
  ii_interests :: NamespaceInterests
  ii_mode :: SessionMode
  ii_event_tx :: "nat option"

definition flatten_interests :: "('cap \<Rightarrow> NamespaceId) \<Rightarrow> ('cap, 'scap) InterestMap \<Rightarrow> NamespaceInterests" where
  "flatten_interests gn interests =
     fold (\<lambda>(cap, aois) out. hm_insert (ra_namespace gn cap)
       (hs_extend (unwrap_or_default (map_of out (ra_namespace gn cap))) aois) out) interests []"

definition merge_interests ::
  "('cap \<Rightarrow> NamespaceId) \<Rightarrow> ('cap, 'scap) InterestMap \<Rightarrow> IntentInfo \<Rightarrow> IntentInfo" where
  "merge_interests gn interests info =
     info\<lparr> ii_interests := fold (\<lambda>(auth, aois) out. hm_insert (ra_namespace gn auth)
       (hs_extend (unwrap_or_default (map_of out (ra_namespace gn auth))) aois) out) interests (ii_interests info) \<rparr>"

definition ii_is_complete :: "IntentInfo \<Rightarrow> bool"
  where "ii_is_complete info \<longleftrightarrow> ii_interests info = [] \<and> \<not> is_live (ii_mode info)"

definition events_closed :: "IntentInfo \<Rightarrow> event_chans \<Rightarrow> bool" where
  "events_closed info ch = (case ii_event_tx info of None \<Rightarrow> False | Some tx \<Rightarrow> ch_closed ch tx)"

definition ii_send :: "IntentInfo \<Rightarrow> EventKind \<Rightarrow> event_chans \<Rightarrow> (ChannelReceiverDropped + unit) \<times> event_chans" where
  "ii_send info ev ch = (case ii_event_tx info of Some tx \<Rightarrow> chan_send tx ev ch | None \<Rightarrow> (Ok (), ch))"

definition matches_area :: "wdm \<Rightarrow> NamespaceId \<Rightarrow> Area \<Rightarrow> IntentInfo \<Rightarrow> bool" where
  "matches_area w namespace area info =
     (case map_of (ii_interests info) namespace of
        None \<Rightarrow> False
      | Some interests \<Rightarrow> list_ex (\<lambda>x. w_area_intersection w (aoi_area x) area \<noteq> None) interests)"

definition complete_area_if_matches :: "wdm \<Rightarrow> NamespaceId \<Rightarrow> Area \<Rightarrow> IntentInfo \<Rightarrow> bool \<times> IntentInfo" where
  "complete_area_if_matches w namespace area info =
     (case map_of (ii_interests info) namespace of
        None \<Rightarrow> (False, info)
      | Some interests \<Rightarrow>
          if list_ex (\<lambda>x. w_area_intersection w (aoi_area x) area \<noteq> None) interests
          then
            (let kept = filter (\<lambda>x. \<not> w_area_includes_area w area (aoi_area x)) interests
             in (True, info\<lparr> ii_interests :=
                  (if kept = [] then hm_remove namespace (ii_interests info)
                   else hm_insert namespace kept (ii_interests info)) \<rparr>))
          else (False, info))"

text \<open>Sending the event of a reconciled area that matched, and the final event when nothing is left.\<close>

definition send_reconciled ::
  "NamespaceId \<Rightarrow> AreaOfInterest \<Rightarrow> IntentInfo \<Rightarrow> event_chans \<Rightarrow> (ChannelReceiverDropped + unit) \<times> event_chans" where
  "send_reconciled namespace area info ch =
     (case ii_send info (Reconciled namespace area) ch of
        (Inl e, ch1) \<Rightarrow> (Err e, ch1)
      | (Inr _, ch1) \<Rightarrow> if ii_interests info = [] then ii_send info ReconciledAll ch1 else (Ok (), ch1))"

definition on_reconciled ::
  "wdm \<Rightarrow> NamespaceId \<Rightarrow> AreaOfInterest \<Rightarrow> IntentInfo \<Rightarrow> event_chans
   \<Rightarrow> (ChannelReceiverDropped + unit) \<times> IntentInfo \<times> event_chans" where
  "on_reconciled w namespace area info ch =
     (let (m, info1) = complete_area_if_matches w namespace (aoi_area area) info
      in if m
         then (let (r, ch1) = send_reconciled namespace area info1 ch in (r, info1, ch1))
         else (Ok (), info1, ch))"

definition ii_handle_event ::
  "wdm \<Rightarrow> EventKind \<Rightarrow> IntentInfo \<Rightarrow> event_chans
   \<Rightarrow> (ChannelReceiverDropped + bool) \<times> IntentInfo \<times> event_chans" where
  "ii_handle_event w event info ch =
     (let (m, info1) =
            (case event of
               CapabilityIntersection namespace _ \<Rightarrow> (map_of (ii_interests info) namespace \<noteq> None, info)
             | InterestIntersection namespace area \<Rightarrow> (matches_area w namespace (aoi_area area) info, info)
             | Reconciled namespace area \<Rightarrow> complete_area_if_matches w namespace (aoi_area area) info
             | Abort _ \<Rightarrow> (True, info)
             | ReconciledAll \<Rightarrow> (False, info));
          (r, ch1) =
            (if m
             then (case event of
                     Reconciled namespace area \<Rightarrow> send_reconciled namespace area info1 ch
                   | _ \<Rightarrow> ii_send info1 event ch)
             else (Ok (), ch))
      in (res_bind r (\<lambda>_. Ok (ii_is_complete info1)), info1, ch1))"

section \<open>The dispatcher\<close>

datatype ('cap, 'scap) IntentOutput = SubmitInterests "('cap, 'scap) InterestMap" | AllIntentsDropped

datatype IntentInput = EmitEvent EventKind | SubmitIntent Intent

record RemainingIntents =
  active_incomplete :: "nat list"
  queued :: "Intent list"

record ('cap, 'scap) intent_env =
  ie_wdm :: wdm
  ie_granted_namespace :: "'cap \<Rightarrow> NamespaceId"
  ie_resolve :: "Interests \<Rightarrow> (AuthError + ('cap, 'scap) InterestMap) option"

record ('cap, 'scap) IntentDispatcher =
  id_pending_intents :: "Intent list"
  id_intents :: "(u64, IntentInfo) hash_map"
  id_intent_update_rx :: "(u64, nat) hash_map"
  id_next_intent_id :: u64
  id_complete_areas :: NamespaceInterests
  id_chans :: event_chans
  id_yielded :: "('cap, 'scap) IntentOutput list"

definition dispatcher_new :: "Intent list \<Rightarrow> event_chans \<Rightarrow> ('cap, 'scap) IntentDispatcher" where
  "dispatcher_new initial_intents ch =
     \<lparr> id_pending_intents = initial_intents, id_intents = [], id_intent_update_rx = [], id_next_intent_id = 0,
       id_complete_areas = [], id_chans = ch, id_yielded = [] \<rparr>"

definition co_yield :: "('cap, 'scap) IntentOutput \<Rightarrow> (('cap, 'scap) IntentDispatcher, unit) prog"
  where "co_yield out = modify (\<lambda>s. s\<lparr> id_yielded := id_yielded s @ [out] \<rparr>)"

definition complete_list :: "NamespaceInterests \<Rightarrow> (NamespaceId \<times> AreaOfInterest) list"
  where "complete_list m = concat (map (\<lambda>(namespace, areas). map (Pair namespace) areas) m)"

fun on_reconciled_all ::
  "wdm \<Rightarrow> (NamespaceId \<times> AreaOfInterest) list \<Rightarrow> IntentInfo \<Rightarrow> event_chans
   \<Rightarrow> (ChannelReceiverDropped + unit) \<times> IntentInfo \<times> event_chans" where
  "on_reconciled_all w [] info ch = (Ok (), info, ch)"
| "on_reconciled_all w ((namespace, area) # areas) info ch =
     (case on_reconciled w namespace area info ch of
        (Inl e, info1, ch1) \<Rightarrow> (Err e, info1, ch1)
      | (Inr _, info1, ch1) \<Rightarrow> on_reconciled_all w areas info1 ch1)"

definition submit_intent ::
  "('cap, 'scap) intent_env \<Rightarrow> Intent \<Rightarrow> (('cap, 'scap) IntentDispatcher, unit) prog" where
  "submit_intent v intent =
     rbind (unwrap (ie_resolve v (si_interests (in_init intent)))) (\<lambda>resolved.
     rbind (try_res (map_err E_Auth resolved)) (\<lambda>interests.
     rbind (gets id_next_intent_id) (\<lambda>intent_id.
     rbind (modify (\<lambda>s. s\<lparr> id_next_intent_id := id_next_intent_id s + 1 \<rparr>)) (\<lambda>_.
     let info0 = \<lparr> ii_interests = flatten_interests (ie_granted_namespace v) interests,
                   ii_mode = si_mode (in_init intent),
                   ii_event_tx = map_option ic_event_tx (in_channels intent) \<rparr> in
     rbind (\<lambda>s. case on_reconciled_all (ie_wdm v) (complete_list (id_complete_areas s)) info0 (id_chans s) of
                  (Inl e, info, ch) \<Rightarrow> (Failed (E_Store ''channel receiver dropped''), s\<lparr> id_chans := ch \<rparr>)
                | (Inr _, info, ch) \<Rightarrow> (Done info, s\<lparr> id_chans := ch \<rparr>)) (\<lambda>info.
     if \<not> ii_is_complete info
     then
       rbind (modify (\<lambda>s. s\<lparr> id_intents := hm_insert intent_id info (id_intents s) \<rparr>)) (\<lambda>_.
       rbind (case in_channels intent of
                None \<Rightarrow> ret ()
              | Some channels \<Rightarrow> modify (\<lambda>s. s\<lparr> id_intent_update_rx :=
                  hm_insert intent_id (ic_update_rx channels) (id_intent_update_rx s) \<rparr>)) (\<lambda>_.
       co_yield (SubmitInterests interests)))
     else ret ())))))"

definition cancel_intent_inner :: "u64 \<Rightarrow> ('cap, 'scap) IntentDispatcher \<Rightarrow> ('cap, 'scap) IntentDispatcher" where
  "cancel_intent_inner intent_id s =
     s\<lparr> id_intent_update_rx := hm_remove intent_id (id_intent_update_rx s), id_intents := hm_remove intent_id (id_intents s) \<rparr>"

definition yield_if_empty :: "(('cap, 'scap) IntentDispatcher, unit) prog" where
  "yield_if_empty = rbind (gets (\<lambda>s. id_intents s = [])) (\<lambda>none. if none then co_yield AllIntentsDropped else ret ())"

definition cancel_intent :: "u64 \<Rightarrow> (('cap, 'scap) IntentDispatcher, unit) prog" where
  "cancel_intent intent_id = rbind (modify (cancel_intent_inner intent_id)) (\<lambda>_. yield_if_empty)"

text \<open>\<open>handle_event\<close> of every intent, with the result of each.\<close>

fun handle_event_all ::
  "wdm \<Rightarrow> EventKind \<Rightarrow> (u64, IntentInfo) hash_map \<Rightarrow> event_chans
   \<Rightarrow> (u64 \<times> (ChannelReceiverDropped + bool)) list \<times> (u64, IntentInfo) hash_map \<times> event_chans" where
  "handle_event_all w event [] ch = ([], [], ch)"
| "handle_event_all w event ((i, info) # intents) ch =
     (let (r, info1, ch1) = ii_handle_event w event info ch;
          (rs, intents1, ch2) = handle_event_all w event intents ch1
      in ((i, r) # rs, (i, info1) # intents1, ch2))"

fun after_event ::
  "(u64 \<times> (ChannelReceiverDropped + bool)) list \<Rightarrow> ('cap, 'scap) IntentDispatcher \<Rightarrow> ('cap, 'scap) IntentDispatcher" where
  "after_event [] s = s"
| "after_event ((i, res) # rs) s =
     after_event rs
       (case res of
          Inl _ \<Rightarrow> if map_of (id_intent_update_rx s) i = None then cancel_intent_inner i s else s
        | Inr is_complete \<Rightarrow> if is_complete then cancel_intent_inner i s else s)"

definition emit_event_inner ::
  "wdm \<Rightarrow> EventKind \<Rightarrow> ('cap, 'scap) IntentDispatcher \<Rightarrow> ('cap, 'scap) IntentDispatcher" where
  "emit_event_inner w event s =
     (let s1 = (case event of
                  Reconciled namespace area \<Rightarrow>
                    s\<lparr> id_complete_areas := hm_insert namespace
                         (hs_insert area (unwrap_or_default (map_of (id_complete_areas s) namespace))) (id_complete_areas s) \<rparr>
                | _ \<Rightarrow> s);
          (rs, intents, ch) = handle_event_all w event (id_intents s1) (id_chans s1)
      in after_event rs (s1\<lparr> id_intents := intents, id_chans := ch \<rparr>))"

definition emit_event :: "wdm \<Rightarrow> EventKind \<Rightarrow> (('cap, 'scap) IntentDispatcher, unit) prog" where
  "emit_event w event = rbind (modify (emit_event_inner w event)) (\<lambda>_. yield_if_empty)"

text \<open>The error of an update is only logged, so the result says whether the update failed.\<close>

fun update_intent ::
  "('cap, 'scap) intent_env \<Rightarrow> u64 \<Rightarrow> IntentUpdate \<Rightarrow> (('cap, 'scap) IntentDispatcher, bool) prog" where
  "update_intent v intent_id (IU_AddInterests interests) =
     rbind (unwrap (ie_resolve v interests)) (\<lambda>resolved.
       case resolved of
         Inl e \<Rightarrow> ret False
       | Inr added \<Rightarrow>
           rbind (gets (\<lambda>s. map_of (id_intents s) intent_id)) (\<lambda>found.
             case found of
               None \<Rightarrow> ret False
             | Some info \<Rightarrow>
                 rbind (modify (\<lambda>s. s\<lparr> id_intents := hm_insert intent_id
                   (merge_interests (ie_granted_namespace v) added info) (id_intents s) \<rparr>)) (\<lambda>_.
                 rbind (co_yield (SubmitInterests added)) (\<lambda>_. ret True))))"
| "update_intent v intent_id IU_Close = rbind (cancel_intent intent_id) (\<lambda>_. ret True)"

text \<open>The update sender of an intent was dropped.\<close>

definition update_sender_dropped :: "u64 \<Rightarrow> (('cap, 'scap) IntentDispatcher, unit) prog" where
  "update_sender_dropped intent_id =
     rbind (modify (\<lambda>s. s\<lparr> id_intent_update_rx := hm_remove intent_id (id_intent_update_rx s) \<rparr>)) (\<lambda>_.
     rbind (gets (\<lambda>s. case map_of (id_intents s) intent_id of Some info \<Rightarrow> events_closed info (id_chans s) | None \<Rightarrow> True)) (\<lambda>closed.
     if closed then cancel_intent intent_id else ret ()))"

text \<open>The submission of the initial intents, and one tick of the loop of \<open>run\<close>.\<close>

fun run_pending ::
  "('cap, 'scap) intent_env \<Rightarrow> Intent list \<Rightarrow> (('cap, 'scap) IntentDispatcher, unit) prog" where
  "run_pending v [] = ret ()"
| "run_pending v (intent # intents) =
     rbind (modify (\<lambda>s. s\<lparr> id_pending_intents := intents \<rparr>)) (\<lambda>_.
     rbind (submit_intent v intent) (\<lambda>_. run_pending v intents))"

fun run_input :: "('cap, 'scap) intent_env \<Rightarrow> IntentInput \<Rightarrow> (('cap, 'scap) IntentDispatcher, unit) prog" where
  "run_input v (SubmitIntent intent) = submit_intent v intent"
| "run_input v (EmitEvent event) = emit_event (ie_wdm v) event"

fun run_update :: "('cap, 'scap) intent_env \<Rightarrow> u64 \<Rightarrow> IntentUpdate option \<Rightarrow> (('cap, 'scap) IntentDispatcher, unit) prog" where
  "run_update v intent_id (Some event) = rbind (update_intent v intent_id event) (\<lambda>_. ret ())"
| "run_update v intent_id None = update_sender_dropped intent_id"

section \<open>The end of a session\<close>

fun drain_inbox ::
  "wdm \<Rightarrow> IntentInput list \<Rightarrow> Intent list \<Rightarrow> ('cap, 'scap) IntentDispatcher
   \<Rightarrow> Intent list \<times> ('cap, 'scap) IntentDispatcher" where
  "drain_inbox w [] q s = (q, s)"
| "drain_inbox w (EmitEvent event # items) q s = drain_inbox w items q (emit_event_inner w event s)"
| "drain_inbox w (SubmitIntent intent # items) q s = drain_inbox w items (q @ [intent]) s"

definition drain_all ::
  "wdm \<Rightarrow> IntentInput list \<Rightarrow> ('cap, 'scap) IntentDispatcher \<Rightarrow> RemainingIntents \<times> event_chans" where
  "drain_all w inbox s =
     (let (q, s1) = drain_inbox w inbox [] s
      in (\<lparr> active_incomplete = List.map_filter (\<lambda>(_, info). if \<not> ii_is_complete info then ii_event_tx info else None)
              (id_intents s1),
            queued = q @ id_pending_intents s1 \<rparr>, id_chans s1))"

definition abort_senders :: "Error \<Rightarrow> nat list \<Rightarrow> event_chans \<Rightarrow> event_chans"
  where "abort_senders error txs ch = fold (\<lambda>tx ch. snd (chan_send tx (Abort error) ch)) txs ch"

definition abort_all :: "Error \<Rightarrow> RemainingIntents \<Rightarrow> event_chans \<Rightarrow> event_chans" where
  "abort_all error r ch =
     abort_senders error (List.map_filter (\<lambda>i. map_option ic_event_tx (in_channels i)) (queued r) @ active_incomplete r) ch"

definition abort_active :: "Error \<Rightarrow> RemainingIntents \<Rightarrow> event_chans \<Rightarrow> Intent list \<times> event_chans"
  where "abort_active error r ch = (queued r, abort_senders error (active_incomplete r) ch)"

section \<open>The open interests of one intent\<close>

type_synonym interest = "NamespaceId \<times> AreaOfInterest"

definition open_interests :: "IntentInfo \<Rightarrow> interest set" where
  "open_interests info = {(ns, x). x \<in> set (unwrap_or_default (map_of (ii_interests info) ns))}"

definition ii_ok :: "IntentInfo \<Rightarrow> bool" where
  "ii_ok info \<longleftrightarrow> distinct (hm_keys (ii_interests info)) \<and> (\<forall>ns. map_of (ii_interests info) ns \<noteq> Some [])"

text \<open>The interests that a reconciled area includes, and those that the complete areas include.\<close>

definition included_in :: "wdm \<Rightarrow> NamespaceId \<Rightarrow> AreaOfInterest \<Rightarrow> interest set" where
  "included_in w ns area = {(ns', x). ns' = ns \<and> w_area_includes_area w (aoi_area area) (aoi_area x)}"

definition covered :: "wdm \<Rightarrow> NamespaceInterests \<Rightarrow> interest set" where
  "covered w m = {(ns, x). \<exists>a \<in> set (unwrap_or_default (map_of m ns)). w_area_includes_area w (aoi_area a) (aoi_area x)}"

definition nonempty_interests :: "interest set \<Rightarrow> bool" where
  "nonempty_interests W \<longleftrightarrow> (\<forall>(ns, x) \<in> W. \<exists>e. in_area (aoi_area x) e)"

text \<open>The events that an event means for an intent, and the intent afterwards.\<close>

definition ii_match :: "wdm \<Rightarrow> EventKind \<Rightarrow> IntentInfo \<Rightarrow> bool \<times> IntentInfo" where
  "ii_match w event info =
     (case event of
        CapabilityIntersection namespace _ \<Rightarrow> (map_of (ii_interests info) namespace \<noteq> None, info)
      | InterestIntersection namespace area \<Rightarrow> (matches_area w namespace (aoi_area area) info, info)
      | Reconciled namespace area \<Rightarrow> complete_area_if_matches w namespace (aoi_area area) info
      | Abort _ \<Rightarrow> (True, info)
      | ReconciledAll \<Rightarrow> (False, info))"

definition ii_after :: "wdm \<Rightarrow> EventKind \<Rightarrow> IntentInfo \<Rightarrow> IntentInfo"
  where "ii_after w event info = snd (ii_match w event info)"

definition ii_events :: "wdm \<Rightarrow> EventKind \<Rightarrow> IntentInfo \<Rightarrow> EventKind list" where
  "ii_events w event info =
     (if fst (ii_match w event info)
      then event # (case event of
              Reconciled _ _ \<Rightarrow> if ii_interests (ii_after w event info) = [] then [ReconciledAll] else []
            | _ \<Rightarrow> [])
      else [])"

lemma complete_area_fields:
  "ii_mode (snd (complete_area_if_matches w ns area info)) = ii_mode info"
  "ii_event_tx (snd (complete_area_if_matches w ns area info)) = ii_event_tx info"
  by (simp_all add: complete_area_if_matches_def Let_def split: option.splits)

lemma ii_after_fields [simp]:
  "ii_mode (ii_after w event info) = ii_mode info"
  "ii_event_tx (ii_after w event info) = ii_event_tx info"
  by (cases event; simp add: ii_after_def ii_match_def complete_area_fields)+

text \<open>Sending only touches the channel of the intent, and succeeds while its receiver lives.\<close>

definition sends_only :: "nat option \<Rightarrow> EventKind list \<Rightarrow> event_chans \<Rightarrow> (ChannelReceiverDropped + unit) \<times> event_chans \<Rightarrow> bool" where
  "sends_only tx evs ch r \<longleftrightarrow>
     ch_closed (snd r) = ch_closed ch \<and> (\<forall>t. tx \<noteq> Some t \<longrightarrow> ch_sent (snd r) t = ch_sent ch t) \<and>
     (case tx of None \<Rightarrow> fst r = Ok ()
      | Some t \<Rightarrow> \<not> ch_closed ch t \<longrightarrow> fst r = Ok () \<and> ch_sent (snd r) t = ch_sent ch t @ evs)"

lemma sends_only_nil: "sends_only tx [] ch (Ok (), ch)"
  by (simp add: sends_only_def split: option.splits)

lemma sends_only_ii_send: "sends_only (ii_event_tx info) [ev] ch (ii_send info ev ch)"
  by (simp add: sends_only_def ii_send_def chan_send_def split: option.splits)

lemma sends_only_send_reconciled:
  "sends_only (ii_event_tx info) (Reconciled ns area # (if ii_interests info = [] then [ReconciledAll] else [])) ch
     (send_reconciled ns area info ch)"
  by (auto simp: sends_only_def send_reconciled_def ii_send_def chan_send_def split: option.splits)

lemma ii_handle_event_eq:
  obtains r where "ii_handle_event w event info ch =
      (res_bind (fst r) (\<lambda>_. Ok (ii_is_complete (ii_after w event info))), ii_after w event info, snd r)"
    and "sends_only (ii_event_tx info) (ii_events w event info) ch r"
proof -
  let ?r = "if fst (ii_match w event info)
      then (case event of
              Reconciled namespace area \<Rightarrow> send_reconciled namespace area (ii_after w event info) ch
            | _ \<Rightarrow> ii_send (ii_after w event info) event ch)
      else (Ok (), ch)"
  have "ii_handle_event w event info ch =
      (res_bind (fst ?r) (\<lambda>_. Ok (ii_is_complete (ii_after w event info))), ii_after w event info, snd ?r)"
  proof (cases "ii_match w event info")
    case (Pair m i)
    then have i: "ii_after w event info = i"
      by (simp add: ii_after_def)
    show ?thesis
      unfolding ii_handle_event_def ii_match_def [symmetric] Pair i by (simp add: Let_def case_prod_beta)
  qed
  moreover have "sends_only (ii_event_tx info) (ii_events w event info) ch ?r"
    using sends_only_send_reconciled [of "ii_after w event info"] sends_only_ii_send [of "ii_after w event info" event ch]
    by (cases event) (simp_all add: ii_events_def sends_only_nil)
  ultimately show ?thesis
    using that by blast
qed

lemma on_reconciled_eq:
  obtains r where "on_reconciled w ns area info ch = (fst r, ii_after w (Reconciled ns area) info, snd r)"
    and "sends_only (ii_event_tx info) (ii_events w (Reconciled ns area) info) ch r"
proof -
  let ?i = "ii_after w (Reconciled ns area) info"
  let ?r = "if fst (complete_area_if_matches w ns (aoi_area area) info) then send_reconciled ns area ?i ch else (Ok (), ch)"
  have "on_reconciled w ns area info ch = (fst ?r, ?i, snd ?r)"
    by (simp add: on_reconciled_def ii_after_def ii_match_def Let_def split: prod.splits)
  moreover have "sends_only (ii_event_tx info) (ii_events w (Reconciled ns area) info) ch ?r"
    using sends_only_send_reconciled [of ?i ns area ch] by (simp add: ii_events_def ii_match_def sends_only_nil)
  ultimately show ?thesis
    using that by blast
qed

lemma set_unwrap_or_default: "x \<in> set (unwrap_or_default y) \<longleftrightarrow> (\<exists>l. y = Some l \<and> x \<in> set l)"
  by (cases y) (simp_all add: unwrap_or_default_def)

lemma ii_ok_empty_iff: "ii_ok info \<Longrightarrow> ii_interests info = [] \<longleftrightarrow> open_interests info = {}"
proof
  assume ok: "ii_ok info" and "open_interests info = {}"
  then have "map_of (ii_interests info) ns = None" for ns
  proof (rule_tac ccontr)
    assume "map_of (ii_interests info) ns \<noteq> None"
    then obtain l where l: "map_of (ii_interests info) ns = Some l"
      by blast
    then have "l \<noteq> []"
      using ok by (auto simp: ii_ok_def)
    then have "(ns, hd l) \<in> open_interests info"
      by (simp add: open_interests_def unwrap_or_default_def l)
    then show False
      using \<open>open_interests info = {}\<close> by simp
  qed
  then show "ii_interests info = []"
    by (metis hm_get_None_iff list.set_intros(1) list.exhaust list.simps(9) prod.collapse fst_conv)
qed (simp add: open_interests_def unwrap_or_default_def)

lemma area_laws_includes: "area_laws w \<Longrightarrow> w_area_includes_area w a b \<Longrightarrow> in_area b e \<Longrightarrow> in_area a e"
  by (simp add: area_laws_def)

lemma area_laws_disjoint:
  assumes "area_laws w" "w_area_intersection w a b = None" "in_area a e"
  shows "\<not> in_area b e"
  using assms(1) [unfolded area_laws_def, THEN conjunct2, THEN conjunct2, THEN conjunct2, rule_format, of a b] assms(2,3)
  by simp

text \<open>A reconciled area closes the interests that it includes.\<close>

lemma complete_area_open:
  assumes "area_laws w" "ii_ok info" "nonempty_interests (open_interests info)"
  shows "ii_ok (ii_after w (Reconciled ns area) info)"
    and "open_interests (ii_after w (Reconciled ns area) info) = open_interests info - included_in w ns area"
    and "\<not> fst (ii_match w (Reconciled ns area) info) \<Longrightarrow>
      open_interests (ii_after w (Reconciled ns area) info) = open_interests info"
    and "fst (ii_match w (Reconciled ns area) info) \<Longrightarrow> open_interests info \<noteq> {}"
proof -
  let ?i = "ii_after w (Reconciled ns area) info" and ?m = "fst (ii_match w (Reconciled ns area) info)"
  have hit: "w_area_intersection w (aoi_area x) (aoi_area area) \<noteq> None"
    if x: "(ns, x) \<in> open_interests info" and inc: "w_area_includes_area w (aoi_area area) (aoi_area x)" for x
  proof -
    obtain e where "in_area (aoi_area x) e"
      using bspec [OF assms(3) [unfolded nonempty_interests_def] x] by auto
    moreover have "in_area (aoi_area area) e"
      using area_laws_includes [OF assms(1) inc] calculation .
    ultimately show ?thesis
      using area_laws_disjoint [OF assms(1), of "aoi_area x" "aoi_area area" e] by auto
  qed
  have "ii_ok ?i \<and> open_interests ?i = open_interests info - included_in w ns area \<and>
    (\<not> ?m \<longrightarrow> open_interests ?i = open_interests info) \<and> (?m \<longrightarrow> open_interests info \<noteq> {})"
  proof (cases "map_of (ii_interests info) ns")
    case None
    then have "?i = info" "\<not> ?m" "open_interests info \<inter> included_in w ns area = {}"
      by (auto simp: ii_after_def ii_match_def complete_area_if_matches_def open_interests_def included_in_def
          unwrap_or_default_def)
    then show ?thesis
      using assms(2) by auto
  next
    case (Some l)
    have l: "(ns, x) \<in> open_interests info \<longleftrightarrow> x \<in> set l" for x
      by (simp add: open_interests_def Some unwrap_or_default_def)
    show ?thesis
    proof (cases ?m)
      case False
      then have "?i = info" and no: "\<forall>x \<in> set l. w_area_intersection w (aoi_area x) (aoi_area area) = None"
        by (auto simp: ii_after_def ii_match_def complete_area_if_matches_def Some list_ex_iff Let_def split: if_splits)
      moreover have "open_interests info \<inter> included_in w ns area = {}"
        using hit no l by (auto simp: included_in_def)
      ultimately show ?thesis
        using assms(2) False by auto
    next
      case True
      let ?kept = "filter (\<lambda>x. \<not> w_area_includes_area w (aoi_area area) (aoi_area x)) l"
      have i: "ii_interests ?i = (if ?kept = [] then hm_remove ns (ii_interests info) else hm_insert ns ?kept (ii_interests info))"
        and "l \<noteq> []"
        using True by (auto simp: ii_after_def ii_match_def complete_area_if_matches_def Some list_ex_iff Let_def
            simp del: filter_empty_conv split: if_splits)
      have get: "map_of (ii_interests ?i) k = (if k = ns then (if ?kept = [] then None else Some ?kept) else map_of (ii_interests info) k)" for k
        unfolding i by (simp add: hm_simps del: filter_empty_conv)
      have "ii_ok ?i"
        unfolding ii_ok_def get using assms(2) by (auto simp: i ii_ok_def simp del: filter_empty_conv)
      moreover have "open_interests ?i = open_interests info - included_in w ns area"
        unfolding open_interests_def get included_in_def
        by (auto simp: Some unwrap_or_default_def filter_empty_conv split: if_splits)
      moreover have "open_interests info \<noteq> {}"
        using l [of "hd l"] \<open>l \<noteq> []\<close> by auto
      ultimately show ?thesis
        using True by blast
    qed
  qed
  then show "ii_ok ?i" "open_interests ?i = open_interests info - included_in w ns area"
    "\<not> ?m \<Longrightarrow> open_interests ?i = open_interests info" "?m \<Longrightarrow> open_interests info \<noteq> {}"
    by blast+
qed

text \<open>
  The state of an intent that wants \<open>W\<close>, when the complete areas cover \<open>C\<close>: what is left open, and how
  often \<open>ReconciledAll\<close> was sent.
\<close>

definition intent_inv :: "interest set \<Rightarrow> interest set \<Rightarrow> IntentInfo \<Rightarrow> nat \<Rightarrow> bool" where
  "intent_inv W C info n \<longleftrightarrow> ii_ok info \<and> open_interests info = W - C \<and> n = (if W \<noteq> {} \<and> W \<subseteq> C then 1 else 0)"

lemma nonempty_subset: "nonempty_interests W \<Longrightarrow> V \<subseteq> W \<Longrightarrow> nonempty_interests V"
  unfolding nonempty_interests_def by blast

lemma intent_inv_reconciled:
  assumes "area_laws w" "nonempty_interests W" "intent_inv W C info n"
  shows "intent_inv W (C \<union> included_in w ns area) (ii_after w (Reconciled ns area) info)
    (n + count_list (ii_events w (Reconciled ns area) info) ReconciledAll)"
proof -
  let ?i = "ii_after w (Reconciled ns area) info" and ?m = "fst (ii_match w (Reconciled ns area) info)"
  have info: "ii_ok info" "open_interests info = W - C" and n: "n = (if W \<noteq> {} \<and> W \<subseteq> C then 1 else 0)"
    using assms(3) by (simp_all add: intent_inv_def)
  have "nonempty_interests (open_interests info)"
    using nonempty_subset [OF assms(2)] info(2) by blast
  note step = complete_area_open [OF assms(1) info(1) this, of ns area]
  have o: "open_interests ?i = W - (C \<union> included_in w ns area)"
    using step(2) info(2) by blast
  have ev: "count_list (ii_events w (Reconciled ns area) info) ReconciledAll = (if ?m \<and> open_interests ?i = {} then 1 else 0)"
    using ii_ok_empty_iff [OF step(1)] by (simp add: ii_events_def)
  have "n + (if ?m \<and> open_interests ?i = {} then 1 else 0) =
      (if W \<noteq> {} \<and> W \<subseteq> C \<union> included_in w ns area then 1 else 0)"
  proof (cases ?m)
    case True
    then have "\<not> W \<subseteq> C"
      using step(4) info(2) by blast
    then show ?thesis
      using True o n by auto
  next
    case False
    then have "W - C = W - (C \<union> included_in w ns area)"
      using step(3) info(2) o by simp
    then have "W \<subseteq> C \<longleftrightarrow> W \<subseteq> C \<union> included_in w ns area"
      by blast
    then show ?thesis
      using False n by simp
  qed
  then show ?thesis
    unfolding intent_inv_def ev using step(1) o by blast
qed

lemma ii_other_event:
  "(\<And>ns area. event \<noteq> Reconciled ns area) \<Longrightarrow>
     ii_after w event info = info \<and> count_list (ii_events w event info) ReconciledAll = 0"
  by (cases event) (auto simp: ii_after_def ii_match_def ii_events_def)

lemma covered_insert:
  "covered w (hm_insert ns (hs_insert area (unwrap_or_default (map_of m ns))) m) = covered w m \<union> included_in w ns area"
proof -
  have get: "unwrap_or_default (map_of (hm_insert ns (hs_insert area (unwrap_or_default (map_of m ns))) m) k) =
      (if k = ns then hs_insert area (unwrap_or_default (map_of m ns)) else unwrap_or_default (map_of m k))" for k
    by (simp add: hm_simps unwrap_or_default_def)
  show ?thesis
    unfolding covered_def get included_in_def by (auto split: if_splits)
qed

section \<open>All intents\<close>

fun event_txs :: "(u64, IntentInfo) hash_map \<Rightarrow> nat list" where
  "event_txs [] = []"
| "event_txs ((i, info) # intents) =
     (case ii_event_tx info of None \<Rightarrow> event_txs intents | Some t \<Rightarrow> t # event_txs intents)"

lemma in_event_txs: "t \<in> set (event_txs intents) \<longleftrightarrow> (\<exists>i info. (i, info) \<in> set intents \<and> ii_event_tx info = Some t)"
  by (induction intents rule: event_txs.induct) (auto split: option.splits)

definition event_sent ::
  "wdm \<Rightarrow> EventKind \<Rightarrow> (u64, IntentInfo) hash_map \<Rightarrow> (u64 \<times> (ChannelReceiverDropped + bool)) list
   \<Rightarrow> event_chans \<Rightarrow> event_chans \<Rightarrow> bool" where
  "event_sent w event intents rs ch ch' \<longleftrightarrow> ch_closed ch' = ch_closed ch \<and>
     (\<forall>t. t \<notin> set (event_txs intents) \<longrightarrow> ch_sent ch' t = ch_sent ch t) \<and>
     (\<forall>i info t. (i, info) \<in> set intents \<longrightarrow> ii_event_tx info = Some t \<longrightarrow> \<not> ch_closed ch t \<longrightarrow>
        ch_sent ch' t = ch_sent ch t @ ii_events w event info \<and>
        (i, Ok (ii_is_complete (ii_after w event info))) \<in> set rs)"

lemma event_sent_Cons:
  assumes "sends_only (ii_event_tx info) (ii_events w event info) ch r" "distinct (event_txs ((i, info) # intents))"
    and "event_sent w event intents rs (snd r) ch'"
  shows "event_sent w event ((i, info) # intents)
    ((i, res_bind (fst r) (\<lambda>_. Ok (ii_is_complete (ii_after w event info)))) # rs) ch ch'"
  unfolding event_sent_def
proof (intro conjI allI impI)
  show "ch_closed ch' = ch_closed ch"
    using assms(1,3) by (simp add: event_sent_def sends_only_def)
  show "ch_sent ch' t = ch_sent ch t" if "t \<notin> set (event_txs ((i, info) # intents))" for t
    using that assms(1,3) by (auto simp: event_sent_def sends_only_def split: option.splits)
  fix j jn t
  assume j: "(j, jn) \<in> set ((i, info) # intents)" "ii_event_tx jn = Some t" and open_t: "\<not> ch_closed ch t"
  have "(j, jn) = (i, info) \<and> t \<notin> set (event_txs intents) \<or> (j, jn) \<in> set intents \<and> ii_event_tx info \<noteq> Some t"
    using j assms(2) in_event_txs [of t intents] by (auto split: option.splits)
  then show "ch_sent ch' t = ch_sent ch t @ ii_events w event jn"
    "(j, Ok (ii_is_complete (ii_after w event jn))) \<in>
      set ((i, res_bind (fst r) (\<lambda>_. Ok (ii_is_complete (ii_after w event info)))) # rs)"
    using assms(1,3) j open_t by (auto simp: event_sent_def sends_only_def)
qed

lemma handle_event_all_eq:
  assumes "distinct (event_txs intents)"
  obtains rs ch' where
    "handle_event_all w event intents ch = (rs, map (\<lambda>(i, info). (i, ii_after w event info)) intents, ch')"
    and "map fst rs = map fst intents" and "event_sent w event intents rs ch ch'"
proof -
  have "\<exists>rs ch'. handle_event_all w event intents ch = (rs, map (\<lambda>(i, info). (i, ii_after w event info)) intents, ch') \<and>
      map fst rs = map fst intents \<and> event_sent w event intents rs ch ch'"
    using assms
  proof (induction intents arbitrary: ch rule: event_txs.induct)
    case 1
    then show ?case by (simp add: event_sent_def)
  next
    case (2 i info intents)
    obtain r where r: "ii_handle_event w event info ch =
        (res_bind (fst r) (\<lambda>_. Ok (ii_is_complete (ii_after w event info))), ii_after w event info, snd r)"
      and only: "sends_only (ii_event_tx info) (ii_events w event info) ch r"
      using ii_handle_event_eq .
    have "distinct (event_txs intents)"
      using "2.prems" by (simp split: option.splits)
    then obtain rs ch' where "handle_event_all w event intents (snd r) =
        (rs, map (\<lambda>(i, info). (i, ii_after w event info)) intents, ch')"
      and "map fst rs = map fst intents" "event_sent w event intents rs (snd r) ch'"
      using "2.IH" by (cases "ii_event_tx info") blast+
    then show ?case
      using event_sent_Cons [OF only "2.prems"] by (simp add: r)
  qed
  then show ?thesis
    using that by blast
qed

lemma after_event_fields [simp]:
  "id_chans (after_event rs s) = id_chans s" "id_complete_areas (after_event rs s) = id_complete_areas s"
  "id_next_intent_id (after_event rs s) = id_next_intent_id s" "id_pending_intents (after_event rs s) = id_pending_intents s"
  "id_yielded (after_event rs s) = id_yielded s"
  by (induction rs s rule: after_event.induct; simp add: cancel_intent_inner_def split: sum.splits)+

lemma after_event_keeps: "map_of (id_intents (after_event rs s)) i = Some info \<Longrightarrow> map_of (id_intents s) i = Some info"
  by (induction rs s rule: after_event.induct)
    (auto simp: cancel_intent_inner_def hm_simps split: sum.splits if_splits)

lemma after_event_other: "i \<notin> fst ` set rs \<Longrightarrow> map_of (id_intents (after_event rs s)) i = map_of (id_intents s) i"
  by (induction rs s rule: after_event.induct)
    (auto simp: cancel_intent_inner_def hm_simps split: sum.splits if_splits)

lemma after_event_result:
  "distinct (map fst rs) \<Longrightarrow> (i, Ok b) \<in> set rs \<Longrightarrow>
     map_of (id_intents (after_event rs s)) i = (if b then None else map_of (id_intents s) i)"
proof (induction rs s rule: after_event.induct)
  case (2 j res rs s)
  show ?case
  proof (cases "i = j")
    case True
    then have "res = Ok b" "i \<notin> fst ` set rs"
      using 2 by (auto simp: image_iff)
    then show ?thesis
      using True by (simp add: after_event_other cancel_intent_inner_def hm_simps)
  next
    case False
    then have "(i, Ok b) \<in> set rs"
      using 2 by auto
    then show ?thesis
      using 2 False by (auto simp: cancel_intent_inner_def hm_simps split: sum.splits)
  qed
qed simp

lemma after_event_distinct: "distinct (hm_keys (id_intents s)) \<Longrightarrow> distinct (hm_keys (id_intents (after_event rs s)))"
  by (induction rs s rule: after_event.induct) (auto simp: cancel_intent_inner_def split: sum.splits)

section \<open>Submission\<close>

text \<open>What an intent wants, given the interests that it resolved to.\<close>

definition wanted :: "('cap \<Rightarrow> NamespaceId) \<Rightarrow> ('cap, 'scap) InterestMap \<Rightarrow> interest set" where
  "wanted gn m = {(ns, x). \<exists>a aois. (a, aois) \<in> set m \<and> ra_namespace gn a = ns \<and> x \<in> set aois}"

lemma set_hs_extend [simp]: "set (hs_extend xs ys) = set xs \<union> set ys"
  by (auto simp: hs_extend_def)

lemma flatten_fold:
  fixes gn :: "'cap \<Rightarrow> NamespaceId" and m :: "('cap, 'scap) InterestMap"
  defines "f \<equiv> \<lambda>(cap, aois) out. hm_insert (ra_namespace gn cap)
     (hs_extend (unwrap_or_default (map_of out (ra_namespace gn cap))) aois) out"
  shows "x \<in> set (unwrap_or_default (map_of (fold f m out) ns)) \<longleftrightarrow>
      x \<in> set (unwrap_or_default (map_of out ns)) \<or> (ns, x) \<in> wanted gn m"
    and "distinct (hm_keys out) \<Longrightarrow> distinct (hm_keys (fold f m out))"
    and "\<forall>(a, aois) \<in> set m. aois \<noteq> [] \<Longrightarrow> \<forall>k. map_of out k \<noteq> Some [] \<Longrightarrow> map_of (fold f m out) ns \<noteq> Some []"
proof (induction m arbitrary: out)
  case (Cons c m)
  obtain a aois where c: "c = (a, aois)"
    by force
  have ne: "aois \<noteq> [] \<Longrightarrow> hs_extend l aois \<noteq> []" for l
    using set_hs_extend [of l aois] by (metis Un_empty set_empty)
  { case 1
    show ?case
      using Cons.IH(1) [of "f c out"]
      by (auto simp: c f_def wanted_def hm_simps unwrap_or_default_def split: option.splits if_splits)
  next
    case 2
    then show ?case
      using Cons.IH(2) [of "f c out"] by (simp add: c f_def)
  next
    case 3
    then show ?case
      using Cons.IH(3) [of "f c out"] ne by (auto simp: c f_def hm_simps)
  }
qed (auto simp: wanted_def)

lemma flatten_open:
  assumes "ii_interests info = flatten_interests gn m"
  shows "open_interests info = wanted gn m" and "\<forall>(a, aois) \<in> set m. aois \<noteq> [] \<Longrightarrow> ii_ok info"
  using flatten_fold [where gn = gn and m = m and out = "[]"]
  unfolding open_interests_def ii_ok_def assms flatten_interests_def
  by (auto simp: unwrap_or_default_def)

lemma covered_list:
  assumes "distinct (hm_keys m)"
  shows "covered w m = (\<Union>(ns, area) \<in> set (complete_list m). included_in w ns area)"
proof -
  have "a \<in> set (unwrap_or_default (map_of m ns)) \<longleftrightarrow> (ns, a) \<in> set (complete_list m)" for ns a
    using assms by (auto simp: set_unwrap_or_default complete_list_def)
  then show ?thesis
    by (auto simp: covered_def included_in_def)
qed

lemma on_reconciled_all_local:
  assumes "on_reconciled_all w l info ch = (r, info', ch')"
  shows "ch_closed ch' = ch_closed ch \<and> (\<forall>t. ii_event_tx info \<noteq> Some t \<longrightarrow> ch_sent ch' t = ch_sent ch t) \<and>
    ii_event_tx info' = ii_event_tx info \<and> ii_mode info' = ii_mode info"
  using assms
proof (induction l arbitrary: info ch)
  case (Cons na l)
  obtain ns area where na: "na = (ns, area)"
    by force
  obtain q where q: "on_reconciled w ns area info ch = (fst q, ii_after w (Reconciled ns area) info, snd q)"
    and only: "sends_only (ii_event_tx info) (ii_events w (Reconciled ns area) info) ch q"
    using on_reconciled_eq .
  show ?case
  proof (cases "fst q")
    case (Inl e)
    then show ?thesis
      using Cons.prems q only by (auto simp: na sends_only_def)
  next
    case (Inr u)
    then show ?thesis
      using Cons.prems Cons.IH [of "ii_after w (Reconciled ns area) info" "snd q"] q only
      by (simp add: na sends_only_def)
  qed
qed simp

lemma on_reconciled_all_inv:
  assumes "area_laws w" "nonempty_interests W" "ii_event_tx info = Some t" "\<not> ch_closed ch t"
    and "intent_inv W C info (count_list (ch_sent ch t) ReconciledAll)"
    and "on_reconciled_all w l info ch = (r, info', ch')"
  shows "r = Ok () \<and> intent_inv W (C \<union> (\<Union>(ns, area) \<in> set l. included_in w ns area)) info'
    (count_list (ch_sent ch' t) ReconciledAll)"
  using assms(3-)
proof (induction l arbitrary: info ch C)
  case (Cons na l)
  obtain ns area where na: "na = (ns, area)"
    by force
  obtain q where q: "on_reconciled w ns area info ch = (fst q, ii_after w (Reconciled ns area) info, snd q)"
    and only: "sends_only (ii_event_tx info) (ii_events w (Reconciled ns area) info) ch q"
    using on_reconciled_eq .
  have sent: "fst q = Ok ()" "ch_closed (snd q) = ch_closed ch"
    "ch_sent (snd q) t = ch_sent ch t @ ii_events w (Reconciled ns area) info"
    using only Cons.prems by (simp_all add: sends_only_def)
  have "intent_inv W (C \<union> included_in w ns area) (ii_after w (Reconciled ns area) info)
      (count_list (ch_sent (snd q) t) ReconciledAll)"
    unfolding sent(3) count_list_append by (rule intent_inv_reconciled [OF assms(1,2) Cons.prems(3)])
  then show ?case
    using Cons.IH [of "ii_after w (Reconciled ns area) info" "snd q" "C \<union> included_in w ns area"] Cons.prems q sent
    by (simp add: na Un_assoc)
qed simp

section \<open>Runs of the dispatcher\<close>

text \<open>
  The states that a dispatcher reaches, with the intents under observation: the event channel of an
  intent is observed, with what the intent wants, from its submission until its receiver is dropped or
  its handle sends an update.  An intent comes with a channel of its own.
\<close>

definition registered :: "('cap, 'scap) IntentDispatcher \<Rightarrow> nat \<Rightarrow> bool" where
  "registered s t \<longleftrightarrow> (\<exists>i info. map_of (id_intents s) i = Some info \<and> ii_event_tx info = Some t)"

definition fresh_intent :: "('cap, 'scap) IntentDispatcher \<Rightarrow> (nat \<rightharpoonup> interest set) \<Rightarrow> Intent \<Rightarrow> bool" where
  "fresh_intent s T intent \<longleftrightarrow> id_next_intent_id s \<noteq> - 1 \<and>
     (\<forall>c. in_channels intent = Some c \<longrightarrow>
        ch_sent (id_chans s) (ic_event_tx c) = [] \<and> T (ic_event_tx c) = None \<and> \<not> registered s (ic_event_tx c))"

definition track ::
  "('cap, 'scap) intent_env \<Rightarrow> Intent \<Rightarrow> event_chans \<Rightarrow> (nat \<rightharpoonup> interest set) \<Rightarrow> nat \<rightharpoonup> interest set" where
  "track v intent ch T =
     (case (in_channels intent, ie_resolve v (si_interests (in_init intent))) of
        (Some c, Some (Inr m)) \<Rightarrow>
          if \<not> ch_closed ch (ic_event_tx c) \<and> (\<forall>(a, aois) \<in> set m. aois \<noteq> []) \<and>
             nonempty_interests (wanted (ie_granted_namespace v) m)
          then T(ic_event_tx c \<mapsto> wanted (ie_granted_namespace v) m) else T
      | _ \<Rightarrow> T)"

definition untrack :: "('cap, 'scap) IntentDispatcher \<Rightarrow> u64 \<Rightarrow> (nat \<rightharpoonup> interest set) \<Rightarrow> nat \<rightharpoonup> interest set" where
  "untrack s i T =
     (case Option.bind (map_of (id_intents s) i) ii_event_tx of None \<Rightarrow> T | Some t \<Rightarrow> T(t := None))"

definition drop_receiver :: "nat \<Rightarrow> ('cap, 'scap) IntentDispatcher \<Rightarrow> ('cap, 'scap) IntentDispatcher" where
  "drop_receiver t s = s\<lparr> id_chans := (id_chans s)\<lparr> ch_closed := (ch_closed (id_chans s))(t := True) \<rparr> \<rparr>"

inductive intents_reach ::
  "('cap, 'scap) intent_env \<Rightarrow> ('cap, 'scap) IntentDispatcher \<Rightarrow> (nat \<rightharpoonup> interest set) \<Rightarrow> bool" for v where
  start: "intents_reach v (dispatcher_new intents ch) Map.empty"
| pending: "intents_reach v s T \<Longrightarrow> id_pending_intents s = intent # intents \<Longrightarrow> fresh_intent s T intent \<Longrightarrow>
    submit_intent v intent (s\<lparr> id_pending_intents := intents \<rparr>) = (Done (), s') \<Longrightarrow>
    intents_reach v s' (track v intent (id_chans s) T)"
| submit: "intents_reach v s T \<Longrightarrow> fresh_intent s T intent \<Longrightarrow> run_input v (SubmitIntent intent) s = (Done (), s') \<Longrightarrow>
    intents_reach v s' (track v intent (id_chans s) T)"
| emit: "intents_reach v s T \<Longrightarrow> run_input v (EmitEvent event) s = (Done (), s') \<Longrightarrow> intents_reach v s' T"
| update: "intents_reach v s T \<Longrightarrow> run_update v i (Some u) s = (Done (), s') \<Longrightarrow> intents_reach v s' (untrack s i T)"
| sender_dropped: "intents_reach v s T \<Longrightarrow> run_update v i None s = (Done (), s') \<Longrightarrow> intents_reach v s' T"
| receiver_dropped: "intents_reach v s T \<Longrightarrow> intents_reach v (drop_receiver t s) (T(t := None))"

section \<open>The invariant of the dispatcher\<close>

definition tx_unique :: "(u64, IntentInfo) hash_map \<Rightarrow> bool" where
  "tx_unique m \<longleftrightarrow> (\<forall>i j a b t. map_of m i = Some a \<longrightarrow> map_of m j = Some b \<longrightarrow>
     ii_event_tx a = Some t \<longrightarrow> ii_event_tx b = Some t \<longrightarrow> i = j)"

definition tracked_inv :: "wdm \<Rightarrow> ('cap, 'scap) IntentDispatcher \<Rightarrow> nat \<Rightarrow> interest set \<Rightarrow> bool" where
  "tracked_inv w s t W \<longleftrightarrow>
     \<not> ch_closed (id_chans s) t \<and> nonempty_interests W \<and>
     (if registered s t
      then \<exists>i info. map_of (id_intents s) i = Some info \<and> ii_event_tx info = Some t \<and>
             intent_inv W (covered w (id_complete_areas s)) info (count_list (ch_sent (id_chans s) t) ReconciledAll)
      else W \<subseteq> covered w (id_complete_areas s) \<and>
           count_list (ch_sent (id_chans s) t) ReconciledAll = (if W \<noteq> {} then 1 else 0))"

definition disp_inv :: "wdm \<Rightarrow> ('cap, 'scap) IntentDispatcher \<Rightarrow> (nat \<rightharpoonup> interest set) \<Rightarrow> bool" where
  "disp_inv w s T \<longleftrightarrow>
     distinct (hm_keys (id_intents s)) \<and> distinct (hm_keys (id_complete_areas s)) \<and>
     (\<forall>i \<in> set (hm_keys (id_intents s)). i < id_next_intent_id s) \<and> tx_unique (id_intents s) \<and>
     (\<forall>t W. T t = Some W \<longrightarrow> tracked_inv w s t W)"

lemma tx_unique_restrict:
  "tx_unique m \<Longrightarrow> (\<And>i a. map_of m' i = Some a \<Longrightarrow> map_of m i = Some a) \<Longrightarrow> tx_unique m'"
  unfolding tx_unique_def by meson

lemma tx_unique_distinct: "distinct (hm_keys m) \<Longrightarrow> tx_unique m \<Longrightarrow> distinct (event_txs m)"
proof (induction m rule: event_txs.induct)
  case (2 i info m)
  have "map_of ((i, info) # m) j = Some a" if "map_of m j = Some a" for j a
    using 2(3) hm_get_Some_in [OF that] that by auto
  then have "tx_unique m"
    by (rule tx_unique_restrict [OF 2(4)])
  then have IH: "distinct (event_txs m)"
    using 2 by (cases "ii_event_tx info") auto
  have "t \<notin> set (event_txs m)" if t: "ii_event_tx info = Some t" for t
  proof
    assume "t \<in> set (event_txs m)"
    then obtain j jn where "(j, jn) \<in> set m" "ii_event_tx jn = Some t"
      unfolding in_event_txs by blast
    moreover from this 2(3) have "j \<noteq> i" "map_of m j = Some jn"
      by (auto simp: image_iff)
    ultimately show False
      using 2(4) t unfolding tx_unique_def by (metis map_of_Cons_code(2))
  qed
  then show ?case
    using IH by (simp split: option.splits)
qed simp

lemma tracked_registered:
  "map_of (id_intents s) i = Some info \<Longrightarrow> ii_event_tx info = Some t \<Longrightarrow> \<not> ch_closed (id_chans s) t \<Longrightarrow> nonempty_interests W \<Longrightarrow>
     intent_inv W (covered w (id_complete_areas s)) info (count_list (ch_sent (id_chans s) t) ReconciledAll) \<Longrightarrow>
     tracked_inv w s t W"
  unfolding tracked_inv_def registered_def by auto

text \<open>Removing intents, with everything else unchanged, keeps the rest.\<close>

lemma disp_inv_restrict:
  assumes "disp_inv w s T"
    and "distinct (hm_keys (id_intents s'))" "\<And>i info. map_of (id_intents s') i = Some info \<Longrightarrow> map_of (id_intents s) i = Some info"
    and "id_complete_areas s' = id_complete_areas s" "id_next_intent_id s' = id_next_intent_id s" "id_chans s' = id_chans s"
    and "\<And>t W. T' t = Some W \<Longrightarrow> T t = Some W \<and> (registered s t \<longrightarrow> registered s' t)"
  shows "disp_inv w s' T'"
proof -
  have "set (hm_keys (id_intents s')) \<subseteq> set (hm_keys (id_intents s))"
    using assms(3) by (metis hm_get_None_iff not_None_eq subsetI)
  moreover have "tx_unique (id_intents s')"
    using assms(1,3) tx_unique_restrict unfolding disp_inv_def by blast
  moreover have "tracked_inv w s' t W" if T': "T' t = Some W" for t W
  proof -
    have t: "tracked_inv w s t W" "registered s t \<longleftrightarrow> registered s' t"
      using assms(1) assms(7) [OF T'] assms(3) unfolding disp_inv_def registered_def by blast+
    show ?thesis
    proof (cases "registered s' t")
      case True
      then obtain i info where i: "map_of (id_intents s') i = Some info" "ii_event_tx info = Some t"
        unfolding registered_def by blast
      obtain j jn where j: "map_of (id_intents s) j = Some jn" "ii_event_tx jn = Some t"
        "intent_inv W (covered w (id_complete_areas s)) jn (count_list (ch_sent (id_chans s) t) ReconciledAll)"
        using t True unfolding tracked_inv_def by auto
      have "i = j"
        using assms(1) i j assms(3) unfolding disp_inv_def tx_unique_def by blast
      then have "jn = info"
        using i(1) j(1) assms(3) by fastforce
      then show ?thesis
        using t True i j assms(4,6) unfolding tracked_inv_def by auto
    next
      case False
      then show ?thesis
        using t assms(4,6) unfolding tracked_inv_def by simp
    qed
  qed
  ultimately show ?thesis
    using assms(1,2,4,5) unfolding disp_inv_def by (simp del: set_map) blast
qed

lemma disp_inv_same:
  assumes "disp_inv w s T" "id_intents s' = id_intents s" "id_complete_areas s' = id_complete_areas s"
    and "id_next_intent_id s' = id_next_intent_id s" "id_chans s' = id_chans s"
  shows "disp_inv w s' T"
  by (rule disp_inv_restrict [OF assms(1)]) (use assms in \<open>simp_all add: disp_inv_def registered_def\<close>)

lemma yield_if_empty_Done:
  assumes "yield_if_empty s = (Done (), s')"
  shows "id_intents s' = id_intents s" "id_complete_areas s' = id_complete_areas s"
    "id_next_intent_id s' = id_next_intent_id s" "id_chans s' = id_chans s"
  using assms by (auto simp: yield_if_empty_def rbind_def gets_def co_yield_def modify_def ret_def split: if_splits)

lemma cancel_intent_Done:
  assumes "cancel_intent i s = (Done (), s')"
  shows "id_intents s' = hm_remove i (id_intents s)" "id_complete_areas s' = id_complete_areas s"
    "id_next_intent_id s' = id_next_intent_id s" "id_chans s' = id_chans s"
  using assms yield_if_empty_Done [of "cancel_intent_inner i s" s']
  by (auto simp: cancel_intent_def rbind_def modify_def cancel_intent_inner_def)

lemma cancel_intent_inv:
  assumes "disp_inv w s T" "cancel_intent i s = (Done (), s')"
    and "\<And>t W. T' t = Some W \<Longrightarrow> T t = Some W \<and> Option.bind (map_of (id_intents s) i) ii_event_tx \<noteq> Some t"
  shows "disp_inv w s' T'"
proof (rule disp_inv_restrict [OF assms(1)])
  fix t W
  assume "T' t = Some W"
  then have T: "T t = Some W" "Option.bind (map_of (id_intents s) i) ii_event_tx \<noteq> Some t"
    using assms(3) by blast+
  have "registered s' t" if "registered s t"
  proof -
    obtain j info where "map_of (id_intents s) j = Some info" "ii_event_tx info = Some t"
      using \<open>registered s t\<close> unfolding registered_def by blast
    moreover from this have "j \<noteq> i"
      using T(2) by auto
    ultimately show ?thesis
      unfolding registered_def cancel_intent_Done(1) [OF assms(2)] hm_get_remove by metis
  qed
  with T(1) show "T t = Some W \<and> (registered s t \<longrightarrow> registered s' t)"
    by blast
qed (use assms(1) cancel_intent_Done [OF assms(2)] in \<open>auto simp: disp_inv_def hm_simps split: if_splits\<close>)

lemma emit_covered:
  fixes event m s
  defines "s1 \<equiv> (case event of
      Reconciled namespace area \<Rightarrow> s\<lparr> id_complete_areas := hm_insert namespace
        (hs_insert area (unwrap_or_default (map_of (id_complete_areas s) namespace))) (id_complete_areas s) \<rparr>
    | _ \<Rightarrow> s)"
  shows "id_intents s1 = id_intents s" "id_chans s1 = id_chans s" "id_next_intent_id s1 = id_next_intent_id s"
    "covered w (id_complete_areas s1) = covered w (id_complete_areas s) \<union>
       (case event of Reconciled ns area \<Rightarrow> included_in w ns area | _ \<Rightarrow> {})"
    "distinct (hm_keys (id_complete_areas s)) \<Longrightarrow> distinct (hm_keys (id_complete_areas s1))"
  by (cases event; simp add: s1_def covered_insert)+

lemma intent_inv_event:
  assumes "area_laws w" "nonempty_interests W" "intent_inv W C info n"
  shows "intent_inv W (C \<union> (case event of Reconciled ns area \<Rightarrow> included_in w ns area | _ \<Rightarrow> {})) (ii_after w event info)
    (n + count_list (ii_events w event info) ReconciledAll)"
  using intent_inv_reconciled [OF assms] ii_other_event [of event w info] assms(3) by (cases event) auto

lemma emit_event_inner_inv:
  assumes "area_laws w" "disp_inv w s T"
  shows "disp_inv w (emit_event_inner w event s) T"
proof -
  define s1 where "s1 = (case event of
      Reconciled namespace area \<Rightarrow> s\<lparr> id_complete_areas := hm_insert namespace
        (hs_insert area (unwrap_or_default (map_of (id_complete_areas s) namespace))) (id_complete_areas s) \<rparr>
    | _ \<Rightarrow> s)"
  note s1 = emit_covered [where event = event and s = s, folded s1_def]
  have inv: "distinct (hm_keys (id_intents s))" "tx_unique (id_intents s)"
    using assms(2) by (simp_all add: disp_inv_def)
  let ?f = "map (\<lambda>(i, info). (i, ii_after w event info))"
  obtain rs ch' where all: "handle_event_all w event (id_intents s) (id_chans s) = (rs, ?f (id_intents s), ch')"
    and rs: "map fst rs = map fst (id_intents s)" and sent: "event_sent w event (id_intents s) rs (id_chans s) ch'"
    using handle_event_all_eq [OF tx_unique_distinct [OF inv]] .
  define s2 where "s2 = s1\<lparr> id_intents := ?f (id_intents s), id_chans := ch' \<rparr>"
  have e: "emit_event_inner w event s = after_event rs s2"
    unfolding emit_event_inner_def s1_def [symmetric] by (simp add: Let_def s1 all s2_def)
  have get: "map_of (id_intents s2) i = map_option (ii_after w event) (map_of (id_intents s) i)" for i
    by (simp add: s2_def map_of_map)
  have bwd: "\<exists>info. map_of (id_intents s) i = Some info \<and> info' = ii_after w event info"
    if "map_of (id_intents (after_event rs s2)) i = Some info'" for i info'
    using after_event_keeps [OF that] by (auto simp: get)
  have "hm_keys (id_intents s2) = hm_keys (id_intents s)"
    by (auto simp: s2_def)
  then have d: "distinct (hm_keys (id_intents (after_event rs s2)))"
    using after_event_distinct [of s2 rs] inv(1) by metis
  have "set (hm_keys (id_intents (after_event rs s2))) \<subseteq> set (hm_keys (id_intents s))"
    using bwd by (metis hm_get_None_iff not_None_eq subsetI)
  moreover have "tx_unique (id_intents (after_event rs s2))"
    unfolding tx_unique_def using bwd inv(2) [unfolded tx_unique_def] by (metis ii_after_fields(2))
  moreover have "tracked_inv w (after_event rs s2) t W" if T: "T t = Some W" for t W
  proof -
    let ?C = "covered w (id_complete_areas s)" and ?C' = "covered w (id_complete_areas s1)"
    have tr: "tracked_inv w s t W"
      using assms(2) T by (simp add: disp_inv_def)
    then have op: "\<not> ch_closed (id_chans s) t" and ne: "nonempty_interests W"
      by (simp_all add: tracked_inv_def)
    have op': "\<not> ch_closed (id_chans (after_event rs s2)) t"
      using op sent by (simp add: event_sent_def s2_def)
    have C': "?C' = ?C \<union> (case event of Reconciled ns area \<Rightarrow> included_in w ns area | _ \<Rightarrow> {})"
      by (rule s1(4))
    show ?thesis
    proof (cases "registered s t")
      case True
      then obtain i info where i: "map_of (id_intents s) i = Some info" "ii_event_tx info = Some t"
        and inv_i: "intent_inv W ?C info (count_list (ch_sent (id_chans s) t) ReconciledAll)"
        using tr by (auto simp: tracked_inv_def)
      have ch': "ch_sent ch' t = ch_sent (id_chans s) t @ ii_events w event info"
        and r: "(i, Ok (ii_is_complete (ii_after w event info))) \<in> set rs"
        using sent map_of_SomeD [OF i(1)] i(2) op unfolding event_sent_def by blast+
      have inv': "intent_inv W ?C' (ii_after w event info) (count_list (ch_sent ch' t) ReconciledAll)"
        unfolding C' ch' count_list_append by (rule intent_inv_event [OF assms(1) ne inv_i])
      have res: "map_of (id_intents (after_event rs s2)) i =
          (if ii_is_complete (ii_after w event info) then None else Some (ii_after w event info))"
        using after_event_result [OF _ r, of s2] rs inv(1) by (simp add: get i(1))
      have only_i: "j = i" if "map_of (id_intents (after_event rs s2)) j = Some jn" "ii_event_tx jn = Some t" for j jn
        using bwd [OF that(1)] that(2) i inv(2) unfolding tx_unique_def by fastforce
      show ?thesis
      proof (cases "ii_is_complete (ii_after w event info)")
        case True
        then have "\<not> registered (after_event rs s2) t"
          using only_i res unfolding registered_def by fastforce
        moreover have "W \<subseteq> ?C'"
          using inv' True by (auto simp: intent_inv_def ii_is_complete_def ii_ok_empty_iff)
        ultimately show ?thesis
          using op' ne inv' by (simp add: tracked_inv_def s2_def intent_inv_def)
      next
        case False
        then have "map_of (id_intents (after_event rs s2)) i = Some (ii_after w event info)"
          using res by simp
        then show ?thesis
          by (rule tracked_registered) (use op' ne inv' i(2) in \<open>simp_all add: s2_def\<close>)
      qed
    next
      case False
      then have "t \<notin> set (event_txs (id_intents s))"
        unfolding in_event_txs registered_def using map_of_eq_Some_iff [OF inv(1)] by blast
      then have "ch_sent ch' t = ch_sent (id_chans s) t"
        using sent by (simp add: event_sent_def)
      moreover have "\<not> registered (after_event rs s2) t"
        using False bwd unfolding registered_def by (metis ii_after_fields(2))
      ultimately show ?thesis
        using tr False op' ne C' by (auto simp: tracked_inv_def s2_def)
    qed
  qed
  ultimately show ?thesis
    unfolding e using d assms(2) s1 by (simp add: disp_inv_def s2_def del: set_map) blast
qed

lemma submit_intent_Done:
  assumes "submit_intent v intent s = (Done (), s')"
  obtains m info info0 ch where "ie_resolve v (si_interests (in_init intent)) = Some (Ok m)"
    and "ii_interests info0 = flatten_interests (ie_granted_namespace v) m"
    and "ii_event_tx info0 = map_option ic_event_tx (in_channels intent)"
    and "on_reconciled_all (ie_wdm v) (complete_list (id_complete_areas s)) info0 (id_chans s) = (Ok (), info, ch)"
    and "id_next_intent_id s' = id_next_intent_id s + 1" "id_chans s' = ch" "id_complete_areas s' = id_complete_areas s"
    and "id_intents s' = (if ii_is_complete info then id_intents s else hm_insert (id_next_intent_id s) info (id_intents s))"
proof -
  obtain m where m: "ie_resolve v (si_interests (in_init intent)) = Some (Ok m)"
    using assms
    by (cases "ie_resolve v (si_interests (in_init intent))")
      (auto simp: submit_intent_def rbind_def unwrap_def try_res_def map_err_def split: sum.splits)
  let ?i = "\<lparr> ii_interests = flatten_interests (ie_granted_namespace v) m, ii_mode = si_mode (in_init intent),
      ii_event_tx = map_option ic_event_tx (in_channels intent) \<rparr>"
  obtain r info ch where all: "on_reconciled_all (ie_wdm v) (complete_list (id_complete_areas s)) ?i (id_chans s) = (r, info, ch)"
    by (metis prod_cases3)
  obtain u where "r = Ok u"
    using assms by (cases r) (simp_all add: submit_intent_def m all rbind_def unwrap_def try_res_def map_err_def gets_def modify_def Let_def)
  with assms all m show ?thesis
    by (intro that [OF m, of ?i info ch])
      (auto simp: submit_intent_def rbind_def unwrap_def try_res_def map_err_def gets_def modify_def ret_def co_yield_def Let_def
        split: if_splits option.splits)
qed

lemma submit_intent_inv:
  assumes "area_laws (ie_wdm v)" "disp_inv (ie_wdm v) s T" "fresh_intent s T intent"
    and "submit_intent v intent s = (Done (), s')"
  shows "disp_inv (ie_wdm v) s' (track v intent (id_chans s) T)"
proof -
  let ?w = "ie_wdm v" and ?n = "id_next_intent_id s" and ?W = "\<lambda>m. wanted (ie_granted_namespace v) m"
  obtain m info info0 ch where m: "ie_resolve v (si_interests (in_init intent)) = Some (Ok m)"
    and info0: "ii_interests info0 = flatten_interests (ie_granted_namespace v) m"
      "ii_event_tx info0 = map_option ic_event_tx (in_channels intent)"
    and all: "on_reconciled_all ?w (complete_list (id_complete_areas s)) info0 (id_chans s) = (Ok (), info, ch)"
    and s': "id_next_intent_id s' = ?n + 1" "id_chans s' = ch" "id_complete_areas s' = id_complete_areas s"
      "id_intents s' = (if ii_is_complete info then id_intents s else hm_insert ?n info (id_intents s))"
    using submit_intent_Done [OF assms(4)] .
  have lt: "?n < ?n + 1"
    using assms(3) by (simp add: fresh_intent_def word_less_plus_1_iff)
  have new: "map_of (id_intents s) ?n = None"
    using assms(2) by (force simp: disp_inv_def hm_get_None_iff)
  note loc = on_reconciled_all_local [OF all]
  have tx: "ii_event_tx info = map_option ic_event_tx (in_channels intent)"
    using loc info0(2) by simp
  have fresh: "\<not> registered s t" "T t = None" "ch_sent (id_chans s) t = []" if "ii_event_tx info = Some t" for t
    using that assms(3) unfolding tx fresh_intent_def by auto
  have get: "map_of (id_intents s') i = (if i = ?n \<and> \<not> ii_is_complete info then Some info else map_of (id_intents s) i)" for i
    by (simp add: s'(4) hm_simps)
  have reg: "registered s' t \<longleftrightarrow> registered s t \<or> \<not> ii_is_complete info \<and> ii_event_tx info = Some t" for t
  proof (rule iffI, goal_cases)
    case 1
    then show ?case
      by (auto simp: registered_def get split: if_splits)
  next
    case 2
    then show ?case
    proof (elim disjE conjE)
    assume "registered s t"
    then obtain i jn where i: "map_of (id_intents s) i = Some jn" "ii_event_tx jn = Some t"
      unfolding registered_def by blast
    then have "i \<noteq> ?n"
      using new by auto
    then show "registered s' t"
      unfolding registered_def by (intro exI [of _ i] exI [of _ jn]) (simp add: get i)
  next
    assume "\<not> ii_is_complete info" "ii_event_tx info = Some t"
    then show "registered s' t"
      unfolding registered_def by (intro exI [of _ ?n] exI [of _ info]) (simp add: get)
    qed
  qed
  have uniq: "tx_unique (id_intents s')"
    unfolding tx_unique_def get
    using assms(2) [unfolded disp_inv_def tx_unique_def] fresh(1) [unfolded registered_def] by (auto split: if_splits) 
  have keys: "\<forall>i \<in> set (hm_keys (id_intents s')). i < ?n + 1"
    using assms(2) lt by (auto simp: s'(4) disp_inv_def hm_simps simp del: set_map intro: less_trans)
  have old: "tracked_inv ?w s' t W" if T: "T t = Some W" for t W
  proof -
    have "ii_event_tx info \<noteq> Some t"
      using fresh(2) T by force
    then have ch: "ch_sent ch t = ch_sent (id_chans s) t" "ch_closed ch = ch_closed (id_chans s)"
      and r: "registered s' t \<longleftrightarrow> registered s t"
      using loc info0(2) tx reg by auto
    have tr: "tracked_inv ?w s t W"
      using assms(2) T by (simp add: disp_inv_def)
    show ?thesis
    proof (cases "registered s t")
      case True
      then obtain i jn where i: "map_of (id_intents s) i = Some jn" "ii_event_tx jn = Some t"
        "intent_inv W (covered ?w (id_complete_areas s)) jn (count_list (ch_sent (id_chans s) t) ReconciledAll)"
        using tr by (auto simp: tracked_inv_def)
      then have "map_of (id_intents s') i = Some jn"
        using new by (auto simp: get)
      then show ?thesis
        by (rule tracked_registered) (use tr i ch in \<open>simp_all add: tracked_inv_def s'(2,3)\<close>)
    next
      case False
      then show ?thesis
        using tr by (simp add: tracked_inv_def r s'(2,3) ch)
    qed
  qed
  have mine: "tracked_inv ?w s' t (?W m)"
    if t: "ii_event_tx info = Some t" and op: "\<not> ch_closed (id_chans s) t"
      and ok: "\<forall>(a, aois) \<in> set m. aois \<noteq> []" and ne: "nonempty_interests (?W m)" for t
  proof -
    have "intent_inv (?W m) {} info0 (count_list (ch_sent (id_chans s) t) ReconciledAll)"
      using flatten_open [OF info0(1)] ok fresh(3) [OF t] by (auto simp: intent_inv_def)
    moreover have "ii_event_tx info0 = Some t"
      using t loc by simp
    moreover have "distinct (hm_keys (id_complete_areas s))"
      using assms(2) by (simp add: disp_inv_def)
    ultimately have inv: "intent_inv (?W m) (covered ?w (id_complete_areas s)) info (count_list (ch_sent ch t) ReconciledAll)"
      using on_reconciled_all_inv [OF assms(1) ne _ op _ all, of "{}"] by (simp add: covered_list)
    show ?thesis
    proof (cases "ii_is_complete info")
      case True
      then have "?W m \<subseteq> covered ?w (id_complete_areas s)"
        using inv by (auto simp: intent_inv_def ii_is_complete_def ii_ok_empty_iff)
      then show ?thesis
        using True inv op ne loc fresh(1) [OF t] by (simp add: tracked_inv_def reg s'(2,3) intent_inv_def)
    next
      case False
      then have "map_of (id_intents s') ?n = Some info"
        by (simp add: get)
      then show ?thesis
        by (rule tracked_registered) (use inv op ne loc t in \<open>simp_all add: s'(2,3)\<close>)
    qed
  qed
  have "tracked_inv ?w s' t W" if "track v intent (id_chans s) T t = Some W" for t W
    using that old [of t W] mine [of t] tx m by (auto simp: track_def split: option.splits if_splits)
  then show ?thesis
    using uniq keys assms(2) unfolding disp_inv_def s'(1,3) by (auto simp: s'(4))
qed

lemma sender_dropped_inv:
  assumes "disp_inv w s T" "update_sender_dropped i s = (Done (), s')"
  shows "disp_inv w s' T"
proof -
  define s1 where "s1 = s\<lparr> id_intent_update_rx := hm_remove i (id_intent_update_rx s) \<rparr>"
  have s1: "disp_inv w s1 T" "id_intents s1 = id_intents s" "id_chans s1 = id_chans s"
    using disp_inv_same [OF assms(1), of s1] by (simp_all add: s1_def)
  let ?closed = "case map_of (id_intents s) i of Some info \<Rightarrow> events_closed info (id_chans s) | None \<Rightarrow> True"
  have s': "if ?closed then cancel_intent i s1 = (Done (), s') else s' = s1"
    using assms(2)
    by (cases "map_of (id_intents s) i")
      (simp_all add: update_sender_dropped_def rbind_def gets_def modify_def ret_def s1_def split: if_splits)
  show ?thesis
  proof (cases ?closed)
    case True
    have "T t = Some W \<Longrightarrow> Option.bind (map_of (id_intents s1) i) ii_event_tx \<noteq> Some t" for t W
      using True assms(1) s1(2) unfolding disp_inv_def tracked_inv_def
      by (auto simp: bind_eq_Some_conv events_closed_def)
    then show ?thesis
      using s' True cancel_intent_inv [OF s1(1)] by simp
  next
    case False
    then show ?thesis
      using s' s1(1) by simp
  qed
qed

lemma add_interests_inv:
  assumes "disp_inv w s T" "map_of (id_intents s) i = Some info" "ii_event_tx info' = ii_event_tx info"
    and "id_intents s' = hm_insert i info' (id_intents s)" "id_complete_areas s' = id_complete_areas s"
    and "id_next_intent_id s' = id_next_intent_id s" "id_chans s' = id_chans s"
  shows "disp_inv w s' (untrack s i T)"
proof -
  have get: "map_of (id_intents s') j = (if j = i then Some info' else map_of (id_intents s) j)" for j
    by (simp add: assms(4) hm_simps)
  have bwd: "\<exists>jn. map_of (id_intents s) j = Some jn \<and> ii_event_tx jn = ii_event_tx x" if "map_of (id_intents s') j = Some x" for j x
    using that assms(2,3) by (auto simp: get split: if_splits)
  have "i \<in> set (hm_keys (id_intents s))"
    by (rule hm_get_Some_in [OF assms(2)])
  then have "set (hm_keys (id_intents s')) = set (hm_keys (id_intents s))" "distinct (hm_keys (id_intents s'))"
    using assms(1) by (auto simp: assms(4) hm_simps disp_inv_def simp del: set_map)
  moreover have "tx_unique (id_intents s')"
    using assms(1) bwd unfolding disp_inv_def tx_unique_def by metis
  moreover have "tracked_inv w s' t W" if T: "untrack s i T t = Some W" for t W
  proof -
    have t: "T t = Some W" "ii_event_tx info \<noteq> Some t"
      using T assms(2) by (auto simp: untrack_def split: option.splits if_splits)
    then have tr: "tracked_inv w s t W"
      using assms(1) by (simp add: disp_inv_def)
    show ?thesis
    proof (cases "registered s t")
      case True
      then obtain j jn where j: "map_of (id_intents s) j = Some jn" "ii_event_tx jn = Some t"
        "intent_inv W (covered w (id_complete_areas s)) jn (count_list (ch_sent (id_chans s) t) ReconciledAll)"
        using tr by (auto simp: tracked_inv_def)
      then have "map_of (id_intents s') j = Some jn"
        using t(2) assms(2) by (auto simp: get)
      then show ?thesis
        by (rule tracked_registered) (use tr j assms(5,7) in \<open>simp_all add: tracked_inv_def\<close>)
    next
      case False
      then have "\<not> registered s' t"
        using bwd unfolding registered_def by metis
      then show ?thesis
        using tr False assms(5,7) by (simp add: tracked_inv_def)
    qed
  qed
  ultimately show ?thesis
    using assms(1,5,6) by (simp add: disp_inv_def del: set_map)
qed

lemma untrack_keeps: "untrack s i T t = Some W \<Longrightarrow> T t = Some W \<and> Option.bind (map_of (id_intents s) i) ii_event_tx \<noteq> Some t"
  by (auto simp: untrack_def split: option.splits if_splits)

lemma update_intent_inv:
  assumes "disp_inv (ie_wdm v) s T" "update_intent v i u s = (Done b, s')"
  shows "disp_inv (ie_wdm v) s' (untrack s i T)"
proof (cases u)
  case (IU_AddInterests interests)
  have same: "disp_inv (ie_wdm v) s (untrack s i T)"
    using disp_inv_restrict [OF assms(1), of s "untrack s i T"] untrack_keeps [of s i T] assms(1)
    by (auto simp: disp_inv_def)
  show ?thesis
  proof (cases "ie_resolve v interests")
    case (Some r)
    show ?thesis
    proof (cases r)
      case (Inr m)
      show ?thesis
      proof (cases "map_of (id_intents s) i")
        case None
        then show ?thesis
          using assms(2) same Some Inr IU_AddInterests
          by (auto simp: rbind_def unwrap_def gets_def ret_def)
      next
        case (Some info)
        show ?thesis
          by (rule add_interests_inv [OF assms(1) Some, of "merge_interests (ie_granted_namespace v) m info"])
            (use assms(2) \<open>ie_resolve v interests = Some r\<close> Inr Some IU_AddInterests in
              \<open>auto simp: rbind_def unwrap_def gets_def ret_def modify_def co_yield_def merge_interests_def\<close>)
      qed
    qed (use assms(2) same Some IU_AddInterests in \<open>auto simp: rbind_def unwrap_def ret_def\<close>)
  qed (use assms(2) IU_AddInterests in \<open>auto simp: rbind_def unwrap_def\<close>)
next
  case IU_Close
  then have "cancel_intent i s = (Done (), s')"
    using assms(2) by (auto simp: rbind_def ret_def split: prod.splits outcome.splits)
  then show ?thesis
    using cancel_intent_inv [OF assms(1)] untrack_keeps [of s i T] by blast
qed

lemma intents_reach_inv:
  assumes "area_laws (ie_wdm v)" "intents_reach v s T"
  shows "disp_inv (ie_wdm v) s T"
  using assms(2)
proof (induction rule: intents_reach.induct)
  case (start intents ch)
  then show ?case
    by (simp add: disp_inv_def dispatcher_new_def tx_unique_def)
next
  case (pending s T intent intents s')
  have "disp_inv (ie_wdm v) (s\<lparr> id_pending_intents := intents \<rparr>) T"
    by (rule disp_inv_same [OF pending.IH]) simp_all
  moreover have "fresh_intent (s\<lparr> id_pending_intents := intents \<rparr>) T intent"
    using pending.hyps(3) by (simp add: fresh_intent_def registered_def)
  ultimately show ?case
    using submit_intent_inv [OF assms(1) _ _ pending.hyps(4), of T] by simp
next
  case (submit s T intent s')
  then show ?case
    using submit_intent_inv [OF assms(1)] by simp
next
  case (emit s T event s')
  have "yield_if_empty (emit_event_inner (ie_wdm v) event s) = (Done (), s')"
    using emit.hyps(2) by (simp add: emit_event_def rbind_def modify_def)
  then show ?case
    using disp_inv_same [OF emit_event_inner_inv [OF assms(1) emit.IH]] yield_if_empty_Done by metis
next
  case (update s T i u s')
  then obtain b where "update_intent v i u s = (Done b, s')"
    by (auto simp: rbind_def ret_def split: prod.splits outcome.splits)
  then show ?case
    by (rule update_intent_inv [OF update.IH])
next
  case (sender_dropped s T i s')
  then show ?case
    using sender_dropped_inv by simp
next
  case (receiver_dropped s T t)
  have f: "id_intents (drop_receiver t s) = id_intents s" "id_complete_areas (drop_receiver t s) = id_complete_areas s"
    "id_next_intent_id (drop_receiver t s) = id_next_intent_id s" "ch_sent (id_chans (drop_receiver t s)) = ch_sent (id_chans s)"
    "ch_closed (id_chans (drop_receiver t s)) = (ch_closed (id_chans s))(t := True)"
    by (simp_all add: drop_receiver_def)
  have reg: "registered (drop_receiver t s) t' = registered s t'" for t'
    by (simp add: registered_def f(1))
  have "tracked_inv (ie_wdm v) (drop_receiver t s) t' W \<longleftrightarrow> tracked_inv (ie_wdm v) s t' W" if "t' \<noteq> t" for t' W
    using that by (simp add: tracked_inv_def reg f)
  then show ?case
    using receiver_dropped.IH by (simp add: disp_inv_def f del: set_map split: if_splits)
qed

lemma complete_loop_result:
  "\<forall>e. Abort e \<notin> set evs \<Longrightarrow>
     complete_loop evs c q = Ok (if c \<or> ReconciledAll \<in> set evs then Complete
       else if q \<or> (\<exists>ns a. Reconciled ns a \<in> set evs) then Partial else Nothing)"
  by (induction evs c q rule: complete_loop.induct) (auto split: EventKind.splits)


definition demo_intent_env :: "(demo_cap, unit) intent_env" where
  "demo_intent_env =
     \<lparr> ie_wdm = demo_wdm, ie_granted_namespace = dc_namespace,
       ie_resolve = \<lambda>i. resolve_interests demo_meadowcap (mem_auth_storage demo_wdm demo_meadowcap demo_secrets) i demo_caps_store \<rparr>"

definition demo_intent :: Intent
  where "demo_intent = intent_new \<lparr> si_interests = AllInterests, si_mode = ReconcileOnce \<rparr> 0 0"

definition demo_dispatcher :: "nat \<Rightarrow> unit outcome \<times> (demo_cap, unit) IntentDispatcher" where
  "demo_dispatcher n =
     (if n = 0 then (Done (), dispatcher_new [] \<lparr> ch_sent = \<lambda>_. [], ch_closed = \<lambda>_. False \<rparr>)
      else if n = 1 then submit_intent demo_intent_env demo_intent (dispatcher_new [] \<lparr> ch_sent = \<lambda>_. [], ch_closed = \<lambda>_. False \<rparr>)
      else rbind (submit_intent demo_intent_env demo_intent)
        (\<lambda>_. emit_event demo_wdm (Reconciled (e_namespace_id demo_entry) (aoi_with_area (area_new_path []))))
        (dispatcher_new [] \<lparr> ch_sent = \<lambda>_. [], ch_closed = \<lambda>_. False \<rparr>))"

lemma demo_dispatcher_runs:
  "fst (demo_dispatcher 1) = Done ()" "fst (demo_dispatcher 2) = Done ()"
  "count_list (ch_sent (id_chans (snd (demo_dispatcher 2))) 0) ReconciledAll = 1"
  by code_simp+

lemma demo_resolved:
  "ie_resolve demo_intent_env AllInterests =
     Some (Ok [(ra_new (demo_mc_cap [[1]] 1) None, [aoi_with_area (area_new_path [[1]])]),
               (ra_new (demo_mc_cap [] 0) None, [aoi_with_area (area_new_path [])])])"
  by code_simp

lemma area_new_path_nonempty: "Ex (in_area (area_new_path p))"
proof
  show "in_area (area_new_path p) (demo_entry\<lparr> e_path := p \<rparr>)"
    by (simp add: in_area_def area_new_path_def range_full_times_def)
qed

lemma demo_intents_reach:
  "\<exists>T W. intents_reach demo_intent_env (snd (demo_dispatcher 2)) T \<and> T 0 = Some W"
proof -
  let ?s0 = "dispatcher_new [] \<lparr> ch_sent = \<lambda>_. [], ch_closed = \<lambda>_. False \<rparr> :: (demo_cap, unit) IntentDispatcher"
  let ?T = "track demo_intent_env demo_intent (id_chans ?s0) Map.empty"
  have "intents_reach demo_intent_env ?s0 Map.empty"
    by (rule intents_reach.start)
  moreover have "fresh_intent ?s0 Map.empty demo_intent"
    by (simp add: fresh_intent_def dispatcher_new_def registered_def)
  moreover have "demo_dispatcher 1 = (Done (), snd (demo_dispatcher 1))"
    using demo_dispatcher_runs(1) by (metis prod.collapse)
  ultimately have r1: "intents_reach demo_intent_env (snd (demo_dispatcher 1)) ?T"
    using intents_reach.submit by (simp add: demo_dispatcher_def)
  have "demo_dispatcher 2 = (Done (), snd (demo_dispatcher 2))"
    using demo_dispatcher_runs(2) by (metis prod.collapse)
  then have "run_input demo_intent_env (EmitEvent (Reconciled (e_namespace_id demo_entry) (aoi_with_area (area_new_path []))))
      (snd (demo_dispatcher 1)) = (Done (), snd (demo_dispatcher 2))"
    using demo_dispatcher_runs(1)
    by (auto simp: demo_dispatcher_def rbind_def demo_intent_env_def split: prod.splits)
  then have "intents_reach demo_intent_env (snd (demo_dispatcher 2)) ?T"
    by (rule intents_reach.emit [OF r1])
  moreover have "\<exists>W. ?T 0 = Some W"
    using area_new_path_nonempty [of "[]"] area_new_path_nonempty [of "[[1]]"]
    by (auto simp: track_def demo_intent_def intent_new_def demo_resolved dispatcher_new_def nonempty_interests_def
        wanted_def aoi_with_area_def)
  ultimately show ?thesis
    by blast
qed


section \<open>Two runs that end badly\<close>

text \<open>
  An intent for an area that is already reconciled, whose handle was dropped, fails the submission, and
  with it the loop of the dispatcher and the session.
\<close>

lemma dropped_handle_fails_submission:
  "fst (submit_intent demo_intent_env (intent_new \<lparr> si_interests = AllInterests, si_mode = ReconcileOnce \<rparr> 1 1)
     (drop_receiver 1 (snd (demo_dispatcher 2)))) = Failed (E_Store ''channel receiver dropped'')"
  by code_simp

text \<open>
  Interests that are added to a live intent after their areas were reconciled stay open: the complete
  areas are only consulted when an intent is submitted.
\<close>

definition demo_added :: "unit outcome \<times> (demo_cap, unit) IntentDispatcher" where
  "demo_added =
     rbind (submit_intent demo_intent_env (intent_new \<lparr> si_interests = AllInterests, si_mode = Continuous \<rparr> 0 0)) (\<lambda>_.
     rbind (emit_event demo_wdm (Reconciled (e_namespace_id demo_entry) (aoi_with_area (area_new_path [])))) (\<lambda>_.
     run_update demo_intent_env 0 (Some (IU_AddInterests AllInterests))))
       (dispatcher_new [] \<lparr> ch_sent = \<lambda>_. [], ch_closed = \<lambda>_. False \<rparr>)"

lemma added_interests_stay_open:
  "fst demo_added = Done () \<and> id_intents (snd demo_added) \<noteq> [] \<and>
   list_all (\<lambda>(_, info). ii_interests info \<noteq> []) (id_intents (snd demo_added))"
  by code_simp

end
