(* ===== verification/Session_Run.thy ===== *)
theory Session_Run
  imports Intents Pai
begin

text \<open>
  The parts of the session driver (\<open>session/run.rs\<close>) that decide something: the mode of a session, the
  control loop, the loops that receive capabilities and areas of interest, the loop that receives
  updates, and the end of a session with what becomes of its intents.  The inboxes of the other loops are
  open while these loops run, so sending into them succeeds; what is sent is part of the result.
\<close>

section \<open>The mode\<close>

definition session_mode :: "Intent list \<Rightarrow> SessionMode" where
  "session_mode initial_intents =
     fold (\<lambda>intent cur. case si_mode (in_init intent) of ReconcileOnce \<Rightarrow> cur | Continuous \<Rightarrow> Continuous)
       initial_intents ReconcileOnce"

lemma session_mode_live: "is_live (session_mode intents) \<longleftrightarrow> (\<exists>i \<in> set intents. is_live (si_mode (in_init i)))"
proof -
  have "is_live (fold (\<lambda>intent cur. case si_mode (in_init intent) of ReconcileOnce \<Rightarrow> cur | Continuous \<Rightarrow> Continuous) intents m) \<longleftrightarrow>
      is_live m \<or> (\<exists>i \<in> set intents. is_live (si_mode (in_init i)))" for m
    by (induction intents arbitrary: m) (auto simp: is_live_def split: SessionMode.splits)
  then show ?thesis
    by (simp add: session_mode_def is_live_def)
qed

section \<open>The control loop\<close>

definition INITIAL_GUARANTEES :: u64 where "INITIAL_GUARANTEES = - 1"

datatype ('cap, 'scap, 'sg) control_effect =
    CE_Send "('cap, 'scap, 'sg) Message"
  | CE_Pai "('cap, 'scap) PaiInput"
  | CE_Established
  | CE_AddGuarantees u64 LogicalChannel

record ('sk, 'vk, 'sg, 'rng, 'scap) control_env =
  ce_dalek :: "('sk, 'vk, 'sg, 'rng) ed25519"
  ce_hash :: "bytes \<Rightarrow> bytes"
  ce_role :: Role
  ce_scap_receiver :: "'scap \<Rightarrow> UserId"
  ce_scap_namespace :: "'scap \<Rightarrow> NamespaceId"

definition control_start :: "'cap Capabilities \<Rightarrow> Error + ('cap, 'scap, 'sg) control_effect list" where
  "control_start caps =
     res_bind (reveal_commitment caps) (\<lambda>reveal.
       Ok (CE_Send (M_CommitmentReveal reveal) #
           map (\<lambda>channel. CE_Send (M_ControlIssueGuarantee \<lparr> cig_amount = INITIAL_GUARANTEES, cig_channel = channel \<rparr>))
             logical_channel_all))"

definition control_message ::
  "('sk, 'vk, 'sg, 'rng, 'scap) control_env \<Rightarrow> ('cap, 'scap, 'sg) Message \<Rightarrow> 'cap Capabilities
   \<Rightarrow> Error + (('cap, 'scap, 'sg) control_effect list \<times> 'cap Capabilities)" where
  "control_message v message caps =
     (case message of
        M_CommitmentReveal msg \<Rightarrow>
          res_bind (received_commitment_reveal (ce_hash v) (ce_role v) (cr_nonce msg) caps) (\<lambda>(ws, caps').
            Ok ([CE_Pai Established, CE_Established], caps'))
      | M_ControlIssueGuarantee msg \<Rightarrow> Ok ([CE_AddGuarantees (cig_amount msg) (cig_channel msg)], caps)
      | M_PaiRequestSubspaceCapability msg \<Rightarrow>
          if \<not> caps_is_revealed caps then Err E_InvalidMessageInCurrentState
          else Ok ([CE_Pai (ReceivedSubspaceCapRequest (prs_handle msg))], caps)
      | M_PaiReplySubspaceCapability msg \<Rightarrow>
          if \<not> caps_is_revealed caps then Err E_InvalidMessageInCurrentState
          else
            res_bind (verify_subspace_cap (ce_dalek v) (ce_scap_receiver v) (pys_capability msg) (pys_signature msg) caps) (\<lambda>_.
              Ok ([CE_Pai (ReceivedVerifiedSubspaceCapReply (pys_handle msg) (ce_scap_namespace v (pys_capability msg)))], caps))
      | _ \<Rightarrow> Err E_UnsupportedMessage)"

text \<open>The messages received until the channel closes; an error ends the loop.\<close>

fun control_messages ::
  "('sk, 'vk, 'sg, 'rng, 'scap) control_env \<Rightarrow> ('cap, 'scap, 'sg) Message list \<Rightarrow> 'cap Capabilities
   \<Rightarrow> (Error + unit) \<times> ('cap, 'scap, 'sg) control_effect list \<times> 'cap Capabilities" where
  "control_messages v [] caps = (Ok (), [], caps)"
| "control_messages v (m # ms) caps =
     (case control_message v m caps of
        Inl e \<Rightarrow> (Err e, [], caps)
      | Inr (effects, caps') \<Rightarrow>
          (let (r, effects', caps'') = control_messages v ms caps' in (r, effects @ effects', caps'')))"

definition control_loop ::
  "('sk, 'vk, 'sg, 'rng, 'scap) control_env \<Rightarrow> ('cap, 'scap, 'sg) Message list \<Rightarrow> 'cap Capabilities
   \<Rightarrow> (Error + unit) \<times> ('cap, 'scap, 'sg) control_effect list \<times> 'cap Capabilities" where
  "control_loop v ms caps =
     (case control_start caps of
        Inl e \<Rightarrow> (Err e, [], caps)
      | Inr effects \<Rightarrow> (let (r, effects', caps') = control_messages v ms caps in (r, effects @ effects', caps')))"

section \<open>Capabilities and areas of the other peer\<close>

definition caps_recv_message ::
  "('sk, 'vk, 'sg, 'rng) ed25519 \<Rightarrow> ('cap \<Rightarrow> UserId) \<Rightarrow> ('cap, 'sg) SetupBindReadCapability \<Rightarrow> 'cap Capabilities
   \<Rightarrow> Error + (('cap, 'scap) PaiInput \<times> waker list \<times> 'cap Capabilities)" where
  "caps_recv_message d receiver message caps =
     res_bind (validate_and_bind_theirs d receiver (sbr_capability message) (sbr_signature message) caps) (\<lambda>(ws, caps').
       Ok (ReceivedReadCapForIntersection (sbr_handle message), ws, caps'))"

text \<open>The area waits until the capability that authorises it is bound.\<close>

definition aoi_recv_message ::
  "wdm \<Rightarrow> ('cap \<Rightarrow> Area) \<Rightarrow> ('cap \<Rightarrow> NamespaceId) \<Rightarrow> SetupBindAreaOfInterest \<Rightarrow> waker \<Rightarrow> 'cap Capabilities
   \<Rightarrow> (Error + ('cap, 'scap) AoiInput) poll \<times> 'cap Capabilities" where
  "aoi_recv_message w granted_area granted_namespace message cx caps =
     (case poll_get_theirs (sba_authorisation message) cx caps of
        (Pending, caps') \<Rightarrow> (Pending, caps')
      | (Ready cap, caps') \<Rightarrow>
          (Ready (if \<not> w_area_includes_area w (granted_area cap) (aoi_area (sba_area_of_interest message))
                  then Err E_UnauthorisedArea
                  else Ok (ReceivedValidatedAoi (granted_namespace cap) (sba_area_of_interest message))), caps'))"

section \<open>Updates and the end of a session\<close>

datatype SessionUpdate = SU_SubmitIntent Intent | SU_Abort Error

text \<open>\<open>update_loop\<close>: the intents passed on to the dispatcher, and the error of an abort, which ends the loop.\<close>

fun update_loop :: "SessionUpdate list \<Rightarrow> IntentInput list \<times> Error option \<times> SessionUpdate list" where
  "update_loop [] = ([], None, [])"
| "update_loop (SU_SubmitIntent data # us) = (let (ins, e, rest) = update_loop us in (SubmitIntent data # ins, e, rest))"
| "update_loop (SU_Abort err # us) = ([], Some err, us)"

fun drain_updates :: "SessionUpdate list \<Rightarrow> Intent list \<Rightarrow> Error option \<Rightarrow> Intent list \<times> Error option" where
  "drain_updates [] q abort_err = (q, abort_err)"
| "drain_updates (SU_SubmitIntent intent # us) q abort_err = drain_updates us (q @ [intent]) abort_err"
| "drain_updates (SU_Abort err # us) q abort_err = drain_updates us q (Some err)"

definition session_result :: "Error + unit \<Rightarrow> Error option \<Rightarrow> Error + unit" where
  "session_result result abort_err =
     (case (result, abort_err) of
        (_, Some err) \<Rightarrow> Err err
      | (Inl err, None) \<Rightarrow> Err err
      | _ \<Rightarrow> Ok ())"

definition session_end ::
  "wdm \<Rightarrow> Error + unit \<Rightarrow> Error option \<Rightarrow> bool \<Rightarrow> IntentInput list \<Rightarrow> SessionUpdate list \<Rightarrow> ('cap, 'scap) IntentDispatcher
   \<Rightarrow> (Error + unit) \<times> Intent list \<times> event_chans" where
  "session_end w joined abort_err we_cancelled inbox updates s =
     (let (remaining, ch) = drain_all w inbox s;
          (q, abort_err') = drain_updates updates (queued remaining) abort_err;
          remaining' = remaining\<lparr> queued := q \<rparr>;
          result = session_result joined abort_err'
      in case result of
           Inl err \<Rightarrow> (result, [], abort_all err remaining' ch)
         | Inr _ \<Rightarrow>
             if we_cancelled then (result, queued remaining', ch)
             else (let (intents, ch') = abort_active E_SessionClosedByPeer remaining' ch in (result, intents, ch')))"

section \<open>The order of the control loop\<close>

fun pai_inputs :: "('cap, 'scap, 'sg) control_effect list \<Rightarrow> ('cap, 'scap) PaiInput list" where
  "pai_inputs [] = []"
| "pai_inputs (CE_Pai i # es) = i # pai_inputs es"
| "pai_inputs (_ # es) = pai_inputs es"

lemma pai_inputs_append [simp]: "pai_inputs (xs @ ys) = pai_inputs xs @ pai_inputs ys"
  by (induction xs rule: pai_inputs.induct) auto

lemma pai_inputs_start: "control_start caps = Ok es \<Longrightarrow> pai_inputs es = [] \<and> \<not> caps_is_revealed caps"
  by (auto simp: control_start_def res_bind_eq_Inr logical_channel_all_def reveal_commitment_def caps_is_revealed_def
      split: ChallengeState.splits)

lemma control_message_pai:
  assumes "control_message v m caps = Ok (es, caps')"
  shows "caps_is_revealed caps \<Longrightarrow> caps_is_revealed caps' \<and> Established \<notin> set (pai_inputs es)"
    and "\<not> caps_is_revealed caps \<Longrightarrow> (if caps_is_revealed caps' then pai_inputs es = [Established] else pai_inputs es = [])"
  using assms
  by (cases m; auto simp: control_message_def received_commitment_reveal_def challenge_reveal_def caps_is_revealed_def
      res_bind_eq_Inr Let_def split: if_splits ChallengeState.splits)+

lemma control_messages_pai:
  assumes "control_messages v ms caps = (r, es, caps')"
  shows "if caps_is_revealed caps then caps_is_revealed caps' \<and> Established \<notin> set (pai_inputs es)
    else if caps_is_revealed caps' then \<exists>is. pai_inputs es = Established # is \<and> Established \<notin> set is
    else pai_inputs es = []"
  using assms
proof (induction ms arbitrary: caps r es)
  case (Cons m ms)
  show ?case
  proof (cases "control_message v m caps")
    case (Inl e)
    then show ?thesis
      using Cons.prems by simp
  next
    case (Inr ec)
    obtain es1 c1 where ec: "ec = (es1, c1)"
      by force
    obtain r2 es2 c2 where rest: "control_messages v ms c1 = (r2, es2, c2)"
      by (metis prod_cases3)
    have es: "es = es1 @ es2" and c2: "c2 = caps'"
      using Cons.prems Inr ec rest by simp_all
    show ?thesis
      using control_message_pai [OF Inr [unfolded ec]] Cons.IH [OF rest [unfolded c2]] es
      by (cases "caps_is_revealed caps"; cases "caps_is_revealed c1") (auto split: if_splits)
  qed
qed simp


section \<open>Intents at the end of a session\<close>

lemma chan_send_monotone:
  "set (ch_sent ch t) \<subseteq> set (ch_sent (snd (chan_send tx ev ch)) t)" "ch_closed (snd (chan_send tx ev ch)) = ch_closed ch"
  by (auto simp: chan_send_def)

lemma abort_senders_monotone:
  "set (ch_sent ch t) \<subseteq> set (ch_sent (abort_senders e txs ch) t) \<and> ch_closed (abort_senders e txs ch) = ch_closed ch"
proof (induction txs arbitrary: ch)
  case (Cons tx txs)
  show ?case
    using Cons.IH [of "snd (chan_send tx (Abort e) ch)"] chan_send_monotone(1) [of ch t tx "Abort e"]
      chan_send_monotone(2) [of tx "Abort e" ch]
    by (simp add: abort_senders_def) blast
qed (simp add: abort_senders_def)

lemma abort_senders_sent:
  "t \<in> set txs \<Longrightarrow> \<not> ch_closed ch t \<Longrightarrow> Abort e \<in> set (ch_sent (abort_senders e txs ch) t)"
proof (induction txs arbitrary: ch)
  case (Cons tx txs)
  let ?ch = "snd (chan_send tx (Abort e) ch)"
  show ?case
  proof (cases "t = tx")
    case True
    then have "Abort e \<in> set (ch_sent ?ch t)"
      using Cons.prems by (simp add: chan_send_def)
    then show ?thesis
      using abort_senders_monotone [of ?ch t e txs] by (auto simp: abort_senders_def)
  next
    case False
    then show ?thesis
      using Cons.IH [of ?ch] Cons.prems chan_send_monotone(2) [of tx "Abort e" ch] by (simp add: abort_senders_def)
  qed
qed simp

lemma drain_updates_queued:
  "fst (drain_updates us q e) = q @ List.map_filter (\<lambda>u. case u of SU_SubmitIntent i \<Rightarrow> Some i | SU_Abort _ \<Rightarrow> None) us"
  by (induction us q e rule: drain_updates.induct) (simp_all add: map_filter_simps)

lemma drain_inbox_queued:
  "fst (drain_inbox w inbox q s) = q @ List.map_filter (\<lambda>x. case x of SubmitIntent i \<Rightarrow> Some i | EmitEvent _ \<Rightarrow> None) inbox"
  by (induction w inbox q s rule: drain_inbox.induct) (simp_all add: map_filter_simps)

lemma emit_event_inner_pending: "id_pending_intents (emit_event_inner w ev s) = id_pending_intents s"
  by (simp add: emit_event_inner_def Let_def split: prod.splits EventKind.splits)

lemma drain_inbox_pending: "id_pending_intents (snd (drain_inbox w inbox q s)) = id_pending_intents s"
  by (induction w inbox q s rule: drain_inbox.induct) (simp_all add: emit_event_inner_pending)

text \<open>The intents that no session has taken up: in the inbox, pending, or among the updates.\<close>

definition waiting_intents :: "IntentInput list \<Rightarrow> SessionUpdate list \<Rightarrow> ('cap, 'scap) IntentDispatcher \<Rightarrow> Intent list" where
  "waiting_intents inbox updates s =
     List.map_filter (\<lambda>x. case x of SubmitIntent i \<Rightarrow> Some i | EmitEvent _ \<Rightarrow> None) inbox @ id_pending_intents s @
     List.map_filter (\<lambda>u. case u of SU_SubmitIntent i \<Rightarrow> Some i | SU_Abort _ \<Rightarrow> None) updates"

lemma drain_all_eq:
  assumes "drain_inbox w inbox [] s = (q, s1)"
  shows "drain_all w inbox s =
    (\<lparr> active_incomplete = List.map_filter (\<lambda>(_, info). if \<not> ii_is_complete info then ii_event_tx info else None) (id_intents s1),
       queued = List.map_filter (\<lambda>x. case x of SubmitIntent i \<Rightarrow> Some i | EmitEvent _ \<Rightarrow> None) inbox @ id_pending_intents s \<rparr>,
     id_chans s1)"
  using drain_inbox_queued [of w inbox "[]" s] drain_inbox_pending [of w inbox "[]" s] assms by (simp add: drain_all_def)

lemma in_map_filter: "y \<in> set (List.map_filter f xs) \<longleftrightarrow> (\<exists>x \<in> set xs. f x = Some y)"
  by (induction xs) (auto simp: map_filter_simps split: option.splits)

text \<open>
  C20: No intent is lost at the end of a session.  When the session ended well, the intents that it had not
  taken up are handed on for the next session; otherwise they are told that they are aborted, as are the
  active intents with open interests, unless we closed the session ourselves.
\<close>

theorem session_end_accounts:
  assumes "session_end w joined abort_err we_cancelled inbox updates s = (res, rem, ch')"
    and "drain_inbox w inbox [] s = (q, s1)"
  shows "(case res of
        Inr _ \<Rightarrow> rem = waiting_intents inbox updates s
      | Inl e \<Rightarrow> rem = [] \<and>
          (\<forall>i c. i \<in> set (waiting_intents inbox updates s) \<longrightarrow> in_channels i = Some c \<longrightarrow>
             \<not> ch_closed (id_chans s1) (ic_event_tx c) \<longrightarrow> Abort e \<in> set (ch_sent ch' (ic_event_tx c)))) \<and>
    (\<forall>i info t. (i, info) \<in> set (id_intents s1) \<longrightarrow> ii_event_tx info = Some t \<longrightarrow> \<not> ii_is_complete info \<longrightarrow>
       \<not> ch_closed (id_chans s1) t \<longrightarrow> \<not> (res = Ok () \<and> we_cancelled) \<longrightarrow>
       Abort (case res of Inl e \<Rightarrow> e | Inr _ \<Rightarrow> E_SessionClosedByPeer) \<in> set (ch_sent ch' t))"
proof -
  let ?active = "List.map_filter (\<lambda>(_, info). if \<not> ii_is_complete info then ii_event_tx info else None) (id_intents s1)"
  let ?wait = "waiting_intents inbox updates s"
  let ?abort_err = "snd (drain_updates updates (queued (fst (drain_all w inbox s))) abort_err)"
  have active: "t \<in> set ?active" if "(i, info) \<in> set (id_intents s1)" "ii_event_tx info = Some t" "\<not> ii_is_complete info" for i info t
    unfolding in_map_filter using that by force
  have waiting: "ic_event_tx c \<in> set (List.map_filter (\<lambda>i. map_option ic_event_tx (in_channels i)) ?wait)"
    if "i \<in> set ?wait" "in_channels i = Some c" for i c
    unfolding in_map_filter using that by force
  have q: "fst (drain_updates updates (queued (fst (drain_all w inbox s))) abort_err) = ?wait"
    by (simp add: drain_updates_queued drain_all_eq [OF assms(2)] waiting_intents_def)
  have res: "res = session_result joined ?abort_err"
    and out: "case res of
        Inl e \<Rightarrow> rem = [] \<and> ch' = abort_senders e (List.map_filter (\<lambda>i. map_option ic_event_tx (in_channels i)) ?wait @ ?active) (id_chans s1)
      | Inr _ \<Rightarrow> rem = ?wait \<and> (if we_cancelled then ch' = id_chans s1 else ch' = abort_senders E_SessionClosedByPeer ?active (id_chans s1))"
    using assms(1) q drain_all_eq [OF assms(2)]
    by (auto simp: session_end_def abort_all_def abort_active_def Let_def split: prod.splits sum.splits if_splits)
  show ?thesis
  proof (cases res)
    case (Inl e)
    then show ?thesis
      using out active waiting abort_senders_sent [of _ _ "id_chans s1" e] by auto
  next
    case (Inr u)
    then show ?thesis
      using out active abort_senders_sent [of _ ?active "id_chans s1" E_SessionClosedByPeer] by (auto split: if_splits)
  qed
qed

definition demo_ended :: "(Error + unit) \<times> Intent list \<times> event_chans" where
  "demo_ended = session_end demo_wdm (Err E_Cancelled) None True [] []
     (dispatcher_new [demo_intent] \<lparr> ch_sent = \<lambda>_. [], ch_closed = \<lambda>_. False \<rparr> :: (demo_cap, unit) IntentDispatcher)"

lemma session_end_accounts_witness:
  "\<exists>ch'. demo_ended = (Err E_Cancelled, [], ch') \<and> Abort E_Cancelled \<in> set (ch_sent ch' 0)"
proof -
  let ?s = "dispatcher_new [demo_intent] \<lparr> ch_sent = \<lambda>_. [], ch_closed = \<lambda>_. False \<rparr> :: (demo_cap, unit) IntentDispatcher"
  obtain res rem ch' where e: "demo_ended = (res, rem, ch')"
    by (metis prod_cases3)
  have "res = Err E_Cancelled"
    using e by (simp add: demo_ended_def session_end_def session_result_def drain_all_def Let_def)
  moreover have "demo_intent \<in> set (waiting_intents [] [] ?s)" "in_channels demo_intent = Some \<lparr> ic_event_tx = 0, ic_update_rx = 0 \<rparr>"
    by (simp_all add: waiting_intents_def dispatcher_new_def demo_intent_def intent_new_def)
  moreover have "\<not> ch_closed (id_chans ?s) 0"
    by (simp add: dispatcher_new_def)
  ultimately show ?thesis
    using session_end_accounts [OF e [unfolded demo_ended_def], of "[]" ?s] by (force simp: e)
qed

section \<open>Areas of the other peer\<close>

lemma poll_get_theirs_ready:
  assumes "poll_get_theirs h cx caps = (Ready cap, caps')"
  shows "rm_get (cs_theirs caps) h = Some cap" "caps' = caps"
  using assms by (auto simp: poll_get_theirs_def rm_poll_get_eventually_def split: option.splits)

text \<open>
  C24: An area of interest of the other peer that is handed to the finder is included in the area granted by a
  capability that the other peer has bound, in the namespace of that capability, and the receiver of that
  capability has signed our challenge.  Otherwise the message waits for the capability, or the session fails
  because the area is not authorised.
\<close>

theorem received_aoi_authorised:
  assumes "caps_inv d receiver caps" "aoi_recv_message w granted_area granted_namespace msg cx caps = (p, caps')"
  shows "case p of
      Pending \<Rightarrow> rm_get (cs_theirs caps) (sba_authorisation msg) = None
    | Ready (Inl e) \<Rightarrow> e = E_UnauthorisedArea
    | Ready (Inr inp) \<Rightarrow>
        (\<exists>cap ours theirs k sig. rm_get (cs_theirs caps) (sba_authorisation msg) = Some cap \<and>
           inp = ReceivedValidatedAoi (granted_namespace cap) (sba_area_of_interest msg) \<and>
           w_area_includes_area w (granted_area cap) (aoi_area (sba_area_of_interest msg)) \<and>
           cs_challenge caps = Revealed ours theirs \<and> user_into_public_key d (receiver cap) = Ok k \<and>
           dalek_verify_strict d (user_verifying_key k) theirs sig)"
proof (cases "rm_get (cs_theirs caps) (sba_authorisation msg)")
  case None
  then show ?thesis
    using assms(2) by (auto simp: aoi_recv_message_def poll_get_theirs_def rm_poll_get_eventually_def)
next
  case (Some cap)
  then have "poll_get_theirs (sba_authorisation msg) cx caps = (Ready cap, caps)"
    by (simp add: poll_get_theirs_def rm_poll_get_eventually_def)
  moreover obtain ours theirs k sig where "cs_challenge caps = Revealed ours theirs" "user_into_public_key d (receiver cap) = Ok k"
    "dalek_verify_strict d (user_verifying_key k) theirs sig"
    using assms(1) Some unfolding caps_inv_def by blast
  ultimately show ?thesis
    using assms(2) Some by (auto simp: aoi_recv_message_def split: if_splits)
qed

lemma demo_bound_caps:
  "\<exists>caps. caps_inv demo_scheme demo_receiver caps \<and> rm_get (cs_theirs caps) (CapabilityHandle 0) = Some 5"
proof -
  obtain ws caps where ok: "validate_and_bind_theirs demo_scheme demo_receiver 5
      (usk_sign demo_scheme (UserSecretKey 5) [254]) demo_caps = Ok (ws, caps)"
    using demo_caps_accepts by fastforce
  obtain h m where b: "rm_bind CapabilityHandle 5 (cs_theirs demo_caps) = (h, ws, m)" "caps = demo_caps\<lparr> cs_theirs := m \<rparr>"
    using validate_and_bind_theirs_Ok [OF ok] by blast
  have "h = CapabilityHandle 0"
    using rm_bind_effect(1) [OF b(1)] by (simp add: demo_caps_def caps_new_def rm_default_def)
  then have "rm_get (cs_theirs caps) (CapabilityHandle 0) = Some 5"
    using rm_bind_effect(3) [OF b(1)] b(2) by (simp add: hm_simps)
  then show ?thesis
    using validate_and_bind_theirs_inv [OF demo_caps_inv ok] by blast
qed

lemma received_aoi_authorised_witness:
  "\<exists>(caps :: u8 Capabilities) (inp :: (u8, unit) AoiInput). caps_inv demo_scheme demo_receiver caps \<and>
     fst (aoi_recv_message demo_wdm (\<lambda>_. area_new_path []) (\<lambda>_. e_namespace_id demo_entry)
       \<lparr> sba_area_of_interest = aoi_with_area (area_new_path []), sba_authorisation = CapabilityHandle 0 \<rparr> 0 caps) = Ready (Ok inp) \<and>
     inp = ReceivedValidatedAoi (e_namespace_id demo_entry) (aoi_with_area (area_new_path []))"
proof -
  obtain caps where inv: "caps_inv demo_scheme demo_receiver caps" and get: "rm_get (cs_theirs caps) (CapabilityHandle 0) = Some 5"
    using demo_bound_caps by blast
  let ?msg = "\<lparr> sba_area_of_interest = aoi_with_area (area_new_path []), sba_authorisation = CapabilityHandle 0 \<rparr>"
  have "w_area_includes_area demo_wdm (area_new_path []) (area_new_path [])"
    using demo_area_laws by (simp add: area_laws_def)
  then have m: "aoi_recv_message demo_wdm (\<lambda>_. area_new_path []) (\<lambda>_. e_namespace_id demo_entry) ?msg 0 caps =
      (Ready (Ok (ReceivedValidatedAoi (e_namespace_id demo_entry) (aoi_with_area (area_new_path [])) :: (u8, unit) AoiInput)), caps)"
    by (simp add: aoi_recv_message_def poll_get_theirs_def rm_poll_get_eventually_def get aoi_with_area_def)
  show ?thesis
    using received_aoi_authorised [OF inv m] inv m by auto
qed

end
