(* ===== verification/Peer_Manager.thy ===== *)
theory Peer_Manager
  imports Session_Run
begin

text \<open>
  The peer manager (\<open>engine/peer_manager.rs\<close>): it dials peers for which intents are submitted, accepts
  connections, starts a session when a connection is established, and terminates connections.  Node ids are
  the bytes of public keys.  Connections, tasks, dial tokens and sessions are numbers; \<open>pm_next\<close> is the next
  unused one.  \<open>pm_conn_tasks\<close> are the tasks of the \<open>JoinSet\<close> that have not been joined.  What a handler does
  to connections, sessions and intents is appended to \<open>pm_log\<close>.  The outside world is the record \<open>pm_env\<close>: the
  callback for incoming connections, which session channels still have a receiver, and the results of
  preparing channels and of starting a session.
\<close>

section \<open>Data\<close>

type_synonym NodeId = bytes

datatype ConnState = CS_None | CS_Establishing "nat option" nat | CS_Active nat | CS_Terminating nat

fun cs_is_none :: "ConnState \<Rightarrow> bool" where
  "cs_is_none CS_None \<longleftrightarrow> True"
| "cs_is_none _ \<longleftrightarrow> False"

datatype SessionState = SS_None | SS_Active nat

fun ss_is_none :: "SessionState \<Rightarrow> bool" where
  "ss_is_none SS_None \<longleftrightarrow> True"
| "ss_is_none _ \<longleftrightarrow> False"

record PeerInfo =
  pi_node_id :: NodeId
  pi_pending_intents :: "Intent list"
  pi_conn_state :: ConnState
  pi_session_state :: SessionState

definition peer_info_new :: "NodeId \<Rightarrow> PeerInfo" where
  "peer_info_new peer =
     \<lparr> pi_node_id = peer, pi_pending_intents = [], pi_conn_state = CS_None, pi_session_state = SS_None \<rparr>"

datatype establish_error = LocallyClosed | DuplicateConn | EstablishFailed string

record Established =
  est_our_role :: Role
  est_conn :: nat

datatype ConnStep =
    StepEstablished "establish_error + Established"
  | StepDone "string + nat"
  | StepClosed "string + unit"

text \<open>
  What a task does: it dials (and can be cancelled with a token), accepts a connection, runs the channels of a
  connection for a session, or terminates a connection.
\<close>

datatype conn_task = T_Dial nat | T_Accept nat | T_Run nat nat | T_Terminate nat

datatype close_code = DUPLICATE_CONN | SHUTDOWN

datatype pm_effect =
    CloseConn nat close_code
  | SendUpdate nat SessionUpdate
  | InitSession nat NodeId Role nat "Intent list"
  | AbortIntent Intent Error

record PeerManager =
  pm_node_id :: NodeId
  pm_peers :: "(NodeId, PeerInfo) hash_map"
  pm_session_events_rx :: "(NodeId, nat) hash_map"
  pm_conn_tasks :: "(nat \<times> NodeId \<times> conn_task) list"
  pm_next :: nat
  pm_shutting_down :: bool
  pm_cancelled :: "nat list"
  pm_aborted :: "nat list"
  pm_closed_senders :: "nat list"
  pm_log :: "pm_effect list"

definition pm_new :: "NodeId \<Rightarrow> PeerManager" where
  "pm_new node_id =
     \<lparr> pm_node_id = node_id, pm_peers = [], pm_session_events_rx = [], pm_conn_tasks = [], pm_next = 0,
       pm_shutting_down = False, pm_cancelled = [], pm_aborted = [], pm_closed_senders = [], pm_log = [] \<rparr>"

record pm_env =
  pe_accept_cb :: "(NodeId \<Rightarrow> SessionInit option) option"
  pe_forwarder :: "(nat \<times> nat) option"
  pe_session_open :: "nat \<Rightarrow> bool"
  pe_prepare_channels :: "string + unit"
  pe_init_session :: "string + unit"

section \<open>Helpers\<close>

definition pm_emit :: "pm_effect list \<Rightarrow> PeerManager \<Rightarrow> PeerManager"
  where "pm_emit es s = s\<lparr> pm_log := pm_log s @ es \<rparr>"

definition set_peer :: "NodeId \<Rightarrow> PeerInfo \<Rightarrow> PeerManager \<Rightarrow> PeerManager"
  where "set_peer peer info s = s\<lparr> pm_peers := hm_insert peer info (pm_peers s) \<rparr>"

definition remove_peer :: "NodeId \<Rightarrow> PeerManager \<Rightarrow> PeerManager"
  where "remove_peer peer s = s\<lparr> pm_peers := hm_remove peer (pm_peers s) \<rparr>"

text \<open>\<open>peers.entry(peer).or_insert_with(\<dots>)\<close>\<close>

definition peer_entry :: "NodeId \<Rightarrow> PeerManager \<Rightarrow> PeerInfo"
  where "peer_entry peer s = (case map_of (pm_peers s) peer of Some info \<Rightarrow> info | None \<Rightarrow> peer_info_new peer)"

definition spawn_conn_task :: "NodeId \<Rightarrow> conn_task \<Rightarrow> PeerManager \<Rightarrow> nat \<times> PeerManager" where
  "spawn_conn_task peer task s =
     (pm_next s, s\<lparr> pm_conn_tasks := pm_conn_tasks s @ [(pm_next s, peer, task)], pm_next := pm_next s + 1 \<rparr>)"

text \<open>\<open>AcceptHandlers::accept\<close>: the event channel of a forwarded intent is a pair of new channel numbers.\<close>

definition accept_handlers_accept :: "pm_env \<Rightarrow> NodeId \<Rightarrow> Intent option" where
  "accept_handlers_accept v peer =
     (case (case pe_accept_cb v of
              None \<Rightarrow> Some \<lparr> si_interests = AllInterests, si_mode = Continuous \<rparr>
            | Some cb \<Rightarrow> cb peer) of
        None \<Rightarrow> None
      | Some init \<Rightarrow>
          Some (case pe_forwarder v of
                  None \<Rightarrow> intent_new_detached init
                | Some (event_tx, update_rx) \<Rightarrow> intent_new init event_tx update_rx))"

definition push_intent :: "pm_env \<Rightarrow> Intent \<Rightarrow> PeerInfo \<Rightarrow> bool \<times> PeerInfo \<times> pm_effect list" where
  "push_intent v intent info =
     (case pi_session_state info of
        SS_None \<Rightarrow> (False, info\<lparr> pi_pending_intents := pi_pending_intents info @ [intent] \<rparr>, [])
      | SS_Active update_tx \<Rightarrow>
          if pe_session_open v update_tx
          then (True, info, [SendUpdate update_tx (SU_SubmitIntent intent)])
          else (False, info\<lparr> pi_pending_intents := pi_pending_intents info @ [intent] \<rparr>, []))"

text \<open>\<open>Error::context\<close> of \<open>anyhow\<close>\<close>

definition err_context :: "string \<Rightarrow> string \<Rightarrow> string"
  where "err_context ctx err = ctx @ '': '' @ err"

definition abort_pending_intents :: "string \<Rightarrow> PeerInfo \<Rightarrow> PeerInfo \<times> pm_effect list" where
  "abort_pending_intents err info =
     (info\<lparr> pi_pending_intents := [] \<rparr>, map (\<lambda>intent. AbortIntent intent (E_Net err)) (pi_pending_intents info))"

section \<open>Handlers\<close>

text \<open>
  The decision on an incoming connection: whether to accept it, the dial token to cancel, and whether to
  close the connection as a duplicate.
\<close>

definition accept_decision :: "NodeId \<Rightarrow> NodeId \<Rightarrow> ConnState \<Rightarrow> bool \<times> nat option" where
  "accept_decision our_id peer conn_state =
     (case conn_state of
        CS_None \<Rightarrow> (True, None)
      | CS_Establishing None _ \<Rightarrow> (False, None)
      | CS_Establishing (Some cancel_dial) _ \<Rightarrow> if our_id < peer then (True, Some cancel_dial) else (False, None)
      | CS_Active _ \<Rightarrow> (False, None)
      | CS_Terminating _ \<Rightarrow> (True, None))"

definition handle_connection :: "pm_env \<Rightarrow> nat \<Rightarrow> NodeId option \<Rightarrow> PeerManager \<Rightarrow> PeerManager" where
  "handle_connection v conn remote s =
     (case remote of
        None \<Rightarrow> s
      | Some peer \<Rightarrow>
          (case accept_handlers_accept v peer of
             None \<Rightarrow> s
           | Some intent \<Rightarrow>
               (let info = peer_entry peer s;
                    (accept_conn, cancel_dial) = accept_decision (pm_node_id s) peer (pi_conn_state info)
                in if accept_conn
                   then
                     (let s1 = s\<lparr> pm_cancelled := (case cancel_dial of None \<Rightarrow> pm_cancelled s | Some t \<Rightarrow> pm_cancelled s @ [t]) \<rparr>;
                          (_, info1, es) = push_intent v intent info;
                          (abort_handle, s2) = spawn_conn_task peer (T_Accept conn) (pm_emit es s1)
                      in set_peer peer (info1\<lparr> pi_conn_state := CS_Establishing None abort_handle \<rparr>) s2)
                   else pm_emit [CloseConn conn DUPLICATE_CONN] (set_peer peer info s))))"

definition connect_if_inactive :: "NodeId \<Rightarrow> PeerManager \<Rightarrow> PeerManager" where
  "connect_if_inactive peer s =
     (let info = peer_entry peer s
      in if pi_conn_state info = CS_None
         then
           (let cancel_dial = pm_next s;
                (abort_handle, s1) = spawn_conn_task peer (T_Dial cancel_dial) (s\<lparr> pm_next := pm_next s + 1 \<rparr>)
            in set_peer peer (info\<lparr> pi_conn_state := CS_Establishing (Some cancel_dial) abort_handle \<rparr>) s1)
         else set_peer peer info s)"

definition pm_submit_intent :: "pm_env \<Rightarrow> NodeId \<Rightarrow> Intent \<Rightarrow> PeerManager \<Rightarrow> PeerManager" where
  "pm_submit_intent v peer intent s =
     (let (pushed, info, es) = push_intent v intent (peer_entry peer s);
          s1 = pm_emit es (set_peer peer info s)
      in if \<not> pushed then connect_if_inactive peer s1 else s1)"

text \<open>A session has ended: \<open>senders\<close> are the channel senders of that session.\<close>

definition session_complete :: "NodeId \<Rightarrow> nat \<Rightarrow> Intent list \<Rightarrow> PeerManager \<Rightarrow> PeerManager" where
  "session_complete peer senders remaining_intents s =
     (let s1 = s\<lparr> pm_closed_senders := pm_closed_senders s @ [senders] \<rparr>
      in case map_of (pm_peers s1) peer of
           None \<Rightarrow> s1
         | Some info \<Rightarrow>
             (let info1 = info\<lparr> pi_pending_intents := pi_pending_intents info @ remaining_intents,
                                pi_session_state := SS_None \<rparr>;
                  s2 = set_peer peer info1 s1
              in if cs_is_none (pi_conn_state info1) \<and> pi_pending_intents info1 = [] then remove_peer peer s2
                 else if cs_is_none (pi_conn_state info1) then connect_if_inactive peer s2
                 else s2))"

definition on_establish_failed :: "NodeId \<Rightarrow> PeerInfo \<Rightarrow> establish_error \<Rightarrow> PeerManager \<Rightarrow> PeerManager" where
  "on_establish_failed peer info err s =
     (case err of
        LocallyClosed \<Rightarrow> s
      | DuplicateConn \<Rightarrow>
          (case pi_conn_state info of
             CS_Establishing (Some _) _ \<Rightarrow> set_peer peer (info\<lparr> pi_conn_state := CS_None \<rparr>) s
           | _ \<Rightarrow> s)
      | EstablishFailed msg \<Rightarrow>
          (case pi_session_state info of
             SS_None \<Rightarrow>
               (let (info1, es) = abort_pending_intents (err_context ''failed while establishing'' msg) (info\<lparr> pi_conn_state := CS_None \<rparr>)
                in remove_peer peer (pm_emit es s))
           | SS_Active _ \<Rightarrow> set_peer peer (info\<lparr> pi_conn_state := CS_None \<rparr>) s))"

definition on_established :: "pm_env \<Rightarrow> NodeId \<Rightarrow> PeerInfo \<Rightarrow> Established \<Rightarrow> (PeerManager, unit) prog" where
  "on_established v peer info est =
     (case pi_session_state info of
        SS_Active _ \<Rightarrow> unwrap None
      | SS_None \<Rightarrow>
          (let intents = pi_pending_intents info; info1 = info\<lparr> pi_pending_intents := [] \<rparr> in
           rbind (modify (set_peer peer info1)) (\<lambda>_.
           rbind (gets pm_shutting_down) (\<lambda>shutting_down.
           if shutting_down
           then modify (pm_emit (CloseConn (est_conn est) SHUTDOWN # map (\<lambda>i. AbortIntent i E_ShuttingDown) intents))
           else
             rbind (try_anyhow (pe_prepare_channels v)) (\<lambda>_.
             rbind (try_anyhow (pe_init_session v)) (\<lambda>_.
             modify (\<lambda>s.
               let session = pm_next s;
                   s1 = pm_emit [InitSession session peer (est_our_role est) (est_conn est) intents] (s\<lparr> pm_next := pm_next s + 1 \<rparr>);
                   (abort_handle, s2) = spawn_conn_task peer (T_Run (est_conn est) session) s1
               in set_peer peer (info1\<lparr> pi_conn_state := CS_Active abort_handle, pi_session_state := SS_Active session \<rparr>)
                    (s2\<lparr> pm_session_events_rx := hm_insert peer session (pm_session_events_rx s2) \<rparr>))))))))"

definition on_done :: "NodeId \<Rightarrow> PeerInfo \<Rightarrow> string + nat \<Rightarrow> (PeerManager, unit) prog" where
  "on_done peer info res =
     (case pi_conn_state info of
        CS_Active _ \<Rightarrow>
          (case res of
             Inr conn \<Rightarrow>
               (case pi_session_state info of
                  SS_Active _ \<Rightarrow> unwrap None
                | SS_None \<Rightarrow> modify (\<lambda>s.
                    let (abort_handle, s1) = spawn_conn_task peer (T_Terminate conn) s
                    in set_peer peer (info\<lparr> pi_conn_state := CS_Terminating abort_handle \<rparr>) s1))
           | Inl err \<Rightarrow>
               (case pi_session_state info of
                  SS_Active update_tx \<Rightarrow> modify (\<lambda>s.
                    pm_emit [SendUpdate update_tx (SU_Abort (E_ConnectionClosed err))]
                      (set_peer peer (info\<lparr> pi_conn_state := CS_None \<rparr>) s))
                | SS_None \<Rightarrow> modify (\<lambda>s.
                    let (info1, es) = abort_pending_intents (err_context ''failed while active'' err) info in remove_peer peer (pm_emit es s))))
      | _ \<Rightarrow> unwrap None)"

definition on_closed :: "NodeId \<Rightarrow> PeerInfo \<Rightarrow> string + unit \<Rightarrow> (PeerManager, unit) prog" where
  "on_closed peer info res =
     (case pi_conn_state info of
        CS_Terminating _ \<Rightarrow> modify (\<lambda>s.
          let info1 = info\<lparr> pi_conn_state := CS_None \<rparr>; s1 = set_peer peer info1 s in
          if pi_pending_intents info1 \<noteq> []
          then
            (case res of
               Inr _ \<Rightarrow> connect_if_inactive peer s1
             | Inl err \<Rightarrow> (let (info2, es) = abort_pending_intents (err_context ''failed while closing connection'' err) info1 in pm_emit es (set_peer peer info2 s1)))
          else if ss_is_none (pi_session_state info1) then remove_peer peer s1
          else s1)
      | CS_Establishing _ _ \<Rightarrow> ret ()
      | CS_Active _ \<Rightarrow> ret ()
      | CS_None \<Rightarrow> unwrap None)"

definition handle_conn_output :: "pm_env \<Rightarrow> NodeId \<Rightarrow> ConnStep \<Rightarrow> (PeerManager, unit) prog" where
  "handle_conn_output v peer out =
     rbind (gets (\<lambda>s. map_of (pm_peers s) peer)) (\<lambda>found.
       case found of
         None \<Rightarrow> try_anyhow (Err ''got conn task output for unknown peer'')
       | Some info \<Rightarrow>
           (case out of
              StepEstablished (Inl err) \<Rightarrow> modify (on_establish_failed peer info err)
            | StepEstablished (Inr est) \<Rightarrow> on_established v peer info est
            | StepDone res \<Rightarrow> on_done peer info res
            | StepClosed res \<Rightarrow> on_closed peer info res))"

fun abort_handle_of :: "ConnState \<Rightarrow> nat option" where
  "abort_handle_of (CS_Establishing _ abort_handle) = Some abort_handle"
| "abort_handle_of _ = None"

text \<open>An aborted task stays in the \<open>JoinSet\<close> until it is joined.\<close>

definition init_shutdown :: "PeerManager \<Rightarrow> PeerManager" where
  "init_shutdown s =
     (let infos = map snd (pm_peers s);
          aborted = List.map_filter (\<lambda>i. abort_handle_of (pi_conn_state i)) infos;
          es = List.map_filter (\<lambda>i. case pi_session_state i of
                 SS_Active update_tx \<Rightarrow> Some (SendUpdate update_tx (SU_Abort E_ShuttingDown))
               | SS_None \<Rightarrow> None) infos
      in pm_emit es (s\<lparr> pm_shutting_down := True, pm_aborted := pm_aborted s @ aborted \<rparr>))"

section \<open>The loop\<close>

datatype pm_input =
    In_SubmitIntent NodeId Intent
  | In_HandleConnection nat "NodeId option"
  | In_Shutdown

datatype SessionEvent =
    SE_Established
  | SE_Complete "Error + unit" bool nat "Intent list"

definition handle_session_event :: "NodeId \<Rightarrow> SessionEvent \<Rightarrow> PeerManager \<Rightarrow> PeerManager" where
  "handle_session_event peer event s =
     (case event of
        SE_Established \<Rightarrow> s
      | SE_Complete result we_cancelled senders remaining_intents \<Rightarrow> session_complete peer senders remaining_intents s)"

datatype join_result = J_Cancelled | J_Panicked string | J_Output ConnStep

text \<open>One branch of the \<open>select!\<close>; the timer only runs once the shutdown has begun.\<close>

datatype pm_event =
    TickInput pm_input
  | TickSession NodeId SessionEvent
  | TickJoined nat join_result
  | TickTimeout

datatype pm_flow = PF_Continue | PF_Break

definition task_of :: "nat \<Rightarrow> PeerManager \<Rightarrow> (NodeId \<times> conn_task) option"
  where "task_of i s = map_of (pm_conn_tasks s) i"

definition pm_enabled :: "pm_event \<Rightarrow> PeerManager \<Rightarrow> bool" where
  "pm_enabled tick s =
     (case tick of
        TickInput _ \<Rightarrow> \<not> pm_shutting_down s
      | TickSession peer _ \<Rightarrow> map_of (pm_session_events_rx s) peer \<noteq> None
      | TickJoined i _ \<Rightarrow> task_of i s \<noteq> None
      | TickTimeout \<Rightarrow> pm_shutting_down s)"

definition join_next :: "nat \<Rightarrow> PeerManager \<Rightarrow> PeerManager"
  where "join_next i s = s\<lparr> pm_conn_tasks := filter (\<lambda>t. fst t \<noteq> i) (pm_conn_tasks s) \<rparr>"

definition pm_on_input :: "pm_env \<Rightarrow> pm_input \<Rightarrow> (PeerManager, pm_flow) prog" where
  "pm_on_input v input =
     (case input of
        In_SubmitIntent peer intent \<Rightarrow> rbind (modify (pm_submit_intent v peer intent)) (\<lambda>_. ret PF_Continue)
      | In_HandleConnection conn remote \<Rightarrow> rbind (modify (handle_connection v conn remote)) (\<lambda>_. ret PF_Continue)
      | In_Shutdown \<Rightarrow>
          rbind (modify init_shutdown) (\<lambda>_.
          gets (\<lambda>s. if pm_conn_tasks s = [] then PF_Break else PF_Continue)))"

definition pm_on_joined :: "pm_env \<Rightarrow> nat \<Rightarrow> NodeId \<Rightarrow> join_result \<Rightarrow> (PeerManager, pm_flow) prog" where
  "pm_on_joined v i peer res =
     rbind (modify (join_next i)) (\<lambda>_.
       case res of
         J_Cancelled \<Rightarrow> ret PF_Continue
       | J_Panicked err \<Rightarrow> try_anyhow (Err (err_context ''conn task panicked'' err))
       | J_Output out \<Rightarrow>
           rbind (handle_conn_output v peer out) (\<lambda>_.
           gets (\<lambda>s. if pm_shutting_down s \<and> pm_conn_tasks s = [] then PF_Break else PF_Continue)))"

definition pm_tick :: "pm_env \<Rightarrow> pm_event \<Rightarrow> (PeerManager, pm_flow) prog" where
  "pm_tick v tick =
     (\<lambda>s. if \<not> pm_enabled tick s then (Blocked, s)
      else case tick of
        TickInput input \<Rightarrow> pm_on_input v input s
      | TickSession peer event \<Rightarrow> rbind (modify (handle_session_event peer event)) (\<lambda>_. ret PF_Continue) s
      | TickJoined i res \<Rightarrow> rbind (unwrap (task_of i s)) (\<lambda>(peer, _). pm_on_joined v i peer res) s
      | TickTimeout \<Rightarrow> rbind (modify (\<lambda>s. s\<lparr> pm_conn_tasks := [] \<rparr>)) (\<lambda>_. ret PF_Break) s)"

section \<open>Runs\<close>

text \<open>
  What a task can report.  A dial whose token is cancelled ends with \<open>LocallyClosed\<close>.  The channels of a
  connection end without an error only after the senders of the session were closed.
\<close>

fun out_fits :: "nat list \<Rightarrow> nat list \<Rightarrow> conn_task \<Rightarrow> ConnStep \<Rightarrow> bool" where
  "out_fits cancelled closed (T_Dial t) (StepEstablished (Inl err)) \<longleftrightarrow> (t \<in> set cancelled \<longrightarrow> err = LocallyClosed)"
| "out_fits cancelled closed (T_Dial t) (StepEstablished (Inr est)) \<longleftrightarrow> t \<notin> set cancelled \<and> est_our_role est = Alfie"
| "out_fits cancelled closed (T_Accept c) (StepEstablished (Inl err)) \<longleftrightarrow> True"
| "out_fits cancelled closed (T_Accept c) (StepEstablished (Inr est)) \<longleftrightarrow> est_conn est = c \<and> est_our_role est = Betty"
| "out_fits cancelled closed (T_Run c u) (StepDone (Inr c')) \<longleftrightarrow> c' = c \<and> u \<in> set closed"
| "out_fits cancelled closed (T_Run c u) (StepDone (Inl err)) \<longleftrightarrow> True"
| "out_fits cancelled closed (T_Terminate c) (StepClosed res) \<longleftrightarrow> True"
| "out_fits cancelled closed _ _ \<longleftrightarrow> False"

text \<open>A session reports its end once, with its own senders; a task is cancelled only after it was aborted.\<close>

fun tick_fits :: "PeerManager \<Rightarrow> pm_event \<Rightarrow> bool" where
  "tick_fits s (TickSession peer (SE_Complete result we_cancelled senders remaining)) \<longleftrightarrow>
     map_of (pm_session_events_rx s) peer = Some senders \<and> senders \<notin> set (pm_closed_senders s)"
| "tick_fits s (TickJoined i J_Cancelled) \<longleftrightarrow> i \<in> set (pm_aborted s)"
| "tick_fits s (TickJoined i (J_Output out)) \<longleftrightarrow>
     (case task_of i s of
        None \<Rightarrow> False
      | Some (_, task) \<Rightarrow> out_fits (pm_cancelled s) (pm_closed_senders s) task out)"
| "tick_fits s _ \<longleftrightarrow> True"

text \<open>The intents that a tick hands to the manager.\<close>

definition entering :: "pm_env \<Rightarrow> PeerManager \<Rightarrow> pm_event \<Rightarrow> Intent list" where
  "entering v s tick =
     (case tick of
        TickInput (In_SubmitIntent peer intent) \<Rightarrow> [intent]
      | TickInput (In_HandleConnection conn (Some peer)) \<Rightarrow>
          (case accept_handlers_accept v peer of
             None \<Rightarrow> []
           | Some intent \<Rightarrow>
               if fst (accept_decision (pm_node_id s) peer (pi_conn_state (peer_entry peer s))) then [intent] else [])
      | TickSession peer (SE_Complete result we_cancelled senders remaining) \<Rightarrow> remaining
      | _ \<Rightarrow> [])"

inductive pm_reach :: "NodeId \<Rightarrow> Intent list \<Rightarrow> PeerManager \<Rightarrow> bool" for me :: NodeId where
  pm_reach_new: "pm_reach me [] (pm_new me)"
| pm_reach_tick: "pm_reach me entered s \<Longrightarrow> tick_fits s tick \<Longrightarrow> pm_tick v tick s = (Done flow, s') \<Longrightarrow>
    pm_reach me (entered @ entering v s tick) s'"

section \<open>Tasks and the state of the peers\<close>

text \<open>A task is attached to the connection state of its peer unless it is a cancelled dial or a termination.\<close>

fun task_free :: "nat set \<Rightarrow> conn_task \<Rightarrow> bool" where
  "task_free cancelled (T_Dial t) \<longleftrightarrow> t \<in> cancelled"
| "task_free cancelled (T_Terminate c) \<longleftrightarrow> True"
| "task_free cancelled _ \<longleftrightarrow> False"

fun task_attached :: "nat \<Rightarrow> conn_task \<Rightarrow> PeerInfo \<Rightarrow> bool" where
  "task_attached i (T_Dial t) info \<longleftrightarrow> pi_conn_state info = CS_Establishing (Some t) i"
| "task_attached i (T_Accept c) info \<longleftrightarrow> pi_conn_state info = CS_Establishing None i"
| "task_attached i (T_Run c u) info \<longleftrightarrow> pi_conn_state info = CS_Active i \<and> pi_session_state info \<in> {SS_None, SS_Active u}"
| "task_attached i (T_Terminate c) info \<longleftrightarrow> False"

definition tasks_ok ::
  "(NodeId \<Rightarrow> PeerInfo option) \<Rightarrow> (nat \<times> NodeId \<times> conn_task) set \<Rightarrow> nat \<Rightarrow> nat set \<Rightarrow> bool" where
  "tasks_ok peers tasks n cancelled \<longleftrightarrow>
     (\<forall>(i, p, task) \<in> tasks. i < n \<and>
        (task_free cancelled task \<or> (\<exists>info. peers p = Some info \<and> task_attached i task info)))"

definition sessions_ok ::
  "(NodeId \<Rightarrow> PeerInfo option) \<Rightarrow> (NodeId \<Rightarrow> nat option) \<Rightarrow> nat \<Rightarrow> nat set \<Rightarrow> bool" where
  "sessions_ok peers rx n closed \<longleftrightarrow>
     (\<forall>p info u. peers p = Some info \<longrightarrow> pi_session_state info = SS_Active u \<longrightarrow> rx p = Some u \<and> u \<notin> closed) \<and>
     (\<forall>p u. rx p = Some u \<longrightarrow> u < n \<and> (u \<notin> closed \<longrightarrow> (\<exists>info. peers p = Some info \<and> pi_session_state info = SS_Active u))) \<and>
     (\<forall>p q u. rx p = Some u \<longrightarrow> rx q = Some u \<longrightarrow> p = q) \<and>
     (\<forall>u \<in> closed. u < n)"

definition pm_inv :: "PeerManager \<Rightarrow> bool" where
  "pm_inv s \<longleftrightarrow>
     distinct (hm_keys (pm_peers s)) \<and> distinct (map fst (pm_conn_tasks s)) \<and>
     tasks_ok (map_of (pm_peers s)) (set (pm_conn_tasks s)) (pm_next s) (set (pm_cancelled s)) \<and>
     sessions_ok (map_of (pm_peers s)) (map_of (pm_session_events_rx s)) (pm_next s) (set (pm_closed_senders s))"

text \<open>\<open>p\<close> has no attached task.\<close>

definition detached :: "NodeId \<Rightarrow> (nat \<times> NodeId \<times> conn_task) set \<Rightarrow> nat set \<Rightarrow> bool" where
  "detached p tasks cancelled \<longleftrightarrow> (\<forall>i task. (i, p, task) \<in> tasks \<longrightarrow> task_free cancelled task)"

lemma tasks_okD:
  assumes "tasks_ok peers tasks n cancelled" "(i, p, task) \<in> tasks"
  shows "i < n" "\<not> task_free cancelled task \<Longrightarrow> \<exists>info. peers p = Some info \<and> task_attached i task info"
  using assms by (auto simp: tasks_ok_def)

lemma tasks_okI:
  assumes "\<And>i p task. (i, p, task) \<in> tasks \<Longrightarrow> i < n"
    and "\<And>i p task. (i, p, task) \<in> tasks \<Longrightarrow> \<not> task_free cancelled task \<Longrightarrow> \<exists>info. peers p = Some info \<and> task_attached i task info"
  shows "tasks_ok peers tasks n cancelled"
  unfolding tasks_ok_def using assms by fast

lemma task_free_mono: "task_free cancelled task \<Longrightarrow> cancelled \<subseteq> cancelled' \<Longrightarrow> task_free cancelled' task"
  by (cases task) auto

lemma tasks_ok_mono:
  assumes "tasks_ok peers tasks n cancelled" "tasks' \<subseteq> tasks" "n \<le> n'" "cancelled \<subseteq> cancelled'"
  shows "tasks_ok peers tasks' n' cancelled'"
proof (rule tasks_okI)
  fix i p task assume t: "(i, p, task) \<in> tasks'"
  then have t': "(i, p, task) \<in> tasks" using assms(2) by blast
  show "i < n'" using tasks_okD(1) [OF assms(1) t'] assms(3) by simp
  assume "\<not> task_free cancelled' task"
  then show "\<exists>info. peers p = Some info \<and> task_attached i task info"
    using tasks_okD(2) [OF assms(1) t'] task_free_mono [OF _ assms(4)] by blast
qed

lemma tasks_ok_change:
  assumes "tasks_ok peers tasks n cancelled" "detached p tasks cancelled"
  shows "tasks_ok (peers(p := x)) tasks n cancelled"
proof (rule tasks_okI)
  fix i q task assume t: "(i, q, task) \<in> tasks"
  show "i < n" by (rule tasks_okD(1) [OF assms(1) t])
  assume free: "\<not> task_free cancelled task"
  then have "q \<noteq> p" using assms(2) t by (auto simp: detached_def)
  then show "\<exists>info. (peers(p := x)) q = Some info \<and> task_attached i task info"
    using tasks_okD(2) [OF assms(1) t free] by simp
qed

lemma tasks_ok_keep:
  assumes "tasks_ok peers tasks n cancelled" "peers p = Some info"
    and "pi_conn_state info' = pi_conn_state info" "pi_session_state info' \<in> {pi_session_state info, SS_None}"
  shows "tasks_ok (peers(p \<mapsto> info')) tasks n cancelled"
proof (rule tasks_okI)
  fix i q task assume t: "(i, q, task) \<in> tasks"
  show "i < n" by (rule tasks_okD(1) [OF assms(1) t])
  assume "\<not> task_free cancelled task"
  from tasks_okD(2) [OF assms(1) t this] obtain j where j: "peers q = Some j" "task_attached i task j" by blast
  show "\<exists>info. (peers(p \<mapsto> info')) q = Some info \<and> task_attached i task info"
    using j assms by (cases task) auto
qed

lemma tasks_ok_spawn:
  assumes "tasks_ok peers tasks n cancelled" "n \<le> i" "i < n'"
    and "task_free cancelled task \<or> (\<exists>info. peers p = Some info \<and> task_attached i task info)"
  shows "tasks_ok peers (insert (i, p, task) tasks) n' cancelled"
  using assms by (auto simp: tasks_ok_def)

lemma detached_unattached:
  assumes "tasks_ok peers tasks n cancelled"
    and "\<And>i task info. (i, p, task) \<in> tasks \<Longrightarrow> peers p = Some info \<Longrightarrow> \<not> task_attached i task info"
  shows "detached p tasks cancelled"
  unfolding detached_def using assms tasks_okD(2) [OF assms(1)] by blast

lemma sessions_okD:
  assumes "sessions_ok peers rx n closed"
  shows "peers p = Some info \<Longrightarrow> pi_session_state info = SS_Active u \<Longrightarrow> rx p = Some u \<and> u \<notin> closed"
    and "rx p = Some u \<Longrightarrow> u < n"
    and "rx p = Some u \<Longrightarrow> u \<notin> closed \<Longrightarrow> \<exists>info. peers p = Some info \<and> pi_session_state info = SS_Active u"
    and "rx p = Some u \<Longrightarrow> rx q = Some u \<Longrightarrow> p = q"
    and "u \<in> closed \<Longrightarrow> u < n"
  using assms unfolding sessions_ok_def by blast+

lemma sessions_okI:
  assumes "\<And>p info u. peers p = Some info \<Longrightarrow> pi_session_state info = SS_Active u \<Longrightarrow> rx p = Some u \<and> u \<notin> closed"
    and "\<And>p u. rx p = Some u \<Longrightarrow> u < n"
    and "\<And>p u. rx p = Some u \<Longrightarrow> u \<notin> closed \<Longrightarrow> \<exists>info. peers p = Some info \<and> pi_session_state info = SS_Active u"
    and "\<And>p q u. rx p = Some u \<Longrightarrow> rx q = Some u \<Longrightarrow> p = q"
    and "\<And>u. u \<in> closed \<Longrightarrow> u < n"
  shows "sessions_ok peers rx n closed"
  using assms unfolding sessions_ok_def by blast

lemma sessions_ok_change:
  assumes "sessions_ok peers rx n closed" "n \<le> n'"
    and "pi_session_state info' = (case peers p of None \<Rightarrow> SS_None | Some info \<Rightarrow> pi_session_state info)"
  shows "sessions_ok (peers(p \<mapsto> info')) rx n' closed"
proof (rule sessions_okI)
  note ok = sessions_okD [OF assms(1)]
  fix q info u assume a: "(peers(p \<mapsto> info')) q = Some info" "pi_session_state info = SS_Active u"
  have "\<exists>j. peers q = Some j \<and> pi_session_state j = SS_Active u"
    using a assms(3) by (cases "q = p") (auto split: option.splits)
  then show "rx q = Some u \<and> u \<notin> closed" using ok(1) by blast
next
  note ok = sessions_okD [OF assms(1)]
  fix q u assume a: "rx q = Some u"
  then show "u < n'" using ok(2) assms(2) by (meson order_less_le_trans)
  assume "u \<notin> closed"
  then obtain j where "peers q = Some j" "pi_session_state j = SS_Active u" using ok(3) a by blast
  then show "\<exists>info. (peers(p \<mapsto> info')) q = Some info \<and> pi_session_state info = SS_Active u"
    using assms(3) by auto
next
  fix u assume "u \<in> closed"
  then show "u < n'" using sessions_okD(5) [OF assms(1)] assms(2) by (meson order_less_le_trans)
qed (rule sessions_okD(4) [OF assms(1)])

lemma sessions_ok_remove:
  assumes "sessions_ok peers rx n closed" "peers p = Some info" "pi_session_state info = SS_None"
  shows "sessions_ok (peers(p := None)) rx n closed"
proof (rule sessions_okI)
  note ok = sessions_okD [OF assms(1)]
  fix q j u assume "(peers(p := None)) q = Some j" "pi_session_state j = SS_Active u"
  then show "rx q = Some u \<and> u \<notin> closed" by (intro ok(1)) (auto split: if_splits)
next
  fix q u assume "rx q = Some u" "u \<notin> closed"
  then obtain j where "peers q = Some j" "pi_session_state j = SS_Active u"
    using sessions_okD(3) [OF assms(1)] by blast
  then show "\<exists>info. (peers(p := None)) q = Some info \<and> pi_session_state info = SS_Active u"
    using assms(2,3) by auto
qed (rule sessions_okD [OF assms(1)], assumption+)+

lemma sessions_ok_start:
  assumes "sessions_ok peers rx n closed" "peers p = Some info" "pi_session_state info = SS_None"
    and "pi_session_state info' = SS_Active n" "n < n'"
  shows "sessions_ok (peers(p \<mapsto> info')) (rx(p \<mapsto> n)) n' closed"
proof -
  note ok = sessions_okD [OF assms(1)]
  have closed: "n \<notin> closed" using ok(5) by blast
  have rx: "rx q \<noteq> Some n" for q using ok(2) by blast
  show ?thesis
  proof (rule sessions_okI)
    fix q j u assume a: "(peers(p \<mapsto> info')) q = Some j" "pi_session_state j = SS_Active u"
    then show "(rx(p \<mapsto> n)) q = Some u \<and> u \<notin> closed"
      using assms(4) closed ok(1) [of q j u] by (cases "q = p") auto
  next
    fix q u assume a: "(rx(p \<mapsto> n)) q = Some u"
    then show "u < n'" using ok(2) [of q u] assms(5) by (cases "q = p") auto
    assume "u \<notin> closed"
    then show "\<exists>info. (peers(p \<mapsto> info')) q = Some info \<and> pi_session_state info = SS_Active u"
      using a ok(3) [of q u] assms(4) by (cases "q = p") auto
  next
    fix q r u assume "(rx(p \<mapsto> n)) q = Some u" "(rx(p \<mapsto> n)) r = Some u"
    then show "q = r" using rx ok(4) by (auto split: if_splits)
  next
    fix u assume "u \<in> closed"
    then show "u < n'" using ok(5) [of u] assms(5) by simp
  qed
qed

lemma sessions_ok_complete:
  assumes "sessions_ok peers rx n closed" "peers p = Some info" "pi_session_state info' = SS_None" "rx p = Some u"
  shows "sessions_ok (peers(p \<mapsto> info')) rx n (insert u closed)"
proof (rule sessions_okI)
  note ok = sessions_okD [OF assms(1)]
  fix q j w assume a: "(peers(p \<mapsto> info')) q = Some j" "pi_session_state j = SS_Active w"
  then have q: "q \<noteq> p" using assms(3) by auto
  with a have r: "rx q = Some w \<and> w \<notin> closed" by (intro ok(1)) auto
  then have "w \<noteq> u" using q assms(4) ok(4) by blast
  then show "rx q = Some w \<and> w \<notin> insert u closed" using r by simp
next
  fix q w assume a: "rx q = Some w" "w \<notin> insert u closed"
  then have "q \<noteq> p" using assms(4) by auto
  then show "\<exists>info. (peers(p \<mapsto> info')) q = Some info \<and> pi_session_state info = SS_Active w"
    using a sessions_okD(3) [OF assms(1)] by simp
next
  fix w assume "w \<in> insert u closed"
  then show "w < n" using sessions_okD(2,5) [OF assms(1)] assms(4) by blast
qed (rule sessions_okD [OF assms(1)], assumption+)+

section \<open>The invariant\<close>

lemmas pm_state_defs = pm_emit_def set_peer_def remove_peer_def join_next_def

lemma peer_entry_Some: "map_of (pm_peers s) p = Some info \<Longrightarrow> peer_entry p s = info"
  by (simp add: peer_entry_def)

lemma pm_invD:
  assumes "pm_inv s"
  shows "distinct (hm_keys (pm_peers s))" "distinct (map fst (pm_conn_tasks s))"
    and "tasks_ok (map_of (pm_peers s)) (set (pm_conn_tasks s)) (pm_next s) (set (pm_cancelled s))"
    and "sessions_ok (map_of (pm_peers s)) (map_of (pm_session_events_rx s)) (pm_next s) (set (pm_closed_senders s))"
  using assms by (simp_all add: pm_inv_def)

lemma pm_inv_emit [simp]: "pm_inv (pm_emit es s) \<longleftrightarrow> pm_inv s"
  by (simp add: pm_inv_def pm_emit_def)

lemma peer_entry_emit [simp]: "peer_entry p (pm_emit es s) = peer_entry p s"
  by (simp add: peer_entry_def pm_emit_def)

lemma peer_entry_set [simp]: "peer_entry p (set_peer q info s) = (if p = q then info else peer_entry p s)"
  by (simp add: peer_entry_def set_peer_def hm_simps)

text \<open>The task that the connection state belongs to.\<close>

fun conn_handle :: "ConnState \<Rightarrow> nat option" where
  "conn_handle (CS_Establishing _ i) = Some i"
| "conn_handle (CS_Active i) = Some i"
| "conn_handle _ = None"

lemma task_attached_handle: "task_attached i task info \<Longrightarrow> conn_handle (pi_conn_state info) = Some i"
  by (cases task) auto

abbreviation peer_detached :: "NodeId \<Rightarrow> PeerManager \<Rightarrow> bool"
  where "peer_detached p s \<equiv> detached p (set (pm_conn_tasks s)) (set (pm_cancelled s))"

lemma peer_detachedI:
  assumes "pm_inv s" "\<And>i. conn_handle (pi_conn_state (peer_entry p s)) = Some i \<Longrightarrow> task_of i s = None"
  shows "peer_detached p s"
proof (rule detached_unattached [OF pm_invD(3) [OF assms(1)]])
  fix i task info assume a: "(i, p, task) \<in> set (pm_conn_tasks s)" "map_of (pm_peers s) p = Some info"
  show "\<not> task_attached i task info"
  proof
    assume "task_attached i task info"
    then have "task_of i s = None"
      using assms(2) a(2) task_attached_handle peer_entry_Some by metis
    then show False using a(1) by (force simp: task_of_def map_of_eq_None_iff)
  qed
qed

lemma session_entry:
  "pi_session_state (peer_entry p s) =
     (case map_of (pm_peers s) p of None \<Rightarrow> SS_None | Some info \<Rightarrow> pi_session_state info)"
  by (simp add: peer_entry_def peer_info_new_def split: option.splits)

lemma map_of_hm_insert: "map_of (hm_insert k v m) = (map_of m)(k \<mapsto> v)"
  by (rule ext) (simp add: hm_simps)

lemma map_of_hm_remove: "map_of (hm_remove k m) = (map_of m)(k := None)"
  by (rule ext) (simp add: hm_simps)

lemma pm_inv_set_detached:
  assumes "pm_inv s" "peer_detached p s" "pi_session_state info = pi_session_state (peer_entry p s)"
  shows "pm_inv (set_peer p info s)"
  using pm_invD [OF assms(1)] assms(3)
  by (simp add: pm_inv_def set_peer_def map_of_hm_insert tasks_ok_change [OF _ assms(2)] sessions_ok_change session_entry)

lemma pm_inv_set_keep:
  assumes "pm_inv s" "pi_conn_state info = pi_conn_state (peer_entry p s)" "pi_session_state info = pi_session_state (peer_entry p s)"
  shows "pm_inv (set_peer p info s)"
proof (cases "map_of (pm_peers s) p")
  case None
  then show ?thesis
    by (intro pm_inv_set_detached peer_detachedI assms) (simp add: peer_entry_def peer_info_new_def)
next
  case (Some old)
  then show ?thesis
    using pm_invD [OF assms(1)] assms(2,3)
    by (simp add: pm_inv_def set_peer_def map_of_hm_insert tasks_ok_keep [where peers = "map_of (pm_peers s)", OF _ Some] sessions_ok_change peer_entry_Some)
qed

lemma pm_inv_remove:
  assumes "pm_inv s" "peer_detached p s" "map_of (pm_peers s) p = Some info" "pi_session_state info = SS_None"
  shows "pm_inv (remove_peer p s)"
  using pm_invD [OF assms(1)]
  by (simp add: pm_inv_def remove_peer_def map_of_hm_remove tasks_ok_change [OF _ assms(2)]
      sessions_ok_remove [where peers = "map_of (pm_peers s)", OF _ assms(3,4)])

lemma fresh_task:
  assumes "pm_inv s" "pm_next s \<le> i"
  shows "i \<notin> fst ` set (pm_conn_tasks s)"
  using tasks_okD(1) [OF pm_invD(3) [OF assms(1)]] assms(2) by (force simp: image_iff)

lemma pm_inv_spawn:
  assumes "pm_inv s" "peer_detached p s" "pi_session_state info = pi_session_state (peer_entry p s)"
    and "task_free (set (pm_cancelled s)) task \<or> task_attached (pm_next s) task info"
  shows "pm_inv (set_peer p info (snd (spawn_conn_task p task s)))"
proof -
  note inv = pm_invD [OF assms(1)]
  have "tasks_ok ((map_of (pm_peers s))(p \<mapsto> info)) (insert (pm_next s, p, task) (set (pm_conn_tasks s)))
      (Suc (pm_next s)) (set (pm_cancelled s))"
    using assms(4) by (intro tasks_ok_spawn [OF tasks_ok_change [OF inv(3) assms(2)]]) auto
  moreover have "sessions_ok ((map_of (pm_peers s))(p \<mapsto> info)) (map_of (pm_session_events_rx s)) (Suc (pm_next s))
      (set (pm_closed_senders s))"
    using assms(3) by (intro sessions_ok_change [OF inv(4)]) (simp_all add: session_entry)
  ultimately show ?thesis
    using inv(1,2) fresh_task [OF assms(1) order_refl]
    by (simp add: pm_inv_def set_peer_def spawn_conn_task_def map_of_hm_insert)
qed

lemma sessions_ok_mono: "sessions_ok peers rx n closed \<Longrightarrow> n \<le> n' \<Longrightarrow> sessions_ok peers rx n' closed"
  by (rule sessions_okI) (auto dest: sessions_okD intro: order_less_le_trans)

lemma pm_inv_next: "pm_inv s \<Longrightarrow> pm_next s \<le> n \<Longrightarrow> pm_inv (s\<lparr> pm_next := n \<rparr>)"
  unfolding pm_inv_def by (auto intro: tasks_ok_mono sessions_ok_mono)

lemma pm_inv_cancel: "pm_inv s \<Longrightarrow> set (pm_cancelled s) \<subseteq> set c \<Longrightarrow> pm_inv (s\<lparr> pm_cancelled := c \<rparr>)"
  unfolding pm_inv_def by (auto intro: tasks_ok_mono)

lemma pm_inv_join: "pm_inv s \<Longrightarrow> pm_inv (join_next i s)"
  unfolding pm_inv_def join_next_def by (auto intro: tasks_ok_mono simp: distinct_map_filter)

lemma peer_entry_next [simp]: "peer_entry p (s\<lparr> pm_next := n \<rparr>) = peer_entry p s"
  by (simp add: peer_entry_def)

lemma peer_entry_cancel [simp]: "peer_entry p (s\<lparr> pm_cancelled := c \<rparr>) = peer_entry p s"
  by (simp add: peer_entry_def)

lemma connect_if_inactive_inv: "pm_inv s \<Longrightarrow> pm_inv (connect_if_inactive p s)"
proof (cases "pi_conn_state (peer_entry p s) = CS_None")
  case True
  assume inv: "pm_inv s"
  let ?s = "s\<lparr> pm_next := pm_next s + 1 \<rparr>"
    and ?info = "(peer_entry p s)\<lparr> pi_conn_state := CS_Establishing (Some (pm_next s)) (pm_next s + 1) \<rparr>"
  have "pm_inv ?s" using inv by (rule pm_inv_next) simp
  moreover have "peer_detached p ?s"
    using True by (intro peer_detachedI \<open>pm_inv ?s\<close>) simp
  ultimately have "pm_inv (set_peer p ?info (snd (spawn_conn_task p (T_Dial (pm_next s)) ?s)))"
    by (rule pm_inv_spawn) simp_all
  then show ?thesis
    using True by (simp add: connect_if_inactive_def spawn_conn_task_def Let_def)
qed (simp add: connect_if_inactive_def pm_inv_set_keep)

lemma push_intent_keeps:
  assumes "push_intent v intent info = (b, info', es)"
  shows "pi_conn_state info' = pi_conn_state info" "pi_session_state info' = pi_session_state info"
  using assms by (auto simp: push_intent_def split: SessionState.splits if_splits)

lemma pm_submit_intent_inv:
  assumes "pm_inv s"
  shows "pm_inv (pm_submit_intent v p intent s)"
proof -
  obtain b info es where push: "push_intent v intent (peer_entry p s) = (b, info, es)" by (metis prod_cases3)
  have "pm_inv (set_peer p info s)"
    using push_intent_keeps [OF push] by (intro pm_inv_set_keep assms)
  then show ?thesis
    by (simp add: pm_submit_intent_def push connect_if_inactive_inv Let_def)
qed

text \<open>An accepted connection leaves no attached task: a dial that is under way is cancelled.\<close>

lemma accept_decision_cases:
  assumes "accept_decision me p c = (True, cancel)"
  obtains "conn_handle c = None" "cancel = None"
  | t i where "c = CS_Establishing (Some t) i" "cancel = Some t" "me < p"
  using assms by (cases c) (auto simp: accept_decision_def split: option.splits if_splits)

abbreviation cancel_dials :: "nat option \<Rightarrow> PeerManager \<Rightarrow> PeerManager"
  where "cancel_dials cancel s \<equiv> s\<lparr> pm_cancelled := (case cancel of None \<Rightarrow> pm_cancelled s | Some t \<Rightarrow> pm_cancelled s @ [t]) \<rparr>"

lemma accepted_detached:
  assumes inv: "pm_inv s" and dec: "accept_decision me p (pi_conn_state (peer_entry p s)) = (True, cancel)"
  shows "peer_detached p (cancel_dials cancel s)"
  using dec
proof (cases rule: accept_decision_cases)
  case 1
  then show ?thesis using inv by (auto intro!: peer_detachedI)
next
  case (2 t i)
  have ok: "tasks_ok (map_of (pm_peers s)) (set (pm_conn_tasks s)) (pm_next s) (set (pm_cancelled s @ [t]))"
    by (rule tasks_ok_mono [OF pm_invD(3) [OF inv]]) auto
  have "task_free (set (pm_cancelled s @ [t])) task" if task: "(j, p, task) \<in> set (pm_conn_tasks s)" for j task
  proof (rule ccontr)
    assume free: "\<not> ?thesis"
    then obtain info where "map_of (pm_peers s) p = Some info" "task_attached j task info"
      using tasks_okD(2) [OF ok task] by blast
    then have "task = T_Dial t" using 2(1) by (cases task) (auto simp: peer_entry_Some)
    then show False using free by simp
  qed
  then show ?thesis using 2 by (simp add: detached_def)
qed

lemma handle_connection_inv:
  assumes "pm_inv s"
  shows "pm_inv (handle_connection v conn remote s)"
proof (cases remote)
  case (Some p)
  show ?thesis
  proof (cases "accept_handlers_accept v p")
    case intent: (Some intent)
    obtain acc cancel where dec: "accept_decision (pm_node_id s) p (pi_conn_state (peer_entry p s)) = (acc, cancel)"
      by (cases "accept_decision (pm_node_id s) p (pi_conn_state (peer_entry p s))")
    show ?thesis
    proof (cases acc)
      case True
      obtain b info es where push: "push_intent v intent (peer_entry p s) = (b, info, es)" by (metis prod_cases3)
      let ?s = "pm_emit es (cancel_dials cancel s)"
      have inv: "pm_inv ?s"
        using assms by (auto intro!: pm_inv_cancel split: option.splits)
      moreover have "peer_detached p ?s"
        using accepted_detached [OF assms, of "pm_node_id s" p cancel] dec True by (simp add: pm_emit_def)
      ultimately have "pm_inv (set_peer p (info\<lparr> pi_conn_state := CS_Establishing None (pm_next s) \<rparr>)
          (snd (spawn_conn_task p (T_Accept conn) ?s)))"
        using push_intent_keeps [OF push] by (intro pm_inv_spawn) (simp_all add: pm_emit_def peer_entry_def)
      then show ?thesis
        using True by (simp add: handle_connection_def Some intent dec push spawn_conn_task_def Let_def pm_emit_def)
    qed (simp add: handle_connection_def Some intent dec Let_def assms pm_inv_set_keep)
  qed (simp add: handle_connection_def Some assms)
qed (simp add: handle_connection_def assms)

lemma session_complete_inv:
  assumes "pm_inv s" "map_of (pm_session_events_rx s) p = Some u" "u \<notin> set (pm_closed_senders s)"
  shows "pm_inv (session_complete p u remaining s)"
proof -
  note inv = pm_invD [OF assms(1)]
  obtain info where info: "map_of (pm_peers s) p = Some info" "pi_session_state info = SS_Active u"
    using sessions_okD(3) [OF inv(4) assms(2,3)] by blast
  let ?s1 = "s\<lparr> pm_closed_senders := pm_closed_senders s @ [u] \<rparr>"
    and ?info = "info\<lparr> pi_pending_intents := pi_pending_intents info @ remaining, pi_session_state := SS_None \<rparr>"
  let ?s = "set_peer p ?info ?s1"
  have s: "pm_inv ?s"
    using inv tasks_ok_keep [OF inv(3) info(1), of ?info] sessions_ok_complete [OF inv(4) info(1) _ assms(2), of ?info]
    by (simp add: pm_inv_def set_peer_def map_of_hm_insert)
  have "peer_detached p ?s" if "cs_is_none (pi_conn_state info)"
    using that by (intro peer_detachedI s) (cases "pi_conn_state info"; simp)
  then have "pm_inv (remove_peer p ?s)" if "cs_is_none (pi_conn_state info)"
    using that by (intro pm_inv_remove [OF s, where info = ?info]) (simp_all add: set_peer_def hm_simps)
  then show ?thesis
    using s connect_if_inactive_inv [OF s] by (auto simp: session_complete_def info(1) Let_def)
qed

text \<open>
  The task \<open>i\<close> has been joined and reports: the state of its peer belonged to that task, or the task was free.
\<close>

lemma joined_detached:
  assumes "pm_inv s" "task_of i s = Some (p, task)" "\<not> task_free (set (pm_cancelled s)) task"
  obtains info where "map_of (pm_peers s) p = Some info" "task_attached i task info" "peer_detached p (join_next i s)"
proof -
  have task: "(i, p, task) \<in> set (pm_conn_tasks s)" using assms(2) by (simp add: task_of_def map_of_SomeD)
  obtain info where info: "map_of (pm_peers s) p = Some info" "task_attached i task info"
    using tasks_okD(2) [OF pm_invD(3) [OF assms(1)] task assms(3)] by blast
  have entry: "peer_entry p (join_next i s) = info"
    using info(1) by (simp add: peer_entry_def join_next_def)
  have "peer_detached p (join_next i s)"
  proof (rule peer_detachedI [OF pm_inv_join [OF assms(1)]])
    fix j assume "conn_handle (pi_conn_state (peer_entry p (join_next i s))) = Some j"
    then have "j = i" using task_attached_handle [OF info(2)] entry by simp
    then show "task_of j (join_next i s) = None"
      by (auto simp: task_of_def join_next_def map_of_eq_None_iff)
  qed
  then show thesis using info that by blast
qed

lemma established_inv:
  assumes "pm_inv s" "peer_detached p s" "map_of (pm_peers s) p = Some info" "pi_session_state info = SS_None"
    and "pi_conn_state info' = CS_Active (pm_next s + 1)" "pi_session_state info' = SS_Active (pm_next s)"
  shows "pm_inv (s\<lparr> pm_peers := hm_insert p info' (pm_peers s),
      pm_session_events_rx := hm_insert p (pm_next s) (pm_session_events_rx s),
      pm_conn_tasks := pm_conn_tasks s @ [(pm_next s + 1, p, T_Run c (pm_next s))], pm_next := pm_next s + 2 \<rparr>)"
proof -
  note inv = pm_invD [OF assms(1)]
  have "tasks_ok ((map_of (pm_peers s))(p \<mapsto> info')) (insert (pm_next s + 1, p, T_Run c (pm_next s)) (set (pm_conn_tasks s)))
      (pm_next s + 2) (set (pm_cancelled s))"
    using assms(5,6) by (intro tasks_ok_spawn [OF tasks_ok_change [OF inv(3) assms(2)]]) auto
  moreover have "sessions_ok ((map_of (pm_peers s))(p \<mapsto> info')) ((map_of (pm_session_events_rx s))(p \<mapsto> pm_next s))
      (pm_next s + 2) (set (pm_closed_senders s))"
    using assms(6) by (intro sessions_ok_start [OF inv(4) assms(3,4)]) auto
  ultimately show ?thesis
    using inv(1,2) fresh_task [OF assms(1), of "pm_next s + 1"]
    by (simp add: pm_inv_def map_of_hm_insert)
qed

lemma on_established_inv:
  assumes "pm_inv s" "peer_detached p s" "map_of (pm_peers s) p = Some info"
    and "on_established v p info est s = (Done a, s')"
  shows "pm_inv s'"
proof -
  let ?info = "info\<lparr> pi_pending_intents := [] \<rparr>"
  have ses: "pi_session_state info = SS_None"
    using assms(4) by (cases "pi_session_state info") (auto simp: on_established_def unwrap_def)
  have s1: "pm_inv (set_peer p ?info s)"
    using assms(3) by (intro pm_inv_set_keep assms) (simp_all add: peer_entry_Some)
  show ?thesis
  proof (cases "pm_shutting_down s")
    case True
    then show ?thesis
      using assms(4) s1 ses
      by (auto simp: on_established_def rbind_def modify_def gets_def Let_def set_peer_def)
  next
    case False
    let ?info' = "info\<lparr> pi_pending_intents := [], pi_conn_state := CS_Active (pm_next s + 1), pi_session_state := SS_Active (pm_next s) \<rparr>"
    have *: "pm_inv ((set_peer p ?info s)\<lparr> pm_peers := hm_insert p ?info' (pm_peers (set_peer p ?info s)),
      pm_session_events_rx := hm_insert p (pm_next s) (pm_session_events_rx s),
      pm_conn_tasks := pm_conn_tasks s @ [(pm_next s + 1, p, T_Run (est_conn est) (pm_next s))], pm_next := pm_next s + 2 \<rparr>)"
      using established_inv [OF s1, of p ?info ?info' "est_conn est"] assms(2) ses
      by (simp add: set_peer_def hm_simps)
    show ?thesis
      using assms(4) * ses False
      by (cases "pe_prepare_channels v"; cases "pe_init_session v")
        (auto simp: on_established_def rbind_def modify_def gets_def Let_def set_peer_def try_anyhow_def try_res_def
          spawn_conn_task_def pm_inv_def pm_emit_def)
  qed
qed

lemma on_establish_failed_inv:
  assumes "pm_inv s" "peer_detached p s" "map_of (pm_peers s) p = Some info"
  shows "pm_inv (on_establish_failed p info err s)"
proof -
  have none: "pm_inv (set_peer p (info\<lparr> pi_conn_state := CS_None \<rparr>) s)"
    using assms(3) by (intro pm_inv_set_detached assms) (simp add: peer_entry_Some)
  show ?thesis
  proof (cases err)
    case LocallyClosed
    then show ?thesis by (simp add: on_establish_failed_def assms(1))
  next
    case DuplicateConn
    then show ?thesis
      using none assms(1) by (simp add: on_establish_failed_def split: ConnState.splits option.splits)
  next
    case (EstablishFailed msg)
    have "pm_inv (remove_peer p (pm_emit es s))" if "pi_session_state info = SS_None" for es
      using that assms by (intro pm_inv_remove) (simp_all add: pm_emit_def pm_inv_def)
    then show ?thesis
      using none EstablishFailed
      by (simp add: on_establish_failed_def abort_pending_intents_def split: SessionState.splits)
  qed
qed

lemma on_done_inv:
  assumes "pm_inv s" "peer_detached p s" "map_of (pm_peers s) p = Some info"
    and "on_done p info res s = (Done a, s')"
  shows "pm_inv s'"
proof -
  obtain j where active: "pi_conn_state info = CS_Active j"
    using assms(4) by (cases "pi_conn_state info") (auto simp: on_done_def unwrap_def)
  show ?thesis
  proof (cases res)
    case (Inr conn)
    then have ses: "pi_session_state info = SS_None"
      using assms(4) by (cases "pi_session_state info") (auto simp: on_done_def active unwrap_def)
    have "pm_inv (set_peer p (info\<lparr> pi_conn_state := CS_Terminating (pm_next s) \<rparr>) (snd (spawn_conn_task p (T_Terminate conn) s)))"
      using assms(3) by (intro pm_inv_spawn assms) (simp_all add: peer_entry_Some)
    then show ?thesis
      using assms(4) by (auto simp: on_done_def active Inr ses modify_def spawn_conn_task_def)
  next
    case (Inl err)
    have "pm_inv (set_peer p (info\<lparr> pi_conn_state := CS_None \<rparr>) s)"
      using assms(3) by (intro pm_inv_set_detached assms) (simp add: peer_entry_Some)
    moreover have "pm_inv (remove_peer p (pm_emit es s))" if "pi_session_state info = SS_None" for es
      using that assms by (intro pm_inv_remove) (simp_all add: pm_emit_def pm_inv_def)
    ultimately show ?thesis
      using assms(4) by (auto simp: on_done_def active Inl modify_def abort_pending_intents_def split: SessionState.splits)
  qed
qed

lemma on_closed_inv:
  assumes "pm_inv s" "map_of (pm_peers s) p = Some info" "on_closed p info res s = (Done a, s')"
  shows "pm_inv s'"
proof (cases "pi_conn_state info")
  case (CS_Terminating j)
  have entry: "peer_entry p s = info" using assms(2) by (rule peer_entry_Some)
  have det: "peer_detached p s"
    using CS_Terminating by (intro peer_detachedI assms) (simp add: entry)
  let ?info = "info\<lparr> pi_conn_state := CS_None \<rparr>"
  have s1: "pm_inv (set_peer p ?info s)"
    by (intro pm_inv_set_detached assms det) (simp add: entry)
  moreover have "pm_inv (set_peer p (?info\<lparr> pi_pending_intents := [] \<rparr>) (set_peer p ?info s))"
    by (intro pm_inv_set_keep s1) simp_all
  moreover have "pm_inv (remove_peer p (set_peer p ?info s))" if "ss_is_none (pi_session_state info)"
    using that det by (intro pm_inv_remove [OF s1, where info = ?info])
      (cases "pi_session_state info"; simp add: set_peer_def hm_simps)+
  moreover have "pi_conn_state info \<noteq> CS_None" using CS_Terminating by simp
  ultimately show ?thesis
    using assms(3) connect_if_inactive_inv [OF s1, of p] CS_Terminating
    by (auto simp: on_closed_def modify_def Let_def abort_pending_intents_def split: if_splits sum.splits)
qed (use assms in \<open>auto simp: on_closed_def ret_def unwrap_def\<close>)

lemma handle_conn_output_inv:
  assumes "pm_inv s" "task_of i s = Some (p, task)"
    and "out_fits (pm_cancelled s) (pm_closed_senders s) task out"
    and "handle_conn_output v p out (join_next i s) = (Done a, s')"
  shows "pm_inv s'"
proof -
  have s1: "pm_inv (join_next i s)" by (rule pm_inv_join [OF assms(1)])
  obtain info where info: "map_of (pm_peers (join_next i s)) p = Some info"
    using assms(4) by (cases "map_of (pm_peers (join_next i s)) p")
      (auto simp: handle_conn_output_def rbind_def gets_def try_anyhow_def try_res_def)
  note run = assms(4) [unfolded handle_conn_output_def rbind_def gets_def, simplified info, simplified]
  show ?thesis
  proof (cases "task_free (set (pm_cancelled s)) task")
    case True
    then consider "out = StepEstablished (Inl LocallyClosed)" | res where "out = StepClosed res"
      using assms(3) by (cases task; cases out) (auto split: sum.splits elim: out_fits.elims)
    then show ?thesis
    proof cases
      case 1
      then show ?thesis using run s1 by (simp add: on_establish_failed_def modify_def)
    next
      case 2
      then show ?thesis using run on_closed_inv [OF s1 info] by simp
    qed
  next
    case False
    obtain det: "peer_detached p (join_next i s)"
      by (rule joined_detached [OF assms(1,2) False])
    show ?thesis
    proof (cases out)
      case (StepEstablished r)
      then show ?thesis
        using run on_establish_failed_inv [OF s1 det info] on_established_inv [OF s1 det info]
        by (cases r) (auto simp: modify_def)
    next
      case (StepDone r)
      then show ?thesis using run on_done_inv [OF s1 det info] by simp
    next
      case (StepClosed r)
      then show ?thesis using run on_closed_inv [OF s1 info] by simp
    qed
  qed
qed

lemma pm_new_inv: "pm_inv (pm_new me)"
  by (simp add: pm_inv_def pm_new_def tasks_ok_def sessions_ok_def)

lemma init_shutdown_inv: "pm_inv s \<Longrightarrow> pm_inv (init_shutdown s)"
  by (simp add: init_shutdown_def Let_def) (simp add: pm_inv_def)

lemma pm_tick_joined:
  assumes "pm_tick v (TickJoined i res) s = (Done flow, s')"
  obtains p task where "task_of i s = Some (p, task)" "pm_on_joined v i p res s = (Done flow, s')"
  using assms by (cases "task_of i s") (auto simp: pm_tick_def pm_enabled_def rbind_def unwrap_def)

lemma pm_on_joined_output:
  assumes "pm_on_joined v i p (J_Output out) s = (Done flow, s')"
  shows "handle_conn_output v p out (join_next i s) = (Done (), s')"
  using assms
  by (cases "handle_conn_output v p out (join_next i s)"; cases "fst (handle_conn_output v p out (join_next i s))")
    (auto simp: pm_on_joined_def rbind_def modify_def gets_def)

lemma pm_tick_inv:
  assumes "pm_inv s" "tick_fits s tick" "pm_tick v tick s = (Done flow, s')"
  shows "pm_inv s'"
proof (cases tick)
  case (TickInput input)
  then show ?thesis
    using assms(3)
    by (cases input)
      (auto simp: pm_tick_def pm_on_input_def rbind_def modify_def ret_def gets_def pm_submit_intent_inv [OF assms(1)]
        handle_connection_inv [OF assms(1)] init_shutdown_inv [OF assms(1)] split: if_splits)
next
  case (TickSession p ev)
  then show ?thesis
    using assms
    by (cases ev) (auto simp: pm_tick_def rbind_def modify_def ret_def handle_session_event_def session_complete_inv
        split: if_splits)
next
  case (TickJoined i res)
  obtain p task where task: "task_of i s = Some (p, task)" "pm_on_joined v i p res s = (Done flow, s')"
    using assms(3) TickJoined by (auto elim: pm_tick_joined)
  show ?thesis
  proof (cases res)
    case (J_Output out)
    then show ?thesis
      using handle_conn_output_inv [OF assms(1) task(1) _ pm_on_joined_output] assms(2) task
      by (simp add: TickJoined)
  qed (use task(2) in \<open>auto simp: pm_on_joined_def rbind_def modify_def ret_def try_anyhow_def try_res_def pm_inv_join [OF assms(1)]\<close>)
next
  case TickTimeout
  then show ?thesis
    using assms(1,3) by (auto simp: pm_tick_def rbind_def modify_def ret_def pm_inv_def tasks_ok_def split: if_splits)
qed

lemma pm_reach_inv: "pm_reach me entered s \<Longrightarrow> pm_inv s"
  by (induction rule: pm_reach.induct) (auto intro: pm_new_inv pm_tick_inv)

section \<open>When the manager stops\<close>

lemma pm_tick_output:
  assumes "task_of i s = Some (p, task)"
  shows "fst (pm_tick v (TickJoined i (J_Output out)) s) = Panicked \<longleftrightarrow> fst (handle_conn_output v p out (join_next i s)) = Panicked"
    and "(\<exists>e. fst (pm_tick v (TickJoined i (J_Output out)) s) = Failed e) \<longleftrightarrow> (\<exists>e. fst (handle_conn_output v p out (join_next i s)) = Failed e)"
  using assms
  by (auto simp: pm_tick_def pm_enabled_def pm_on_joined_def rbind_def unwrap_def modify_def gets_def
      split: prod.splits outcome.splits)

lemma attached_known:
  assumes "pm_inv s" "task_of i s = Some (p, task)" "map_of (pm_peers s) p = None"
  shows "task_free (set (pm_cancelled s)) task"
  using joined_detached [OF assms(1,2)] assms(3) by (metis option.distinct(1))

lemma done_is_active:
  assumes "pm_inv s" "task_of i s = Some (p, task)" "out_fits (pm_cancelled s) (pm_closed_senders s) task (StepDone res)"
  obtains info where "map_of (pm_peers s) p = Some info" "pi_conn_state info = CS_Active i"
    "\<And>c. res = Inr c \<Longrightarrow> pi_session_state info = SS_None"
proof -
  obtain c u where task: "task = T_Run c u" and closed: "\<And>c. res = Inr c \<Longrightarrow> u \<in> set (pm_closed_senders s)"
    using assms(3) by (cases task; cases res) auto
  obtain info where info: "map_of (pm_peers s) p = Some info" "task_attached i task info"
    by (rule joined_detached [OF assms(1,2)]) (auto simp: task)
  have "pi_session_state info = SS_None" if "res = Inr d" for d
    using info task closed [OF that] sessions_okD(1) [OF pm_invD(4) [OF assms(1)] info(1), of u] by auto
  then show thesis using that info task by simp
qed

lemma try_anyhow_run: "try_anyhow r s = (case r of Inl e \<Rightarrow> (Failed (E_Store e), s) | Inr a \<Rightarrow> (Done a, s))"
  by (simp add: try_anyhow_def try_res_def map_err_def split: sum.splits)

lemmas prog_run = rbind_def gets_def modify_def ret_def unwrap_def try_anyhow_run

lemma on_established_outcome:
  "fst (on_established v p info est s) = Panicked \<longleftrightarrow> pi_session_state info \<noteq> SS_None"
  "(\<exists>e. fst (on_established v p info est s) = Failed e) \<longleftrightarrow> pi_session_state info = SS_None \<and> \<not> pm_shutting_down s \<and>
     (pe_prepare_channels v \<noteq> Inr () \<or> pe_init_session v \<noteq> Inr ())"
  by (auto simp: on_established_def prog_run Let_def set_peer_def split: SessionState.splits sum.splits)

lemma on_done_outcome:
  "fst (on_done p info res s) = Panicked \<longleftrightarrow>
     (\<forall>j. pi_conn_state info \<noteq> CS_Active j) \<or> (\<exists>c. res = Inr c) \<and> pi_session_state info \<noteq> SS_None"
  "fst (on_done p info res s) \<noteq> Failed e"
  by (auto simp: on_done_def prog_run split: ConnState.splits SessionState.splits sum.splits)

lemma on_closed_outcome:
  "fst (on_closed p info res s) = Panicked \<longleftrightarrow> pi_conn_state info = CS_None"
  "fst (on_closed p info res s) \<noteq> Failed e"
  by (auto simp: on_closed_def prog_run split: ConnState.splits)

lemma handle_conn_output_known:
  assumes "map_of (pm_peers s) p = Some info"
  shows "handle_conn_output v p out s =
    (case out of
       StepEstablished (Inl err) \<Rightarrow> (Done (), on_establish_failed p info err s)
     | StepEstablished (Inr est) \<Rightarrow> on_established v p info est s
     | StepDone res \<Rightarrow> on_done p info res s
     | StepClosed res \<Rightarrow> on_closed p info res s)"
  using assms by (simp add: handle_conn_output_def prog_run split: ConnStep.splits sum.splits)

lemma handle_conn_output_unknown:
  "map_of (pm_peers s) p = None \<Longrightarrow> handle_conn_output v p out s = (Failed (E_Store ''got conn task output for unknown peer''), s)"
  by (simp add: handle_conn_output_def prog_run)


definition demo_pm_env :: pm_env where
  "demo_pm_env = \<lparr> pe_accept_cb = None, pe_forwarder = None, pe_session_open = (\<lambda>_. True),
     pe_prepare_channels = Ok (), pe_init_session = Ok () \<rparr>"

text \<open>The manager of node 0 after an intent for node 1 was submitted: it dials node 1.\<close>

definition demo_dialing :: PeerManager
  where "demo_dialing = snd (pm_tick demo_pm_env (TickInput (In_SubmitIntent [1] demo_intent)) (pm_new [0]))"

lemmas pm_run = pm_tick_def pm_enabled_def pm_on_input_def pm_on_joined_def pm_submit_intent_def handle_connection_def
  accept_handlers_accept_def accept_decision_def push_intent_def connect_if_inactive_def peer_entry_def peer_info_new_def
  pm_new_def spawn_conn_task_def set_peer_def pm_emit_def remove_peer_def join_next_def task_of_def handle_conn_output_def
  on_establish_failed_def on_established_def on_done_def on_closed_def session_complete_def handle_session_event_def
  init_shutdown_def abort_pending_intents_def demo_pm_env_def prog_run

lemma demo_dialing_state:
  "pm_tick demo_pm_env (TickInput (In_SubmitIntent [1] demo_intent)) (pm_new [0]) = (Done PF_Continue, demo_dialing)"
  "map_of (pm_peers demo_dialing) [1] = Some \<lparr> pi_node_id = [1], pi_pending_intents = [demo_intent],
     pi_conn_state = CS_Establishing (Some 0) 1, pi_session_state = SS_None \<rparr>"
  "task_of 1 demo_dialing = Some ([1], T_Dial 0)" "pm_cancelled demo_dialing = []"
  by (simp_all add: demo_dialing_def pm_run)

lemma demo_dialing_reach: "pm_reach [0] [demo_intent] demo_dialing"
  using pm_reach_tick [OF pm_reach_new [of "[0]"] _ demo_dialing_state(1)]
  by (simp add: entering_def)


section \<open>The ledger of intents\<close>

text \<open>
  The abstract machine: intents enter, wait, and are settled, that is passed to a session or aborted.  A step
  takes new intents and settles some of those that wait.
\<close>

record ledger =
  led_waiting :: "Intent multiset"
  led_settled :: "Intent multiset"

definition ledger_step :: "Intent multiset \<Rightarrow> ledger \<Rightarrow> ledger \<Rightarrow> bool" where
  "ledger_step new l l' \<longleftrightarrow>
     (\<exists>A. A \<subseteq># led_waiting l + new \<and>
        l' = \<lparr> led_waiting = led_waiting l + new - A, led_settled = led_settled l + A \<rparr>)"

inductive ledger_reach :: "Intent multiset \<Rightarrow> ledger \<Rightarrow> bool" where
  ledger_empty: "ledger_reach {#} \<lparr> led_waiting = {#}, led_settled = {#} \<rparr>"
| ledger_steps: "ledger_reach entered l \<Longrightarrow> ledger_step new l l' \<Longrightarrow> ledger_reach (entered + new) l'"

lemma ledger_conserves: "ledger_reach entered l \<Longrightarrow> entered = led_waiting l + led_settled l"
proof (induction rule: ledger_reach.induct)
  case (ledger_steps entered l new l')
  then obtain A where "A \<subseteq># led_waiting l + new" "led_waiting l' = led_waiting l + new - A" "led_settled l' = led_settled l + A"
    by (auto simp: ledger_step_def)
  moreover from this have "(led_waiting l + new - A) + A = led_waiting l + new"
    by (simp add: subset_mset.diff_add)
  ultimately show ?case
    using ledger_steps.IH by (metis union_assoc union_commute)
qed simp

fun settled_by :: "pm_effect \<Rightarrow> Intent list" where
  "settled_by (SendUpdate _ (SU_SubmitIntent intent)) = [intent]"
| "settled_by (InitSession _ _ _ _ intents) = intents"
| "settled_by (AbortIntent intent _) = [intent]"
| "settled_by _ = []"

definition waiting_of :: "(NodeId, PeerInfo) hash_map \<Rightarrow> Intent multiset"
  where "waiting_of m = mset (concat (map (\<lambda>(_, info). pi_pending_intents info) m))"

definition settled_of :: "pm_effect list \<Rightarrow> Intent multiset"
  where "settled_of es = mset (concat (map settled_by es))"

definition pm_ledger :: "PeerManager \<Rightarrow> ledger"
  where "pm_ledger s = \<lparr> led_waiting = waiting_of (pm_peers s), led_settled = settled_of (pm_log s) \<rparr>"

text \<open>\<open>s'\<close> follows \<open>s\<close> in the ledger when the intents \<open>new\<close> enter.\<close>

definition moves :: "Intent multiset \<Rightarrow> PeerManager \<Rightarrow> PeerManager \<Rightarrow> bool" where
  "moves new s s' \<longleftrightarrow> (\<exists>A. settled_of (pm_log s') = settled_of (pm_log s) + A \<and>
     waiting_of (pm_peers s') + A = waiting_of (pm_peers s) + new)"

lemma moves_ledger_step: "moves new s s' \<Longrightarrow> ledger_step new (pm_ledger s) (pm_ledger s')"
  unfolding moves_def ledger_step_def pm_ledger_def
  by (metis add_diff_cancel_right' ledger.select_convs mset_subset_eq_add_right)

lemma moves_trans:
  assumes "moves new s s1" "moves new' s1 s'"
  shows "moves (new + new') s s'"
proof -
  obtain A B where A: "settled_of (pm_log s1) = settled_of (pm_log s) + A" "waiting_of (pm_peers s1) + A = waiting_of (pm_peers s) + new"
    and B: "settled_of (pm_log s') = settled_of (pm_log s1) + B" "waiting_of (pm_peers s') + B = waiting_of (pm_peers s1) + new'"
    using assms unfolding moves_def by blast
  have "waiting_of (pm_peers s') + (A + B) = waiting_of (pm_peers s1) + new' + A"
    using B(2) by (simp add: ac_simps)
  also have "\<dots> = waiting_of (pm_peers s) + (new + new')" using A(2) by (simp add: ac_simps)
  finally show ?thesis unfolding moves_def using A(1) B(1) by (metis union_assoc)
qed

lemma moves_refl: "pm_peers s' = pm_peers s \<Longrightarrow> pm_log s' = pm_log s \<Longrightarrow> moves {#} s s'"
  by (simp add: moves_def)

lemma moves_cong:
  assumes "moves new s s1" "pm_peers s' = pm_peers s1" "pm_log s' = pm_log s1"
  shows "moves new s s'"
  using assms by (simp add: moves_def)

lemma settled_of_append [simp]: "settled_of (xs @ ys) = settled_of xs + settled_of ys"
  by (simp add: settled_of_def)

lemma waiting_insert:
  assumes "distinct (hm_keys m)"
  shows "waiting_of (hm_insert p info m) + mset (case map_of m p of None \<Rightarrow> [] | Some old \<Rightarrow> pi_pending_intents old) =
    waiting_of m + mset (pi_pending_intents info)"
  using assms
proof (induction m)
  case (Cons a m)
  then show ?case
    by (cases a) (auto simp: waiting_of_def ac_simps union_lcomm)
qed (simp add: waiting_of_def)

lemma waiting_remove:
  assumes "distinct (hm_keys m)"
  shows "waiting_of (hm_remove p m) + mset (case map_of m p of None \<Rightarrow> [] | Some old \<Rightarrow> pi_pending_intents old) = waiting_of m"
  using assms
proof (induction m)
  case (Cons a m)
  have "hm_remove p m = m" if "p \<notin> set (hm_keys m)"
    using that by (simp add: delete_notin_dom)
  then show ?case
    using Cons by (cases a) (auto simp: waiting_of_def ac_simps image_iff split: option.splits)
qed (simp add: waiting_of_def)

lemma pending_entry:
  "pi_pending_intents (peer_entry p s) = (case map_of (pm_peers s) p of None \<Rightarrow> [] | Some old \<Rightarrow> pi_pending_intents old)"
  by (simp add: peer_entry_def peer_info_new_def split: option.splits)

lemma moves_set_emit:
  assumes "pm_inv s" "mset (pi_pending_intents info) + settled_of es = mset (pi_pending_intents (peer_entry p s)) + new"
  shows "moves new s (pm_emit es (set_peer p info s))"
proof -
  let ?old = "mset (pi_pending_intents (peer_entry p s))" and ?w = "waiting_of (hm_insert p info (pm_peers s))"
  have ins: "?w + ?old = waiting_of (pm_peers s) + mset (pi_pending_intents info)"
    using waiting_insert [OF pm_invD(1) [OF assms(1)], of p info] by (simp add: pending_entry)
  have "(?w + settled_of es) + ?old = (waiting_of (pm_peers s) + mset (pi_pending_intents info)) + settled_of es"
    unfolding ins [symmetric] by (simp add: ac_simps)
  also have "\<dots> = (waiting_of (pm_peers s) + new) + ?old"
    using assms(2) by (simp add: ac_simps)
  finally show ?thesis
    unfolding moves_def pm_emit_def set_peer_def by simp
qed

lemma moves_remove_emit:
  assumes "pm_inv s" "settled_of es = mset (pi_pending_intents (peer_entry p s))"
  shows "moves {#} s (remove_peer p (pm_emit es s))"
  using waiting_remove [OF pm_invD(1) [OF assms(1)], of p] assms(2)
  by (simp add: moves_def pm_emit_def remove_peer_def pending_entry)

lemma moves_set:
  assumes "pm_inv s" "pm_peers s' = hm_insert p info (pm_peers s)" "pm_log s' = pm_log s @ es"
    and "mset (pi_pending_intents info) + settled_of es = mset (pi_pending_intents (peer_entry p s)) + new"
  shows "moves new s s'"
  by (rule moves_cong [OF moves_set_emit [OF assms(1,4)]]) (simp_all add: assms pm_emit_def set_peer_def)

lemma settled_of_Nil [simp]: "settled_of [] = {#}"
  by (simp add: settled_of_def)

lemma settled_of_abort [simp]: "settled_of (map (\<lambda>i. AbortIntent i e) is) = mset is"
  by (induction "is") (simp_all add: settled_of_def)

lemma hm_insert_twice: "hm_insert k v (hm_insert k w m) = hm_insert k v m"
  by (induction m) auto

lemma connect_if_inactive_moves:
  assumes "pm_inv s"
  shows "moves {#} s (connect_if_inactive p s)"
proof (cases "pi_conn_state (peer_entry p s) = CS_None")
  case True
  let ?info = "(peer_entry p s)\<lparr> pi_conn_state := CS_Establishing (Some (pm_next s)) (Suc (pm_next s)) \<rparr>"
  show ?thesis
    using True by (intro moves_set [OF assms, where p = p and info = ?info and es = "[]"])
      (simp_all add: connect_if_inactive_def spawn_conn_task_def set_peer_def Let_def)
next
  case False
  then show ?thesis
    by (intro moves_set [OF assms, where p = p and info = "peer_entry p s" and es = "[]"])
      (simp_all add: connect_if_inactive_def set_peer_def)
qed

lemma push_intent_settles:
  assumes "push_intent v intent info = (b, info', es)"
  shows "mset (pi_pending_intents info') + settled_of es = mset (pi_pending_intents info) + {#intent#}"
  using assms by (auto simp: push_intent_def settled_of_def split: SessionState.splits if_splits)

lemma pm_submit_intent_moves:
  assumes "pm_inv s"
  shows "moves {#intent#} s (pm_submit_intent v p intent s)"
proof -
  obtain b info es where push: "push_intent v intent (peer_entry p s) = (b, info, es)" by (metis prod_cases3)
  let ?s = "pm_emit es (set_peer p info s)"
  have "pm_inv ?s"
    using push_intent_keeps [OF push] by (simp add: pm_inv_set_keep assms)
  moreover have "moves {#intent#} s ?s"
    by (rule moves_set_emit [OF assms push_intent_settles [OF push]])
  ultimately show ?thesis
    using moves_trans [OF _ connect_if_inactive_moves, of "{#intent#}" s ?s p]
    by (simp add: pm_submit_intent_def push Let_def)
qed

lemma handle_connection_moves:
  assumes "pm_inv s"
  shows "moves (mset (entering v s (TickInput (In_HandleConnection conn remote)))) s (handle_connection v conn remote s)"
proof (cases remote)
  case (Some p)
  show ?thesis
  proof (cases "accept_handlers_accept v p")
    case intent: (Some intent)
    obtain acc cancel where dec: "accept_decision (pm_node_id s) p (pi_conn_state (peer_entry p s)) = (acc, cancel)"
      by (cases "accept_decision (pm_node_id s) p (pi_conn_state (peer_entry p s))")
    show ?thesis
    proof (cases acc)
      case True
      obtain b info es where push: "push_intent v intent (peer_entry p s) = (b, info, es)" by (metis prod_cases3)
      have "moves {#intent#} s (handle_connection v conn remote s)"
        using push_intent_settles [OF push] True
        by (intro moves_set [OF assms, where p = p and es = es and info = "info\<lparr> pi_conn_state := CS_Establishing None (pm_next s) \<rparr>"])
          (simp_all add: handle_connection_def Some intent dec push spawn_conn_task_def set_peer_def pm_emit_def Let_def)
      then show ?thesis using True by (simp add: entering_def Some intent dec)
    next
      case False
      have "moves {#} s (handle_connection v conn remote s)"
        using False
        by (intro moves_set [OF assms, where p = p and es = "[CloseConn conn DUPLICATE_CONN]" and info = "peer_entry p s"])
          (simp_all add: handle_connection_def Some intent dec set_peer_def pm_emit_def settled_of_def)
      then show ?thesis using False by (simp add: entering_def Some intent dec)
    qed
  qed (simp add: handle_connection_def Some moves_refl entering_def)
qed (simp add: handle_connection_def moves_refl entering_def)

lemma session_complete_moves:
  assumes "pm_inv s" "map_of (pm_session_events_rx s) p = Some u" "u \<notin> set (pm_closed_senders s)"
  shows "moves (mset remaining) s (session_complete p u remaining s)"
proof -
  note inv = pm_invD [OF assms(1)]
  obtain info where info: "map_of (pm_peers s) p = Some info"
    using sessions_okD(3) [OF inv(4) assms(2,3)] by blast
  let ?s1 = "s\<lparr> pm_closed_senders := pm_closed_senders s @ [u] \<rparr>"
    and ?info = "info\<lparr> pi_pending_intents := pi_pending_intents info @ remaining, pi_session_state := SS_None \<rparr>"
  let ?s = "set_peer p ?info ?s1"
  have s: "pm_inv ?s"
    using inv tasks_ok_keep [OF inv(3) info(1), of ?info] sessions_ok_complete [OF inv(4) info(1) _ assms(2), of ?info]
    by (simp add: pm_inv_def set_peer_def map_of_hm_insert)
  have "moves (mset remaining) s ?s"
    by (rule moves_set [OF assms(1), where p = p and info = ?info and es = "[]"]) (simp_all add: set_peer_def peer_entry_Some [OF info])
  moreover have "moves {#} ?s (remove_peer p ?s)" if "pi_pending_intents info = []" "remaining = []"
    using moves_remove_emit [OF s, of "[]" p] that by (simp add: pm_emit_def)
  ultimately show ?thesis
    using moves_trans [of "mset remaining" s ?s "{#}"] connect_if_inactive_moves [OF s, of p]
    by (auto simp: session_complete_def info Let_def)
qed

lemma abort_pending_settles:
  "abort_pending_intents err info = (info', es) \<Longrightarrow> settled_of es = mset (pi_pending_intents info) \<and> pi_pending_intents info' = []"
  by (auto simp: abort_pending_intents_def)

lemma on_establish_failed_moves:
  assumes "pm_inv s" "map_of (pm_peers s) p = Some info"
  shows "moves {#} s (on_establish_failed p info err s)"
proof -
  have entry: "peer_entry p s = info" using assms(2) by (rule peer_entry_Some)
  have none: "moves {#} s (set_peer p (info\<lparr> pi_conn_state := CS_None \<rparr>) s)"
    by (rule moves_set [OF assms(1), where p = p and info = "info\<lparr> pi_conn_state := CS_None \<rparr>" and es = "[]"])
      (simp_all add: set_peer_def entry)
  have "moves {#} s (remove_peer p (pm_emit (map (\<lambda>i. AbortIntent i e) (pi_pending_intents info)) s))" for e
    by (rule moves_remove_emit [OF assms(1)]) (simp add: entry)
  then show ?thesis
    using none by (auto simp: on_establish_failed_def abort_pending_intents_def moves_refl
        split: establish_error.splits ConnState.splits option.splits SessionState.splits)
qed

lemma on_established_moves:
  assumes "pm_inv s" "map_of (pm_peers s) p = Some info" "on_established v p info est s = (Done a, s')"
  shows "moves {#} s s'"
proof -
  have entry: "peer_entry p s = info" using assms(2) by (rule peer_entry_Some)
  have ses: "pi_session_state info = SS_None"
    using assms(3) by (cases "pi_session_state info") (auto simp: on_established_def unwrap_def)
  let ?info' = "info\<lparr> pi_pending_intents := [], pi_conn_state := CS_Active (Suc (pm_next s)), pi_session_state := SS_Active (pm_next s) \<rparr>"
  show ?thesis
  proof (cases "pm_shutting_down s")
    case True
    show ?thesis
      using assms(3) True ses
      by (intro moves_set [OF assms(1), where p = p and info = "info\<lparr> pi_pending_intents := [] \<rparr>"
            and es = "CloseConn (est_conn est) SHUTDOWN # map (\<lambda>i. AbortIntent i E_ShuttingDown) (pi_pending_intents info)"])
        (auto simp: on_established_def prog_run Let_def set_peer_def pm_emit_def entry settled_of_def comp_def)
  next
    case False
    show ?thesis
      using assms(3) False ses
      by (intro moves_set [OF assms(1), where p = p and info = ?info'
            and es = "[InitSession (pm_next s) p (est_our_role est) (est_conn est) (pi_pending_intents info)]"])
        (auto simp: on_established_def prog_run Let_def set_peer_def pm_emit_def entry spawn_conn_task_def hm_insert_twice
          settled_of_def split: sum.splits)
  qed
qed

lemma on_done_moves:
  assumes "pm_inv s" "map_of (pm_peers s) p = Some info" "on_done p info res s = (Done a, s')"
  shows "moves {#} s s'"
proof -
  have entry: "peer_entry p s = info" using assms(2) by (rule peer_entry_Some)
  have terminated: "moves {#} s (set_peer p (info\<lparr> pi_conn_state := c \<rparr>) (s\<lparr> pm_conn_tasks := ts, pm_next := n \<rparr>))" for c ts n
    by (rule moves_set [OF assms(1), where p = p and info = "info\<lparr> pi_conn_state := c \<rparr>" and es = "[]"]) (simp_all add: set_peer_def entry)
  have abort: "moves {#} s (pm_emit [SendUpdate u (SU_Abort e)] (set_peer p (info\<lparr> pi_conn_state := c \<rparr>) s))" for c u e
    by (rule moves_set_emit [OF assms(1)]) (simp add: entry settled_of_def)
  have "moves {#} s (remove_peer p (pm_emit (map (\<lambda>i. AbortIntent i e) (pi_pending_intents info)) s))" for e
    by (rule moves_remove_emit [OF assms(1)]) (simp add: entry)
  then show ?thesis
    using assms(3) terminated abort
    by (auto simp: on_done_def prog_run abort_pending_intents_def spawn_conn_task_def
        split: ConnState.splits SessionState.splits sum.splits)
qed

lemma on_closed_moves:
  assumes "pm_inv s" "map_of (pm_peers s) p = Some info" "on_closed p info res s = (Done a, s')"
  shows "moves {#} s s'"
proof (cases "pi_conn_state info")
  case (CS_Terminating j)
  have entry: "peer_entry p s = info" using assms(2) by (rule peer_entry_Some)
  let ?info = "info\<lparr> pi_conn_state := CS_None \<rparr>"
  let ?s = "set_peer p ?info s"
  have s1: "pm_inv ?s"
    using CS_Terminating by (intro pm_inv_set_detached assms peer_detachedI) (simp_all add: entry)
  have m: "moves {#} s ?s"
    by (rule moves_set [OF assms(1), where p = p and info = ?info and es = "[]"]) (simp_all add: set_peer_def entry)
  have "moves {#} ?s (pm_emit (map (\<lambda>i. AbortIntent i e) (pi_pending_intents info)) (set_peer p (?info\<lparr> pi_pending_intents := [] \<rparr>) ?s))" for e
    by (rule moves_set_emit [OF s1]) simp
  moreover have "moves {#} ?s (remove_peer p ?s)" if "pi_pending_intents info = []"
    using moves_remove_emit [OF s1, of "[]" p] that by (simp add: pm_emit_def)
  ultimately show ?thesis
    using assms(3) m moves_trans [OF m, of "{#}"] connect_if_inactive_moves [OF s1, of p]
    by (auto simp: on_closed_def prog_run Let_def abort_pending_intents_def CS_Terminating split: if_splits sum.splits)
qed (use assms in \<open>auto simp: on_closed_def prog_run intro: moves_refl\<close>)

lemma handle_conn_output_moves:
  assumes "pm_inv s" "handle_conn_output v p out s = (Done a, s')"
  shows "moves {#} s s'"
proof (cases "map_of (pm_peers s) p")
  case None
  then show ?thesis using assms(2) by (simp add: handle_conn_output_unknown)
next
  case (Some info)
  note step = assms(2) [unfolded handle_conn_output_known [OF Some]]
  show ?thesis
    using step on_establish_failed_moves [OF assms(1) Some] on_established_moves [OF assms(1) Some]
      on_done_moves [OF assms(1) Some] on_closed_moves [OF assms(1) Some]
    by (auto split: ConnStep.splits sum.splits)
qed

lemma init_shutdown_moves: "moves {#} s (init_shutdown s)"
proof -
  have "settled_of (List.map_filter (\<lambda>i. case pi_session_state i of
      SS_Active u \<Rightarrow> Some (SendUpdate u (SU_Abort E_ShuttingDown)) | SS_None \<Rightarrow> None) xs) = {#}" for xs
    by (induction xs) (simp_all add: settled_of_def List.map_filter_simps split: SessionState.splits)
  then show ?thesis by (simp add: init_shutdown_def moves_def Let_def pm_emit_def)
qed

lemma pm_tick_moves:
  assumes "pm_inv s" "tick_fits s tick" "pm_tick v tick s = (Done flow, s')"
  shows "moves (mset (entering v s tick)) s s'"
proof (cases tick)
  case (TickInput input)
  then show ?thesis
    using assms(3) pm_submit_intent_moves [OF assms(1)] handle_connection_moves [OF assms(1), of v] init_shutdown_moves [of s]
    by (cases input)
      (auto simp: pm_tick_def pm_on_input_def prog_run entering_def split: if_splits)
next
  case (TickSession p ev)
  then show ?thesis
    using assms
    by (cases ev) (auto simp: pm_tick_def prog_run handle_session_event_def session_complete_moves entering_def moves_refl
        split: if_splits)
next
  case (TickJoined i res)
  obtain p task where task: "task_of i s = Some (p, task)" "pm_on_joined v i p res s = (Done flow, s')"
    using assms(3) TickJoined by (auto elim: pm_tick_joined)
  have join: "moves {#} s (join_next i s)" by (rule moves_refl) (simp_all add: join_next_def)
  have none: "entering v s tick = []" by (simp add: entering_def TickJoined)
  show ?thesis
  proof (cases res)
    case (J_Output out)
    then show ?thesis
      using moves_trans [OF join handle_conn_output_moves [OF pm_inv_join [OF assms(1)] pm_on_joined_output]] task
      by (simp add: none)
  qed (use task(2) join in \<open>auto simp: pm_on_joined_def prog_run none\<close>)
next
  case TickTimeout
  then show ?thesis
    using assms(3) by (auto simp: pm_tick_def prog_run entering_def moves_refl split: if_splits)
qed



section \<open>Particular runs\<close>

text \<open>When two peers dial each other, exactly one of them accepts the connection of the other.\<close>

lemma simultaneous_dial:
  "a \<noteq> b \<Longrightarrow> fst (accept_decision a b (CS_Establishing (Some t) i)) \<longleftrightarrow> \<not> fst (accept_decision b a (CS_Establishing (Some t') i'))"
  by (auto simp: accept_decision_def)

fun pm_runs :: "pm_env \<Rightarrow> pm_event list \<Rightarrow> PeerManager \<Rightarrow> PeerManager option" where
  "pm_runs v [] s = Some s"
| "pm_runs v (tick # ticks) s =
     (if tick_fits s tick
      then (case pm_tick v tick s of (Done _, s') \<Rightarrow> pm_runs v ticks s' | _ \<Rightarrow> None)
      else None)"

lemma pm_runs_reach: "pm_reach me entered s \<Longrightarrow> pm_runs v ticks s = Some s' \<Longrightarrow> \<exists>entered'. pm_reach me entered' s'"
proof (induction ticks arbitrary: entered s)
  case (Cons tick ticks)
  then show ?case
    by (auto split: if_splits prod.splits outcome.splits intro: pm_reach_tick)
qed auto

text \<open>
  The connection fails while the session is active, and the peer connects again before the session has reported
  its end: the manager panics.
\<close>

definition reconnect_ticks :: "pm_event list" where
  "reconnect_ticks =
     [TickInput (In_SubmitIntent [1] demo_intent),
      TickJoined 1 (J_Output (StepEstablished (Inr \<lparr> est_our_role = Alfie, est_conn = 0 \<rparr>))),
      TickJoined 3 (J_Output (StepDone (Inl ''reset''))),
      TickInput (In_HandleConnection 1 (Some [1]))]"

lemma reconnect_panics:
  "case pm_runs demo_pm_env reconnect_ticks (pm_new [0]) of
     None \<Rightarrow> False
   | Some s \<Rightarrow> tick_fits s (TickJoined 4 (J_Output (StepEstablished (Inr \<lparr> est_our_role = Betty, est_conn = 1 \<rparr>)))) \<and>
       fst (pm_tick demo_pm_env (TickJoined 4 (J_Output (StepEstablished (Inr \<lparr> est_our_role = Betty, est_conn = 1 \<rparr>)))) s) = Panicked"
  by code_simp

text \<open>
  An incoming connection wins over our dial and then fails to establish: the peer is forgotten, and when the
  cancelled dial is joined the manager stops with an error.
\<close>

definition lost_dial_ticks :: "pm_event list" where
  "lost_dial_ticks =
     [TickInput (In_SubmitIntent [1] demo_intent),
      TickInput (In_HandleConnection 0 (Some [1])),
      TickJoined 2 (J_Output (StepEstablished (Inl (EstablishFailed ''timeout''))))]"

lemma lost_dial_stops:
  "case pm_runs demo_pm_env lost_dial_ticks (pm_new [0]) of
     None \<Rightarrow> False
   | Some s \<Rightarrow> tick_fits s (TickJoined 1 (J_Output (StepEstablished (Inl LocallyClosed)))) \<and>
       fst (pm_tick demo_pm_env (TickJoined 1 (J_Output (StepEstablished (Inl LocallyClosed)))) s) =
         Failed (E_Store ''got conn task output for unknown peer'')"
  by code_simp

text \<open>A shutdown while a connection is being established only ends with the timeout.\<close>

lemma shutdown_waits_for_timeout:
  "case pm_runs demo_pm_env
       [TickInput (In_SubmitIntent [1] demo_intent), TickInput In_Shutdown, TickJoined 1 J_Cancelled] (pm_new [0]) of
     None \<Rightarrow> False
   | Some s \<Rightarrow> pm_conn_tasks s = [] \<and> pm_session_events_rx s = [] \<and> pm_shutting_down s"
  by code_simp

lemma only_timeout_enabled:
  "pm_conn_tasks s = [] \<Longrightarrow> pm_session_events_rx s = [] \<Longrightarrow> pm_shutting_down s \<Longrightarrow> pm_enabled tick s \<longleftrightarrow> tick = TickTimeout"
  by (cases tick) (simp_all add: pm_enabled_def task_of_def)

end
