(* ===== verification/Persistent_Store.thy ===== *)
theory Persistent_Store
  imports Caps_Auth Outcome
begin

text \<open>
  The persistent store (\<open>store/persistent.rs\<close>, \<open>store/persistent/tables.rs\<close>): the current transaction of the
  database, the tables of entries and of authorisation tokens with their reference counts, ingestion with prefix
  pruning, the reader of a snapshot, and the tables of capabilities and secrets.

  The database \<open>redb\<close> and the trees of \<open>willow_store\<close> are arguments: records of the functions that the code
  calls, with their documented behaviour as the hypotheses \<open>redb_laws\<close>, \<open>table_laws\<close> and \<open>node_laws\<close>.  Every
  call may fail.  Functions that change tables are programs over the tables; their effects before a failure stay.
\<close>

section \<open>Transactions\<close>

record ('d, 't) redb =
  rd_begin_write :: "'d \<Rightarrow> string + 't"
  rd_begin_read :: "'d \<Rightarrow> string + 't"
  rd_commit :: "'t \<Rightarrow> 'd \<Rightarrow> string + 'd"

text \<open>A transaction starts with the committed contents; a commit makes its tables the contents.\<close>

definition redb_laws :: "('d, 't) redb \<Rightarrow> ('d \<Rightarrow> 't) \<Rightarrow> bool" where
  "redb_laws b contents \<longleftrightarrow>
     (\<forall>d t. rd_begin_write b d = Ok t \<longrightarrow> t = contents d) \<and>
     (\<forall>d t. rd_begin_read b d = Ok t \<longrightarrow> t = contents d) \<and>
     (\<forall>d t d'. rd_commit b t d = Ok d' \<longrightarrow> contents d' = t)"

definition MAX_COMMIT_DELAY :: nat
  where "MAX_COMMIT_DELAY = 500"

record 't OpenWrite =
  ow_tables :: 't
  ow_since :: nat

datatype 't CurrentTransaction = CT_None | CT_Write "'t OpenWrite" | CT_Read 't

record ('d, 't) Db =
  db_redb :: 'd
  db_tx :: "'t CurrentTransaction"

definition db_new :: "'d \<Rightarrow> ('d, 't) Db"
  where "db_new d = \<lparr> db_redb = d, db_tx = CT_None \<rparr>"

text \<open>\<open>OpenWrite::commit\<close>: the transaction has been taken out of the cell before.\<close>

definition ow_commit :: "('d, 't) redb \<Rightarrow> 't OpenWrite \<Rightarrow> (('d, 't) Db, unit) prog" where
  "ow_commit b w =
     rbind (gets db_redb) (\<lambda>d.
     rbind (try_anyhow (rd_commit b (ow_tables w) d)) (\<lambda>d'.
     modify (\<lambda>s. s\<lparr> db_redb := d' \<rparr>)))"

definition take_tx :: "(('d, 't) Db, 't CurrentTransaction) prog"
  where "take_tx = rbind (gets db_tx) (\<lambda>tx. rbind (modify (\<lambda>s. s\<lparr> db_tx := CT_None \<rparr>)) (\<lambda>_. ret tx))"

definition db_flush :: "('d, 't) redb \<Rightarrow> (('d, 't) Db, unit) prog" where
  "db_flush b = rbind take_tx (\<lambda>tx. case tx of CT_Write w \<Rightarrow> ow_commit b w | _ \<Rightarrow> ret ())"

definition db_begin_read :: "('d, 't) redb \<Rightarrow> (('d, 't) Db, 't) prog"
  where "db_begin_read b = rbind (gets db_redb) (\<lambda>d. try_anyhow (rd_begin_read b d))"

definition db_begin_write :: "('d, 't) redb \<Rightarrow> nat \<Rightarrow> (('d, 't) Db, 't OpenWrite) prog" where
  "db_begin_write b now =
     rbind (gets db_redb) (\<lambda>d.
     rbind (try_anyhow (rd_begin_write b d)) (\<lambda>t. ret \<lparr> ow_tables = t, ow_since = now \<rparr>))"

definition db_snapshot :: "('d, 't) redb \<Rightarrow> (('d, 't) Db, 't) prog" where
  "db_snapshot b =
     rbind take_tx (\<lambda>tx.
     rbind (case tx of
         CT_None \<Rightarrow> db_begin_read b
       | CT_Write w \<Rightarrow> rbind (ow_commit b w) (\<lambda>_. db_begin_read b)
       | CT_Read tables \<Rightarrow> ret tables) (\<lambda>tables.
     rbind (modify (\<lambda>s. s\<lparr> db_tx := CT_Read tables \<rparr>)) (\<lambda>_. ret tables)))"

definition db_snapshot_owned :: "('d, 't) redb \<Rightarrow> (('d, 't) Db, 't) prog"
  where "db_snapshot_owned b = rbind (db_flush b) (\<lambda>_. db_begin_read b)"

text \<open>\<open>now\<close> is the time of the call, in milliseconds.\<close>

definition db_tables :: "('d, 't) redb \<Rightarrow> nat \<Rightarrow> (('d, 't) Db, 't OpenWrite) prog" where
  "db_tables b now =
     rbind take_tx (\<lambda>tx.
     rbind (case tx of
         CT_None \<Rightarrow> db_begin_write b now
       | CT_Read _ \<Rightarrow> db_begin_write b now
       | CT_Write w \<Rightarrow>
           if MAX_COMMIT_DELAY < now - ow_since w
           then rbind (ow_commit b w) (\<lambda>_. db_begin_write b now)
           else ret w) (\<lambda>w.
     rbind (modify (\<lambda>s. s\<lparr> db_tx := CT_Write w \<rparr>)) (\<lambda>_. ret w)))"

text \<open>\<open>self.db.tables()?.modify(f)\<close> and \<open>self.db.tables()?.read()\<close>\<close>

definition db_modify :: "('d, 't) redb \<Rightarrow> nat \<Rightarrow> ('t, 'a) prog \<Rightarrow> (('d, 't) Db, 'a) prog" where
  "db_modify b now f =
     rbind (db_tables b now) (\<lambda>w s.
       case f (ow_tables w) of (r, t) \<Rightarrow> (r, s\<lparr> db_tx := CT_Write (w\<lparr> ow_tables := t \<rparr>) \<rparr>))"

definition db_read :: "('d, 't) redb \<Rightarrow> nat \<Rightarrow> ('t \<Rightarrow> 'a) \<Rightarrow> (('d, 't) Db, 'a) prog"
  where "db_read b now f = rbind (db_tables b now) (\<lambda>w. ret (f (ow_tables w)))"

subsection \<open>Transactions refine the tables\<close>

text \<open>
  The specification of the database is the tables alone: a modification changes them, a read or a snapshot
  sees them, whether or not they are committed.
\<close>

datatype ('t, 'a) db_op =
    OpModify nat "('t, 'a) prog"
  | OpRead nat "'t \<Rightarrow> 'a"
  | OpSnapshot "'t \<Rightarrow> 'a"
  | OpSnapshotOwned "'t \<Rightarrow> 'a"
  | OpFlush 'a

fun db_exec :: "('d, 't) redb \<Rightarrow> ('t, 'a) db_op \<Rightarrow> (('d, 't) Db, 'a) prog" where
  "db_exec b (OpModify now f) = db_modify b now f"
| "db_exec b (OpRead now f) = db_read b now f"
| "db_exec b (OpSnapshot f) = rbind (db_snapshot b) (\<lambda>t. ret (f t))"
| "db_exec b (OpSnapshotOwned f) = rbind (db_snapshot_owned b) (\<lambda>t. ret (f t))"
| "db_exec b (OpFlush x) = rbind (db_flush b) (\<lambda>_. ret x)"

fun spec_exec :: "('t, 'a) db_op \<Rightarrow> ('t, 'a) prog" where
  "spec_exec (OpModify now f) = f"
| "spec_exec (OpRead now f) = gets f"
| "spec_exec (OpSnapshot f) = gets f"
| "spec_exec (OpSnapshotOwned f) = gets f"
| "spec_exec (OpFlush x) = ret x"

fun run_ops :: "('o \<Rightarrow> ('s, 'a) prog) \<Rightarrow> 'o list \<Rightarrow> ('s, 'a list) prog" where
  "run_ops exec [] = ret []"
| "run_ops exec (op # ops) = rbind (exec op) (\<lambda>x. rbind (run_ops exec ops) (\<lambda>xs. ret (x # xs)))"

fun op_persists :: "('t, 'a) db_op \<Rightarrow> bool" where
  "op_persists (OpModify _ _) \<longleftrightarrow> False"
| "op_persists (OpRead _ _) \<longleftrightarrow> False"
| "op_persists _ \<longleftrightarrow> True"

definition db_view :: "('d \<Rightarrow> 't) \<Rightarrow> ('d, 't) Db \<Rightarrow> 't"
  where "db_view contents s = (case db_tx s of CT_Write w \<Rightarrow> ow_tables w | _ \<Rightarrow> contents (db_redb s))"

definition db_inv :: "('d \<Rightarrow> 't) \<Rightarrow> ('d, 't) Db \<Rightarrow> bool"
  where "db_inv contents s \<longleftrightarrow> (\<forall>t. db_tx s = CT_Read t \<longrightarrow> t = contents (db_redb s))"

lemma ow_commit_Done:
  assumes "redb_laws b c" "ow_commit b w s = (Done x, s')"
  shows "c (db_redb s') = ow_tables w \<and> db_tx s' = db_tx s"
  using assms
  by (auto simp: ow_commit_def redb_laws_def gets_def modify_def try_anyhow_Done elim!: rbind_DoneE)

lemma db_begin_Done:
  assumes "redb_laws b c"
  shows "db_begin_read b s = (Done t, s') \<Longrightarrow> t = c (db_redb s) \<and> s' = s"
    and "db_begin_write b now s = (Done w, s') \<Longrightarrow> ow_tables w = c (db_redb s) \<and> s' = s"
  using assms
  by (auto simp: db_begin_read_def db_begin_write_def redb_laws_def gets_def ret_def try_anyhow_Done elim!: rbind_DoneE)

lemma take_tx_run: "take_tx s = (Done (db_tx s), s\<lparr> db_tx := CT_None \<rparr>)"
  by (simp add: take_tx_def rbind_def gets_def modify_def ret_def)

lemma db_snapshot_Done:
  assumes "redb_laws b c" "db_inv c s" "db_snapshot b s = (Done t, s')"
  shows "t = db_view c s \<and> db_tx s' = CT_Read t \<and> c (db_redb s') = db_view c s"
  using assms(2,3)
  by (auto simp: db_snapshot_def take_tx_run db_view_def db_inv_def ret_def modify_def
      dest!: ow_commit_Done [OF assms(1)] db_begin_Done(1) [OF assms(1)]
      elim!: rbind_DoneE split: CurrentTransaction.splits)

lemma db_flush_Done:
  assumes "redb_laws b c" "db_flush b s = (Done x, s')"
  shows "db_tx s' = CT_None \<and> c (db_redb s') = db_view c s"
  using assms(2)
  by (auto simp: db_flush_def take_tx_run db_view_def ret_def dest!: ow_commit_Done [OF assms(1)]
      elim!: rbind_DoneE split: CurrentTransaction.splits)

lemma db_tables_Done:
  assumes "redb_laws b c" "db_tables b now s = (Done w, s')"
  shows "db_tx s' = CT_Write w \<and> ow_tables w = db_view c s"
  using assms(2)
  by (auto simp: db_tables_def take_tx_run db_view_def ret_def modify_def
      dest!: ow_commit_Done [OF assms(1)] db_begin_Done(2) [OF assms(1)]
      elim!: rbind_DoneE split: CurrentTransaction.splits if_splits)

lemma db_exec_sim:
  assumes "redb_laws b c" "db_inv c s" "db_exec b op s = (Done x, s')"
  shows "spec_exec op (db_view c s) = (Done x, db_view c s') \<and> db_inv c s' \<and>
    (op_persists op \<longrightarrow> c (db_redb s') = db_view c s')"
proof (cases op)
  case (OpModify now f)
  then obtain w s1 where r: "db_tables b now s = (Done w, s1)" "(case f (ow_tables w) of (r, t) \<Rightarrow> (r, s1\<lparr> db_tx := CT_Write (w\<lparr> ow_tables := t \<rparr>) \<rparr>)) = (Done x, s')"
    using assms(3) by (auto simp: db_modify_def elim!: rbind_DoneE)
  then show ?thesis
    using OpModify r(2) db_tables_Done [OF assms(1) r(1)] by (auto simp: db_view_def db_inv_def split: prod.splits)
next
  case (OpRead now f)
  then obtain w where r: "db_tables b now s = (Done w, s')" "x = f (ow_tables w)"
    using assms(3) by (auto simp: db_read_def ret_def elim!: rbind_DoneE)
  then show ?thesis
    using OpRead r(2) db_tables_Done [OF assms(1) r(1)] by (auto simp: db_view_def db_inv_def gets_def)
next
  case (OpSnapshot f)
  then obtain t where r: "db_snapshot b s = (Done t, s')" "x = f t"
    using assms(3) by (auto simp: ret_def elim!: rbind_DoneE)
  then show ?thesis
    using OpSnapshot r(2) db_snapshot_Done [OF assms(1,2) r(1)] by (auto simp: db_view_def db_inv_def gets_def)
next
  case (OpSnapshotOwned f)
  then obtain t s1 where r: "db_flush b s = (Done (), s1)" "db_begin_read b s1 = (Done t, s')" "x = f t"
    using assms(3) by (auto simp: db_snapshot_owned_def ret_def elim!: rbind_DoneE)
  then show ?thesis
    using OpSnapshotOwned r(3) db_flush_Done [OF assms(1) r(1)] db_begin_Done(1) [OF assms(1) r(2)]
    by (auto simp: db_view_def db_inv_def gets_def)
next
  case (OpFlush y)
  then obtain z where r: "db_flush b s = (Done z, s')" "x = y"
    using assms(3) by (auto simp: ret_def elim!: rbind_DoneE)
  then show ?thesis
    using OpFlush r(2) db_flush_Done [OF assms(1) r(1)] by (auto simp: db_view_def db_inv_def ret_def)
qed

text \<open>
  C8: The transactions of the persistent store refine its tables: in every sequence of modifications, reads,
  snapshots and flushes that succeeds, each operation returns what it returns on the tables alone, so every read
  and every snapshot sees all earlier modifications, committed or not; and after a snapshot or a flush the
  modifications are committed.
\<close>

theorem db_refines_tables:
  assumes "redb_laws b contents" "db_inv contents s" "run_ops (db_exec b) ops s = (Done xs, s')"
  shows "run_ops spec_exec ops (db_view contents s) = (Done xs, db_view contents s') \<and> db_inv contents s' \<and>
    (ops \<noteq> [] \<and> op_persists (last ops) \<longrightarrow> contents (db_redb s') = db_view contents s')"
  using assms(2,3)
proof (induction ops arbitrary: s xs)
  case (Cons op ops)
  then obtain x s1 ys where step: "db_exec b op s = (Done x, s1)" and rest: "run_ops (db_exec b) ops s1 = (Done ys, s')"
    and xs: "xs = x # ys"
    by (auto simp: ret_def elim!: rbind_DoneE)
  note sim = db_exec_sim [OF assms(1) Cons.prems(1) step]
  show ?case
    using Cons.IH [OF _ rest] sim xs rest by (cases "ops = []") (auto intro!: rbind_DoneI simp: ret_def)
qed (auto simp: ret_def)

section \<open>Tables\<close>

record ('k, 'v, 't) table_ops =
  tb_get :: "'k \<Rightarrow> 't \<Rightarrow> string + 'v option"
  tb_insert :: "'k \<Rightarrow> 'v \<Rightarrow> 't \<Rightarrow> string + 't"
  tb_remove :: "'k \<Rightarrow> 't \<Rightarrow> string + 'v option \<times> 't"

definition table_laws :: "('k, 'v, 't) table_ops \<Rightarrow> ('t \<Rightarrow> 'k \<Rightarrow> 'v option) \<Rightarrow> bool" where
  "table_laws ops view \<longleftrightarrow>
     (\<forall>k t x. tb_get ops k t = Ok x \<longrightarrow> x = view t k) \<and>
     (\<forall>k v t t'. tb_insert ops k v t = Ok t' \<longrightarrow> view t' = (view t)(k \<mapsto> v)) \<and>
     (\<forall>k t x t'. tb_remove ops k t = Ok (x, t') \<longrightarrow> x = view t k \<and> view t' = (view t)(k := None)) \<and>
     (\<forall>t. finite (dom (view t)))"

text \<open>The trees of \<open>willow_store\<close>: a node is known by its id in a node store.\<close>

record ('i, 's) node_ops =
  nd_EMPTY :: 'i
  nd_query :: "'i \<Rightarrow> QueryRange3d \<Rightarrow> 's \<Rightarrow> (string + ws_point \<times> StoredAuthorisedEntry) list"
  nd_query_ordered_yzx :: "'i \<Rightarrow> QueryRange3d \<Rightarrow> 's \<Rightarrow> (string + ws_point \<times> StoredAuthorisedEntry) list"
  nd_insert :: "'i \<Rightarrow> ws_point \<Rightarrow> StoredAuthorisedEntry \<Rightarrow> 's \<Rightarrow> string + 'i \<times> 's"
  nd_delete :: "'i \<Rightarrow> ws_point \<Rightarrow> 's \<Rightarrow> string + 'i \<times> 's"
  nd_range_count :: "'i \<Rightarrow> QueryRange3d \<Rightarrow> 's \<Rightarrow> string + u64"
  nd_range_summary :: "'i \<Rightarrow> QueryRange3d \<Rightarrow> 's \<Rightarrow> string + Fingerprint"
  nd_split_range :: "'i \<Rightarrow> QueryRange3d \<Rightarrow> u64 \<Rightarrow> 's \<Rightarrow> (string + QueryRange3d \<times> u64) list"

text \<open>Collecting into \<open>Result<Vec>\<close>\<close>

fun collect_results :: "('e + 'a) list \<Rightarrow> 'e + 'a list" where
  "collect_results [] = Ok []"
| "collect_results (r # rs) = res_bind r (\<lambda>a. res_bind (collect_results rs) (\<lambda>xs. Ok (a # xs)))"

text \<open>
  A node means a finite map from points to values.  An update of a node gives a node that is the old one, the
  empty one or a new one, and leaves all other nodes alone.
\<close>

definition node_update ::
  "('i, 's) node_ops \<Rightarrow> ('s \<Rightarrow> 'i set) \<Rightarrow> ('s \<Rightarrow> 'i \<Rightarrow> ws_point \<Rightarrow> StoredAuthorisedEntry option)
   \<Rightarrow> 's \<Rightarrow> 'i \<Rightarrow> (ws_point \<Rightarrow> StoredAuthorisedEntry option) \<Rightarrow> 'i \<Rightarrow> 's \<Rightarrow> bool" where
  "node_update ops ids view s i m i' s' \<longleftrightarrow>
     i' \<in> ids s' \<and> view s' i' = m \<and> (i' = nd_EMPTY ops \<or> i' = i \<or> i' \<notin> ids s) \<and>
     (\<forall>j \<in> ids s. j \<noteq> i \<longrightarrow> j \<in> ids s' \<and> view s' j = view s j)"

definition node_laws ::
  "('i, 's) node_ops \<Rightarrow> ('s \<Rightarrow> 'i set) \<Rightarrow> ('s \<Rightarrow> 'i \<Rightarrow> ws_point \<Rightarrow> StoredAuthorisedEntry option) \<Rightarrow> bool" where
  "node_laws ops ids view \<longleftrightarrow>
     (\<forall>s. nd_EMPTY ops \<in> ids s \<and> view s (nd_EMPTY ops) = Map.empty) \<and>
     (\<forall>s i. i \<in> ids s \<longrightarrow> finite (dom (view s i))) \<and>
     (\<forall>s i q xs. i \<in> ids s \<longrightarrow> collect_results (nd_query ops i q s) = Ok xs \<longrightarrow>
        distinct (map fst xs) \<and> (\<forall>pt e. (pt, e) \<in> set xs \<longleftrightarrow> view s i pt = Some e \<and> in_query q pt)) \<and>
     (\<forall>s i pt e i' s'. i \<in> ids s \<longrightarrow> nd_insert ops i pt e s = Ok (i', s') \<longrightarrow>
        node_update ops ids view s i ((view s i)(pt \<mapsto> e)) i' s') \<and>
     (\<forall>s i pt i' s'. i \<in> ids s \<longrightarrow> nd_delete ops i pt s = Ok (i', s') \<longrightarrow>
        node_update ops ids view s i ((view s i)(pt := None)) i' s')"

record ('n, 'a, 'r, 's) EntryTables =
  tt_namespace_nodes :: 'n
  tt_auth_tokens :: 'a
  tt_auth_token_refcount :: 'r
  tt_node_store :: 's

record ('n, 'a, 'r, 's, 'i, 'cap, 'sg) tables_env =
  te_namespace_nodes :: "(NamespaceId, 'i, 'n) table_ops"
  te_auth_tokens :: "(bytes, 'cap, 'a) table_ops"
  te_auth_token_refcount :: "(bytes, u64, 'r) table_ops"
  te_node :: "('i, 's) node_ops"
  te_wdm :: wdm
  te_is_authorised_write :: "Entry \<Rightarrow> ('cap, 'sg) AuthorisationToken \<Rightarrow> bool"
  te_sig_to_bytes :: "'sg \<Rightarrow> bytes"
  te_sig_from_bytes :: "bytes \<Rightarrow> 'sg"
  te_subseq_successor :: "BlobSeq \<Rightarrow> BlobSeq option"
  te_immediate_successor :: "BlobSeq \<Rightarrow> BlobSeq"

subsection \<open>Authorisation tokens\<close>

definition add_entry_auth_token ::
  "('n, 'a, 'r, 's, 'i, 'cap, 'sg) tables_env \<Rightarrow> ('cap, 'sg) AuthorisationToken
   \<Rightarrow> (('n, 'a, 'r, 's, 'z) EntryTables_scheme, bytes) prog" where
  "add_entry_auth_token v token =
     (let cap_sig_bytes = te_sig_to_bytes v (user_sig (t_signature token)) in
      rbind (gets tt_auth_tokens) (\<lambda>a.
      rbind (try_anyhow (tb_insert (te_auth_tokens v) cap_sig_bytes (t_capability token) a)) (\<lambda>a'.
      rbind (modify (\<lambda>s. s\<lparr> tt_auth_tokens := a' \<rparr>)) (\<lambda>_.
      rbind (gets tt_auth_token_refcount) (\<lambda>r.
      rbind (try_anyhow (tb_get (te_auth_token_refcount v) cap_sig_bytes r)) (\<lambda>rc.
      rbind (checked (case rc of None \<Rightarrow> Some 1 | Some n \<Rightarrow> if n = - 1 then None else Some (n + 1))) (\<lambda>refcount.
      rbind (try_anyhow (tb_insert (te_auth_token_refcount v) cap_sig_bytes refcount r)) (\<lambda>r'.
      rbind (modify (\<lambda>s. s\<lparr> tt_auth_token_refcount := r' \<rparr>)) (\<lambda>_. ret cap_sig_bytes)))))))))"

definition get_entry_auth_token ::
  "('n, 'a, 'r, 's, 'i, 'cap, 'sg) tables_env \<Rightarrow> bytes \<Rightarrow> 'a \<Rightarrow> string + ('cap, 'sg) AuthorisationToken" where
  "get_entry_auth_token v key auth_tokens =
     res_bind (tb_get (te_auth_tokens v) key auth_tokens) (\<lambda>found.
     res_bind (ok_or ''couldn't find authorisation token id (database inconsistent)'' found) (\<lambda>capability.
       Ok \<lparr> t_capability = capability, t_signature = UserSignature (te_sig_from_bytes v key) \<rparr>))"

text \<open>A count above one is left as it is.\<close>

definition remove_entry_auth_token ::
  "('n, 'a, 'r, 's, 'i, 'cap, 'sg) tables_env \<Rightarrow> bytes
   \<Rightarrow> (('n, 'a, 'r, 's, 'z) EntryTables_scheme, ('cap, 'sg) AuthorisationToken option) prog" where
  "remove_entry_auth_token v key =
     rbind (gets tt_auth_token_refcount) (\<lambda>r.
     rbind (try_anyhow (tb_get (te_auth_token_refcount v) key r)) (\<lambda>found.
     case found of
       None \<Rightarrow> ret None
     | Some refcount \<Rightarrow>
         rbind (checked (if refcount = 0 then None else Some (refcount - 1))) (\<lambda>new_refcount.
         if new_refcount = 0
         then
           rbind (gets tt_auth_tokens) (\<lambda>a.
           rbind (try_anyhow (tb_remove (te_auth_tokens v) key a)) (\<lambda>(removed, a').
           rbind (modify (\<lambda>s. s\<lparr> tt_auth_tokens := a' \<rparr>)) (\<lambda>_.
           rbind (try_anyhow (ok_or ''inconsistent database state'' removed)) (\<lambda>capability.
           rbind (try_anyhow (tb_remove (te_auth_token_refcount v) key r)) (\<lambda>(_, r').
           rbind (modify (\<lambda>s. s\<lparr> tt_auth_token_refcount := r' \<rparr>)) (\<lambda>_.
           ret (Some \<lparr> t_capability = capability, t_signature = UserSignature (te_sig_from_bytes v key) \<rparr>)))))))
         else ret None)))"

subsection \<open>Ingestion\<close>

record ('t, 'cap, 'sg) ingesting =
  it_tables :: 't
  it_events :: "('cap, 'sg) StoreEvent EventQueue"

definition on_tables :: "('t, 'b) prog \<Rightarrow> (('t, 'cap, 'sg) ingesting, 'b) prog"
  where "on_tables f = (\<lambda>s. case f (it_tables s) of (r, t) \<Rightarrow> (r, s\<lparr> it_tables := t \<rparr>))"

definition insert_event :: "(u64 \<Rightarrow> ('cap, 'sg) StoreEvent) \<Rightarrow> (('t, 'cap, 'sg) ingesting, unit) prog"
  where "insert_event f = modify (\<lambda>s. s\<lparr> it_events := snd (eq_insert f (it_events s)) \<rparr>)"

definition overwritten_range ::
  "('n, 'a, 'r, 's, 'i, 'cap, 'sg) tables_env \<Rightarrow> Entry \<Rightarrow> QueryRange3d" where
  "overwritten_range v e =
     (let blobseq_start = path_to_blobseq (e_path e);
          blobseq_end = te_subseq_successor v blobseq_start
      in \<lparr> q_x = \<lparr> q_min = e_subspace_id e, q_max = user_successor (e_subspace_id e) \<rparr>,
           q_y = \<lparr> q_min = st_new 0, q_max = Some (st_new (e_timestamp e)) \<rparr>,
           q_z = \<lparr> q_min = blobseq_start, q_max = blobseq_end \<rparr> \<rparr>)"

definition node_delete ::
  "('n, 'a, 'r, 's, 'i, 'cap, 'sg) tables_env \<Rightarrow> 'i \<Rightarrow> ws_point \<Rightarrow> (('n, 'a, 'r, 's, 'z) EntryTables_scheme, 'i) prog" where
  "node_delete v ns_node pos =
     rbind (gets tt_node_store) (\<lambda>st.
     rbind (try_anyhow (nd_delete (te_node v) ns_node pos st)) (\<lambda>(ns_node', st').
     rbind (modify (\<lambda>s. s\<lparr> tt_node_store := st' \<rparr>)) (\<lambda>_. ret ns_node')))"

definition node_insert ::
  "('n, 'a, 'r, 's, 'i, 'cap, 'sg) tables_env \<Rightarrow> 'i \<Rightarrow> ws_point \<Rightarrow> StoredAuthorisedEntry \<Rightarrow> (('n, 'a, 'r, 's, 'z) EntryTables_scheme, 'i) prog" where
  "node_insert v ns_node pos stored =
     rbind (gets tt_node_store) (\<lambda>st.
     rbind (try_anyhow (nd_insert (te_node v) ns_node pos stored st)) (\<lambda>(ns_node', st').
     rbind (modify (\<lambda>s. s\<lparr> tt_node_store := st' \<rparr>)) (\<lambda>_. ret ns_node')))"

fun prune_candidates_loop ::
  "('n, 'a, 'r, 's, 'i, 'cap, 'sg) tables_env \<Rightarrow> ('cap, 'sg) AuthorisedEntry \<Rightarrow> (ws_point \<times> StoredAuthorisedEntry) list \<Rightarrow> 'i
   \<Rightarrow> ((('n, 'a, 'r, 's, 'z) EntryTables_scheme, 'cap, 'sg) ingesting, 'i) prog" where
  "prune_candidates_loop v entry [] ns_node = ret ns_node"
| "prune_candidates_loop v entry ((prune_pos, prune_candidate) # cs) ns_node =
     (let pruned_token_id = authorisation_token_id prune_candidate in
      rbind (gets (\<lambda>s. tt_auth_tokens (it_tables s))) (\<lambda>a.
      rbind (try_anyhow (get_entry_auth_token v pruned_token_id a)) (\<lambda>auth_token.
      rbind (try_anyhow (into_authorised_entry (te_wdm v) (te_is_authorised_write v) prune_candidate
               (e_namespace_id (ae_entry entry)) prune_pos auth_token)) (\<lambda>pruned.
      if w_is_newer_than (te_wdm v) (ae_entry entry) (ae_entry pruned)
      then
        rbind (on_tables (node_delete v ns_node prune_pos)) (\<lambda>ns_node'.
        rbind (insert_event (\<lambda>i. Pruned i \<lparr> pe_pruned = pruned, pe_by = entry \<rparr>)) (\<lambda>_.
        rbind (on_tables (remove_entry_auth_token v pruned_token_id)) (\<lambda>_.
        prune_candidates_loop v entry cs ns_node')))
      else prune_candidates_loop v entry cs ns_node))))"

text \<open>The token and the entry are inserted into the node of the namespace.\<close>

definition ingest_insert ::
  "('n, 'a, 'r, 's, 'i, 'cap, 'sg) tables_env \<Rightarrow> ('cap, 'sg) AuthorisedEntry \<Rightarrow> EntryOrigin \<Rightarrow> 'i
   \<Rightarrow> ((('n, 'a, 'r, 's, 'z) EntryTables_scheme, 'cap, 'sg) ingesting, unit) prog" where
  "ingest_insert v entry origin ns_node =
     (let namespace = e_namespace_id (ae_entry entry);
          (insert_point, insert_entry) = from_authorised_entry (te_sig_to_bytes v) entry in
      rbind (on_tables (add_entry_auth_token v (ae_token entry))) (\<lambda>_.
      rbind (on_tables (node_insert v ns_node insert_point insert_entry)) (\<lambda>ns_node'.
      rbind (insert_event (\<lambda>i. Ingested i entry origin)) (\<lambda>_.
      on_tables (rbind (gets tt_namespace_nodes) (\<lambda>n.
        rbind (try_anyhow (tb_insert (te_namespace_nodes v) namespace ns_node' n)) (\<lambda>n'.
        modify (\<lambda>s. s\<lparr> tt_namespace_nodes := n' \<rparr>))))))))"

text \<open>The closure that \<open>ingest_entry\<close> passes to \<open>modify\<close>.\<close>

definition ingest_tables ::
  "('n, 'a, 'r, 's, 'i, 'cap, 'sg) tables_env \<Rightarrow> ('cap, 'sg) AuthorisedEntry \<Rightarrow> EntryOrigin
   \<Rightarrow> ((('n, 'a, 'r, 's, 'z) EntryTables_scheme, 'cap, 'sg) ingesting, unit) prog" where
  "ingest_tables v entry origin =
     (let namespace = e_namespace_id (ae_entry entry) in
      rbind (gets it_tables) (\<lambda>t.
      rbind (try_anyhow (tb_get (te_namespace_nodes v) namespace (tt_namespace_nodes t))) (\<lambda>found.
      let ns_node = (case found of None \<Rightarrow> nd_EMPTY (te_node v) | Some i \<Rightarrow> i) in
      rbind (try_anyhow (collect_results (nd_query (te_node v) ns_node (overwritten_range v (ae_entry entry)) (tt_node_store t))))
        (\<lambda>prune_candidates.
      rbind (prune_candidates_loop v entry prune_candidates ns_node) (\<lambda>ns_node'.
      ingest_insert v entry origin ns_node')))))"

record ('d, 't, 'cap, 'sg) WillowStore =
  ws_db :: "('d, 't) Db"
  ws_namespace_events :: "(NamespaceId, ('cap, 'sg) StoreEvent EventQueue) hash_map"

definition willow_store_new :: "'d \<Rightarrow> ('d, 't, 'cap, 'sg) WillowStore"
  where "willow_store_new d = \<lparr> ws_db = db_new d, ws_namespace_events = [] \<rparr>"

text \<open>\<open>new_impl\<close>: a first transaction creates the tables.\<close>

definition new_impl :: "('d, 't) redb \<Rightarrow> 'd \<Rightarrow> string + ('d, 't, 'cap, 'sg) WillowStore" where
  "new_impl b d =
     res_bind (rd_begin_write b d) (\<lambda>write_tx.
     res_bind (rd_commit b write_tx d) (\<lambda>d'. Ok (willow_store_new d')))"

definition on_db :: "(('d, 't) Db, 'b) prog \<Rightarrow> (('d, 't, 'cap, 'sg) WillowStore, 'b) prog"
  where "on_db f = (\<lambda>s. case f (ws_db s) of (r, db) \<Rightarrow> (r, s\<lparr> ws_db := db \<rparr>))"

text \<open>\<open>namespace_events.entry(namespace).or_default()\<close>\<close>

definition ws_events :: "NamespaceId \<Rightarrow> ('d, 't, 'cap, 'sg) WillowStore \<Rightarrow> ('cap, 'sg) StoreEvent EventQueue" where
  "ws_events ns s = (case map_of (ws_namespace_events s) ns of Some q \<Rightarrow> q | None \<Rightarrow> eq_default)"

definition set_ws_events ::
  "NamespaceId \<Rightarrow> ('cap, 'sg) StoreEvent EventQueue \<Rightarrow> ('d, 't, 'cap, 'sg) WillowStore \<Rightarrow> ('d, 't, 'cap, 'sg) WillowStore"
  where "set_ws_events ns q s = s\<lparr> ws_namespace_events := hm_insert ns q (ws_namespace_events s) \<rparr>"

definition pers_ingest_entry ::
  "('d, ('n, 'a, 'r, 's, 'z) EntryTables_scheme) redb \<Rightarrow> ('n, 'a, 'r, 's, 'i, 'cap, 'sg) tables_env \<Rightarrow> nat \<Rightarrow> ('cap, 'sg) AuthorisedEntry
   \<Rightarrow> EntryOrigin \<Rightarrow> (('d, ('n, 'a, 'r, 's, 'z) EntryTables_scheme, 'cap, 'sg) WillowStore, bool) prog" where
  "pers_ingest_entry b v now entry origin =
     (let namespace = e_namespace_id (ae_entry entry) in
      rbind (gets (ws_events namespace)) (\<lambda>q.
      rbind (modify (set_ws_events namespace q)) (\<lambda>_.
      rbind (on_db (db_tables b now)) (\<lambda>w.
      rbind (\<lambda>s. case ingest_tables v entry origin \<lparr> it_tables = ow_tables w, it_events = q \<rparr> of
          (r, st) \<Rightarrow> (r, set_ws_events namespace (it_events st)
             (s\<lparr> ws_db := (ws_db s)\<lparr> db_tx := CT_Write (w\<lparr> ow_tables := it_tables st \<rparr>) \<rparr> \<rparr>))) (\<lambda>_.
      ret True)))))"

definition pers_subscribe_area ::
  "NamespaceId \<Rightarrow> Area \<Rightarrow> SubscribeParams \<Rightarrow> ('d, 't, 'cap, 'sg) WillowStore \<Rightarrow> EventStream \<times> ('d, 't, 'cap, 'sg) WillowStore" where
  "pers_subscribe_area namespace area params s =
     (let q = ws_events namespace s
      in (\<lparr> es_progress_id = eq_next_progress_id q, es_namespace = namespace, es_area = area, es_params = params \<rparr>,
          set_ws_events namespace q s))"

definition pers_resume_subscription :: "u64 \<Rightarrow> NamespaceId \<Rightarrow> Area \<Rightarrow> SubscribeParams \<Rightarrow> EventStream" where
  "pers_resume_subscription progress_id namespace area params =
     \<lparr> es_progress_id = progress_id, es_namespace = namespace, es_area = area, es_params = params \<rparr>"

definition pers_stream_poll_next ::
  "wdm \<Rightarrow> waker \<Rightarrow> ('d, 't, 'cap, 'sg) WillowStore option \<Rightarrow> EventStream
   \<Rightarrow> (('cap, 'sg) StoreEvent option poll \<times> ('d, 't, 'cap, 'sg) WillowStore option \<times> EventStream) option" where
  "pers_stream_poll_next w cx store self =
     (case store of
        None \<Rightarrow> Some (Ready None, None, self)
      | Some s \<Rightarrow>
          (case eq_poll_next (ws_events (es_namespace self) s) (es_progress_id self)
               (event_matches w (es_namespace self) (es_area self) (es_params self)) cx of
             None \<Rightarrow> None
           | Some (res, q) \<Rightarrow>
               (let s' = Some (set_ws_events (es_namespace self) q s)
                in case res of
                     Pending \<Rightarrow> Some (Pending, s', self)
                   | Ready None \<Rightarrow> Some (Ready None, s', self)
                   | Ready (Some (next_id, event)) \<Rightarrow> Some (Ready (Some event), s', self\<lparr> es_progress_id := next_id \<rparr>))))"

subsection \<open>Reading a snapshot\<close>

definition snap_fingerprint ::
  "('n, 'a, 'r, 's, 'i, 'cap, 'sg) tables_env \<Rightarrow> ('n, 'a, 'r, 's, 'z) EntryTables_scheme \<Rightarrow> NamespaceId \<Rightarrow> Range3d \<Rightarrow> string + Fingerprint" where
  "snap_fingerprint v read namespace rg =
     res_bind (tb_get (te_namespace_nodes v) namespace (tt_namespace_nodes read)) (\<lambda>node_id.
       case node_id of
         None \<Rightarrow> Ok fp_default
       | Some ns_node \<Rightarrow> nd_range_summary (te_node v) ns_node (to_query rg) (tt_node_store read))"

definition snap_count ::
  "('n, 'a, 'r, 's, 'i, 'cap, 'sg) tables_env \<Rightarrow> ('n, 'a, 'r, 's, 'z) EntryTables_scheme \<Rightarrow> NamespaceId \<Rightarrow> Range3d \<Rightarrow> string + u64" where
  "snap_count v read namespace rg =
     res_bind (tb_get (te_namespace_nodes v) namespace (tt_namespace_nodes read)) (\<lambda>node_id.
       case node_id of
         None \<Rightarrow> Ok 0
       | Some ns_node \<Rightarrow> nd_range_count (te_node v) ns_node (to_query rg) (tt_node_store read))"

text \<open>\<open>split_range_owned\<close>: the outer \<open>None\<close> is the panic of \<open>expect\<close>.\<close>

definition snap_split_range ::
  "('n, 'a, 'r, 's, 'i, 'cap, 'sg) tables_env \<Rightarrow> ('n, 'a, 'r, 's, 'z) EntryTables_scheme \<Rightarrow> NamespaceId \<Rightarrow> Range3d \<Rightarrow> SplitOpts
   \<Rightarrow> (string + (string + RangeSplit) list) option" where
  "snap_split_range v read namespace rg config =
     (let max_size = of_nat (max_set_size config) :: u64; factor = of_nat (split_factor config) :: u64 in
      case snap_count v read namespace rg of
        Inl err \<Rightarrow> Some (Err err)
      | Inr cnt \<Rightarrow>
          if cnt \<le> max_size then Some (Ok [Ok (rg, SplitSendEntries cnt)])
          else
            (case tb_get (te_namespace_nodes v) namespace (tt_namespace_nodes read) of
               Inl err \<Rightarrow> Some (Err err)
             | Inr None \<Rightarrow> None
             | Inr (Some ns_node) \<Rightarrow>
                 Some (Ok (map (\<lambda>result.
                   res_bind result (\<lambda>(query, n).
                     if n \<le> max_size
                     then res_bind (to_range3d (te_wdm v) query) (\<lambda>rg'. Ok (rg', SplitSendEntries n))
                     else
                       res_bind (nd_range_summary (te_node v) ns_node query (tt_node_store read)) (\<lambda>fingerprint.
                       res_bind (to_range3d (te_wdm v) query) (\<lambda>rg'. Ok (rg', SplitSendFingerprint fingerprint)))))
                   (nd_split_range (te_node v) ns_node (to_query rg) factor (tt_node_store read))))))"

definition snap_authorised ::
  "('n, 'a, 'r, 's, 'i, 'cap, 'sg) tables_env \<Rightarrow> ('n, 'a, 'r, 's, 'z) EntryTables_scheme \<Rightarrow> NamespaceId
   \<Rightarrow> ws_point \<times> StoredAuthorisedEntry \<Rightarrow> string + ('cap, 'sg) AuthorisedEntry" where
  "snap_authorised v read namespace item =
     (case item of (point, stored_entry) \<Rightarrow>
        res_bind (get_entry_auth_token v (authorisation_token_id stored_entry) (tt_auth_tokens read)) (\<lambda>auth_token.
          into_authorised_entry (te_wdm v) (te_is_authorised_write v) stored_entry namespace point auth_token))"

definition snap_get_authorised_entries ::
  "('n, 'a, 'r, 's, 'i, 'cap, 'sg) tables_env \<Rightarrow> ('n, 'a, 'r, 's, 'z) EntryTables_scheme \<Rightarrow> ('cap, 'sg) get_authorised" where
  "snap_get_authorised_entries v read namespace rg =
     res_bind (tb_get (te_namespace_nodes v) namespace (tt_namespace_nodes read)) (\<lambda>node_id.
       case node_id of
         None \<Rightarrow> Ok []
       | Some ns_node \<Rightarrow>
           Ok (map (\<lambda>result. res_bind result (snap_authorised v read namespace))
             (nd_query (te_node v) ns_node (to_query rg) (tt_node_store read))))"

definition snap_get_entry ::
  "('n, 'a, 'r, 's, 'i, 'cap, 'sg) tables_env \<Rightarrow> ('n, 'a, 'r, 's, 'z) EntryTables_scheme \<Rightarrow> NamespaceId \<Rightarrow> SubspaceId \<Rightarrow> path
   \<Rightarrow> string + ('cap, 'sg) AuthorisedEntry option" where
  "snap_get_entry v read namespace subspace path =
     res_bind (tb_get (te_namespace_nodes v) namespace (tt_namespace_nodes read)) (\<lambda>node_id.
       case node_id of
         None \<Rightarrow> Ok None
       | Some ns_node \<Rightarrow>
           (let blobseq = path_to_blobseq path;
                q = \<lparr> q_x = \<lparr> q_min = subspace, q_max = user_successor subspace \<rparr>,
                      q_y = \<lparr> q_min = st_min_value, q_max = None \<rparr>,
                      q_z = \<lparr> q_min = blobseq, q_max = Some (te_immediate_successor v blobseq) \<rparr> \<rparr>
            in case rev (nd_query_ordered_yzx (te_node v) ns_node q (tt_node_store read)) of
                 [] \<Rightarrow> Ok None
               | result # _ \<Rightarrow>
                   res_bind result (\<lambda>item.
                   res_bind (snap_authorised v read namespace item) (\<lambda>e. Ok (Some e)))))"

text \<open>\<open>EntryReader\<close> for the store itself: every method reads a new snapshot.\<close>

definition pers_read ::
  "('d, 't) redb \<Rightarrow> ('t \<Rightarrow> string + 'x) \<Rightarrow> (('d, 't, 'cap, 'sg) WillowStore, 'x) prog"
  where "pers_read b f = rbind (on_db (db_snapshot_owned b)) (\<lambda>t. try_anyhow (f t))"

definition pers_fingerprint ::
  "('d, ('n, 'a, 'r, 's, 'z) EntryTables_scheme) redb \<Rightarrow> ('n, 'a, 'r, 's, 'i, 'cap, 'sg) tables_env \<Rightarrow> NamespaceId \<Rightarrow> Range3d
   \<Rightarrow> (('d, ('n, 'a, 'r, 's, 'z) EntryTables_scheme, 'cap, 'sg) WillowStore, Fingerprint) prog" where
  "pers_fingerprint b v namespace rg = pers_read b (\<lambda>t. snap_fingerprint v t namespace rg)"

definition pers_count ::
  "('d, ('n, 'a, 'r, 's, 'z) EntryTables_scheme) redb \<Rightarrow> ('n, 'a, 'r, 's, 'i, 'cap, 'sg) tables_env \<Rightarrow> NamespaceId \<Rightarrow> Range3d
   \<Rightarrow> (('d, ('n, 'a, 'r, 's, 'z) EntryTables_scheme, 'cap, 'sg) WillowStore, u64) prog" where
  "pers_count b v namespace rg = pers_read b (\<lambda>t. snap_count v t namespace rg)"

definition pers_split_range ::
  "('d, ('n, 'a, 'r, 's, 'z) EntryTables_scheme) redb \<Rightarrow> ('n, 'a, 'r, 's, 'i, 'cap, 'sg) tables_env \<Rightarrow> NamespaceId \<Rightarrow> Range3d \<Rightarrow> SplitOpts
   \<Rightarrow> (('d, ('n, 'a, 'r, 's, 'z) EntryTables_scheme, 'cap, 'sg) WillowStore, (string + RangeSplit) list) prog" where
  "pers_split_range b v namespace rg config = 
     rbind (on_db (db_snapshot_owned b)) (\<lambda>t.
     rbind (unwrap (snap_split_range v t namespace rg config)) try_anyhow)"

definition pers_get_entry ::
  "('d, ('n, 'a, 'r, 's, 'z) EntryTables_scheme) redb \<Rightarrow> ('n, 'a, 'r, 's, 'i, 'cap, 'sg) tables_env \<Rightarrow> NamespaceId \<Rightarrow> SubspaceId \<Rightarrow> path
   \<Rightarrow> (('d, ('n, 'a, 'r, 's, 'z) EntryTables_scheme, 'cap, 'sg) WillowStore, ('cap, 'sg) AuthorisedEntry option) prog" where
  "pers_get_entry b v namespace subspace path = pers_read b (\<lambda>t. snap_get_entry v t namespace subspace path)"

definition pers_get_authorised_entries ::
  "('d, ('n, 'a, 'r, 's, 'z) EntryTables_scheme) redb \<Rightarrow> ('n, 'a, 'r, 's, 'i, 'cap, 'sg) tables_env \<Rightarrow> NamespaceId \<Rightarrow> Range3d
   \<Rightarrow> (('d, ('n, 'a, 'r, 's, 'z) EntryTables_scheme, 'cap, 'sg) WillowStore, (string + ('cap, 'sg) AuthorisedEntry) list) prog" where
  "pers_get_authorised_entries b v namespace rg = pers_read b (\<lambda>t. snap_get_authorised_entries v t namespace rg)"

section \<open>What the tables hold\<close>

text \<open>What the tables and nodes mean.\<close>

record ('n, 'a, 'r, 's, 'i, 'cap) db_views =
  dv_nodes :: "'n \<Rightarrow> NamespaceId \<Rightarrow> 'i option"
  dv_tokens :: "'a \<Rightarrow> bytes \<Rightarrow> 'cap option"
  dv_counts :: "'r \<Rightarrow> bytes \<Rightarrow> u64 option"
  dv_ids :: "'s \<Rightarrow> 'i set"
  dv_node :: "'s \<Rightarrow> 'i \<Rightarrow> ws_point \<Rightarrow> StoredAuthorisedEntry option"

definition tables_laws ::
  "('n, 'a, 'r, 's, 'i, 'cap, 'sg) tables_env \<Rightarrow> ('n, 'a, 'r, 's, 'i, 'cap) db_views \<Rightarrow> bool" where
  "tables_laws v d \<longleftrightarrow>
     table_laws (te_namespace_nodes v) (dv_nodes d) \<and> table_laws (te_auth_tokens v) (dv_tokens d) \<and>
     table_laws (te_auth_token_refcount v) (dv_counts d) \<and> node_laws (te_node v) (dv_ids d) (dv_node d)"

text \<open>The entries of every namespace, for a map from namespaces to nodes.\<close>

definition stored_in ::
  "('s \<Rightarrow> 'i \<Rightarrow> ws_point \<Rightarrow> StoredAuthorisedEntry option) \<Rightarrow> (NamespaceId \<Rightarrow> 'i option) \<Rightarrow> 's
   \<Rightarrow> NamespaceId \<Rightarrow> ws_point \<Rightarrow> StoredAuthorisedEntry option" where
  "stored_in view N st ns = (case N ns of None \<Rightarrow> Map.empty | Some i \<Rightarrow> view st i)"

definition nodes_ok :: "'i \<Rightarrow> ('s \<Rightarrow> 'i set) \<Rightarrow> (NamespaceId \<Rightarrow> 'i option) \<Rightarrow> 's \<Rightarrow> bool" where
  "nodes_ok EMPTY ids N st \<longleftrightarrow>
     finite (dom N) \<and> (\<forall>ns i. N ns = Some i \<longrightarrow> i \<in> ids st) \<and>
     (\<forall>ns ns' i. N ns = Some i \<longrightarrow> N ns' = Some i \<longrightarrow> ns = ns' \<or> i = EMPTY)"

lemma node_lawsD:
  assumes "node_laws ops ids view"
  shows "nd_EMPTY ops \<in> ids s" "view s (nd_EMPTY ops) = Map.empty"
    and "i \<in> ids s \<Longrightarrow> finite (dom (view s i))"
    and "i \<in> ids s \<Longrightarrow> collect_results (nd_query ops i q s) = Ok xs \<Longrightarrow> distinct (map fst xs)"
    and "i \<in> ids s \<Longrightarrow> collect_results (nd_query ops i q s) = Ok xs \<Longrightarrow> (pt, e) \<in> set xs \<longleftrightarrow> view s i pt = Some e \<and> in_query q pt"
    and "i \<in> ids s \<Longrightarrow> nd_insert ops i pt e s = Ok (i', s') \<Longrightarrow> node_update ops ids view s i ((view s i)(pt \<mapsto> e)) i' s'"
    and "i \<in> ids s \<Longrightarrow> nd_delete ops i pt s = Ok (i', s') \<Longrightarrow> node_update ops ids view s i ((view s i)(pt := None)) i' s'"
  using assms unfolding node_laws_def by blast+

lemma node_step:
  assumes laws: "node_laws ops ids view" and ok: "nodes_ok (nd_EMPTY ops) ids N st" and i: "N ns = Some i"
    and up: "node_update ops ids view st i m i' st'"
  shows "nodes_ok (nd_EMPTY ops) ids (N(ns \<mapsto> i')) st' \<and> stored_in view (N(ns \<mapsto> i')) st' = (stored_in view N st)(ns := m)"
proof -
  have keep: "j \<in> ids st' \<and> view st' j = view st j" if "N ns2 = Some j" "ns2 \<noteq> ns" for ns2 j
  proof (cases "j = i")
    case True
    then have "j = nd_EMPTY ops" using ok i that unfolding nodes_ok_def by blast
    then show ?thesis using node_lawsD(1,2) [OF laws] by simp
  next
    case False
    then show ?thesis using ok up that by (auto simp: nodes_ok_def node_update_def)
  qed
  have new: "i' = nd_EMPTY ops" if "N ns2 = Some i'" "ns2 \<noteq> ns" for ns2
    using up ok i that unfolding nodes_ok_def node_update_def by blast
  have "nodes_ok (nd_EMPTY ops) ids (N(ns \<mapsto> i')) st'"
    unfolding nodes_ok_def
  proof (intro conjI allI impI)
    show "finite (dom (N(ns \<mapsto> i')))" using ok by (simp add: nodes_ok_def)
  next
    fix ns2 j assume "(N(ns \<mapsto> i')) ns2 = Some j"
    then show "j \<in> ids st'" using keep [of ns2 j] up by (auto simp: node_update_def split: if_splits)
  next
    fix ns2 ns3 j assume "(N(ns \<mapsto> i')) ns2 = Some j" "(N(ns \<mapsto> i')) ns3 = Some j"
    then show "ns2 = ns3 \<or> j = nd_EMPTY ops"
      using new ok by (auto simp: nodes_ok_def split: if_splits)
  qed
  moreover have "stored_in view (N(ns \<mapsto> i')) st' = (stored_in view N st)(ns := m)"
    using up keep by (auto simp: stored_in_def node_update_def fun_eq_iff split: option.splits)
  ultimately show ?thesis by simp
qed

text \<open>
  The uses of a token.  Every token in use is present, and its count is at least the number of entries that
  use it.
\<close>

definition token_uses ::
  "(NamespaceId \<Rightarrow> ws_point \<Rightarrow> StoredAuthorisedEntry option) \<Rightarrow> bytes \<Rightarrow> (NamespaceId \<times> ws_point) set" where
  "token_uses E k = {(ns, pt). \<exists>c. E ns pt = Some c \<and> authorisation_token_id c = k}"

definition tokens_ok ::
  "(NamespaceId \<Rightarrow> ws_point \<Rightarrow> StoredAuthorisedEntry option) \<Rightarrow> (bytes \<Rightarrow> 'cap option) \<Rightarrow> (bytes \<Rightarrow> u64 option) \<Rightarrow> bool" where
  "tokens_ok E tokens counts \<longleftrightarrow>
     (\<forall>k. finite (token_uses E k)) \<and>
     (\<forall>k. card (token_uses E k) \<le> (case counts k of None \<Rightarrow> 0 | Some n \<Rightarrow> unat n)) \<and>
     (\<forall>k. counts k \<noteq> None \<longrightarrow> tokens k \<noteq> None)"

lemma tokens_okD:
  assumes "tokens_ok E tokens counts" "E ns pt = Some c"
  shows "\<exists>n. counts (authorisation_token_id c) = Some n \<and> 0 < unat n" "tokens (authorisation_token_id c) \<noteq> None"
proof -
  let ?k = "authorisation_token_id c"
  have "(ns, pt) \<in> token_uses E ?k" using assms(2) by (simp add: token_uses_def)
  then have "0 < card (token_uses E ?k)" using assms(1) by (auto simp: tokens_ok_def card_gt_0_iff)
  moreover have "card (token_uses E ?k) \<le> (case counts ?k of None \<Rightarrow> 0 | Some n \<Rightarrow> unat n)"
    using assms(1) by (simp add: tokens_ok_def)
  ultimately have "0 < (case counts ?k of None \<Rightarrow> 0 | Some n \<Rightarrow> unat n)" by linarith
  then show n: "\<exists>n. counts ?k = Some n \<and> 0 < unat n" by (auto split: option.splits)
  then show "tokens ?k \<noteq> None" using assms(1) by (auto simp: tokens_ok_def)
qed

lemma tokens_ok_delete:
  assumes ok: "tokens_ok E tokens counts" and c: "E ns pt = Some c"
    and n: "counts (authorisation_token_id c) = Some n"
  shows "tokens_ok (E(ns := (E ns)(pt := None)))
      (if n - 1 = 0 then tokens(authorisation_token_id c := None) else tokens)
      (if n - 1 = 0 then counts(authorisation_token_id c := None) else counts)"
proof -
  let ?E = "E(ns := (E ns)(pt := None))" and ?k = "authorisation_token_id c"
  have uses: "token_uses ?E k = token_uses E k - {(ns, pt)}" for k
    by (auto simp: token_uses_def split: if_splits)
  have fin: "finite (token_uses E k)" for k using ok by (simp add: tokens_ok_def)
  have bound: "card (token_uses E k) \<le> (case counts k of None \<Rightarrow> 0 | Some n \<Rightarrow> unat n)" for k
    using ok by (simp add: tokens_ok_def)
  have le: "card (token_uses ?E k) \<le> card (token_uses E k)" for k
    unfolding uses using fin by (simp add: card_Diff1_le)
  have none: "token_uses ?E ?k = {}" if "n - 1 = 0"
  proof -
    have "card (token_uses E ?k) \<le> 1" using bound [of ?k] n that by simp
    then have one: "\<forall>p \<in> token_uses E ?k. \<forall>q \<in> token_uses E ?k. p = q"
      using card_le_Suc0_iff_eq [OF fin, of ?k] by simp
    have "(ns, pt) \<in> token_uses E ?k" using c by (simp add: token_uses_def)
    then have "p = (ns, pt)" if "p \<in> token_uses E ?k" for p
      using one that by blast
    then show ?thesis unfolding uses by blast
  qed
  show ?thesis
    unfolding tokens_ok_def
  proof (intro conjI allI impI)
    fix k
    show "finite (token_uses ?E k)" unfolding uses using fin by simp
    show "card (token_uses ?E k) \<le> (case (if n - 1 = 0 then counts(?k := None) else counts) k of None \<Rightarrow> 0 | Some n \<Rightarrow> unat n)"
      using order_trans [OF le bound, of k] none by (cases "n - 1 = 0 \<and> k = ?k") auto
    assume "(if n - 1 = 0 then counts(?k := None) else counts) k \<noteq> None"
    then show "(if n - 1 = 0 then tokens(?k := None) else tokens) k \<noteq> None"
      using ok by (auto simp: tokens_ok_def split: if_splits)
  qed
qed

lemma tokens_ok_insert:
  assumes ok: "tokens_ok E tokens counts" and k: "authorisation_token_id c = k"
    and n: "n = (case counts k of None \<Rightarrow> 1 | Some m \<Rightarrow> m + 1)" "counts k \<noteq> Some (- 1)"
  shows "tokens_ok (E(ns := (E ns)(pt \<mapsto> c))) (tokens(k \<mapsto> cap)) (counts(k \<mapsto> n))"
proof -
  let ?E = "E(ns := (E ns)(pt \<mapsto> c))"
  have fin: "finite (token_uses E j)" for j using ok by (simp add: tokens_ok_def)
  have bound: "card (token_uses E j) \<le> (case counts j of None \<Rightarrow> 0 | Some n \<Rightarrow> unat n)" for j
    using ok by (simp add: tokens_ok_def)
  have own: "token_uses ?E k = insert (ns, pt) (token_uses E k)"
    using k by (auto simp: token_uses_def split: if_splits)
  have other: "token_uses ?E j \<subseteq> token_uses E j" if "j \<noteq> k" for j
    using k that by (auto simp: token_uses_def split: if_splits)
  have "unat n = (case counts k of None \<Rightarrow> 1 | Some m \<Rightarrow> unat m + 1)"
    using n by (auto simp: unatSuc [symmetric] add.commute split: option.splits)
      (metis add.commute add_eq_0_iff2 unatSuc Suc_eq_plus1)
  then have "card (token_uses ?E k) \<le> unat n"
    unfolding own using bound [of k] card_insert_le_m1 fin
    by (auto simp: card_insert_if split: option.splits if_splits)
  moreover have "card (token_uses ?E j) \<le> (case counts j of None \<Rightarrow> 0 | Some n \<Rightarrow> unat n)" if "j \<noteq> k" for j
    using bound [of j] card_mono [OF fin other [OF that]] by linarith
  moreover have "finite (token_uses ?E j)" for j
    using fin own finite_subset [OF other fin] by (cases "j = k") auto
  ultimately show ?thesis
    using ok by (auto simp: tokens_ok_def)
qed

section \<open>Ingestion, by what the tables hold\<close>

abbreviation table_nodes ::
  "('n, 'a, 'r, 's, 'i, 'cap) db_views \<Rightarrow> ('n, 'a, 'r, 's, 'z) EntryTables_scheme \<Rightarrow> NamespaceId \<Rightarrow> 'i option"
  where "table_nodes d t \<equiv> dv_nodes d (tt_namespace_nodes t)"

abbreviation stored ::
  "('n, 'a, 'r, 's, 'i, 'cap) db_views \<Rightarrow> (NamespaceId \<Rightarrow> 'i option) \<Rightarrow> ('n, 'a, 'r, 's, 'z) EntryTables_scheme
   \<Rightarrow> NamespaceId \<Rightarrow> ws_point \<Rightarrow> StoredAuthorisedEntry option"
  where "stored d N t \<equiv> stored_in (dv_node d) N (tt_node_store t)"

definition tables_ok ::
  "('n, 'a, 'r, 's, 'i, 'cap, 'sg) tables_env \<Rightarrow> ('n, 'a, 'r, 's, 'i, 'cap) db_views \<Rightarrow> (NamespaceId \<Rightarrow> 'i option)
   \<Rightarrow> ('n, 'a, 'r, 's, 'z) EntryTables_scheme \<Rightarrow> bool" where
  "tables_ok v d N t \<longleftrightarrow>
     nodes_ok (nd_EMPTY (te_node v)) (dv_ids d) N (tt_node_store t) \<and>
     tokens_ok (stored d N t) (dv_tokens d (tt_auth_tokens t)) (dv_counts d (tt_auth_token_refcount t))"

abbreviation any_error :: "Error \<Rightarrow> bool"
  where "any_error \<equiv> \<lambda>_. True"

lemma wp_on_tables [wp_simps]: "wp ok (on_tables f) Q s \<longleftrightarrow> wp ok f (\<lambda>a t. Q a (s\<lparr> it_tables := t \<rparr>)) (it_tables s)"
  by (auto simp: wp_def on_tables_def split: prod.splits outcome.splits)

lemma wp_insert_event [wp_simps]:
  "wp ok (insert_event f) Q s \<longleftrightarrow> Q () (s\<lparr> it_events := snd (eq_insert f (it_events s)) \<rparr>)"
  by (simp add: insert_event_def wp_simps)

lemma table_lawsD:
  assumes "table_laws ops view"
  shows "tb_get ops k t = Ok x \<Longrightarrow> x = view t k" "tb_insert ops k y t = Ok t' \<Longrightarrow> view t' = (view t)(k \<mapsto> y)"
    and "tb_remove ops k t = Ok (z, t') \<Longrightarrow> z = view t k" "tb_remove ops k t = Ok (z, t') \<Longrightarrow> view t' = (view t)(k := None)"
    and "finite (dom (view t))"
  using assms unfolding table_laws_def by blast+

lemma tables_lawsD:
  assumes "tables_laws v d"
  shows "table_laws (te_namespace_nodes v) (dv_nodes d)" "table_laws (te_auth_tokens v) (dv_tokens d)"
    and "table_laws (te_auth_token_refcount v) (dv_counts d)" "node_laws (te_node v) (dv_ids d) (dv_node d)"
  using assms by (simp_all add: tables_laws_def)

lemma wp_add_entry_auth_token:
  assumes laws: "tables_laws v d"
    and post: "\<And>a' r' n. dv_tokens d a' = (dv_tokens d (tt_auth_tokens t))(te_sig_to_bytes v (user_sig (t_signature token)) \<mapsto> t_capability token) \<Longrightarrow>
      dv_counts d r' = (dv_counts d (tt_auth_token_refcount t))(te_sig_to_bytes v (user_sig (t_signature token)) \<mapsto> n) \<Longrightarrow>
      n = (case dv_counts d (tt_auth_token_refcount t) (te_sig_to_bytes v (user_sig (t_signature token))) of None \<Rightarrow> 1 | Some m \<Rightarrow> m + 1) \<Longrightarrow>
      dv_counts d (tt_auth_token_refcount t) (te_sig_to_bytes v (user_sig (t_signature token))) \<noteq> Some (- 1) \<Longrightarrow>
      Q (te_sig_to_bytes v (user_sig (t_signature token))) (t\<lparr> tt_auth_tokens := a', tt_auth_token_refcount := r' \<rparr>)"
  shows "wp any_error (add_entry_auth_token v token) Q t"
  using table_lawsD [OF tables_lawsD(2) [OF laws]] table_lawsD [OF tables_lawsD(3) [OF laws]]
  by (auto simp: add_entry_auth_token_def Let_def wp_simps intro!: post split: sum.splits option.splits if_splits)

lemma wp_remove_entry_auth_token:
  assumes laws: "tables_laws v d" and n: "dv_counts d (tt_auth_token_refcount t) k = Some n"
    and post: "\<And>x a' r'. dv_tokens d a' = (if n - 1 = 0 then (dv_tokens d (tt_auth_tokens t))(k := None) else dv_tokens d (tt_auth_tokens t)) \<Longrightarrow>
      dv_counts d r' = (if n - 1 = 0 then (dv_counts d (tt_auth_token_refcount t))(k := None) else dv_counts d (tt_auth_token_refcount t)) \<Longrightarrow>
      Q x (t\<lparr> tt_auth_tokens := a', tt_auth_token_refcount := r' \<rparr>)"
  shows "wp any_error (remove_entry_auth_token v k) Q t"
proof (cases "n - 1 = 0")
  case True
  then show ?thesis
    using table_lawsD [OF tables_lawsD(2) [OF laws]] table_lawsD [OF tables_lawsD(3) [OF laws]] n
    by (auto simp: remove_entry_auth_token_def Let_def wp_simps intro!: post split: sum.splits option.splits if_splits)
next
  case False
  then have "Q None t" using post [of "tt_auth_tokens t" "tt_auth_token_refcount t" None] by simp
  with False show ?thesis
    using table_lawsD [OF tables_lawsD(3) [OF laws]] n
    by (auto simp: remove_entry_auth_token_def Let_def wp_simps split: sum.splits option.splits if_splits)
qed

lemma wp_node_delete:
  assumes laws: "tables_laws v d" and ok: "nodes_ok (nd_EMPTY (te_node v)) (dv_ids d) N (tt_node_store t)" and i: "N ns = Some i"
    and post: "\<And>i' st'. nodes_ok (nd_EMPTY (te_node v)) (dv_ids d) (N(ns \<mapsto> i')) st' \<Longrightarrow>
      stored_in (dv_node d) (N(ns \<mapsto> i')) st' = (stored d N t)(ns := (stored d N t ns)(pos := None)) \<Longrightarrow> Q i' (t\<lparr> tt_node_store := st' \<rparr>)"
  shows "wp any_error (node_delete v i pos) Q t"
proof -
  have ids: "i \<in> dv_ids d (tt_node_store t)" and here: "stored d N t ns = dv_node d (tt_node_store t) i"
    using ok i by (auto simp: nodes_ok_def stored_in_def)
  note step = node_step [OF tables_lawsD(4) [OF laws] ok i node_lawsD(7) [OF tables_lawsD(4) [OF laws] ids]]
  have "Q i' (t\<lparr> tt_node_store := st' \<rparr>)" if "nd_delete (te_node v) i pos (tt_node_store t) = Ok (i', st')" for i' st'
    using step [OF that] by (intro post) (simp_all add: here)
  then show ?thesis
    by (auto simp: node_delete_def wp_simps split: sum.splits)
qed

lemma wp_node_insert:
  assumes laws: "tables_laws v d" and ok: "nodes_ok (nd_EMPTY (te_node v)) (dv_ids d) N (tt_node_store t)" and i: "N ns = Some i"
    and post: "\<And>i' st'. nodes_ok (nd_EMPTY (te_node v)) (dv_ids d) (N(ns \<mapsto> i')) st' \<Longrightarrow>
      stored_in (dv_node d) (N(ns \<mapsto> i')) st' = (stored d N t)(ns := (stored d N t ns)(pos \<mapsto> c)) \<Longrightarrow> Q i' (t\<lparr> tt_node_store := st' \<rparr>)"
  shows "wp any_error (node_insert v i pos c) Q t"
proof -
  have ids: "i \<in> dv_ids d (tt_node_store t)" and here: "stored d N t ns = dv_node d (tt_node_store t) i"
    using ok i by (auto simp: nodes_ok_def stored_in_def)
  note step = node_step [OF tables_lawsD(4) [OF laws] ok i node_lawsD(6) [OF tables_lawsD(4) [OF laws] ids]]
  have "Q i' (t\<lparr> tt_node_store := st' \<rparr>)" if "nd_insert (te_node v) i pos c (tt_node_store t) = Ok (i', st')" for i' st'
    using step [OF that] by (intro post) (simp_all add: here)
  then show ?thesis
    by (auto simp: node_insert_def wp_simps split: sum.splits)
qed

text \<open>A stored entry is outdated when the new entry is newer.\<close>

definition outdated ::
  "('n, 'a, 'r, 's, 'i, 'cap, 'sg) tables_env \<Rightarrow> ('cap, 'sg) AuthorisedEntry \<Rightarrow> ws_point \<Rightarrow> StoredAuthorisedEntry \<Rightarrow> bool" where
  "outdated v entry pt c \<longleftrightarrow>
     (case into_entry (te_wdm v) c (e_namespace_id (ae_entry entry)) pt of
        Inl _ \<Rightarrow> False
      | Inr e \<Rightarrow> w_is_newer_than (te_wdm v) (ae_entry entry) e)"

definition prune_stored ::
  "('n, 'a, 'r, 's, 'i, 'cap, 'sg) tables_env \<Rightarrow> ('cap, 'sg) AuthorisedEntry \<Rightarrow> (ws_point \<times> StoredAuthorisedEntry) set
   \<Rightarrow> (ws_point \<Rightarrow> StoredAuthorisedEntry option) \<Rightarrow> ws_point \<Rightarrow> StoredAuthorisedEntry option" where
  "prune_stored v entry cs m pt = (if \<exists>c. (pt, c) \<in> cs \<and> outdated v entry pt c then None else m pt)"

lemma wp_pruned_entry:
  assumes "\<And>tok pruned. get_entry_auth_token v (authorisation_token_id c) a = Ok tok \<Longrightarrow>
      outdated v entry pos c = w_is_newer_than (te_wdm v) (ae_entry entry) (ae_entry pruned) \<Longrightarrow> wp any_error (f pruned) Q s"
  shows "wp any_error (rbind (try_anyhow (get_entry_auth_token v (authorisation_token_id c) a)) (\<lambda>tok.
      rbind (try_anyhow (into_authorised_entry (te_wdm v) (te_is_authorised_write v) c (e_namespace_id (ae_entry entry)) pos tok)) f)) Q s"
  using assms
  by (auto simp: wp_simps into_authorised_entry_def authorised_entry_new_def outdated_def
      split: sum.splits if_splits) (auto simp: res_bind_def map_err_def split: sum.splits if_splits)

lemma wp_prune_one:
  assumes laws: "tables_laws v d" and ok: "tables_ok v d N (it_tables s)" and i: "N ns = Some i"
    and c: "stored d N (it_tables s) ns pos = Some c"
    and post: "\<And>i' t q. tables_ok v d (N(ns \<mapsto> i')) t \<Longrightarrow> tt_namespace_nodes t = tt_namespace_nodes (it_tables s) \<Longrightarrow>
      stored d (N(ns \<mapsto> i')) t = (stored d N (it_tables s))(ns := (stored d N (it_tables s) ns)(pos := None)) \<Longrightarrow>
      wp any_error (f i') Q \<lparr> it_tables = t, it_events = q \<rparr>"
  shows "wp any_error (rbind (on_tables (node_delete v i pos)) (\<lambda>i'. rbind (insert_event g) (\<lambda>_.
    rbind (on_tables (remove_entry_auth_token v (authorisation_token_id c))) (\<lambda>_. f i')))) Q s"
proof -
  let ?t = "it_tables s" and ?k = "authorisation_token_id c"
  have nodes: "nodes_ok (nd_EMPTY (te_node v)) (dv_ids d) N (tt_node_store ?t)"
    and toks: "tokens_ok (stored d N ?t) (dv_tokens d (tt_auth_tokens ?t)) (dv_counts d (tt_auth_token_refcount ?t))"
    using ok by (simp_all add: tables_ok_def)
  obtain n where n: "dv_counts d (tt_auth_token_refcount ?t) ?k = Some n"
    using tokens_okD(1) [OF toks c] by blast
  have st: "\<lparr> it_tables = t, it_events = q \<rparr> = s\<lparr> it_events := q, it_tables := t \<rparr>" for t q
    by (cases s) simp
  have key: "wp any_error (f i') Q (s\<lparr> it_events := q, it_tables := ?t\<lparr> tt_node_store := st', tt_auth_tokens := a', tt_auth_token_refcount := r' \<rparr> \<rparr>)"
    if new: "nodes_ok (nd_EMPTY (te_node v)) (dv_ids d) (N(ns \<mapsto> i')) st'"
      "stored_in (dv_node d) (N(ns \<mapsto> i')) st' = (stored d N ?t)(ns := (stored d N ?t ns)(pos := None))"
      and tk: "dv_tokens d a' = (if n - 1 = 0 then (dv_tokens d (tt_auth_tokens ?t))(?k := None) else dv_tokens d (tt_auth_tokens ?t))"
      and ct: "dv_counts d r' = (if n - 1 = 0 then (dv_counts d (tt_auth_token_refcount ?t))(?k := None) else dv_counts d (tt_auth_token_refcount ?t))"
    for i' st' a' r' q
  proof -
    have "tables_ok v d (N(ns \<mapsto> i')) (?t\<lparr> tt_node_store := st', tt_auth_tokens := a', tt_auth_token_refcount := r' \<rparr>)"
      using new tokens_ok_delete [OF toks c n] tk ct by (cases "n = 1") (simp_all add: tables_ok_def)
    then show ?thesis
      using post [of i' "?t\<lparr> tt_node_store := st', tt_auth_tokens := a', tt_auth_token_refcount := r' \<rparr>" q] new(2)
      by (simp add: st)
  qed
  show ?thesis
    unfolding wp_rbind wp_on_tables wp_insert_event
    by (rule wp_node_delete [OF laws nodes i], rule wp_remove_entry_auth_token [OF laws, where n = n])
      (use key in \<open>simp_all add: n\<close>)
qed

lemma wp_prune_candidates_loop:
  fixes v :: "('n, 'a, 'r, 's, 'i, 'cap, 'sg) tables_env" and s :: "(('n, 'a, 'r, 's, 'z) EntryTables_scheme, 'cap, 'sg) ingesting"
  assumes laws: "tables_laws v d" and ns: "ns = e_namespace_id (ae_entry entry)"
    and "tables_ok v d N (it_tables s)" "N ns = Some i"
    and "distinct (map fst cs)" "\<And>pt c. (pt, c) \<in> set cs \<Longrightarrow> stored d N (it_tables s) ns pt = Some c"
  shows "wp any_error (prune_candidates_loop v entry cs i) (\<lambda>i' s'.
    tables_ok v d (N(ns \<mapsto> i')) (it_tables s') \<and> tt_namespace_nodes (it_tables s') = tt_namespace_nodes (it_tables s) \<and>
    stored d (N(ns \<mapsto> i')) (it_tables s') = (stored d N (it_tables s))(ns := prune_stored v entry (set cs) (stored d N (it_tables s) ns))) s"
  using assms(3-)
proof (induction cs arbitrary: N i s)
  case Nil
  then have N: "N(ns \<mapsto> i) = N" by (simp add: fun_upd_idem)
  have "prune_stored v entry (set []) m = m" for m by (simp add: prune_stored_def fun_eq_iff)
  then show ?case unfolding prune_candidates_loop.simps wp_ret N using Nil(1) by simp
next
  case (Cons x cs)
  obtain pos c where x: "x = (pos, c)" by (cases x)
  have c: "stored d N (it_tables s) ns pos = Some c" using Cons.prems(4) x by simp
  have fresh: "pos \<notin> fst ` set cs" using Cons.prems(3) x by simp
  show ?case
    unfolding x prune_candidates_loop.simps Let_def wp_rbind [of _ "gets _"] wp_gets
  proof (rule wp_pruned_entry)
    fix tok and pruned :: "('cap, 'sg) AuthorisedEntry"
    assume out: "outdated v entry pos c = w_is_newer_than (te_wdm v) (ae_entry entry) (ae_entry pruned)"
    show "wp any_error
      (if w_is_newer_than (te_wdm v) (ae_entry entry) (ae_entry pruned)
       then rbind (on_tables (node_delete v i pos)) (\<lambda>ns_node'.
         rbind (insert_event (\<lambda>i. Pruned i \<lparr> pe_pruned = pruned, pe_by = entry \<rparr>)) (\<lambda>_.
         rbind (on_tables (remove_entry_auth_token v (authorisation_token_id c))) (\<lambda>_. prune_candidates_loop v entry cs ns_node')))
       else prune_candidates_loop v entry cs i)
      (\<lambda>i' s'. tables_ok v d (N(ns \<mapsto> i')) (it_tables s') \<and> tt_namespace_nodes (it_tables s') = tt_namespace_nodes (it_tables s) \<and>
        stored d (N(ns \<mapsto> i')) (it_tables s') =
          (stored d N (it_tables s))(ns := prune_stored v entry (set ((pos, c) # cs)) (stored d N (it_tables s) ns))) s"
    proof (cases "w_is_newer_than (te_wdm v) (ae_entry entry) (ae_entry pruned)")
      case True
      have prune: "prune_stored v entry (set cs) (m(pos := None)) = prune_stored v entry (set ((pos, c) # cs)) m" for m
        using True out fresh by (auto simp: prune_stored_def fun_eq_iff)
      show ?thesis
        unfolding if_P [OF True]
      proof (rule wp_prune_one [OF laws Cons.prems(1,2) c])
        fix i' q and t :: "('n, 'a, 'r, 's, 'z) EntryTables_scheme"
        assume new: "tables_ok v d (N(ns \<mapsto> i')) t" "tt_namespace_nodes t = tt_namespace_nodes (it_tables s)"
          "stored d (N(ns \<mapsto> i')) t = (stored d N (it_tables s))(ns := (stored d N (it_tables s) ns)(pos := None))"
        have rest: "stored d (N(ns \<mapsto> i')) t ns pt = Some e" if "(pt, e) \<in> set cs" for pt e
          using that fresh Cons.prems(4) [of pt e] new(3) x by (auto simp: image_iff)
        show "wp any_error (prune_candidates_loop v entry cs i') (\<lambda>i' s'. tables_ok v d (N(ns \<mapsto> i')) (it_tables s') \<and>
            tt_namespace_nodes (it_tables s') = tt_namespace_nodes (it_tables s) \<and>
            stored d (N(ns \<mapsto> i')) (it_tables s') =
              (stored d N (it_tables s))(ns := prune_stored v entry (set ((pos, c) # cs)) (stored d N (it_tables s) ns)))
            \<lparr> it_tables = t, it_events = q \<rparr>"
          by (rule wp_mono [OF Cons.IH [of "N(ns \<mapsto> i')" "\<lparr> it_tables = t, it_events = q \<rparr>" i']])
            (use Cons.prems(3) new rest in \<open>simp_all add: prune fun_upd_same del: fun_upd_apply\<close>)
      qed
    next
      case False
      have prune: "prune_stored v entry (set cs) m = prune_stored v entry (set ((pos, c) # cs)) m" for m
        using False out by (auto simp: prune_stored_def fun_eq_iff)
      show ?thesis
        unfolding if_not_P [OF False] prune [symmetric]
        using Cons.prems by (intro Cons.IH) auto
    qed
  qed
qed

text \<open>What a namespace holds after an ingestion.\<close>

definition ingest_stored ::
  "('n, 'a, 'r, 's, 'i, 'cap, 'sg) tables_env \<Rightarrow> ('cap, 'sg) AuthorisedEntry
   \<Rightarrow> (ws_point \<Rightarrow> StoredAuthorisedEntry option) \<Rightarrow> ws_point \<Rightarrow> StoredAuthorisedEntry option" where
  "ingest_stored v entry m =
     (\<lambda>pt. if in_query (overwritten_range v (ae_entry entry)) pt \<and> (\<exists>c. m pt = Some c \<and> outdated v entry pt c) then None
       else m pt)(fst (from_authorised_entry (te_sig_to_bytes v) entry) \<mapsto> snd (from_authorised_entry (te_sig_to_bytes v) entry))"

lemma nodes_ok_empty:
  assumes "node_laws ops ids view" "nodes_ok (nd_EMPTY ops) ids N st" "N ns = None"
  shows "nodes_ok (nd_EMPTY ops) ids (N(ns \<mapsto> nd_EMPTY ops)) st" "stored_in view (N(ns \<mapsto> nd_EMPTY ops)) st = stored_in view N st"
  using assms node_lawsD(1,2) [OF assms(1)]
  by (auto simp: nodes_ok_def stored_in_def fun_eq_iff split: option.splits if_splits)

lemma wp_ingest_insert:
  assumes laws: "tables_laws v d" and ok: "tables_ok v d (N(e_namespace_id (ae_entry entry) \<mapsto> i)) (it_tables s)"
    and nodes: "table_nodes d (it_tables s) = N" and stored_entry: "from_authorised_entry (te_sig_to_bytes v) entry = (pt, c)"
    and ns: "ns = e_namespace_id (ae_entry entry)" and token: "token = ae_token entry"
  shows "wp any_error (ingest_insert v entry origin i)
    (\<lambda>_ s'. tables_ok v d (table_nodes d (it_tables s')) (it_tables s') \<and>
      stored d (table_nodes d (it_tables s')) (it_tables s') =
        (stored d (N(ns \<mapsto> i)) (it_tables s))(ns := (stored d (N(ns \<mapsto> i)) (it_tables s) ns)(pt \<mapsto> c))) s"
proof -
  let ?t = "it_tables s" and ?k = "te_sig_to_bytes v (user_sig (t_signature token))"
  let ?E = "stored d (N(ns \<mapsto> i)) ?t"
  have key: "authorisation_token_id c = ?k"
    using stored_entry token by (auto simp: from_authorised_entry_def)
  have n_ok: "nodes_ok (nd_EMPTY (te_node v)) (dv_ids d) (N(ns \<mapsto> i)) (tt_node_store ?t)"
    and t_ok: "tokens_ok ?E (dv_tokens d (tt_auth_tokens ?t)) (dv_counts d (tt_auth_token_refcount ?t))"
    using ok ns by (simp_all add: tables_ok_def)
  have fin: "tables_ok v d (N(ns \<mapsto> i')) (?t\<lparr> tt_auth_tokens := a', tt_auth_token_refcount := r', tt_node_store := st', tt_namespace_nodes := n' \<rparr>)"
    if "nodes_ok (nd_EMPTY (te_node v)) (dv_ids d) (N(ns \<mapsto> i')) st'"
      "stored_in (dv_node d) (N(ns \<mapsto> i')) st' = ?E(ns := (?E ns)(pt \<mapsto> c))"
      "dv_tokens d a' = (dv_tokens d (tt_auth_tokens ?t))(?k \<mapsto> t_capability token)"
      "dv_counts d r' = (dv_counts d (tt_auth_token_refcount ?t))(?k \<mapsto> m)"
      "m = (case dv_counts d (tt_auth_token_refcount ?t) ?k of None \<Rightarrow> 1 | Some m \<Rightarrow> m + 1)"
      "dv_counts d (tt_auth_token_refcount ?t) ?k \<noteq> Some (- 1)" for i' a' r' st' n' m
    using that(1-4) tokens_ok_insert [OF t_ok key that(5,6), of ns pt "t_capability token"] by (simp add: tables_ok_def)
  have put: "dv_nodes d n' = N(ns \<mapsto> i')" if "tb_insert (te_namespace_nodes v) ns i' (tt_namespace_nodes ?t) = Ok n'" for i' n'
    using table_lawsD(2) [OF tables_lawsD(1) [OF laws] that] nodes by simp
  show ?thesis
    unfolding ingest_insert_def Let_def stored_entry prod.case ns [symmetric] token [symmetric]
      wp_rbind wp_on_tables wp_insert_event wp_gets wp_try_anyhow wp_modify
    by (rule wp_add_entry_auth_token [OF laws], rule wp_node_insert [OF laws, where ns = ns and N = "N(ns \<mapsto> i)"])
      (use n_ok fin put in \<open>auto simp del: fun_upd_apply simp: fun_upd_same split: sum.splits\<close>)
qed

lemma prune_stored_query:
  assumes "\<And>pt c. (pt, c) \<in> set cs \<longleftrightarrow> m pt = Some c \<and> in_query (overwritten_range v (ae_entry entry)) pt"
  shows "(prune_stored v entry (set cs) m)(fst (from_authorised_entry (te_sig_to_bytes v) entry) \<mapsto>
    snd (from_authorised_entry (te_sig_to_bytes v) entry)) = ingest_stored v entry m"
  using assms by (auto simp: prune_stored_def ingest_stored_def fun_eq_iff)

lemma wp_prune_and_insert:
  fixes v :: "('n, 'a, 'r, 's, 'i, 'cap, 'sg) tables_env"
  assumes laws: "tables_laws v d" and ok: "tables_ok v d N (it_tables s)" and i: "N ns = Some i"
    and ns: "ns = e_namespace_id (ae_entry entry)" and nodes: "\<And>j. N(ns \<mapsto> j) = (table_nodes d (it_tables s))(ns \<mapsto> j)"
    and cs: "collect_results (nd_query (te_node v) i (overwritten_range v (ae_entry entry)) (tt_node_store (it_tables s))) = Ok cs"
  shows "wp any_error (rbind (prune_candidates_loop v entry cs i) (ingest_insert v entry origin))
    (\<lambda>_ s'. tables_ok v d (table_nodes d (it_tables s')) (it_tables s') \<and>
      stored d (table_nodes d (it_tables s')) (it_tables s') =
        (stored d N (it_tables s))(ns := ingest_stored v entry (stored d N (it_tables s) ns))) s"
proof -
  let ?E = "stored d N (it_tables s)" and ?st = "tt_node_store (it_tables s)"
  obtain pt c where stored_entry: "from_authorised_entry (te_sig_to_bytes v) entry = (pt, c)"
    by (cases "from_authorised_entry (te_sig_to_bytes v) entry")
  have ids: "i \<in> dv_ids d ?st" and here: "?E ns = dv_node d ?st i"
    using ok i by (auto simp: tables_ok_def nodes_ok_def stored_in_def)
  note query = node_lawsD(4,5) [OF tables_lawsD(4) [OF laws] ids cs]
  have m: "(prune_stored v entry (set cs) (?E ns))(pt \<mapsto> c) = ingest_stored v entry (?E ns)"
    using prune_stored_query [of cs "?E ns" v entry] query(2) here stored_entry by simp
  have pruned: "wp any_error (prune_candidates_loop v entry cs i) (\<lambda>i' s'.
      tables_ok v d (N(ns \<mapsto> i')) (it_tables s') \<and> tt_namespace_nodes (it_tables s') = tt_namespace_nodes (it_tables s) \<and>
      stored d (N(ns \<mapsto> i')) (it_tables s') = ?E(ns := prune_stored v entry (set cs) (?E ns))) s"
    by (rule wp_prune_candidates_loop [OF laws ns, where N = N]) (use ok i query here in simp_all)
  show ?thesis
    unfolding wp_rbind
  proof (rule wp_mono [OF pruned], elim conjE)
    fix i' and s' :: "(('n, 'a, 'r, 's, 'z) EntryTables_scheme, 'cap, 'sg) ingesting"
    assume a: "tables_ok v d (N(ns \<mapsto> i')) (it_tables s')" "tt_namespace_nodes (it_tables s') = tt_namespace_nodes (it_tables s)"
      "stored d (N(ns \<mapsto> i')) (it_tables s') = ?E(ns := prune_stored v entry (set cs) (?E ns))"
    have res: "?E(ns := ingest_stored v entry (?E ns)) =
        (stored d (N(ns \<mapsto> i')) (it_tables s'))(ns := (stored d (N(ns \<mapsto> i')) (it_tables s') ns)(pt \<mapsto> c))"
      using a(3) m by simp
    show "wp any_error (ingest_insert v entry origin i') (\<lambda>_ s'. tables_ok v d (table_nodes d (it_tables s')) (it_tables s') \<and>
        stored d (table_nodes d (it_tables s')) (it_tables s') = ?E(ns := ingest_stored v entry (?E ns))) s'"
      unfolding res nodes
      by (rule wp_ingest_insert [OF laws _ _ stored_entry ns refl]) (use a(1,2) nodes ns in simp_all)
  qed
qed

lemma wp_ingest_tables:
  assumes laws: "tables_laws v d" and ok: "tables_ok v d (table_nodes d t) t"
  shows "wp any_error (ingest_tables v entry origin) (\<lambda>_ s'.
      tables_ok v d (table_nodes d (it_tables s')) (it_tables s') \<and>
      stored d (table_nodes d (it_tables s')) (it_tables s') =
        (stored d (table_nodes d t) t)(e_namespace_id (ae_entry entry) :=
          ingest_stored v entry (stored d (table_nodes d t) t (e_namespace_id (ae_entry entry))))) \<lparr> it_tables = t, it_events = q \<rparr>"
proof -
  let ?ns = "e_namespace_id (ae_entry entry)" and ?E = "stored d (table_nodes d t) t" and ?s = "\<lparr> it_tables = t, it_events = q \<rparr>"
  define i where "i = (case table_nodes d t ?ns of None \<Rightarrow> nd_EMPTY (te_node v) | Some i \<Rightarrow> i)"
  define N where "N = (table_nodes d t)(?ns \<mapsto> i)"
  have nodes: "nodes_ok (nd_EMPTY (te_node v)) (dv_ids d) N (tt_node_store t)" and same: "stored d N t = ?E"
    using ok nodes_ok_empty [OF tables_lawsD(4) [OF laws], of "table_nodes d t" "tt_node_store t" ?ns]
    by (auto simp: tables_ok_def N_def i_def fun_upd_idem split: option.splits)
  then have N_ok: "tables_ok v d N (it_tables ?s)" using ok by (simp add: tables_ok_def)
  have loop: "wp any_error (rbind (prune_candidates_loop v entry cs i) (ingest_insert v entry origin)) (\<lambda>_ s'.
      tables_ok v d (table_nodes d (it_tables s')) (it_tables s') \<and>
      stored d (table_nodes d (it_tables s')) (it_tables s') = ?E(?ns := ingest_stored v entry (?E ?ns))) ?s"
    if "collect_results (nd_query (te_node v) i (overwritten_range v (ae_entry entry)) (tt_node_store t)) = Ok cs" for cs
    using wp_prune_and_insert [OF laws N_ok _ refl, where i = i and entry = entry and cs = cs and origin = origin] that same by (simp add: N_def)
  show ?thesis
    unfolding ingest_tables_def Let_def wp_rbind [of _ "gets _"] wp_gets wp_rbind [of _ "try_anyhow _"] wp_try_anyhow
    using loop table_lawsD(1) [OF tables_lawsD(1) [OF laws], of ?ns "tt_namespace_nodes t"]
    by (auto simp: i_def split: sum.splits)
qed

subsection \<open>Which entries an ingestion overwrites\<close>

text \<open>\<open>BlobSeq::subseq_successor\<close>: the sequences from a sequence up to its successor are those it is a prefix of.\<close>

definition subseq_law :: "('n, 'a, 'r, 's, 'i, 'cap, 'sg) tables_env \<Rightarrow> bool" where
  "subseq_law v \<longleftrightarrow> (\<forall>p x. in_query_range \<lparr> q_min = p, q_max = te_subseq_successor v p \<rparr> x \<longleftrightarrow> prefix p x)"

lemma user_range_singleton:
  assumes "length (user_as_bytes u) = 32" "length (user_as_bytes w) = 32"
  shows "in_query_range \<lparr> q_min = u, q_max = user_successor u \<rparr> w \<longleftrightarrow> w = u"
proof (cases "user_successor u")
  case None
  then show ?thesis
    using user_successor_greatest [OF None assms] by (auto simp: in_query_range_def)
next
  case (Some s)
  then have "w < s \<longleftrightarrow> be_val (user_as_bytes w) \<le> be_val (user_as_bytes u)"
    using user_successor_Some [OF Some] assms by (auto simp: less_UserId_def be_val_less_iff)
  also have "\<dots> \<longleftrightarrow> w \<le> u" using assms by (simp add: less_eq_UserId_def be_val_le_iff)
  finally show ?thesis using Some by (auto simp: in_query_range_def)
qed

abbreviation stored_point :: "('n, 'a, 'r, 's, 'i, 'cap, 'sg) tables_env \<Rightarrow> ('cap, 'sg) AuthorisedEntry \<Rightarrow> ws_point"
  where "stored_point v e \<equiv> fst (from_authorised_entry (te_sig_to_bytes v) e)"

abbreviation stored_value :: "('n, 'a, 'r, 's, 'i, 'cap, 'sg) tables_env \<Rightarrow> ('cap, 'sg) AuthorisedEntry \<Rightarrow> StoredAuthorisedEntry"
  where "stored_value v e \<equiv> snd (from_authorised_entry (te_sig_to_bytes v) e)"

text \<open>An entry is overwritten by an entry of its subspace with a prefix of its path and a greater timestamp.\<close>

definition overwrites :: "Entry \<Rightarrow> Entry \<Rightarrow> bool" where
  "overwrites new old \<longleftrightarrow>
     e_namespace_id new = e_namespace_id old \<and> e_subspace_id new = e_subspace_id old \<and>
     prefix (e_path new) (e_path old) \<and> e_timestamp old < e_timestamp new"

lemma overwritten_iff:
  assumes "subseq_law v" "length (user_as_bytes (e_subspace_id new)) = 32"
    and "length (user_as_bytes (e_subspace_id (ae_entry old))) = 32" "e_namespace_id new = e_namespace_id (ae_entry old)"
  shows "in_query (overwritten_range v new) (stored_point v old) \<longleftrightarrow> overwrites new (ae_entry old)"
  using user_range_singleton [OF assms(2,3)] assms(1,4)
  by (auto simp: in_query_def overwritten_range_def Let_def from_authorised_entry_def overwrites_def subseq_law_def
      path_to_blobseq_def in_query_range_def st_new_less_iff st_new_le_iff)

lemma outdated_iff:
  assumes "path_laws (te_wdm v)" "path_ok (e_path (ae_entry old))" "e_namespace_id (ae_entry new) = e_namespace_id (ae_entry old)"
  shows "outdated v new (stored_point v old) (stored_value v old) \<longleftrightarrow> w_is_newer_than (te_wdm v) (ae_entry new) (ae_entry old)"
  using blobseq_to_path_roundtrip [OF assms(1,2)] assms(3)
  by (cases old; cases "ae_entry old") (simp add: outdated_def into_entry_def from_authorised_entry_def)

definition holds_entry ::
  "('n, 'a, 'r, 's, 'i, 'cap, 'sg) tables_env \<Rightarrow> ('n, 'a, 'r, 's, 'i, 'cap) db_views \<Rightarrow> ('n, 'a, 'r, 's, 'z) EntryTables_scheme
   \<Rightarrow> ('cap, 'sg) AuthorisedEntry \<Rightarrow> bool" where
  "holds_entry v d t e \<longleftrightarrow> stored d (table_nodes d t) t (e_namespace_id (ae_entry e)) (stored_point v e) = Some (stored_value v e)"

lemma ingest_stored_iff:
  assumes "subseq_law v" "path_laws (te_wdm v)" "newer_laws (te_wdm v)" "path_ok (e_path (ae_entry old))"
    and "length (user_as_bytes (e_subspace_id (ae_entry new))) = 32" "length (user_as_bytes (e_subspace_id (ae_entry old))) = 32"
    and ns: "e_namespace_id (ae_entry new) = e_namespace_id (ae_entry old)"
  shows "ingest_stored v new m (stored_point v old) = Some (stored_value v old) \<longleftrightarrow>
    (if stored_point v old = stored_point v new then stored_value v old = stored_value v new
     else m (stored_point v old) = Some (stored_value v old) \<and> \<not> overwrites (ae_entry new) (ae_entry old))"
proof -
  have "overwrites (ae_entry new) (ae_entry old) \<Longrightarrow> w_is_newer_than (te_wdm v) (ae_entry new) (ae_entry old)"
    using assms(3) by (auto simp: newer_laws_def overwrites_def)
  then show ?thesis
    using overwritten_iff [OF assms(1,5,6) ns] outdated_iff [OF assms(2,4) ns]
    by (auto simp: ingest_stored_def)
qed

lemma pers_ingest_Done:
  assumes b: "redb_laws b contents" and laws: "tables_laws v d"
    and ok: "tables_ok v d (table_nodes d (db_view contents (ws_db s))) (db_view contents (ws_db s))"
    and run: "pers_ingest_entry b v now entry origin s = (Done x, s')"
  shows "x = True" "db_inv contents (ws_db s')"
    and "tables_ok v d (table_nodes d (db_view contents (ws_db s'))) (db_view contents (ws_db s'))"
    and "stored d (table_nodes d (db_view contents (ws_db s'))) (db_view contents (ws_db s')) =
      (stored d (table_nodes d (db_view contents (ws_db s))) (db_view contents (ws_db s)))(e_namespace_id (ae_entry entry) :=
        ingest_stored v entry (stored d (table_nodes d (db_view contents (ws_db s))) (db_view contents (ws_db s)) (e_namespace_id (ae_entry entry))))"
proof -
  let ?ns = "e_namespace_id (ae_entry entry)" and ?t = "db_view contents (ws_db s)"
  obtain w db st where tables: "db_tables b now (ws_db s) = (Done w, db)"
    and ing: "ingest_tables v entry origin \<lparr> it_tables = ow_tables w, it_events = ws_events ?ns s \<rparr> = (Done (), st)"
    and s': "ws_db s' = db\<lparr> db_tx := CT_Write (w\<lparr> ow_tables := it_tables st \<rparr>) \<rparr>" and x: "x = True"
    using run by (auto simp: pers_ingest_entry_def Let_def gets_def modify_def ret_def on_db_def set_ws_events_def
        elim!: rbind_DoneE split: prod.splits)
  have w: "ow_tables w = ?t" using db_tables_Done [OF b tables] by simp
  have view: "db_view contents (ws_db s') = it_tables st" by (simp add: db_view_def s')
  show "x = True" by (rule x)
  show "db_inv contents (ws_db s')" by (simp add: db_inv_def s')
  note res = wp_Done [OF wp_ingest_tables [OF laws ok] ing [unfolded w]]
  show "tables_ok v d (table_nodes d (db_view contents (ws_db s'))) (db_view contents (ws_db s'))"
    "stored d (table_nodes d (db_view contents (ws_db s'))) (db_view contents (ws_db s')) =
      (stored d (table_nodes d ?t) ?t)(?ns := ingest_stored v entry (stored d (table_nodes d ?t) ?t ?ns))"
    using res by (simp_all add: view)
qed


section \<open>Tokens of stored entries\<close>

text \<open>
  The runs of a store that starts with empty tables: ingestions, snapshots and flushes that succeed.  Every
  path keeps the limits, which its type checks when it is made.
\<close>

inductive pers_reach ::
  "('d, ('n, 'a, 'r, 's, 'z) EntryTables_scheme) redb \<Rightarrow> ('n, 'a, 'r, 's, 'i, 'cap, 'sg) tables_env \<Rightarrow> 'd
   \<Rightarrow> ('d, ('n, 'a, 'r, 's, 'z) EntryTables_scheme, 'cap, 'sg) WillowStore \<Rightarrow> bool"
  for b v d0 where
  pers_start: "pers_reach b v d0 (willow_store_new d0)"
| pers_ingest: "pers_reach b v d0 s \<Longrightarrow> path_ok (e_path (ae_entry entry)) \<Longrightarrow> pers_ingest_entry b v now entry origin s = (Done x, s') \<Longrightarrow> pers_reach b v d0 s'"
| pers_snapshot: "pers_reach b v d0 s \<Longrightarrow> on_db (db_snapshot b) s = (Done t, s') \<Longrightarrow> pers_reach b v d0 s'"
| pers_snapshot_owned: "pers_reach b v d0 s \<Longrightarrow> on_db (db_snapshot_owned b) s = (Done t, s') \<Longrightarrow> pers_reach b v d0 s'"
| pers_flush: "pers_reach b v d0 s \<Longrightarrow> on_db (db_flush b) s = (Done y, s') \<Longrightarrow> pers_reach b v d0 s'"

definition empty_tables :: "('n, 'a, 'r, 's, 'i, 'cap) db_views \<Rightarrow> ('n, 'a, 'r, 's, 'z) EntryTables_scheme \<Rightarrow> bool" where
  "empty_tables d t \<longleftrightarrow> table_nodes d t = Map.empty \<and> dv_counts d (tt_auth_token_refcount t) = Map.empty"

lemma empty_tables_ok: "empty_tables d t \<Longrightarrow> tables_ok v d (table_nodes d t) t"
  by (simp add: empty_tables_def tables_ok_def nodes_ok_def tokens_ok_def token_uses_def stored_in_def)

lemma on_db_Done: "on_db f s = (Done x, s') \<longleftrightarrow> f (ws_db s) = (Done x, ws_db s') \<and> s' = s\<lparr> ws_db := ws_db s' \<rparr>"
  by (auto simp: on_db_def split: prod.splits)

lemma db_exec_same_view:
  assumes "redb_laws b c" "db_inv c s" "db_exec b op s = (Done x, s')" "op_persists op"
  shows "db_view c s' = db_view c s \<and> db_inv c s'"
  using db_exec_sim [OF assms(1,2,3)] assms(4) by (cases op) (auto simp: gets_def ret_def)

text \<open>Every row was written for an entry.\<close>

definition rows_wf ::
  "('n, 'a, 'r, 's, 'i, 'cap, 'sg) tables_env \<Rightarrow> (NamespaceId \<Rightarrow> ws_point \<Rightarrow> StoredAuthorisedEntry option) \<Rightarrow> bool" where
  "rows_wf v m \<longleftrightarrow> (\<forall>ns pt c. m ns pt = Some c \<longrightarrow>
     (\<exists>e :: ('cap, 'sg) AuthorisedEntry. e_namespace_id (ae_entry e) = ns \<and> path_ok (e_path (ae_entry e)) \<and> from_authorised_entry (te_sig_to_bytes v) e = (pt, c)))"

lemma rows_wf_ingest:
  fixes v :: "('n, 'a, 'r, 's, 'i, 'cap, 'sg) tables_env"
  assumes "rows_wf v m" "path_ok (e_path (ae_entry entry))"
  shows "rows_wf v (m(e_namespace_id (ae_entry entry) := ingest_stored v entry (m (e_namespace_id (ae_entry entry)))))"
  unfolding rows_wf_def
proof (intro allI impI)
  fix ns pt c
  assume new: "(m(e_namespace_id (ae_entry entry) := ingest_stored v entry (m (e_namespace_id (ae_entry entry))))) ns pt = Some c"
  show "\<exists>e :: ('cap, 'sg) AuthorisedEntry. e_namespace_id (ae_entry e) = ns \<and> path_ok (e_path (ae_entry e)) \<and> from_authorised_entry (te_sig_to_bytes v) e = (pt, c)"
  proof (cases "ns = e_namespace_id (ae_entry entry) \<and> pt = stored_point v entry")
    case True
    then show ?thesis using new assms(2) by (intro exI [of _ entry]) (auto simp: ingest_stored_def)
  next
    case False
    then have "m ns pt = Some c" using new by (auto simp: ingest_stored_def split: if_splits)
    then show ?thesis using assms(1) by (simp add: rows_wf_def)
  qed
qed

definition store_ok ::
  "('d \<Rightarrow> ('n, 'a, 'r, 's, 'z) EntryTables_scheme) \<Rightarrow> ('n, 'a, 'r, 's, 'i, 'cap, 'sg) tables_env \<Rightarrow> ('n, 'a, 'r, 's, 'i, 'cap) db_views
   \<Rightarrow> ('d, ('n, 'a, 'r, 's, 'z) EntryTables_scheme, 'cap, 'sg) WillowStore \<Rightarrow> bool" where
  "store_ok contents v d s \<longleftrightarrow> db_inv contents (ws_db s) \<and>
     (let t = db_view contents (ws_db s) in tables_ok v d (table_nodes d t) t \<and> rows_wf v (stored d (table_nodes d t) t))"

lemma store_ok_view:
  "store_ok contents v d s \<Longrightarrow> db_view contents (ws_db s') = db_view contents (ws_db s) \<and> db_inv contents (ws_db s') \<Longrightarrow> store_ok contents v d s'"
  by (simp add: store_ok_def)

lemma pers_reach_ok:
  assumes b: "redb_laws b contents" and laws: "tables_laws v d" and empty: "empty_tables d (contents d0)"
    and "pers_reach b v d0 s"
  shows "store_ok contents v d s"
  using assms(4)
proof (induction rule: pers_reach.induct)
  case pers_start
  have "rows_wf v (stored d (table_nodes d (contents d0)) (contents d0))"
    using empty by (simp add: rows_wf_def empty_tables_def stored_in_def)
  then show ?case
    using empty_tables_ok [OF empty] by (simp add: store_ok_def Let_def willow_store_new_def db_new_def db_inv_def db_view_def)
next
  case (pers_ingest s entry now origin x s')
  then show ?case
    using pers_ingest_Done [OF b laws _ pers_ingest.hyps(3)] rows_wf_ingest [OF _ pers_ingest.hyps(2), of v]
    by (simp add: store_ok_def Let_def)
next
  case (pers_snapshot s t s')
  then have "db_exec b (OpSnapshot id) (ws_db s) = (Done t, ws_db s')" by (simp add: on_db_Done rbind_def ret_def)
  then show ?case
    using db_exec_same_view [OF b] pers_snapshot.IH store_ok_view by (metis op_persists.simps(3) store_ok_def)
next
  case (pers_snapshot_owned s t s')
  then have "db_exec b (OpSnapshotOwned id) (ws_db s) = (Done t, ws_db s')" by (simp add: on_db_Done rbind_def ret_def)
  then show ?case
    using db_exec_same_view [OF b] pers_snapshot_owned.IH store_ok_view by (metis op_persists.simps(4) store_ok_def)
next
  case (pers_flush s y s')
  then have "db_exec b (OpFlush ()) (ws_db s) = (Done (), ws_db s')" by (simp add: on_db_Done rbind_def ret_def)
  then show ?case
    using db_exec_same_view [OF b] pers_flush.IH store_ok_view by (metis op_persists.simps(5) store_ok_def)
qed

lemma snapshot_owned_view:
  assumes "redb_laws b contents" "store_ok contents v d s" "db_snapshot_owned b (ws_db s) = (Done t, db')"
  shows "t = db_view contents (ws_db s)"
proof -
  have "db_exec b (OpSnapshotOwned id) (ws_db s) = (Done t, db')"
    using assms(3) by (simp add: rbind_def ret_def)
  then show ?thesis
    using db_exec_sim [OF assms(1), of "ws_db s" "OpSnapshotOwned id"] assms(2) by (auto simp: store_ok_def gets_def)
qed


section \<open>Reading what was stored\<close>

lemma collect_results_bind:
  "collect_results (map (\<lambda>r. res_bind r f) rs) = Ok es \<Longrightarrow> \<exists>xs. collect_results rs = Ok xs \<and> list_all2 (\<lambda>x e. f x = Ok e) xs es"
proof (induction rs arbitrary: es)
  case (Cons r rs)
  then obtain x e es' where "r = Ok x" "f x = Ok e" "collect_results (map (\<lambda>r. res_bind r f) rs) = Ok es'" "es = e # es'"
    by (auto simp: res_bind_eq_Inr)
  with Cons.IH [of es'] show ?case by auto
qed simp

lemma list_all2_partner:
  assumes "list_all2 P xs ys"
  shows "x \<in> set xs \<Longrightarrow> \<exists>y \<in> set ys. P x y" "y \<in> set ys \<Longrightarrow> \<exists>x \<in> set xs. P x y"
  using assms by (induction rule: list_all2_induct) auto

text \<open>The bytes of a signature give the signature back.\<close>

definition sig_law :: "('n, 'a, 'r, 's, 'i, 'cap, 'sg) tables_env \<Rightarrow> bool"
  where "sig_law v \<longleftrightarrow> (\<forall>x. te_sig_from_bytes v (te_sig_to_bytes v x) = x)"

lemma snap_authorised_row:
  fixes e :: "('cap, 'sg) AuthorisedEntry"
  assumes "sig_law v" "path_laws (te_wdm v)" "path_ok (e_path (ae_entry e))"
    and "snap_authorised v t (e_namespace_id (ae_entry e)) (from_authorised_entry (te_sig_to_bytes v) e) = Ok e'"
  shows "ae_entry e' = ae_entry e \<and> t_signature (ae_token e') = t_signature (ae_token e)"
  using assms blobseq_to_path_roundtrip [OF assms(2,3)]
  by (cases e; cases "ae_entry e"; cases "t_signature (ae_token e)")
    (auto simp: snap_authorised_def from_authorised_entry_def res_bind_eq_Inr get_entry_auth_token_def into_authorised_entry_def
      into_entry_def authorised_entry_new_def map_err_eq_Inr sig_law_def split: if_splits)

lemma to_query_point: "in_query (to_query r) (stored_point v e) \<longleftrightarrow> in_range3d r (ae_entry e)"
proof -
  have "in_query_range (q_z (to_query r)) (path_to_blobseq p) \<longleftrightarrow> in_range (r_paths r) p" for p
    using in_query_range_iff [of "r_paths r" p]
    by (simp add: to_query_def to_query_range_def path_to_blobseq_def split: RangeEnd.splits)
  then show ?thesis
    by (auto simp: in_query_def in_range3d_def from_authorised_entry_def in_query_range_iff in_range_map_st_new to_query_def Let_def)
qed

lemma same_row:
  "ae_entry e' = ae_entry e \<Longrightarrow> t_signature (ae_token e') = t_signature (ae_token e) \<Longrightarrow>
     from_authorised_entry sb e' = from_authorised_entry sb e"
  by (simp add: from_authorised_entry_def)

lemma snap_rows:
  assumes laws: "tables_laws v d" and ok: "tables_ok v d (table_nodes d t) t"
    and "snap_get_authorised_entries v t ns r = Ok rs" "collect_results rs = Ok es"
  shows "\<exists>xs. (\<forall>pt c. (pt, c) \<in> set xs \<longleftrightarrow> stored d (table_nodes d t) t ns pt = Some c \<and> in_query (to_query r) pt) \<and>
    list_all2 (\<lambda>x e. snap_authorised v t ns x = Ok e) xs es"
proof -
  obtain node where node: "tb_get (te_namespace_nodes v) ns (tt_namespace_nodes t) = Ok node"
    using assms(3) by (auto simp: snap_get_authorised_entries_def res_bind_eq_Inr)
  then have n: "table_nodes d t ns = node"
    using table_lawsD(1) [OF tables_lawsD(1) [OF laws]] by metis
  show ?thesis
  proof (cases node)
    case None
    then have "es = []" using assms(3,4) node by (simp add: snap_get_authorised_entries_def)
    then show ?thesis using n None by (intro exI [of _ "[]"]) (simp add: stored_in_def)
  next
    case (Some i)
    then obtain xs where xs: "collect_results (nd_query (te_node v) i (to_query r) (tt_node_store t)) = Ok xs"
      "list_all2 (\<lambda>x e. snap_authorised v t ns x = Ok e) xs es"
      using assms(3,4) node collect_results_bind [where f = "snap_authorised v t ns"] by (auto simp: snap_get_authorised_entries_def)
    have i: "i \<in> dv_ids d (tt_node_store t)" using ok n Some by (auto simp: tables_ok_def nodes_ok_def)
    show ?thesis
      using node_lawsD(5) [OF tables_lawsD(4) [OF laws] i xs(1)] xs(2) n Some by (intro exI [of _ xs]) (simp add: stored_in_def)
  qed
qed

lemma pers_read_Done:
  assumes "pers_read b f s = (Done x, s')"
  shows "\<exists>t. db_snapshot_owned b (ws_db s) = (Done t, ws_db s') \<and> f t = Ok x"
proof -
  obtain t s1 where "on_db (db_snapshot_owned b) s = (Done t, s1)" "try_anyhow (f t) s1 = (Done x, s')"
    using assms unfolding pers_read_def by (rule rbind_DoneE)
  then show ?thesis by (metis on_db_Done try_anyhow_Done)
qed

text \<open>
  C9: Reading a range of the persistent store, in every run: when every item of the answer could be read, an entry is
  in the answer, with the signature it was stored with, exactly when the store holds it and it lies in the range.
\<close>

theorem persistent_query_exact:
  fixes v :: "('n, 'a, 'r, 's, 'i, 'cap, 'sg) tables_env"
  assumes "redb_laws b contents" "tables_laws v d" "sig_law v" "path_laws (te_wdm v)" "empty_tables d (contents d0)"
    and "pers_reach b v d0 s" "pers_get_authorised_entries b v ns r s = (Done rs, s')" "collect_results rs = Ok es"
    and "e_namespace_id (ae_entry e) = ns" "path_ok (e_path (ae_entry e))"
  shows "(\<exists>e' \<in> set es. ae_entry e' = ae_entry e \<and> t_signature (ae_token e') = t_signature (ae_token e)) \<longleftrightarrow>
    holds_entry v d (db_view contents (ws_db s)) e \<and> in_range3d r (ae_entry e)"
proof -
  note ok = pers_reach_ok [OF assms(1,2,5,6)]
  obtain t where snap: "db_snapshot_owned b (ws_db s) = (Done t, ws_db s')" "snap_get_authorised_entries v t ns r = Ok rs"
    using pers_read_Done [OF assms(7) [unfolded pers_get_authorised_entries_def]] by blast
  note t = snapshot_owned_view [OF assms(1) ok snap(1)]
  have tables: "tables_ok v d (table_nodes d t) t" and rows: "rows_wf v (stored d (table_nodes d t) t)"
    using ok by (simp_all add: store_ok_def Let_def t)
  obtain xs where xs: "\<And>pt c. (pt, c) \<in> set xs \<longleftrightarrow> stored d (table_nodes d t) t ns pt = Some c \<and> in_query (to_query r) pt"
    and dec: "list_all2 (\<lambda>x e. snap_authorised v t ns x = Ok e) xs es"
    using snap_rows [OF assms(2) tables snap(2) assms(8)] by blast
  have row: "from_authorised_entry (te_sig_to_bytes v) e \<in> set xs \<longleftrightarrow> holds_entry v d t e \<and> in_range3d r (ae_entry e)"
    using xs [of "stored_point v e" "stored_value v e"] assms(9) by (simp add: holds_entry_def to_query_point)
  have "from_authorised_entry (te_sig_to_bytes v) e \<in> set xs"
    if e': "e' \<in> set es" "ae_entry e' = ae_entry e" "t_signature (ae_token e') = t_signature (ae_token e)" for e'
  proof -
    obtain pt c where x: "(pt, c) \<in> set xs" "snap_authorised v t ns (pt, c) = Ok e'"
      using list_all2_partner(2) [OF dec e'(1)] by force
    then obtain e0 :: "('cap, 'sg) AuthorisedEntry" where e0: "e_namespace_id (ae_entry e0) = ns" "path_ok (e_path (ae_entry e0))" "from_authorised_entry (te_sig_to_bytes v) e0 = (pt, c)"
      using rows [unfolded rows_wf_def, rule_format, of ns pt c] xs [of pt c] by blast
    then have "ae_entry e' = ae_entry e0 \<and> t_signature (ae_token e') = t_signature (ae_token e0)"
      using snap_authorised_row [OF assms(3,4) e0(2), of t e'] x(2) by simp
    then show ?thesis
      using same_row [of e e0 "te_sig_to_bytes v"] e' e0(3) x(1) by simp
  qed
  moreover have "\<exists>e' \<in> set es. ae_entry e' = ae_entry e \<and> t_signature (ae_token e') = t_signature (ae_token e)"
    if x: "from_authorised_entry (te_sig_to_bytes v) e \<in> set xs"
  proof -
    obtain e' where "e' \<in> set es" "snap_authorised v t ns (from_authorised_entry (te_sig_to_bytes v) e) = Ok e'"
      using list_all2_partner(1) [OF dec x] by blast
    then show ?thesis using snap_authorised_row [OF assms(3,4,10), of t e'] assms(9) by auto
  qed
  ultimately show ?thesis using row unfolding t by blast
qed

section \<open>A database on which the hypotheses hold\<close>

text \<open>
  Tables are association lists.  A node store is the list of the contents of the nodes that were made so far;
  the node \<open>0\<close> is the empty one.
\<close>

definition alist_table :: "('k, 'v, ('k \<times> 'v) list) table_ops" where
  "alist_table = \<lparr> tb_get = (\<lambda>k t. Ok (map_of t k)), tb_insert = (\<lambda>k v t. Ok (hm_insert k v t)),
     tb_remove = (\<lambda>k t. Ok (map_of t k, hm_remove k t)) \<rparr>"

lemma alist_table_laws: "table_laws alist_table map_of"
  by (auto simp: table_laws_def alist_table_def update_conv' delete_conv' finite_dom_map_of)

type_synonym demo_nodes = "(ws_point \<times> StoredAuthorisedEntry) list list"

definition demo_content :: "demo_nodes \<Rightarrow> nat \<Rightarrow> (ws_point \<times> StoredAuthorisedEntry) list"
  where "demo_content s i = (if i = 0 then [] else s ! (i - 1))"

definition demo_node :: "(nat, demo_nodes) node_ops" where
  "demo_node = \<lparr> nd_EMPTY = 0,
     nd_query = (\<lambda>i q s. map Ok (filter (\<lambda>x. in_query q (fst x)) (AList.clearjunk (demo_content s i)))),
     nd_query_ordered_yzx = (\<lambda>i q s. []),
     nd_insert = (\<lambda>i pt e s. Ok (Suc (length s), s @ [hm_insert pt e (demo_content s i)])),
     nd_delete = (\<lambda>i pt s. Ok (Suc (length s), s @ [hm_remove pt (demo_content s i)])),
     nd_range_count = (\<lambda>i q s. Ok 0), nd_range_summary = (\<lambda>i q s. Ok fp_default), nd_split_range = (\<lambda>i q n s. []) \<rparr>"

definition demo_ids :: "demo_nodes \<Rightarrow> nat set"
  where "demo_ids s = {i. i \<le> length s}"

definition demo_view :: "demo_nodes \<Rightarrow> nat \<Rightarrow> ws_point \<Rightarrow> StoredAuthorisedEntry option"
  where "demo_view s i = map_of (demo_content s i)"

lemma collect_results_Ok: "collect_results (map Ok xs) = Ok xs"
  by (induction xs) simp_all

lemma demo_content_append: "i \<le> length s \<Longrightarrow> demo_content (s @ [x]) i = demo_content s i"
  by (auto simp: demo_content_def nth_append)

lemma demo_node_sel:
  "nd_EMPTY demo_node = 0" "nd_insert demo_node i pt e s = Ok (Suc (length s), s @ [hm_insert pt e (demo_content s i)])"
  "nd_delete demo_node i pt s = Ok (Suc (length s), s @ [hm_remove pt (demo_content s i)])"
  by (simp_all add: demo_node_def)

lemma demo_node_update:
  "m = map_of x \<Longrightarrow> node_update demo_node demo_ids demo_view s i m (Suc (length s)) (s @ [x])"
  by (auto simp: node_update_def demo_ids_def demo_view_def demo_content_append) (simp add: demo_content_def)

lemma demo_node_laws: "node_laws demo_node demo_ids demo_view"
  unfolding node_laws_def
proof (intro conjI allI impI)
  fix s i q xs
  assume "collect_results (nd_query demo_node i q s) = Ok xs"
  then have xs: "xs = filter (\<lambda>x. in_query q (fst x)) (AList.clearjunk (demo_content s i))"
    by (simp add: demo_node_def collect_results_Ok)
  show "distinct (map fst xs)" unfolding xs by (simp add: distinct_map_filter)
  show "(pt, e) \<in> set xs \<longleftrightarrow> demo_view s i pt = Some e \<and> in_query q pt" for pt e
    using map_of_eq_Some_iff [OF distinct_clearjunk, of "demo_content s i" pt e] map_of_clearjunk [of "demo_content s i"]
    by (auto simp: xs demo_view_def)
next
  fix s i pt e i' s'
  assume "nd_insert demo_node i pt e s = Ok (i', s')"
  then show "node_update demo_node demo_ids demo_view s i ((demo_view s i)(pt \<mapsto> e)) i' s'"
    using demo_node_update [of _ "hm_insert pt e (demo_content s i)"] by (auto simp: demo_node_sel demo_view_def update_conv')
next
  fix s i pt i' s'
  assume "nd_delete demo_node i pt s = Ok (i', s')"
  then show "node_update demo_node demo_ids demo_view s i ((demo_view s i)(pt := None)) i' s'"
    using demo_node_update [of _ "hm_remove pt (demo_content s i)"] by (auto simp: demo_node_sel demo_view_def delete_conv')
qed (simp_all add: demo_node_sel demo_ids_def demo_view_def finite_dom_map_of, simp add: demo_content_def)

definition demo_subseq_successor :: "BlobSeq \<Rightarrow> BlobSeq option"
  where "demo_subseq_successor p = (if p = [] then None else Some (butlast p @ [last p @ [0]]))"

lemma less_append_zero: "x < c @ [0 :: u8] \<longleftrightarrow> x \<le> c"
proof (induction c arbitrary: x)
  case Nil
  then show ?case by (cases x) auto
next
  case (Cons a c)
  then show ?case by (cases x) auto
qed

lemma subseq_range: "p \<noteq> [] \<Longrightarrow> p \<le> x \<and> x < butlast p @ [last p @ [0]] \<longleftrightarrow> prefix p (x :: BlobSeq)"
proof (induction p arbitrary: x)
  case (Cons a p)
  show ?case
  proof (cases x)
    case (Cons y ys)
    then show ?thesis
      using Cons.IH [of ys] by (cases "p = []") (auto simp: less_append_zero dest: order.antisym)
  qed simp
qed simp

definition demo_tables_env ::
  "((NamespaceId \<times> nat) list, (bytes \<times> unit) list, (bytes \<times> u64) list, demo_nodes, nat, unit, u8) tables_env" where
  "demo_tables_env = \<lparr> te_namespace_nodes = alist_table, te_auth_tokens = alist_table, te_auth_token_refcount = alist_table,
     te_node = demo_node, te_wdm = demo_wdm, te_is_authorised_write = (\<lambda>e token. True), te_sig_to_bytes = (\<lambda>x. [x]),
     te_sig_from_bytes = hd, te_subseq_successor = demo_subseq_successor, te_immediate_successor = (\<lambda>p. p @ [[]]) \<rparr>"

definition demo_db_views :: "((NamespaceId \<times> nat) list, (bytes \<times> unit) list, (bytes \<times> u64) list, demo_nodes, nat, unit) db_views" where
  "demo_db_views = \<lparr> dv_nodes = map_of, dv_tokens = map_of, dv_counts = map_of, dv_ids = demo_ids, dv_node = demo_view \<rparr>"

definition demo_redb :: "('t, 't) redb" where
  "demo_redb = \<lparr> rd_begin_write = Ok, rd_begin_read = Ok, rd_commit = (\<lambda>t d. Ok t) \<rparr>"

definition demo_tables :: "((NamespaceId \<times> nat) list, (bytes \<times> unit) list, (bytes \<times> u64) list, demo_nodes) EntryTables" where
  "demo_tables = \<lparr> tt_namespace_nodes = [], tt_auth_tokens = [], tt_auth_token_refcount = [], tt_node_store = [] \<rparr>"

lemma demo_db_laws:
  "redb_laws demo_redb (\<lambda>d. d)" "tables_laws demo_tables_env demo_db_views" "subseq_law demo_tables_env"
  "empty_tables demo_db_views demo_tables"
  by (simp_all add: redb_laws_def demo_redb_def tables_laws_def demo_tables_env_def demo_db_views_def alist_table_laws demo_node_laws
      empty_tables_def demo_tables_def)
    (use subseq_range in \<open>auto simp: subseq_law_def in_query_range_def demo_subseq_successor_def\<close>)

theorem db_refines_tables_witness:
  "fst (run_ops (db_exec demo_redb) [OpModify 0 (\<lambda>t. (Done t, t + 2)), OpSnapshot id] (db_new (5 :: nat))) = Done [5, 7] \<and>
   db_redb (snd (run_ops (db_exec demo_redb) [OpModify 0 (\<lambda>t. (Done t, t + 2)), OpSnapshot id] (db_new (5 :: nat)))) = 7"
proof -
  let ?ops = "[OpModify 0 (\<lambda>t. (Done t, t + 2)), OpSnapshot id] :: (nat, nat) db_op list"
  have run: "run_ops (db_exec demo_redb) ?ops (db_new 5) = (Done [5, 7], \<lparr> db_redb = 7, db_tx = CT_Read 7 \<rparr>)"
    by (simp add: db_modify_def db_tables_def db_snapshot_def take_tx_run rbind_def ret_def gets_def modify_def db_new_def
        db_begin_write_def db_begin_read_def ow_commit_def demo_redb_def try_anyhow_def try_res_def)
  have "redb_laws (demo_redb :: (nat, nat) redb) (\<lambda>d. d)" by (simp add: redb_laws_def demo_redb_def)
  moreover have "db_inv (\<lambda>d. d) (db_new (5 :: nat))" by (simp add: db_inv_def db_new_def)
  ultimately show ?thesis
    using db_refines_tables [OF _ _ run, of "\<lambda>d. d"] run by (simp add: db_view_def)
qed

lemmas demo_run_simps = rbind_def ret_def gets_def modify_def on_db_def on_tables_def insert_event_def checked_def
  try_anyhow_def try_res_def take_tx_run db_tables_def db_begin_write_def demo_redb_def db_new_def

definition demo_stored :: "('d, ((NamespaceId \<times> nat) list, (bytes \<times> unit) list, (bytes \<times> u64) list, demo_nodes) EntryTables, unit, u8) WillowStore
    \<Rightarrow> bool" where
  "demo_stored s \<longleftrightarrow> (\<exists>w. db_tx (ws_db s) = CT_Write w \<and>
     ow_tables w = \<lparr> tt_namespace_nodes = [(e_namespace_id demo_entry, 1)], tt_auth_tokens = [([3], ())],
       tt_auth_token_refcount = [([3], 1)],
       tt_node_store = [[(stored_point demo_tables_env demo_authorised, stored_value demo_tables_env demo_authorised)]] \<rparr>)"

lemma demo_ingest:
  "\<exists>s'. pers_ingest_entry demo_redb demo_tables_env 0 demo_authorised Local (willow_store_new demo_tables) = (Done True, s') \<and>
     demo_stored s'"
  by (simp add: demo_run_simps pers_ingest_entry_def Let_def willow_store_new_def ingest_tables_def demo_tables_env_def
      alist_table_def demo_tables_def demo_node_def demo_content_def ingest_insert_def from_authorised_entry_def
      add_entry_auth_token_def node_insert_def demo_stored_def demo_authorised_def
      set_ws_events_def split: prod.splits)

lemma demo_start: "tables_ok demo_tables_env demo_db_views
    (table_nodes demo_db_views (db_view (\<lambda>d. d) (ws_db (willow_store_new demo_tables))))
    (db_view (\<lambda>d. d) (ws_db (willow_store_new demo_tables)))"
  using empty_tables_ok [OF demo_db_laws(4)] by (simp add: willow_store_new_def db_new_def db_view_def)



definition demo_range :: Range3d
  where "demo_range = \<lparr> r_subspaces = Range user_min_value Open, r_paths = Range [] Open, r_times = Range 0 Open \<rparr>"

lemma demo_in_range: "in_range3d demo_range (ae_entry demo_authorised)"
  using replicate_Suc [of 31 "0 :: u8"] replicate_Suc [of 31 "2 :: u8"]
  by (simp add: in_range3d_def demo_range_def demo_authorised_def demo_entry_def user_min_value_def less_eq_UserId_def)

lemma demo_sig_law: "sig_law demo_tables_env"
  by (simp add: sig_law_def demo_tables_env_def)

lemma demo_path_law: "path_laws (te_wdm demo_tables_env)"
  by (simp add: demo_tables_env_def demo_path_laws)

lemma demo_read:
  assumes "demo_stored s"
  shows "\<exists>s'. pers_get_authorised_entries demo_redb demo_tables_env (e_namespace_id demo_entry) demo_range s = (Done [Ok demo_authorised], s')"
proof -
  let ?row = "from_authorised_entry (te_sig_to_bytes demo_tables_env) demo_authorised"
  obtain w where w: "db_tx (ws_db s) = CT_Write w"
    "ow_tables w = \<lparr> tt_namespace_nodes = [(e_namespace_id demo_entry, 1)], tt_auth_tokens = [([3], ())],
       tt_auth_token_refcount = [([3], 1)], tt_node_store = [[(fst ?row, snd ?row)]] \<rparr>"
    using assms by (auto simp: demo_stored_def)
  have in_q: "in_query (to_query demo_range) (fst ?row)" using demo_in_range to_query_point by blast
  have "snap_authorised demo_tables_env (ow_tables w) (e_namespace_id demo_entry) ?row = Ok demo_authorised"
    using blobseq_to_path_roundtrip [OF demo_path_laws demo_path_ok(1)]
    by (simp add: snap_authorised_def from_authorised_entry_def get_entry_auth_token_def into_authorised_entry_def into_entry_def
        authorised_entry_new_def w(2) demo_tables_env_def alist_table_def demo_authorised_def demo_entry_def)
  then have "snap_get_authorised_entries demo_tables_env (ow_tables w) (e_namespace_id demo_entry) demo_range = Ok [Ok demo_authorised]"
    using in_q by (simp add: snap_get_authorised_entries_def w(2) demo_tables_env_def alist_table_def demo_node_def demo_content_def)
  then show ?thesis
    by (simp add: pers_get_authorised_entries_def pers_read_def demo_run_simps db_snapshot_owned_def db_flush_def ow_commit_def
        db_begin_read_def w(1))
qed

theorem persistent_query_exact_witness:
  "\<exists>s. pers_reach demo_redb demo_tables_env demo_tables s \<and>
     holds_entry demo_tables_env demo_db_views (db_view (\<lambda>d. d) (ws_db s)) demo_authorised \<and> in_range3d demo_range demo_entry"
proof -
  have e: "path_ok (e_path (ae_entry demo_authorised))" "e_namespace_id (ae_entry demo_authorised) = e_namespace_id demo_entry"
    "ae_entry demo_authorised = demo_entry"
    by (simp_all add: demo_authorised_def demo_entry_def)
  obtain s where run: "pers_ingest_entry demo_redb demo_tables_env 0 demo_authorised Local (willow_store_new demo_tables) = (Done True, s)"
    and st: "demo_stored s"
    using demo_ingest by blast
  have reach: "pers_reach demo_redb demo_tables_env demo_tables s" by (rule pers_ingest [OF pers_start e(1) run])
  obtain s' where rd: "pers_get_authorised_entries demo_redb demo_tables_env (e_namespace_id demo_entry) demo_range s = (Done [Ok demo_authorised], s')"
    using demo_read [OF st] by blast
  have "collect_results [Ok demo_authorised] = (Ok [demo_authorised] :: string + _)" by simp
  from persistent_query_exact [OF demo_db_laws(1,2) demo_sig_law demo_path_law demo_db_laws(4) reach rd this e(2,1)]
  show ?thesis using reach e(3) by auto
qed

subsection \<open>What the bookkeeping does not do\<close>

text \<open>A reference count above one never goes down: a token that was added twice is never removed.\<close>

lemma shared_token_never_released:
  assumes "tb_get (te_auth_token_refcount v) key (tt_auth_token_refcount t) = Ok (Some n)" "1 < n"
  shows "remove_entry_auth_token v key t = (Done None, t)"
proof -
  have "n \<noteq> 0" "n - 1 \<noteq> 0" using assms(2) by auto
  then show ?thesis
    using assms(1) by (simp add: remove_entry_auth_token_def rbind_def gets_def ret_def checked_def try_anyhow_def try_res_def)
qed

text \<open>
  An ingestion that fails leaves its changes in the open transaction, which a later flush commits: here the node
  store refuses the entry after its token was counted.
\<close>

lemma failed_ingest_keeps_changes:
  fixes full :: "((NamespaceId \<times> nat) list, (bytes \<times> unit) list, (bytes \<times> u64) list, demo_nodes, nat, unit, u8) tables_env"
  defines "full \<equiv> demo_tables_env\<lparr> te_node := demo_node\<lparr> nd_insert := \<lambda>i pt e s. Err ''disk full'' \<rparr> \<rparr>"
  shows "\<exists>s' w. pers_ingest_entry demo_redb full 0 demo_authorised Local (willow_store_new demo_tables) = (Failed (E_Store ''disk full''), s') \<and>
    db_tx (ws_db s') = CT_Write w \<and> ow_tables w = demo_tables\<lparr> tt_auth_tokens := [([3], ())], tt_auth_token_refcount := [([3], 1)] \<rparr>"
  by (simp add: full_def demo_run_simps pers_ingest_entry_def Let_def willow_store_new_def ingest_tables_def demo_tables_env_def
      alist_table_def demo_tables_def demo_node_def demo_content_def ingest_insert_def from_authorised_entry_def
      add_entry_auth_token_def node_insert_def demo_authorised_def set_ws_events_def split: prod.splits)

end
