(* ===== verification/Persistent_Caps.thy ===== *)
theory Persistent_Caps
  imports Persistent_Store
begin

text \<open>
  The secrets and capabilities of the persistent store (\<open>SecretStorage\<close> and \<open>CapsStorage\<close> for
  \<open>Rc<WillowStore>\<close> in \<open>store/persistent.rs\<close>).  Secrets lie in two tables, capabilities in two multimap tables whose
  key is the namespace.  An error of the database is an error of the local store.

  The secrets behave like those of the in-memory store; a capability that is found was inserted and covers the
  selector, and one is found whenever there is one.
\<close>

section \<open>Tables\<close>

record ('n, 'a, 'r, 's, 'us, 'sn, 'rc, 'wc) Tables = "('n, 'a, 'r, 's) EntryTables" +
  tt_user_secrets :: 'us
  tt_namespace_secrets :: 'sn
  tt_read_caps :: 'rc
  tt_write_caps :: 'wc

text \<open>
  \<open>MultimapTable\<close>: \<open>range(k..)\<close> gives the keys from \<open>k\<close> on with their values.  Every row and every value may fail.
\<close>

record ('k, 'v, 't) multimap_ops =
  mm_insert :: "'k \<Rightarrow> 'v \<Rightarrow> 't \<Rightarrow> string + 't"
  mm_range_from :: "'k \<Rightarrow> 't \<Rightarrow> string + (string + 'k \<times> (string + 'v) list) list"

definition rows_readable :: "(string + 'k \<times> (string + 'v) list) list \<Rightarrow> bool" where
  "rows_readable rows \<longleftrightarrow> (\<forall>row \<in> set rows. \<exists>k vs. row = Ok (k, map Ok vs))"

definition multimap_laws :: "('k :: linorder, 'v, 't) multimap_ops \<Rightarrow> ('t \<Rightarrow> ('k \<times> 'v) set) \<Rightarrow> bool" where
  "multimap_laws ops view \<longleftrightarrow>
     (\<forall>k x t t'. mm_insert ops k x t = Ok t' \<longrightarrow> view t' = insert (k, x) (view t)) \<and>
     (\<forall>k t rows k' vs x. mm_range_from ops k t = Ok rows \<longrightarrow> Ok (k', vs) \<in> set rows \<longrightarrow> Ok x \<in> set vs \<longrightarrow>
        k \<le> k' \<and> (k', x) \<in> view t) \<and>
     (\<forall>k t rows k' x. mm_range_from ops k t = Ok rows \<longrightarrow> rows_readable rows \<longrightarrow> k \<le> k' \<longrightarrow> (k', x) \<in> view t \<longrightarrow>
        (\<exists>vs. Ok (k', vs) \<in> set rows \<and> Ok x \<in> set vs))"

record ('us, 'sn, 'rc, 'wc, 'cap, 'scap) caps_env =
  ce_user_secrets :: "(bytes, bytes, 'us) table_ops"
  ce_namespace_secrets :: "(bytes, bytes, 'sn) table_ops"
  ce_read_caps :: "(bytes, ('cap, 'scap) ReadAuthorisation, 'rc) multimap_ops"
  ce_write_caps :: "(bytes, 'cap, 'wc) multimap_ops"

section \<open>Secrets\<close>

definition secret_insert_tables ::
  "('sk, 'vk, 'sg, 'rng) ed25519 \<Rightarrow> ('us, 'sn, 'rc, 'wc, 'cap, 'scap) caps_env \<Rightarrow> 'sk SecretKey
   \<Rightarrow> (('n, 'a, 'r, 's, 'us, 'sn, 'rc, 'wc) Tables, unit) prog" where
  "secret_insert_tables d v secret =
     (case secret of
        SK_User user \<Rightarrow>
          rbind (gets tt_user_secrets) (\<lambda>t.
          rbind (try_anyhow (tb_insert (ce_user_secrets v) (dalek_vk_as_bytes d (user_verifying_key (usk_public_key d user)))
            (usk_to_bytes d user) t)) (\<lambda>t'.
          modify (\<lambda>s. s\<lparr> tt_user_secrets := t' \<rparr>)))
      | SK_Namespace namespace \<Rightarrow>
          rbind (gets tt_namespace_secrets) (\<lambda>t.
          rbind (try_anyhow (tb_insert (ce_namespace_secrets v) (dalek_vk_as_bytes d (ns_verifying_key (nsk_public_key d namespace)))
            (nsk_to_bytes d namespace) t)) (\<lambda>t'.
          modify (\<lambda>s. s\<lparr> tt_namespace_secrets := t' \<rparr>))))"

definition pers_secret_insert ::
  "('sk, 'vk, 'sg, 'rng) ed25519 \<Rightarrow> ('d, ('n, 'a, 'r, 's, 'us, 'sn, 'rc, 'wc) Tables) redb
   \<Rightarrow> ('us, 'sn, 'rc, 'wc, 'cap, 'scap) caps_env \<Rightarrow> nat \<Rightarrow> 'sk SecretKey
   \<Rightarrow> (('d, ('n, 'a, 'r, 's, 'us, 'sn, 'rc, 'wc) Tables) Db, unit) prog" where
  "pers_secret_insert d b v now secret = db_modify b now (secret_insert_tables d v secret)"

definition pers_get_user ::
  "('sk, 'vk, 'sg, 'rng) ed25519 \<Rightarrow> ('d, ('n, 'a, 'r, 's, 'us, 'sn, 'rc, 'wc) Tables) redb
   \<Rightarrow> ('us, 'sn, 'rc, 'wc, 'cap, 'scap) caps_env \<Rightarrow> nat \<Rightarrow> UserId
   \<Rightarrow> (('d, ('n, 'a, 'r, 's, 'us, 'sn, 'rc, 'wc) Tables) Db, 'sk UserSecretKey option) prog" where
  "pers_get_user d b v now i =
     rbind (db_read b now (\<lambda>t. tb_get (ce_user_secrets v) (user_as_bytes i) (tt_user_secrets t))) (\<lambda>found.
     rbind (try_anyhow found) (\<lambda>user. ret (map_option (usk_from_bytes d) user)))"

definition pers_get_namespace ::
  "('sk, 'vk, 'sg, 'rng) ed25519 \<Rightarrow> ('d, ('n, 'a, 'r, 's, 'us, 'sn, 'rc, 'wc) Tables) redb
   \<Rightarrow> ('us, 'sn, 'rc, 'wc, 'cap, 'scap) caps_env \<Rightarrow> nat \<Rightarrow> NamespaceId
   \<Rightarrow> (('d, ('n, 'a, 'r, 's, 'us, 'sn, 'rc, 'wc) Tables) Db, 'sk NamespaceSecretKey option) prog" where
  "pers_get_namespace d b v now i =
     rbind (db_read b now (\<lambda>t. tb_get (ce_namespace_secrets v) (ns_as_bytes i) (tt_namespace_secrets t))) (\<lambda>found.
     rbind (try_anyhow found) (\<lambda>namespace. ret (map_option (nsk_from_bytes d) namespace)))"

section \<open>Capabilities\<close>

definition caps_insert_tables ::
  "('cap, 'scap, 'sk) meadowcap_fns \<Rightarrow> ('us, 'sn, 'rc, 'wc, 'cap, 'scap) caps_env \<Rightarrow> ('cap, 'scap) CapabilityPack
   \<Rightarrow> (('n, 'a, 'r, 's, 'us, 'sn, 'rc, 'wc) Tables, unit) prog" where
  "caps_insert_tables mc v cap =
     (let namespace_id = ns_as_bytes (cp_namespace mc cap) in
      case cap of
        PackRead r \<Rightarrow>
          rbind (gets tt_read_caps) (\<lambda>t.
          rbind (try_anyhow (mm_insert (ce_read_caps v) namespace_id r t)) (\<lambda>t'.
          modify (\<lambda>s. s\<lparr> tt_read_caps := t' \<rparr>)))
      | PackWrite c \<Rightarrow>
          rbind (gets tt_write_caps) (\<lambda>t.
          rbind (try_anyhow (mm_insert (ce_write_caps v) namespace_id c t)) (\<lambda>t'.
          modify (\<lambda>s. s\<lparr> tt_write_caps := t' \<rparr>))))"

definition pers_caps_insert ::
  "('cap, 'scap, 'sk) meadowcap_fns \<Rightarrow> ('d, ('n, 'a, 'r, 's, 'us, 'sn, 'rc, 'wc) Tables) redb
   \<Rightarrow> ('us, 'sn, 'rc, 'wc, 'cap, 'scap) caps_env \<Rightarrow> nat \<Rightarrow> ('cap, 'scap) CapabilityPack
   \<Rightarrow> (('d, ('n, 'a, 'r, 's, 'us, 'sn, 'rc, 'wc) Tables) Db, unit) prog" where
  "pers_caps_insert mc b v now cap = db_modify b now (caps_insert_tables mc v cap)"

text \<open>\<open>namespace.unwrap_or_default().to_bytes()\<close>: the default id is all zeroes.\<close>

definition caps_range_start :: "NamespaceId option \<Rightarrow> bytes"
  where "caps_range_start namespace = (case namespace of None \<Rightarrow> replicate 32 0 | Some ns \<Rightarrow> ns_as_bytes ns)"

text \<open>The \<open>flat_map\<close> over the rows: rows and values that cannot be read are left out.\<close>

fun ok_values :: "(string + 'v) list \<Rightarrow> 'v list" where
  "ok_values [] = []"
| "ok_values (Inl _ # vs) = ok_values vs"
| "ok_values (Inr x # vs) = x # ok_values vs"

fun row_values :: "(string + 'k \<times> (string + 'v) list) list \<Rightarrow> 'v list" where
  "row_values [] = []"
| "row_values (Inl _ # rows) = row_values rows"
| "row_values (Inr (k, vs) # rows) = ok_values vs @ row_values rows"

definition pers_list_read_caps ::
  "('d, ('n, 'a, 'r, 's, 'us, 'sn, 'rc, 'wc) Tables) redb \<Rightarrow> ('us, 'sn, 'rc, 'wc, 'cap, 'scap) caps_env \<Rightarrow> NamespaceId option
   \<Rightarrow> (('d, ('n, 'a, 'r, 's, 'us, 'sn, 'rc, 'wc) Tables) Db, ('cap, 'scap) ReadAuthorisation list) prog" where
  "pers_list_read_caps b v namespace =
     rbind (db_snapshot b) (\<lambda>t.
     rbind (try_anyhow (mm_range_from (ce_read_caps v) (caps_range_start namespace) (tt_read_caps t))) (\<lambda>rows.
     ret (row_values rows)))"

definition pers_list_write_caps ::
  "('d, ('n, 'a, 'r, 's, 'us, 'sn, 'rc, 'wc) Tables) redb \<Rightarrow> ('us, 'sn, 'rc, 'wc, 'cap, 'scap) caps_env \<Rightarrow> NamespaceId option
   \<Rightarrow> (('d, ('n, 'a, 'r, 's, 'us, 'sn, 'rc, 'wc) Tables) Db, 'cap list) prog" where
  "pers_list_write_caps b v namespace =
     rbind (db_snapshot b) (\<lambda>t.
     rbind (try_anyhow (mm_range_from (ce_write_caps v) (caps_range_start namespace) (tt_write_caps t))) (\<lambda>rows.
     ret (row_values rows)))"

text \<open>\<open>Iterator::find\<close> with a test that may panic\<close>

fun find_opt :: "('a \<Rightarrow> bool option) \<Rightarrow> 'a list \<Rightarrow> 'a option option" where
  "find_opt f [] = Some None"
| "find_opt f (x # xs) = Option.bind (f x) (\<lambda>b. if b then Some (Some x) else find_opt f xs)"

definition pers_get_write_cap ::
  "wdm \<Rightarrow> ('cap, 'scap, 'sk) meadowcap_fns \<Rightarrow> ('d, ('n, 'a, 'r, 's, 'us, 'sn, 'rc, 'wc) Tables) redb
   \<Rightarrow> ('us, 'sn, 'rc, 'wc, 'cap, 'scap) caps_env \<Rightarrow> CapSelector
   \<Rightarrow> (('d, ('n, 'a, 'r, 's, 'us, 'sn, 'rc, 'wc) Tables) Db, 'cap option) prog" where
  "pers_get_write_cap w mc b v selector =
     rbind (pers_list_write_caps b v (Some (cs_namespace_id selector))) (\<lambda>caps.
     unwrap (find_opt (cs_is_covered_by w mc selector) caps))"

definition pers_get_read_cap ::
  "wdm \<Rightarrow> ('cap, 'scap, 'sk) meadowcap_fns \<Rightarrow> ('d, ('n, 'a, 'r, 's, 'us, 'sn, 'rc, 'wc) Tables) redb
   \<Rightarrow> ('us, 'sn, 'rc, 'wc, 'cap, 'scap) caps_env \<Rightarrow> CapSelector
   \<Rightarrow> (('d, ('n, 'a, 'r, 's, 'us, 'sn, 'rc, 'wc) Tables) Db, ('cap, 'scap) ReadAuthorisation option) prog" where
  "pers_get_read_cap w mc b v selector =
     rbind (pers_list_read_caps b v (Some (cs_namespace_id selector))) (\<lambda>caps.
     unwrap (find_opt (\<lambda>cap. cs_is_covered_by w mc selector (ra_read_cap cap)) caps))"

section \<open>Secrets behave like those of the in-memory store\<close>

datatype 'sk secret_op = SecInsert nat "'sk SecretKey" | SecGetUser nat UserId | SecGetNamespace nat NamespaceId

datatype 'sk secret_reply =
    SecInserted
  | SecUser "'sk UserSecretKey option"
  | SecNamespace "'sk NamespaceSecretKey option"

fun pers_secret ::
  "('sk, 'vk, 'sg, 'rng) ed25519 \<Rightarrow> ('d, ('n, 'a, 'r, 's, 'us, 'sn, 'rc, 'wc) Tables) redb
   \<Rightarrow> ('us, 'sn, 'rc, 'wc, 'cap, 'scap) caps_env \<Rightarrow> 'sk secret_op
   \<Rightarrow> (('d, ('n, 'a, 'r, 's, 'us, 'sn, 'rc, 'wc) Tables) Db, 'sk secret_reply) prog" where
  "pers_secret d b v (SecInsert now k) = rbind (pers_secret_insert d b v now k) (\<lambda>_. ret SecInserted)"
| "pers_secret d b v (SecGetUser now i) = rbind (pers_get_user d b v now i) (\<lambda>k. ret (SecUser k))"
| "pers_secret d b v (SecGetNamespace now i) = rbind (pers_get_namespace d b v now i) (\<lambda>k. ret (SecNamespace k))"

fun mem_secret :: "('sk, 'vk, 'sg, 'rng) ed25519 \<Rightarrow> 'sk secret_op \<Rightarrow> ('sk SecretStore, 'sk secret_reply) prog" where
  "mem_secret d (SecInsert now k) =
     (\<lambda>s. case ss_insert d k s of Inl e \<Rightarrow> (Failed (E_KeyStore e), s) | Inr s' \<Rightarrow> (Done SecInserted, s'))"
| "mem_secret d (SecGetUser now i) = rbind (gets (\<lambda>s. ss_get_user s i)) (\<lambda>r. rbind (try_anyhow r) (\<lambda>k. ret (SecUser k)))"
| "mem_secret d (SecGetNamespace now i) =
     rbind (gets (\<lambda>s. ss_get_namespace s i)) (\<lambda>r. rbind (try_anyhow r) (\<lambda>k. ret (SecNamespace k)))"

record ('us, 'sn, 'rc, 'wc, 'cap, 'scap) caps_views =
  cv_user_secrets :: "'us \<Rightarrow> bytes \<Rightarrow> bytes option"
  cv_namespace_secrets :: "'sn \<Rightarrow> bytes \<Rightarrow> bytes option"
  cv_read_caps :: "'rc \<Rightarrow> (bytes \<times> ('cap, 'scap) ReadAuthorisation) set"
  cv_write_caps :: "'wc \<Rightarrow> (bytes \<times> 'cap) set"

definition caps_laws ::
  "('us, 'sn, 'rc, 'wc, 'cap, 'scap) caps_env \<Rightarrow> ('us, 'sn, 'rc, 'wc, 'cap, 'scap) caps_views \<Rightarrow> bool" where
  "caps_laws v c \<longleftrightarrow>
     table_laws (ce_user_secrets v) (cv_user_secrets c) \<and> table_laws (ce_namespace_secrets v) (cv_namespace_secrets c) \<and>
     multimap_laws (ce_read_caps v) (cv_read_caps c) \<and> multimap_laws (ce_write_caps v) (cv_write_caps c)"

text \<open>\<open>SigningKey::from_bytes\<close> reads what \<open>to_bytes\<close> wrote.\<close>

definition secret_bytes_law :: "('sk, 'vk, 'sg, 'rng) ed25519 \<Rightarrow> bool"
  where "secret_bytes_law d \<longleftrightarrow> (\<forall>sk. dalek_sk_from_bytes d (dalek_sk_to_bytes d sk) = sk)"

definition secrets_match ::
  "('sk, 'vk, 'sg, 'rng) ed25519 \<Rightarrow> ('us, 'sn, 'rc, 'wc, 'cap, 'scap) caps_views \<Rightarrow> ('n, 'a, 'r, 's, 'us, 'sn, 'rc, 'wc) Tables
   \<Rightarrow> 'sk SecretStore \<Rightarrow> bool" where
  "secrets_match d c t m \<longleftrightarrow>
     (\<forall>i. map_option (usk_from_bytes d) (cv_user_secrets c (tt_user_secrets t) (user_as_bytes i)) = map_of (ss_user m) i) \<and>
     (\<forall>i. map_option (nsk_from_bytes d) (cv_namespace_secrets c (tt_namespace_secrets t) (ns_as_bytes i)) = map_of (ss_namespace m) i)"

lemma db_modify_Done:
  assumes "redb_laws b c" "db_inv c s" "db_modify b now f s = (Done x, s')"
  shows "f (db_view c s) = (Done x, db_view c s')" "db_inv c s'"
  using db_exec_sim [OF assms(1,2), of "OpModify now f" x s'] assms(3) by simp_all

lemma db_read_Done:
  assumes "redb_laws b c" "db_inv c s" "db_read b now f s = (Done x, s')"
  shows "x = f (db_view c s)" "db_view c s' = db_view c s" "db_inv c s'"
  using db_exec_sim [OF assms(1,2), of "OpRead now f" x s'] assms(3) by (auto simp: gets_def)

lemma db_snapshot_view:
  assumes "redb_laws b c" "db_inv c s" "db_snapshot b s = (Done t, s')"
  shows "t = db_view c s" "db_view c s' = db_view c s" "db_inv c s'"
  using db_snapshot_Done [OF assms] by (simp_all add: db_view_def db_inv_def)

lemma secret_insert_match:
  assumes laws: "caps_laws v c" and sk: "secret_bytes_law d" and m: "secrets_match d c t m"
    and run: "secret_insert_tables d v secret t = (Done x, t')"
  shows "\<exists>m'. ss_insert d secret m = Ok m' \<and> secrets_match d c t' m'"
proof (cases secret)
  case (SK_User k)
  then obtain u where u: "tb_insert (ce_user_secrets v) (user_as_bytes (usk_id d k)) (usk_to_bytes d k) (tt_user_secrets t) = Ok u"
    and t': "t' = t\<lparr> tt_user_secrets := u \<rparr>"
    using run by (auto simp: secret_insert_tables_def gets_def modify_def try_anyhow_Done usk_id_def upk_id_def elim!: rbind_DoneE)
  have "cv_user_secrets c u = (cv_user_secrets c (tt_user_secrets t))(user_as_bytes (usk_id d k) \<mapsto> usk_to_bytes d k)"
    using laws u by (auto simp: caps_laws_def table_laws_def)
  then show ?thesis
    using m sk SK_User by (auto simp: secrets_match_def ss_insert_def t' update_conv' secret_bytes_law_def usk_from_bytes_def
        usk_to_bytes_def UserId.expand)
next
  case (SK_Namespace k)
  then obtain u where u: "tb_insert (ce_namespace_secrets v) (ns_as_bytes (nsk_id d k)) (nsk_to_bytes d k) (tt_namespace_secrets t) = Ok u"
    and t': "t' = t\<lparr> tt_namespace_secrets := u \<rparr>"
    using run by (auto simp: secret_insert_tables_def gets_def modify_def try_anyhow_Done nsk_id_def npk_id_def elim!: rbind_DoneE)
  have "cv_namespace_secrets c u = (cv_namespace_secrets c (tt_namespace_secrets t))(ns_as_bytes (nsk_id d k) \<mapsto> nsk_to_bytes d k)"
    using laws u by (auto simp: caps_laws_def table_laws_def)
  then show ?thesis
    using m sk SK_Namespace by (auto simp: secrets_match_def ss_insert_def t' update_conv' secret_bytes_law_def nsk_from_bytes_def
        nsk_to_bytes_def NamespaceId.expand)
qed

lemma pers_secret_step:
  assumes b: "redb_laws b contents" and laws: "caps_laws v c" and sk: "secret_bytes_law d"
    and inv: "db_inv contents s" and m: "secrets_match d c (db_view contents s) m" and run: "pers_secret d b v op s = (Done x, s')"
  shows "\<exists>m'. mem_secret d op m = (Done x, m') \<and> db_inv contents s' \<and> secrets_match d c (db_view contents s') m'"
proof (cases op)
  case (SecInsert now k)
  then obtain y where y: "db_modify b now (secret_insert_tables d v k) s = (Done y, s')" and x: "x = SecInserted"
    using run by (auto simp: pers_secret_insert_def ret_def elim!: rbind_DoneE)
  note res = db_modify_Done [OF b inv y]
  show ?thesis
    using secret_insert_match [OF laws sk m res(1)] res(2) by (auto simp: SecInsert x)
next
  case (SecGetUser now i)
  then obtain r u where y: "db_read b now (\<lambda>t. tb_get (ce_user_secrets v) (user_as_bytes i) (tt_user_secrets t)) s = (Done r, s')"
    and x: "r = Ok u" "x = SecUser (map_option (usk_from_bytes d) u)"
    using run by (auto simp: pers_get_user_def ret_def try_anyhow_Done elim!: rbind_DoneE)
  note res = db_read_Done [OF b inv y]
  have "u = cv_user_secrets c (tt_user_secrets (db_view contents s)) (user_as_bytes i)"
    using laws res(1) x(1) by (auto simp: caps_laws_def table_laws_def)
  then show ?thesis
    using m res(2,3) by (auto simp: SecGetUser x ss_get_user_def gets_def ret_def rbind_def try_anyhow_def try_res_def secrets_match_def)
next
  case (SecGetNamespace now i)
  then obtain r u where y: "db_read b now (\<lambda>t. tb_get (ce_namespace_secrets v) (ns_as_bytes i) (tt_namespace_secrets t)) s = (Done r, s')"
    and x: "r = Ok u" "x = SecNamespace (map_option (nsk_from_bytes d) u)"
    using run by (auto simp: pers_get_namespace_def ret_def try_anyhow_Done elim!: rbind_DoneE)
  note res = db_read_Done [OF b inv y]
  have "u = cv_namespace_secrets c (tt_namespace_secrets (db_view contents s)) (ns_as_bytes i)"
    using laws res(1) x(1) by (auto simp: caps_laws_def table_laws_def)
  then show ?thesis
    using m res(2,3) by (auto simp: SecGetNamespace x ss_get_namespace_def gets_def ret_def rbind_def try_anyhow_def try_res_def secrets_match_def)
qed

text \<open>
  C32: The secrets of the persistent store behave like those of the in-memory store: every sequence of insertions
  and lookups that succeeds gives the same replies on both, whether or not transactions are committed in between.
\<close>

theorem persistent_secrets_like_memory:
  assumes "redb_laws b contents" "caps_laws v c" "secret_bytes_law d"
    and "db_inv contents s" "secrets_match d c (db_view contents s) m" "run_ops (pers_secret d b v) ops s = (Done xs, s')"
  shows "\<exists>m'. run_ops (mem_secret d) ops m = (Done xs, m') \<and> secrets_match d c (db_view contents s') m'"
  using assms(4-6)
proof (induction ops arbitrary: s m xs)
  case (Cons op ops)
  then obtain x s1 ys where step: "pers_secret d b v op s = (Done x, s1)" and rest: "run_ops (pers_secret d b v) ops s1 = (Done ys, s')"
    and xs: "xs = x # ys"
    by (auto simp: ret_def elim!: rbind_DoneE)
  obtain m1 where m1: "mem_secret d op m = (Done x, m1)" "db_inv contents s1" "secrets_match d c (db_view contents s1) m1"
    using pers_secret_step [OF assms(1-3) Cons.prems(1,2) step] by blast
  show ?case
    using Cons.IH [OF m1(2,3) rest] m1(1) by (auto simp: xs rbind_def ret_def)
qed (auto simp: ret_def)

section \<open>Selection of capabilities\<close>

lemma set_ok_values: "x \<in> set (ok_values vs) \<longleftrightarrow> Ok x \<in> set vs"
  by (induction vs rule: ok_values.induct) auto

lemma set_row_values: "x \<in> set (row_values rows) \<longleftrightarrow> (\<exists>k vs. Ok (k, vs) \<in> set rows \<and> Ok x \<in> set vs)"
  by (induction rows rule: row_values.induct) (auto simp: set_ok_values)

lemma find_opt_Some: "find_opt f xs = Some (Some x) \<Longrightarrow> x \<in> set xs \<and> f x = Some True"
  by (induction xs) (auto simp: bind_eq_Some_conv split: if_splits)

lemma find_opt_None: "find_opt f xs = Some None \<Longrightarrow> x \<in> set xs \<Longrightarrow> f x = Some False"
  by (induction xs) (auto simp: bind_eq_Some_conv split: if_splits)

text \<open>The rows of the multimap tables for a set of capabilities\<close>

definition read_rows :: "('cap, 'scap, 'sk) meadowcap_fns \<Rightarrow> ('cap, 'scap) CapabilityPack set \<Rightarrow> (bytes \<times> ('cap, 'scap) ReadAuthorisation) set"
  where "read_rows mc H = {(ns_as_bytes (cp_namespace mc (PackRead a)), a) |a. PackRead a \<in> H}"

definition write_rows :: "('cap, 'scap, 'sk) meadowcap_fns \<Rightarrow> ('cap, 'scap) CapabilityPack set \<Rightarrow> (bytes \<times> 'cap) set"
  where "write_rows mc H = {(ns_as_bytes (cp_namespace mc (PackWrite a)), a) |a. PackWrite a \<in> H}"

text \<open>The runs of a store that starts without capabilities, with the set of the inserted capabilities.\<close>

inductive caps_reach ::
  "wdm \<Rightarrow> ('cap, 'scap, 'sk) meadowcap_fns \<Rightarrow> ('d, ('n, 'a, 'r, 's, 'us, 'sn, 'rc, 'wc) Tables) redb
   \<Rightarrow> ('us, 'sn, 'rc, 'wc, 'cap, 'scap) caps_env \<Rightarrow> 'd
   \<Rightarrow> ('d, ('n, 'a, 'r, 's, 'us, 'sn, 'rc, 'wc) Tables) Db \<Rightarrow> ('cap, 'scap) CapabilityPack set \<Rightarrow> bool"
  for w mc b v d0 where
  caps_start: "caps_reach w mc b v d0 (db_new d0) {}"
| caps_inserted: "caps_reach w mc b v d0 s H \<Longrightarrow> pers_caps_insert mc b v now p s = (Done x, s') \<Longrightarrow>
    caps_reach w mc b v d0 s' (insert p H)"
| caps_listed_read: "caps_reach w mc b v d0 s H \<Longrightarrow> pers_list_read_caps b v ns s = (Done rs, s') \<Longrightarrow> caps_reach w mc b v d0 s' H"
| caps_listed_write: "caps_reach w mc b v d0 s H \<Longrightarrow> pers_list_write_caps b v ns s = (Done ws, s') \<Longrightarrow> caps_reach w mc b v d0 s' H"
| caps_got_read: "caps_reach w mc b v d0 s H \<Longrightarrow> pers_get_read_cap w mc b v sel s = (Done r, s') \<Longrightarrow> caps_reach w mc b v d0 s' H"
| caps_got_write: "caps_reach w mc b v d0 s H \<Longrightarrow> pers_get_write_cap w mc b v sel s = (Done c, s') \<Longrightarrow> caps_reach w mc b v d0 s' H"

definition caps_rows_ok ::
  "('cap, 'scap, 'sk) meadowcap_fns \<Rightarrow> ('us, 'sn, 'rc, 'wc, 'cap, 'scap) caps_views \<Rightarrow> ('n, 'a, 'r, 's, 'us, 'sn, 'rc, 'wc) Tables
   \<Rightarrow> ('cap, 'scap) CapabilityPack set \<Rightarrow> bool" where
  "caps_rows_ok mc c t H \<longleftrightarrow> cv_read_caps c (tt_read_caps t) = read_rows mc H \<and> cv_write_caps c (tt_write_caps t) = write_rows mc H"

lemma caps_insert_rows:
  assumes "caps_laws v c" "caps_rows_ok mc c t H" "caps_insert_tables mc v p t = (Done x, t')"
  shows "caps_rows_ok mc c t' (insert p H)"
  using assms
  by (cases p) (auto simp: caps_insert_tables_def Let_def gets_def modify_def try_anyhow_Done caps_rows_ok_def caps_laws_def
      multimap_laws_def read_rows_def write_rows_def elim!: rbind_DoneE)

lemma list_caps_Done:
  assumes b: "redb_laws b contents" and inv: "db_inv contents s"
  shows "pers_list_read_caps b v ns s = (Done rs, s') \<Longrightarrow> db_view contents s' = db_view contents s \<and> db_inv contents s' \<and>
      (\<exists>rows. mm_range_from (ce_read_caps v) (caps_range_start ns) (tt_read_caps (db_view contents s)) = Ok rows \<and> rs = row_values rows)"
    and "pers_list_write_caps b v ns s = (Done ws, s') \<Longrightarrow> db_view contents s' = db_view contents s \<and> db_inv contents s' \<and>
      (\<exists>rows. mm_range_from (ce_write_caps v) (caps_range_start ns) (tt_write_caps (db_view contents s)) = Ok rows \<and> ws = row_values rows)"
  by (auto simp: pers_list_read_caps_def pers_list_write_caps_def try_anyhow_Done ret_def dest: db_snapshot_view [OF b inv] elim!: rbind_DoneE)

lemma caps_reach_ok:
  assumes b: "redb_laws b contents" and laws: "caps_laws v c" and empty: "caps_rows_ok mc c (contents d0) {}"
    and "caps_reach w mc b v d0 s H"
  shows "db_inv contents s \<and> caps_rows_ok mc c (db_view contents s) H"
  using assms(4)
proof (induction rule: caps_reach.induct)
  case caps_start
  then show ?case using empty by (simp add: db_new_def db_inv_def db_view_def)
next
  case (caps_inserted s H now p x s')
  then show ?case
    using db_modify_Done [OF b] caps_insert_rows [OF laws] unfolding pers_caps_insert_def by metis
next
  case (caps_listed_read s H ns rs s')
  then show ?case using list_caps_Done(1) [OF b] by metis
next
  case (caps_listed_write s H ns ws s')
  then show ?case using list_caps_Done(2) [OF b] by metis
next
  case (caps_got_read s H sel r s')
  then obtain rs where "pers_list_read_caps b v (Some (cs_namespace_id sel)) s = (Done rs, s')"
    by (auto simp: pers_get_read_cap_def unwrap_Done elim!: rbind_DoneE)
  then show ?case using list_caps_Done(1) [OF b] caps_got_read.IH by metis
next
  case (caps_got_write s H sel cp s')
  then obtain ws where "pers_list_write_caps b v (Some (cs_namespace_id sel)) s = (Done ws, s')"
    by (auto simp: pers_get_write_cap_def unwrap_Done elim!: rbind_DoneE)
  then show ?case using list_caps_Done(2) [OF b] caps_got_write.IH by metis
qed

lemma multimap_lawsD:
  assumes "multimap_laws ops view" "mm_range_from ops k t = Ok rows"
  shows "a \<in> set (row_values rows) \<Longrightarrow> \<exists>k'. k \<le> k' \<and> (k', a) \<in> view t"
    and "rows_readable rows \<Longrightarrow> (k', a) \<in> view t \<Longrightarrow> k \<le> k' \<Longrightarrow> a \<in> set (row_values rows)"
proof -
  show "\<exists>k'. k \<le> k' \<and> (k', a) \<in> view t" if "a \<in> set (row_values rows)"
    using assms that unfolding multimap_laws_def set_row_values by metis
  show "a \<in> set (row_values rows)" if "rows_readable rows" "(k', a) \<in> view t" "k \<le> k'"
    using assms that unfolding multimap_laws_def set_row_values by metis
qed

lemma find_in_rows:
  assumes laws: "multimap_laws ops view" and rows: "mm_range_from ops (ns_as_bytes ns) t = Ok rows"
    and view: "view t = {(ns_as_bytes (f a), a) |a. a \<in> A}" and ns: "\<forall>a. g a = Some True \<longrightarrow> f a = ns"
    and found: "find_opt g (row_values rows) = Some r"
  shows "r = Some a \<Longrightarrow> a \<in> A \<and> g a = Some True"
    and "r = None \<Longrightarrow> rows_readable rows \<Longrightarrow> a \<in> A \<Longrightarrow> g a \<noteq> Some True"
proof -
  show "a \<in> A \<and> g a = Some True" if "r = Some a"
    using multimap_lawsD(1) [OF laws rows, of a] view find_opt_Some [of g "row_values rows" a] found that by auto
  show "g a \<noteq> Some True" if "r = None" "rows_readable rows" "a \<in> A"
  proof
    assume ga: "g a = Some True"
    then have "(ns_as_bytes ns, a) \<in> view t" using ns that(3) view by blast
    then have "a \<in> set (row_values rows)" using multimap_lawsD(2) [OF laws rows that(2)] by blast
    then show False using find_opt_None found that(1) ga by fastforce
  qed
qed

text \<open>What a lookup promises of the capabilities \<open>A\<close> of its kind.\<close>

definition selects :: "('a \<Rightarrow> bool) \<Rightarrow> 'a set \<Rightarrow> bool \<Rightarrow> 'a option \<Rightarrow> bool" where
  "selects covers A readable r \<longleftrightarrow>
     (\<forall>a. r = Some a \<longrightarrow> a \<in> A \<and> covers a) \<and> (r = None \<and> readable \<longrightarrow> (\<forall>a \<in> A. \<not> covers a))"

definition table_readable :: "(bytes, 'v, 't) multimap_ops \<Rightarrow> 't \<Rightarrow> bool"
  where "table_readable ops t \<longleftrightarrow> (\<forall>k rows. mm_range_from ops k t = Ok rows \<longrightarrow> rows_readable rows)"

lemma covers_namespace: "cap_covers w mc sel cp \<Longrightarrow> mc_granted_namespace mc cp = cs_namespace_id sel"
  by (auto simp: cs_is_covered_by_def split: if_splits)

lemma get_read_cap_selects:
  assumes "redb_laws b contents" "caps_laws v c" "db_inv contents s" "caps_rows_ok mc c (db_view contents s) H"
    and run: "pers_get_read_cap w mc b v sel s = (Done r, s')"
  shows "selects (\<lambda>a. cap_covers w mc sel (ra_read_cap a)) {a. PackRead a \<in> H}
    (table_readable (ce_read_caps v) (tt_read_caps (db_view contents s))) r"
proof -
  let ?t = "tt_read_caps (db_view contents s)"
  obtain caps where caps: "pers_list_read_caps b v (Some (cs_namespace_id sel)) s = (Done caps, s')"
    and found: "find_opt (\<lambda>cap. cs_is_covered_by w mc sel (ra_read_cap cap)) caps = Some r"
    using run by (auto simp: pers_get_read_cap_def unwrap_Done elim!: rbind_DoneE)
  then obtain rs where rs: "mm_range_from (ce_read_caps v) (ns_as_bytes (cs_namespace_id sel)) ?t = Ok rs" and "caps = row_values rs"
    using list_caps_Done(1) [OF assms(1,3) caps] by (auto simp: caps_range_start_def)
  note found' = found [unfolded \<open>caps = _\<close>]
  have view: "cv_read_caps c ?t = {(ns_as_bytes (mc_granted_namespace mc (ra_read_cap a)), a) |a. a \<in> {a. PackRead a \<in> H}}"
    using assms(4) by (simp add: caps_rows_ok_def read_rows_def ra_namespace_def)
  have laws: "multimap_laws (ce_read_caps v) (cv_read_caps c)" using assms(2) by (simp add: caps_laws_def)
  have ns: "\<forall>a. cap_covers w mc sel (ra_read_cap a) \<longrightarrow> mc_granted_namespace mc (ra_read_cap a) = cs_namespace_id sel" using covers_namespace [of w mc sel] by blast
  note res = find_in_rows [where f = "\<lambda>a. mc_granted_namespace mc (ra_read_cap a)", OF laws rs view ns found']
  show ?thesis
    using res rs unfolding selects_def table_readable_def by blast
qed

lemma get_write_cap_selects:
  assumes "redb_laws b contents" "caps_laws v c" "db_inv contents s" "caps_rows_ok mc c (db_view contents s) H"
    and run: "pers_get_write_cap w mc b v sel s = (Done r, s')"
  shows "selects (cap_covers w mc sel) {a. PackWrite a \<in> H}
    (table_readable (ce_write_caps v) (tt_write_caps (db_view contents s))) r"
proof -
  let ?t = "tt_write_caps (db_view contents s)"
  obtain caps where caps: "pers_list_write_caps b v (Some (cs_namespace_id sel)) s = (Done caps, s')"
    and found: "find_opt (cs_is_covered_by w mc sel) caps = Some r"
    using run by (auto simp: pers_get_write_cap_def unwrap_Done elim!: rbind_DoneE)
  then obtain rs where rs: "mm_range_from (ce_write_caps v) (ns_as_bytes (cs_namespace_id sel)) ?t = Ok rs" and "caps = row_values rs"
    using list_caps_Done(2) [OF assms(1,3) caps] by (auto simp: caps_range_start_def)
  note found' = found [unfolded \<open>caps = _\<close>]
  have view: "cv_write_caps c ?t = {(ns_as_bytes (mc_granted_namespace mc a), a) |a. a \<in> {a. PackWrite a \<in> H}}"
    using assms(4) by (simp add: caps_rows_ok_def write_rows_def)
  have laws: "multimap_laws (ce_write_caps v) (cv_write_caps c)" using assms(2) by (simp add: caps_laws_def)
  have ns: "\<forall>a. cap_covers w mc sel a \<longrightarrow> mc_granted_namespace mc a = cs_namespace_id sel" using covers_namespace [of w mc sel] by blast
  note res = find_in_rows [where f = "mc_granted_namespace mc", OF laws rs view ns found']
  show ?thesis
    using res rs unfolding selects_def table_readable_def by blast
qed

text \<open>
  C30: Selecting a capability in the persistent store, in every run that starts without capabilities: a read or
  write capability that is returned was inserted and is covered by the selector; when none is returned and every row
  could be read, no inserted capability of that kind is covered by the selector.
\<close>

theorem persistent_caps_selection:
  assumes "redb_laws b contents" "caps_laws v c" "caps_rows_ok mc c (contents d0) {}" "caps_reach w mc b v d0 s H"
  shows "(\<forall>r s'. pers_get_read_cap w mc b v sel s = (Done r, s') \<longrightarrow>
      selects (\<lambda>a. cap_covers w mc sel (ra_read_cap a)) {a. PackRead a \<in> H}
        (table_readable (ce_read_caps v) (tt_read_caps (db_view contents s))) r) \<and>
    (\<forall>r s'. pers_get_write_cap w mc b v sel s = (Done r, s') \<longrightarrow>
      selects (cap_covers w mc sel) {a. PackWrite a \<in> H}
        (table_readable (ce_write_caps v) (tt_write_caps (db_view contents s))) r)"
proof -
  have inv: "db_inv contents s" "caps_rows_ok mc c (db_view contents s) H" using caps_reach_ok [OF assms] by auto
  show ?thesis
    using get_read_cap_selects [OF assms(1,2) inv] get_write_cap_selects [OF assms(1,2) inv] by blast
qed

section \<open>Tables on which the hypotheses hold\<close>

definition alist_multimap :: "(bytes, 'v, (bytes \<times> 'v) list) multimap_ops" where
  "alist_multimap = \<lparr> mm_insert = (\<lambda>k x t. Ok ((k, x) # t)),
     mm_range_from = (\<lambda>k t. Ok (map (\<lambda>(k', x). Ok (k', [Ok x])) (filter (\<lambda>(k', x). k \<le> k') t))) \<rparr>"

lemma alist_multimap_laws: "multimap_laws alist_multimap set"
  by (fastforce simp: multimap_laws_def alist_multimap_def)

lemma alist_multimap_readable: "table_readable alist_multimap t"
  by (force simp: table_readable_def alist_multimap_def rows_readable_def intro: exI [of _ "[_]"])

type_synonym demo_alists =
  "((NamespaceId \<times> nat) list, (bytes \<times> unit) list, (bytes \<times> u64) list, demo_nodes, (bytes \<times> bytes) list, (bytes \<times> bytes) list,
    (bytes \<times> (demo_cap, unit) ReadAuthorisation) list, (bytes \<times> demo_cap) list) Tables"

definition demo_caps_env ::
  "((bytes \<times> bytes) list, (bytes \<times> bytes) list, (bytes \<times> (demo_cap, unit) ReadAuthorisation) list, (bytes \<times> demo_cap) list,
    demo_cap, unit) caps_env" where
  "demo_caps_env = \<lparr> ce_user_secrets = alist_table, ce_namespace_secrets = alist_table,
     ce_read_caps = alist_multimap, ce_write_caps = alist_multimap \<rparr>"

definition demo_caps_views ::
  "((bytes \<times> bytes) list, (bytes \<times> bytes) list, (bytes \<times> (demo_cap, unit) ReadAuthorisation) list, (bytes \<times> demo_cap) list,
    demo_cap, unit) caps_views" where
  "demo_caps_views = \<lparr> cv_user_secrets = map_of, cv_namespace_secrets = map_of, cv_read_caps = set, cv_write_caps = set \<rparr>"

definition demo_alists :: demo_alists where
  "demo_alists = \<lparr> tt_namespace_nodes = [], tt_auth_tokens = [], tt_auth_token_refcount = [], tt_node_store = [],
     tt_user_secrets = [], tt_namespace_secrets = [], tt_read_caps = [], tt_write_caps = [] \<rparr>"

lemma demo_caps_laws:
  "redb_laws (demo_redb :: (demo_alists, demo_alists) redb) (\<lambda>d. d)" "caps_laws demo_caps_env demo_caps_views"
  "caps_rows_ok mc demo_caps_views demo_alists {}" "secret_bytes_law demo_scheme"
  by (simp_all add: redb_laws_def demo_redb_def caps_laws_def demo_caps_env_def demo_caps_views_def alist_table_laws alist_multimap_laws
      caps_rows_ok_def read_rows_def write_rows_def demo_alists_def secret_bytes_law_def demo_scheme_def nth_replicate_end)

definition demo_secret_ops :: "u8 secret_op list"
  where "demo_secret_ops = [SecInsert 0 (SK_User (UserSecretKey 5)), SecGetUser 900 (demo_user 5), SecGetUser 950 (demo_user 6)]"

theorem persistent_secrets_like_memory_witness:
  "\<exists>s' m'. run_ops (pers_secret demo_scheme (demo_redb :: (demo_alists, demo_alists) redb) demo_caps_env) demo_secret_ops (db_new demo_alists) =
     (Done [SecInserted, SecUser (Some (UserSecretKey 5)), SecUser None], s') \<and>
   run_ops (mem_secret demo_scheme) demo_secret_ops \<lparr> ss_user = [], ss_namespace = [] \<rparr> =
     (Done [SecInserted, SecUser (Some (UserSecretKey 5)), SecUser None], m')"
proof -
  obtain s' where run: "run_ops (pers_secret demo_scheme (demo_redb :: (demo_alists, demo_alists) redb) demo_caps_env) demo_secret_ops
      (db_new demo_alists) = (Done [SecInserted, SecUser (Some (UserSecretKey 5)), SecUser None], s')"
    by (simp add: demo_run_simps pers_secret_insert_def pers_get_user_def db_modify_def db_read_def secret_insert_tables_def MAX_COMMIT_DELAY_def
        demo_caps_env_def alist_table_def demo_alists_def demo_user_def ow_commit_def usk_id_def upk_id_def usk_public_key_def usk_to_bytes_def
        usk_from_bytes_def demo_scheme_def nth_replicate_end demo_secret_ops_def)
  have "db_inv (\<lambda>d. d) (db_new demo_alists)" by (simp add: db_inv_def db_new_def)
  moreover have "secrets_match demo_scheme demo_caps_views (db_view (\<lambda>d. d) (db_new demo_alists)) \<lparr> ss_user = [], ss_namespace = [] \<rparr>"
    by (simp add: secrets_match_def demo_caps_views_def db_view_def db_new_def demo_alists_def)
  ultimately show ?thesis
    using persistent_secrets_like_memory [OF demo_caps_laws(1,2,4) _ _ run] run by blast
qed

subsection \<open>Capabilities\<close>

text \<open>
  The store holds a capability for everything, one for the path \<open>[[1]]\<close>, and one of a later namespace, inserted in this order.
\<close>

definition demo_later_cap :: demo_cap
  where "demo_later_cap = (demo_mc_cap [] 0)\<lparr> dc_namespace := NamespaceId (replicate 32 7) \<rparr>"

definition demo_packs :: "(demo_cap, unit) CapabilityPack list" where
  "demo_packs = map (\<lambda>c. PackRead (ra_new c None)) [demo_mc_cap [] 0, demo_mc_cap [[1]] 1, demo_later_cap]"

definition demo_packs_db :: "(demo_alists, demo_alists) Db" where
  "demo_packs_db = \<lparr> db_redb = demo_alists, db_tx = CT_Write \<lparr> ow_tables = demo_alists\<lparr> tt_read_caps :=
     map (\<lambda>c. (ns_as_bytes (dc_namespace c), ra_new c None)) [demo_later_cap, demo_mc_cap [[1]] 1, demo_mc_cap [] 0] \<rparr>, ow_since = 0 \<rparr> \<rparr>"

lemma demo_insert_step:
  "pers_caps_insert demo_meadowcap demo_redb demo_caps_env 0 (PackRead a)
      \<lparr> db_redb = d, db_tx = CT_Write \<lparr> ow_tables = t, ow_since = 0 \<rparr> \<rparr> =
   (Done (), \<lparr> db_redb = d, db_tx = CT_Write \<lparr> ow_tables = t\<lparr> tt_read_caps :=
      (ns_as_bytes (dc_namespace (ra_read_cap a)), a) # tt_read_caps t \<rparr>, ow_since = 0 \<rparr> \<rparr>)"
  "pers_caps_insert demo_meadowcap demo_redb demo_caps_env 0 (PackRead a) (db_new d) =
   (Done (), \<lparr> db_redb = d, db_tx = CT_Write \<lparr> ow_tables = d\<lparr> tt_read_caps :=
      (ns_as_bytes (dc_namespace (ra_read_cap a)), a) # tt_read_caps d \<rparr>, ow_since = 0 \<rparr> \<rparr>)"
  by (simp_all add: demo_run_simps pers_caps_insert_def caps_insert_tables_def db_modify_def demo_caps_env_def alist_multimap_def
      MAX_COMMIT_DELAY_def ra_namespace_def demo_meadowcap_def)

lemma demo_packs_reach: "caps_reach demo_wdm demo_meadowcap demo_redb demo_caps_env demo_alists demo_packs_db (set demo_packs)"
proof -
  note one = caps_inserted [OF caps_start demo_insert_step(2), of demo_wdm demo_alists "ra_new (demo_mc_cap [] 0) None"]
  note two = caps_inserted [OF one demo_insert_step(1), of "ra_new (demo_mc_cap [[1]] 1) None"]
  note three = caps_inserted [OF two demo_insert_step(1), of "ra_new demo_later_cap None"]
  have "set demo_packs = {PackRead (ra_new demo_later_cap None), PackRead (ra_new (demo_mc_cap [[1]] 1) None),
      PackRead (ra_new (demo_mc_cap [] 0) None)}"
    by (auto simp: demo_packs_def)
  moreover have "demo_packs_db = \<lparr> db_redb = demo_alists, db_tx = CT_Write \<lparr> ow_tables = demo_alists\<lparr> tt_read_caps :=
      [(ns_as_bytes (dc_namespace demo_later_cap), ra_new demo_later_cap None),
       (ns_as_bytes (dc_namespace (demo_mc_cap [[1]] 1)), ra_new (demo_mc_cap [[1]] 1) None),
       (ns_as_bytes (dc_namespace (demo_mc_cap [] 0)), ra_new (demo_mc_cap [] 0) None)] \<rparr>, ow_since = 0 \<rparr> \<rparr>"
    by (simp add: demo_packs_db_def)
  ultimately show ?thesis
    using three by (simp add: ra_new_def demo_alists_def)
qed

lemma demo_namespace_order:
  "ns_as_bytes (e_namespace_id demo_entry) \<le> ns_as_bytes (dc_namespace demo_later_cap)"
  "e_namespace_id demo_entry \<noteq> dc_namespace demo_later_cap"
  using replicate_Suc [of 31 "1 :: u8"] replicate_Suc [of 31 "7 :: u8"] by (simp_all add: demo_entry_def demo_later_cap_def)

lemma demo_cap_namespace: "dc_namespace (demo_mc_cap p n) = e_namespace_id demo_entry"
  by (simp add: demo_mc_cap_def)

text \<open>
  Asked for the capabilities of one namespace, the persistent store also lists those of every later namespace; the
  in-memory store lists those of the namespace only.
\<close>

lemma list_caps_of_later_namespaces:
  "fst (pers_list_read_caps demo_redb demo_caps_env (Some (e_namespace_id demo_entry)) demo_packs_db) =
     Done [ra_new demo_later_cap None, ra_new (demo_mc_cap [[1]] 1) None, ra_new (demo_mc_cap [] 0) None]"
  using demo_namespace_order(1)
  by (simp add: pers_list_read_caps_def demo_packs_db_def db_snapshot_def take_tx_run rbind_def ret_def modify_def gets_def ow_commit_def
      db_begin_read_def demo_redb_def try_anyhow_def try_res_def demo_caps_env_def alist_multimap_def caps_range_start_def demo_cap_namespace)

lemma demo_not_covered: "cs_is_covered_by demo_wdm demo_meadowcap (cs_any (e_namespace_id demo_entry)) demo_later_cap = Some False"
  using demo_namespace_order(2) by (simp add: cs_is_covered_by_def cs_any_def cs_new_def demo_meadowcap_def)

lemma demo_covered: "cs_is_covered_by demo_wdm demo_meadowcap (cs_any (e_namespace_id demo_entry)) (demo_mc_cap p n) = Some True"
  by (simp add: cs_is_covered_by_def cs_any_def cs_new_def demo_meadowcap_def demo_cap_namespace)

text \<open>
  The persistent store returns the first covered capability of the table, which need not be the widest one that
  the selector asks for: here the capability for \<open>[[1]]\<close>, although that for everything is stored.
\<close>

lemma first_not_widest:
  "\<exists>s'. pers_get_read_cap demo_wdm demo_meadowcap demo_redb demo_caps_env (cs_any (e_namespace_id demo_entry)) demo_packs_db =
     (Done (Some (ra_new (demo_mc_cap [[1]] 1) None)), s')"
proof -
  obtain s' where l: "pers_list_read_caps demo_redb demo_caps_env (Some (e_namespace_id demo_entry)) demo_packs_db =
      (Done [ra_new demo_later_cap None, ra_new (demo_mc_cap [[1]] 1) None, ra_new (demo_mc_cap [] 0) None], s')"
    using list_caps_of_later_namespaces by (metis prod.collapse)
  have "cs_namespace_id (cs_any (e_namespace_id demo_entry)) = e_namespace_id demo_entry" by (simp add: cs_any_def cs_new_def)
  then show ?thesis
    by (simp add: pers_get_read_cap_def rbind_def l unwrap_def ra_new_def demo_not_covered demo_covered)
qed

theorem persistent_caps_selection_witness:
  "\<exists>a s'. pers_get_read_cap demo_wdm demo_meadowcap demo_redb demo_caps_env (cs_any (e_namespace_id demo_entry)) demo_packs_db = (Done (Some a), s') \<and>
     PackRead a \<in> set demo_packs \<and> cap_covers demo_wdm demo_meadowcap (cs_any (e_namespace_id demo_entry)) (ra_read_cap a)"
proof -
  obtain s' where get: "pers_get_read_cap demo_wdm demo_meadowcap demo_redb demo_caps_env (cs_any (e_namespace_id demo_entry)) demo_packs_db =
     (Done (Some (ra_new (demo_mc_cap [[1]] 1) None)), s')"
    using first_not_widest by blast
  show ?thesis
    using persistent_caps_selection [OF demo_caps_laws(1-3) demo_packs_reach, of "cs_any (e_namespace_id demo_entry)"] get
    unfolding selects_def by blast
qed

end
