(* ===== verification/Store_Ops.thy ===== *)
theory Store_Ops
  imports Caps_Auth Outcome
begin

text \<open>
  The store of the engine (\<open>store.rs\<close>) and the forms of \<open>form.rs\<close>, on the in-memory storage: a form is turned into
  an entry, the entry is authorised with a capability and a secret of the user, and it is ingested; a new
  namespace gets a secret and full capabilities.  The payload store of \<open>iroh_blobs\<close> is the record \<open>blob_store\<close>;
  \<open>authorisation_token\<close> of meadowcap is an argument with \<open>token_laws\<close>.  The time of the call is an argument.
  Streams and readers are what they yield; \<open>ImportMode\<close> is only passed on.
\<close>

section \<open>Forms\<close>

record ('im, 'p) blob_store =
  bs_get :: "bytes \<Rightarrow> 'p \<Rightarrow> string + u64 option"
  bs_import_bytes :: "bytes \<Rightarrow> 'p \<Rightarrow> string + bytes \<times> 'p"
  bs_import_file :: "string \<Rightarrow> 'im \<Rightarrow> 'p \<Rightarrow> string + (bytes \<times> u64) \<times> 'p"
  bs_import_stream :: "(string + bytes) list \<Rightarrow> 'p \<Rightarrow> string + (bytes \<times> u64) \<times> 'p"
  bs_import_reader :: "(string + bytes) list \<Rightarrow> 'p \<Rightarrow> string + (bytes \<times> u64) \<times> 'p"

datatype 'im PayloadForm =
    PF_Hash bytes
  | PF_HashUnchecked bytes u64
  | PF_Bytes bytes
  | PF_File string 'im
  | PF_Stream "(string + bytes) list"
  | PF_Reader "(string + bytes) list"

text \<open>A call of the payload store that changes it\<close>

definition import_with :: "('p \<Rightarrow> string + 'a \<times> 'p) \<Rightarrow> ('p, 'a) prog" where
  "import_with f = (\<lambda>p. case f p of Inl e \<Rightarrow> (Failed (E_Store e), p) | Inr (a, p') \<Rightarrow> (Done a, p'))"

fun pf_submit :: "('im, 'p) blob_store \<Rightarrow> 'im PayloadForm \<Rightarrow> ('p, bytes \<times> u64) prog" where
  "pf_submit bs (PF_Hash digest) =
     rbind (gets (bs_get bs digest)) (\<lambda>r.
     rbind (try_anyhow r) (\<lambda>found.
     rbind (try_anyhow (ok_or ''hash not foundA'' found)) (\<lambda>size. ret (digest, size))))"
| "pf_submit bs (PF_HashUnchecked digest len) = ret (digest, len)"
| "pf_submit bs (PF_Bytes bs') =
     (let len = length bs' in
      rbind (import_with (bs_import_bytes bs bs')) (\<lambda>hash. ret (hash, of_nat len)))"
| "pf_submit bs (PF_File path mode) = import_with (bs_import_file bs path mode)"
| "pf_submit bs (PF_Stream stream) = import_with (bs_import_stream bs stream)"
| "pf_submit bs (PF_Reader reader) = import_with (bs_import_reader bs reader)"

datatype SubspaceForm = SF_User | SF_Exact SubspaceId

datatype TimestampForm = TF_Now | TF_Exact Timestamp

record 'im EntryForm =
  ef_namespace_id :: NamespaceId
  ef_subspace_id :: SubspaceForm
  ef_path :: path
  ef_timestamp :: TimestampForm
  ef_payload :: "'im PayloadForm"

definition ef_new_bytes :: "NamespaceId \<Rightarrow> path \<Rightarrow> bytes \<Rightarrow> 'im EntryForm" where
  "ef_new_bytes namespace_id path payload =
     \<lparr> ef_namespace_id = namespace_id, ef_subspace_id = SF_User, ef_path = path, ef_timestamp = TF_Now, ef_payload = PF_Bytes payload \<rparr>"

definition ef_subspace :: "SubspaceId \<Rightarrow> 'im EntryForm \<Rightarrow> 'im EntryForm"
  where "ef_subspace subspace f = f\<lparr> ef_subspace_id := SF_Exact subspace \<rparr>"

datatype 'im EntryOrForm = EOF_Entry Entry | EOF_Form "'im EntryForm"

datatype 'cap AuthForm = AF_Any UserId | AF_Exact 'cap

fun af_user_id :: "('cap, 'scap, 'sk) meadowcap_fns \<Rightarrow> 'cap AuthForm \<Rightarrow> UserId" where
  "af_user_id mc (AF_Any user) = user"
| "af_user_id mc (AF_Exact cap) = mc_receiver mc cap"

section \<open>The store\<close>

record ('p, 'cap, 'scap, 'sk, 'sg) Store =
  so_entries :: "('cap, 'sg) EntryStore"
  so_secrets :: "'sk SecretStore"
  so_caps :: "('cap, 'scap) CapsStore"
  so_payloads :: 'p

definition on_payloads :: "('p, 'a) prog \<Rightarrow> (('p, 'cap, 'scap, 'sk, 'sg) Store, 'a) prog"
  where "on_payloads f = (\<lambda>s. case f (so_payloads s) of (r, p) \<Rightarrow> (r, s\<lparr> so_payloads := p \<rparr>))"

text \<open>\<open>now\<close> is \<open>system_time_now()\<close>: the microseconds since the epoch, cast to 64 bits.\<close>

definition form_to_entry ::
  "('im, 'p) blob_store \<Rightarrow> Timestamp \<Rightarrow> 'im EntryForm \<Rightarrow> UserId \<Rightarrow> (('p, 'cap, 'scap, 'sk, 'sg) Store, Entry) prog" where
  "form_to_entry bs now form user_id =
     (let timestamp = (case ef_timestamp form of TF_Now \<Rightarrow> now | TF_Exact ts \<Rightarrow> ts);
          subspace_id = (case ef_subspace_id form of SF_User \<Rightarrow> user_id | SF_Exact subspace \<Rightarrow> subspace)
      in rbind (on_payloads (pf_submit bs (ef_payload form))) (\<lambda>(payload_digest, payload_length).
         ret \<lparr> e_namespace_id = ef_namespace_id form, e_subspace_id = subspace_id, e_path = ef_path form,
               e_timestamp = timestamp, e_payload_length = payload_length, e_payload_digest = payload_digest \<rparr>))"

definition select_capability ::
  "wdm \<Rightarrow> ('cap, 'scap, 'sk) meadowcap_fns \<Rightarrow> Entry \<Rightarrow> 'cap AuthForm \<Rightarrow> (('p, 'cap, 'scap, 'sk, 'sg) Store, 'cap) prog" where
  "select_capability w mc entry auth =
     (case auth of
        AF_Exact cap \<Rightarrow> ret cap
      | AF_Any user_id \<Rightarrow>
          (let selector = cs_for_entry entry (ExactUser user_id) in
           rbind (gets (\<lambda>s. auth_get_write_cap (mem_auth_storage w mc (so_secrets s)) (so_caps s) selector)) (\<lambda>r.
           rbind (unwrap r) (\<lambda>r'.
           rbind (try_res (map_err E_Auth r')) (\<lambda>found.
           try_anyhow (ok_or ''no write capability available'' found))))))"

definition store_ingest :: "wdm \<Rightarrow> ('cap, 'sg) AuthorisedEntry \<Rightarrow> EntryOrigin \<Rightarrow> (('p, 'cap, 'scap, 'sk, 'sg) Store, bool) prog" where
  "store_ingest w entry origin = (\<lambda>s.
     case mem_ingest_entry w entry origin (so_entries s) of
       None \<Rightarrow> (Panicked, s)
     | Some (b, _, entries) \<Rightarrow> (Done b, s\<lparr> so_entries := entries \<rparr>))"

definition insert_entry ::
  "wdm \<Rightarrow> ('cap, 'scap, 'sk) meadowcap_fns \<Rightarrow> ('im, 'p) blob_store
   \<Rightarrow> ('cap \<Rightarrow> Entry \<Rightarrow> 'sk UserSecretKey \<Rightarrow> string + ('cap, 'sg) AuthorisationToken) \<Rightarrow> Timestamp \<Rightarrow> 'im EntryOrForm \<Rightarrow> 'cap AuthForm
   \<Rightarrow> (('p, 'cap, 'scap, 'sk, 'sg) Store, ('cap, 'sg) AuthorisedEntry \<times> bool) prog" where
  "insert_entry w mc bs authorisation_token now entry_or_form auth =
     (let user_id = af_user_id mc auth in
      rbind (case entry_or_form of EOF_Entry entry \<Rightarrow> ret entry | EOF_Form form \<Rightarrow> form_to_entry bs now form user_id) (\<lambda>entry.
      rbind (select_capability w mc entry auth) (\<lambda>capability.
      rbind (gets (\<lambda>s. ss_get_user (so_secrets s) user_id)) (\<lambda>r.
      rbind (try_anyhow r) (\<lambda>found.
      rbind (try_anyhow (ok_or ''Missing user keypair'' found)) (\<lambda>secret_key.
      rbind (try_anyhow (authorisation_token capability entry secret_key)) (\<lambda>token.
      let authorised_entry = \<lparr> ae_entry = entry, ae_token = token \<rparr> in
      rbind (store_ingest w authorised_entry Local) (\<lambda>inserted.
      ret (authorised_entry, inserted)))))))))"

text \<open>A generation of keys that never finds a key of the wanted kind does not return.\<close>

definition create_namespace ::
  "('sk, 'vk, 'sg, 'rng) ed25519 \<Rightarrow> wdm \<Rightarrow> ('cap, 'scap, 'sk) meadowcap_fns \<Rightarrow> 'rng \<Rightarrow> NamespaceKind \<Rightarrow> UserId
   \<Rightarrow> (('p, 'cap, 'scap, 'sk, 'tok) Store, NamespaceId \<times> 'rng) prog" where
  "create_namespace d w mc rng kind owner = (\<lambda>s.
     case nsk_generate d rng kind of
       None \<Rightarrow> (Blocked, s)
     | Some (namespace_secret, rng') \<Rightarrow>
         (let namespace_id = nsk_id d namespace_secret in
          case insert_namespace d (ss_insert d) namespace_secret (so_secrets s) of
            Inl e \<Rightarrow> (Failed (E_Auth (AE_SecretStore e)), s)
          | Inr (_, secrets) \<Rightarrow>
              (case create_full_caps mc (mem_auth_storage w mc secrets) namespace_id owner (so_caps s) of
                 (Inl e, caps) \<Rightarrow> (Failed (E_Auth e), s\<lparr> so_secrets := secrets, so_caps := caps \<rparr>)
               | (Inr _, caps) \<Rightarrow> (Done (namespace_id, rng'), s\<lparr> so_secrets := secrets, so_caps := caps \<rparr>))))"

section \<open>Insertion stores authorised entries\<close>

text \<open>
  What the documentation of \<open>authorisation_token\<close> promises: a token is for a write capability that includes the
  entry, and it authorises the entry.
\<close>

definition token_laws ::
  "wdm \<Rightarrow> ('cap, 'scap, 'sk) meadowcap_fns \<Rightarrow> (Entry \<Rightarrow> ('cap, 'sg) AuthorisationToken \<Rightarrow> bool)
   \<Rightarrow> ('cap \<Rightarrow> Entry \<Rightarrow> 'sk UserSecretKey \<Rightarrow> string + ('cap, 'sg) AuthorisationToken) \<Rightarrow> bool" where
  "token_laws w mc is_authorised_write authorisation_token \<longleftrightarrow>
     (\<forall>cap e k tok. authorisation_token cap e k = Ok tok \<longrightarrow>
        t_capability tok = cap \<and> mc_access_mode mc cap = AM_Write \<and> mc_granted_namespace mc cap = e_namespace_id e \<and>
        w_area_includes_entry w (mc_granted_area mc cap) e \<and> is_authorised_write e tok)"

text \<open>The entry that a form stands for.\<close>

fun entry_of :: "Timestamp \<Rightarrow> UserId \<Rightarrow> 'im EntryOrForm \<Rightarrow> bytes \<times> u64 \<Rightarrow> Entry" where
  "entry_of now user (EOF_Entry e) payload = e"
| "entry_of now user (EOF_Form f) (digest, len) =
     \<lparr> e_namespace_id = ef_namespace_id f,
       e_subspace_id = (case ef_subspace_id f of SF_User \<Rightarrow> user | SF_Exact subspace \<Rightarrow> subspace), e_path = ef_path f,
       e_timestamp = (case ef_timestamp f of TF_Now \<Rightarrow> now | TF_Exact ts \<Rightarrow> ts), e_payload_length = len, e_payload_digest = digest \<rparr>"

fun payload_of :: "('im, 'p) blob_store \<Rightarrow> 'im EntryOrForm \<Rightarrow> ('p, bytes \<times> u64) prog" where
  "payload_of bs (EOF_Entry e) = ret (e_payload_digest e, e_payload_length e)"
| "payload_of bs (EOF_Form f) = pf_submit bs (ef_payload f)"

lemma entry_of_run:
  assumes "(case entry_or_form of EOF_Entry entry \<Rightarrow> ret entry | EOF_Form form \<Rightarrow> form_to_entry bs now form user) s = (Done e, s1)"
  shows "\<exists>payload p. payload_of bs entry_or_form (so_payloads s) = (Done payload, p) \<and> e = entry_of now user entry_or_form payload \<and>
    s1 = s\<lparr> so_payloads := p \<rparr>"
proof (cases entry_or_form)
  case (EOF_Entry entry)
  then show ?thesis using assms by (auto simp: ret_def)
next
  case (EOF_Form f)
  then obtain x s2 where x: "on_payloads (pf_submit bs (ef_payload f)) s = (Done x, s2)" and e: "e = entry_of now user (EOF_Form f) x" "s1 = s2"
    using assms by (auto simp: form_to_entry_def Let_def ret_def elim!: rbind_DoneE)
  then show ?thesis
    by (cases x) (auto simp: EOF_Form on_payloads_def split: prod.splits)
qed

lemma select_capability_run:
  assumes "select_capability w mc entry auth s = (Done cap, s1)"
  shows "s1 = s \<and> (case auth of
      AF_Exact c \<Rightarrow> cap = c
    | AF_Any user \<Rightarrow> PackWrite cap \<in> caps_held (so_caps s) \<and> mc_receiver mc cap = user \<and>
        cap_covers w mc (cs_for_entry entry (ExactUser user)) cap)"
proof (cases auth)
  case (AF_Any user)
  then have sel: "s1 = s" "caps_get_write_cap w mc (so_caps s) (cs_for_entry entry (ExactUser user)) = Some (Ok (Some cap))"
    using assms by (auto simp: select_capability_def gets_def unwrap_Done try_res_Done try_anyhow_Done ok_results auth_get_write_cap_def
        mem_auth_storage_def elim!: rbind_DoneE)
  then have "cap_covers w mc (cs_for_entry entry (ExactUser user)) cap" using caps_get_write_cap_from [OF sel(2)] by simp
  moreover from this have "mc_receiver mc cap = user"
    by (auto simp: cs_is_covered_by_def cs_for_entry_def split: if_splits)
  ultimately show ?thesis using caps_get_write_cap_from [OF sel(2)] by (simp add: AF_Any sel(1))
qed (use assms in \<open>simp add: select_capability_def ret_def\<close>)

text \<open>
  C21: Inserting an entry or a form, when it succeeds: the entry is the given one, or the form filled in with the payload
  that was submitted, the user and the time; it is authorised by a token for a write capability of its namespace
  whose area includes it, and that capability is the given one or one of the store whose receiver is the user; the
  entry is handed to ingestion, whose answer is returned, and secrets and capabilities stay as they are.
\<close>

theorem insert_entry_authorised:
  assumes "token_laws w mc is_authorised_write authorisation_token"
    and "insert_entry w mc bs authorisation_token now entry_or_form auth s = (Done (ae, inserted), s')"
  shows "\<exists>payload p ws. payload_of bs entry_or_form (so_payloads s) = (Done payload, p) \<and>
    ae_entry ae = entry_of now (af_user_id mc auth) entry_or_form payload \<and>
    is_authorised_write (ae_entry ae) (ae_token ae) \<and>
    mc_access_mode mc (t_capability (ae_token ae)) = AM_Write \<and>
    mc_granted_namespace mc (t_capability (ae_token ae)) = e_namespace_id (ae_entry ae) \<and>
    w_area_includes_entry w (mc_granted_area mc (t_capability (ae_token ae))) (ae_entry ae) \<and>
    mc_receiver mc (t_capability (ae_token ae)) = af_user_id mc auth \<and>
    (\<forall>user. auth = AF_Any user \<longrightarrow> PackWrite (t_capability (ae_token ae)) \<in> caps_held (so_caps s)) \<and>
    mem_ingest_entry w ae Local (so_entries s) = Some (inserted, ws, so_entries s') \<and>
    so_secrets s' = so_secrets s \<and> so_caps s' = so_caps s \<and> so_payloads s' = p"
proof -
  let ?user = "af_user_id mc auth"
  obtain e s1 where e: "(case entry_or_form of EOF_Entry entry \<Rightarrow> ret entry | EOF_Form form \<Rightarrow> form_to_entry bs now form ?user) s = (Done e, s1)"
    and rest: "rbind (select_capability w mc e auth) (\<lambda>capability.
      rbind (gets (\<lambda>s. ss_get_user (so_secrets s) ?user)) (\<lambda>r.
      rbind (try_anyhow r) (\<lambda>found.
      rbind (try_anyhow (ok_or ''Missing user keypair'' found)) (\<lambda>secret_key.
      rbind (try_anyhow (authorisation_token capability e secret_key)) (\<lambda>token.
      rbind (store_ingest w \<lparr> ae_entry = e, ae_token = token \<rparr> Local) (\<lambda>inserted.
      ret (\<lparr> ae_entry = e, ae_token = token \<rparr>, inserted))))))) s1 = (Done (ae, inserted), s')"
    using assms(2) unfolding insert_entry_def Let_def by (rule rbind_DoneE)
  obtain cap s2 k where cap: "select_capability w mc e auth s1 = (Done cap, s2)" and tok: "authorisation_token cap e k = Ok (ae_token ae)"
    and ae: "ae_entry ae = e" and ing': "store_ingest w ae Local s2 = (Done inserted, s')"
    using rest by (auto simp: gets_def try_anyhow_Done ret_def elim!: rbind_DoneE)
  have "s2 = s1" using select_capability_run [OF cap] by simp
  note ing = ing' [unfolded this]
  obtain payload p where p: "payload_of bs entry_or_form (so_payloads s) = (Done payload, p)" "e = entry_of now ?user entry_or_form payload"
    "s1 = s\<lparr> so_payloads := p \<rparr>"
    using entry_of_run [OF e] by blast
  have c: "t_capability (ae_token ae) = cap" "mc_access_mode mc cap = AM_Write" "mc_granted_namespace mc cap = e_namespace_id e"
    "w_area_includes_entry w (mc_granted_area mc cap) e" "is_authorised_write e (ae_token ae)"
    using assms(1) tok unfolding token_laws_def by blast+
  have sel: "mc_receiver mc cap = ?user" "\<forall>user. auth = AF_Any user \<longrightarrow> PackWrite cap \<in> caps_held (so_caps s)"
    using select_capability_run [OF cap] p(3) \<open>s2 = s1\<close> by (cases auth; simp)+
  obtain ws where "mem_ingest_entry w ae Local (so_entries s) = Some (inserted, ws, so_entries s')" "s' = s1\<lparr> so_entries := so_entries s' \<rparr>"
    using ing p(3) by (auto simp: store_ingest_def split: option.splits)
  moreover from this(2) have "so_secrets s' = so_secrets s" "so_caps s' = so_caps s" "so_payloads s' = p"
    by (metis Store.select_convs Store.surjective Store.update_convs p(3))+
  ultimately show ?thesis
    using p(1,2) c sel ae by (intro exI [of _ payload] exI [of _ p] exI [of _ ws]) simp
qed

section \<open>New namespaces\<close>

lemma create_full_caps_packs:
  assumes laws: "meadowcap_laws w uid mc" and "create_full_caps mc (mem_auth_storage w mc secrets) ns owner c = (Ok packs, c')"
  shows "\<exists>r cp. packs = [PackRead r, PackWrite cp] \<and> caps_held c' = caps_held c \<union> {PackRead r, PackWrite cp} \<and>
    (\<forall>p \<in> set packs. cp_is_valid mc p \<and> cp_receiver mc p = owner \<and> cp_namespace mc p = ns)"
proof -
  obtain pr pw where p: "create_read_cap mc (mem_auth_storage w mc secrets) ns owner = Ok pr" "create_write_cap mc (mem_auth_storage w mc secrets) ns owner = Ok pw"
    and packs: "packs = [pr, pw]" and ins: "insert_caps_unchecked (mem_auth_storage w mc secrets) [pr, pw] c = (Ok (), c')"
    using assms(2) by (auto simp: create_full_caps_def ok_results split: sum.splits prod.splits)
  have held: "caps_held c' = caps_held c \<union> {pr, pw}"
    using mem_caps.insert_unchecked_held [OF ins] by simp
  obtain r where r: "pr = PackRead r" "mc_granted_namespace mc (ra_read_cap r) = ns" "mc_receiver mc (ra_read_cap r) = owner"
    "mc_access_mode mc (ra_read_cap r) = AM_Read"
    using p(1) laws by (auto simp: create_read_cap_def ok_results meadowcap_laws_def ra_new_def split: if_splits)
  obtain cp where cp: "pw = PackWrite cp" "mc_granted_namespace mc cp = ns" "mc_receiver mc cp = owner" "mc_access_mode mc cp = AM_Write"
    using p(2) laws by (auto simp: create_write_cap_def ok_results meadowcap_laws_def split: if_splits)
  show ?thesis
    using held packs r cp by (auto simp: ra_namespace_def)
qed

lemma nsk_generate_kind:
  assumes "nsk_generate d rng kind = Some y"
  shows "npk_kind d (nsk_public_key d (fst y)) = kind"
proof (rule nsk_generate.raw_induct [where P = "\<lambda>d rng kind y. npk_kind d (nsk_public_key d (fst y)) = kind", OF _ assms])
  fix gen d rng kind y
  assume "\<And>d rng kind y. gen d rng kind = Some y \<Longrightarrow> npk_kind d (nsk_public_key d (fst y)) = kind"
    and "(let (signing_key, rng') = dalek_generate d rng; secret_key = NamespaceSecretKey signing_key
      in if npk_kind d (nsk_public_key d secret_key) = kind then Some (secret_key, rng') else gen d rng' kind) = Some y"
  then show "npk_kind d (nsk_public_key d (fst y)) = kind"
    by (auto simp: Let_def split: prod.splits if_splits)
qed


section \<open>An instance\<close>

definition demo_write_cap :: demo_cap
  where "demo_write_cap = (demo_mc_cap [] 0)\<lparr> dc_mode := AM_Write \<rparr>"

definition demo_token :: "demo_cap \<Rightarrow> Entry \<Rightarrow> u8 UserSecretKey \<Rightarrow> string + (demo_cap, u8) AuthorisationToken" where
  "demo_token cap e k =
     (if dc_mode cap = AM_Write \<and> dc_namespace cap = e_namespace_id e \<and> in_area (dc_area cap) e \<and> usk_id demo_scheme k = dc_receiver cap
      then Ok \<lparr> t_capability = cap, t_signature = UserSignature (user_signing_key k) \<rparr> else Err ''not authorised'')"

definition demo_is_authorised :: "Entry \<Rightarrow> (demo_cap, u8) AuthorisationToken \<Rightarrow> bool" where
  "demo_is_authorised e tok \<longleftrightarrow> dc_mode (t_capability tok) = AM_Write \<and> in_area (dc_area (t_capability tok)) e \<and>
     usk_id demo_scheme (UserSecretKey (user_sig (t_signature tok))) = dc_receiver (t_capability tok)"

lemma demo_token_laws: "token_laws demo_wdm demo_meadowcap demo_is_authorised demo_token"
  by (auto simp: token_laws_def demo_token_def demo_is_authorised_def demo_meadowcap_def demo_wdm_def split: if_splits)

text \<open>Payloads are a list of blobs; the first byte of a blob is its digest.\<close>

definition demo_blobs :: "(unit, bytes list) blob_store" where
  "demo_blobs = \<lparr> bs_get = (\<lambda>h p. Ok (map_option (\<lambda>b. of_nat (length b)) (List.find (\<lambda>b. [hd b] = h) p))),
     bs_import_bytes = (\<lambda>b p. Ok ([hd b], b # p)), bs_import_file = (\<lambda>f m p. Err ''no files''),
     bs_import_stream = (\<lambda>x p. Err ''no streams''), bs_import_reader = (\<lambda>x p. Err ''no readers'') \<rparr>"

definition demo_full_store :: "(bytes list, demo_cap, unit, u8, u8) Store" where
  "demo_full_store = \<lparr> so_entries = \<lparr> stores = [] \<rparr>, so_secrets = demo_secrets,
     so_caps = caps_insert demo_meadowcap (PackWrite demo_write_cap) caps_default, so_payloads = [] \<rparr>"

definition demo_form :: "unit EntryForm"
  where "demo_form = ef_new_bytes (e_namespace_id demo_entry) [[1]] [7, 8]"

definition demo_formed :: Entry where
  "demo_formed = \<lparr> e_namespace_id = e_namespace_id demo_entry, e_subspace_id = demo_user 5, e_path = [[1]], e_timestamp = 20,
     e_payload_length = 2, e_payload_digest = [7] \<rparr>"

lemma demo_write_selected:
  "caps_get_write_cap demo_wdm demo_meadowcap (so_caps demo_full_store) (cs_for_entry demo_formed (ExactUser (demo_user 5))) =
     Some (Ok (Some demo_write_cap))"
  by code_simp

lemma demo_token_made: "demo_token demo_write_cap demo_formed (UserSecretKey 5) =
    Ok \<lparr> t_capability = demo_write_cap, t_signature = UserSignature 5 \<rparr>"
  by code_simp

lemma demo_insert_run:
  "\<exists>ae s'. insert_entry demo_wdm demo_meadowcap demo_blobs demo_token 20 (EOF_Form demo_form) (AF_Any (demo_user 5)) demo_full_store =
     (Done (ae, True), s')"
proof -
  have form: "form_to_entry demo_blobs 20 demo_form (demo_user 5) demo_full_store = (Done demo_formed, demo_full_store\<lparr> so_payloads := [[7, 8]] \<rparr>)"
    by (simp add: form_to_entry_def demo_form_def ef_new_bytes_def on_payloads_def import_with_def rbind_def ret_def demo_blobs_def
        demo_full_store_def demo_formed_def)
  have user: "ss_get_user (so_secrets demo_full_store) (demo_user 5) = Ok (Some (UserSecretKey 5))"
    by (simp add: ss_get_user_def demo_full_store_def demo_secrets_def)
  have entries: "so_entries demo_full_store = \<lparr> stores = [] \<rparr>" by (simp add: demo_full_store_def)
  show ?thesis
    using demo_write_selected
    by (simp add: insert_entry_def Let_def rbind_def form select_capability_def gets_def auth_get_write_cap_def mem_auth_storage_def
        unwrap_def try_res_def try_anyhow_def user demo_token_made store_ingest_def entries mem_ingest_entry_def ns_store_def ns_default_def
        ns_ingest_entry_def ret_def split: prod.splits)
qed

theorem insert_entry_authorised_witness:
  "\<exists>ae s'. insert_entry demo_wdm demo_meadowcap demo_blobs demo_token 20 (EOF_Form demo_form) (AF_Any (demo_user 5)) demo_full_store =
     (Done (ae, True), s') \<and> demo_is_authorised (ae_entry ae) (ae_token ae)"
  using demo_insert_run insert_entry_authorised [OF demo_token_laws] by meson

lemma demo_create_run:
  "\<exists>s'. create_namespace demo_scheme demo_wdm demo_meadowcap 0 Communal (demo_user 5) demo_full_store =
     (Done (nsk_id demo_scheme (NamespaceSecretKey 0), 1), s')"
proof -
  have "npk_kind demo_scheme (nsk_public_key demo_scheme (NamespaceSecretKey 0)) = Communal"
    using demo_communal [of 0] by (simp add: npk_kind_def npk_is_communal_def nsk_id_def)
  then have "nsk_generate demo_scheme 0 Communal = Some (NamespaceSecretKey 0, 1)"
    by (subst nsk_generate.simps) (simp add: demo_scheme_def Let_def)
  then show ?thesis
    by (simp add: create_namespace_def Let_def insert_namespace_def ss_insert_def create_full_caps_def create_read_cap_def create_write_cap_def
        demo_communal demo_meadowcap_def mem_auth_storage_def split: prod.splits)
qed


text \<open>A hash that is not in the payload store is refused by \<open>Hash\<close> and accepted by \<open>HashUnchecked\<close>.\<close>

lemma unchecked_hash_accepted:
  "bs_get bs digest p = Ok None \<Longrightarrow>
     pf_submit bs (PF_Hash digest) p = (Failed (E_Store ''hash not foundA''), p) \<and>
     pf_submit bs (PF_HashUnchecked digest len) p = (Done (digest, len), p)"
  by (simp add: rbind_def gets_def ret_def try_anyhow_def try_res_def)

end
