(* ===== verification/Engine_Actor.thy ===== *)
theory Engine_Actor
  imports Store_Ops
begin

text \<open>
  The actor that owns the store (\<open>engine/actor.rs\<close>): its inputs, the handler of a message and the loop over the inbox,
  on the in-memory storage.  A reply channel is a number; \<open>alive\<close> tells which receivers are still there.  The
  replies that were sent are recorded, and so are the tasks that were spawned: a session, the sending of entries
  of a snapshot, a subscription.  The random generator is part of the state, and the time an argument.
\<close>

section \<open>Inputs and state\<close>

datatype ('conn, 'intent, 'cap, 'scap, 'sk, 'sg, 'im) Input =
    InitSession 'conn "'intent list" nat
  | GetEntries NamespaceId Range3d nat
  | GetEntry NamespaceId SubspaceId path nat
  | IngestEntry "('cap, 'sg) AuthorisedEntry" EntryOrigin nat
  | InsertEntry "'im EntryOrForm" "'cap AuthForm" nat
  | InsertSecret "'sk SecretKey" nat
  | CreateNamespace NamespaceKind UserId nat
  | CreateUser nat
  | ImportCaps "('cap, 'scap) CapabilityPack list" nat
  | ResolveInterests Interests nat
  | DelegateCaps CapSelector AccessMode DelegateTo bool nat
  | Shutdown "nat option"
  | SubscribeArea NamespaceId Area SubscribeParams nat
  | ResumeSubscription u64 NamespaceId Area SubscribeParams nat

datatype ('cap, 'scap, 'sg) Reply =
    ReplySession u64
  | ReplyEntry "Error + ('cap, 'sg) AuthorisedEntry option"
  | ReplyIngested "Error + bool"
  | ReplyInserted "Error + ('cap, 'sg) AuthorisedEntry \<times> bool"
  | ReplyUnit "Error + unit"
  | ReplyNamespace "Error + NamespaceId"
  | ReplyUser "Error + UserId"
  | ReplyInterests "Error + ('cap, 'scap) InterestMap"
  | ReplyCaps "Error + ('cap, 'scap) CapabilityPack list"
  | ReplyShutdown

datatype ('conn, 'intent, 'cap, 'sg) Task =
    RunSession u64 'conn "'intent list"
  | SendEntries "('cap, 'sg) EntryStore" NamespaceId Range3d nat
  | ForwardArea NamespaceId Area SubscribeParams nat
  | ForwardResumed u64 NamespaceId Area SubscribeParams nat

record ('conn, 'intent, 'p, 'cap, 'scap, 'sk, 'sg, 'rng) Actor =
  ac_store :: "('p, 'cap, 'scap, 'sk, 'sg) Store"
  ac_next_session_id :: u64
  ac_tasks :: "('conn, 'intent, 'cap, 'sg) Task list"
  ac_replies :: "(nat \<times> ('cap, 'scap, 'sg) Reply) list"
  ac_rng :: 'rng

definition actor_new :: "('p, 'cap, 'scap, 'sk, 'sg) Store \<Rightarrow> 'rng \<Rightarrow> ('conn, 'intent, 'p, 'cap, 'scap, 'sk, 'sg, 'rng) Actor" where
  "actor_new store rng = \<lparr> ac_store = store, ac_next_session_id = 0, ac_tasks = [], ac_replies = [], ac_rng = rng \<rparr>"

record ('p, 'cap, 'scap, 'sk, 'vk, 'sg, 'rng, 'im) actor_env =
  av_scheme :: "('sk, 'vk, 'sg, 'rng) ed25519"
  av_wdm :: wdm
  av_meadowcap :: "('cap, 'scap, 'sk) meadowcap_fns"
  av_blobs :: "('im, 'p) blob_store"
  av_token :: "'cap \<Rightarrow> Entry \<Rightarrow> 'sk UserSecretKey \<Rightarrow> string + ('cap, 'sg) AuthorisationToken"
  av_now :: Timestamp

section \<open>Handling of messages\<close>

text \<open>\<open>send_reply\<close>: the result tells whether the receiver was there; the loop only logs it.\<close>

definition send_reply ::
  "(nat \<Rightarrow> bool) \<Rightarrow> nat \<Rightarrow> ('cap, 'scap, 'sg) Reply \<Rightarrow> (('conn, 'intent, 'p, 'cap, 'scap, 'sk, 'sg, 'rng) Actor, bool) prog" where
  "send_reply alive reply r = (\<lambda>s. if alive reply then (Done True, s\<lparr> ac_replies := ac_replies s @ [(reply, r)] \<rparr>) else (Done False, s))"

definition next_session_id :: "(('conn, 'intent, 'p, 'cap, 'scap, 'sk, 'sg, 'rng) Actor, u64) prog" where
  "next_session_id =
     rbind (gets ac_next_session_id) (\<lambda>i.
     rbind (checked (if i = - 1 then None else Some (i + 1))) (\<lambda>i'.
     rbind (modify (\<lambda>s. s\<lparr> ac_next_session_id := i' \<rparr>)) (\<lambda>_. ret i)))"

definition spawn_task ::
  "('conn, 'intent, 'cap, 'sg) Task \<Rightarrow> (('conn, 'intent, 'p, 'cap, 'scap, 'sk, 'sg, 'rng) Actor, unit) prog"
  where "spawn_task t = modify (\<lambda>s. s\<lparr> ac_tasks := ac_tasks s @ [t] \<rparr>)"

text \<open>An operation of the store whose error becomes the reply; a panic ends the actor.\<close>

definition on_store ::
  "(('p, 'cap, 'scap, 'sk, 'sg) Store, 'b) prog \<Rightarrow> (('conn, 'intent, 'p, 'cap, 'scap, 'sk, 'sg, 'rng) Actor, Error + 'b) prog" where
  "on_store f = (\<lambda>s. case f (ac_store s) of (r, st) \<Rightarrow>
     (case r of Done b \<Rightarrow> Done (Ok b) | Failed e \<Rightarrow> Done (Err e) | Panicked \<Rightarrow> Panicked | Overflowed \<Rightarrow> Overflowed | Blocked \<Rightarrow> Blocked,
      s\<lparr> ac_store := st \<rparr>))"

definition secrets_insert ::
  "('sk, 'vk, 'sg, 'rng) ed25519 \<Rightarrow> 'sk SecretKey \<Rightarrow> (('p, 'cap, 'scap, 'sk, 'sg) Store, unit) prog" where
  "secrets_insert d secret = (\<lambda>s. case ss_insert d secret (so_secrets s) of
     Inl e \<Rightarrow> (Failed (E_KeyStore e), s)
   | Inr secrets \<Rightarrow> (Done (), s\<lparr> so_secrets := secrets \<rparr>))"

definition secrets_insert_user ::
  "('sk, 'vk, 'sg, 'rng) ed25519 \<Rightarrow> 'sk UserSecretKey \<Rightarrow> (('p, 'cap, 'scap, 'sk, 'sg) Store, UserId) prog" where
  "secrets_insert_user d secret = (\<lambda>s. case insert_user d (ss_insert d) secret (so_secrets s) of
     Inl e \<Rightarrow> (Failed (E_KeyStore e), s)
   | Inr (i, secrets) \<Rightarrow> (Done i, s\<lparr> so_secrets := secrets \<rparr>))"

text \<open>An operation of \<open>Auth\<close> on the capabilities\<close>

definition on_caps ::
  "(('cap, 'scap) CapsStore \<Rightarrow> (AuthError + 'b) \<times> ('cap, 'scap) CapsStore) \<Rightarrow> (('p, 'cap, 'scap, 'sk, 'sg) Store, 'b) prog" where
  "on_caps f = (\<lambda>s. case f (so_caps s) of (r, c) \<Rightarrow>
     (case r of Inl e \<Rightarrow> Failed (E_Auth e) | Inr b \<Rightarrow> Done b, s\<lparr> so_caps := c \<rparr>))"

definition store_import_caps ::
  "('p, 'cap, 'scap, 'sk, 'vk, 'sg, 'rng, 'im) actor_env \<Rightarrow> ('cap, 'scap) CapabilityPack list
   \<Rightarrow> (('p, 'cap, 'scap, 'sk, 'sg) Store, unit) prog" where
  "store_import_caps v caps =
     rbind (gets so_secrets) (\<lambda>secrets.
     on_caps (import_caps (av_meadowcap v) (mem_auth_storage (av_wdm v) (av_meadowcap v) secrets) caps))"

definition store_delegate_caps ::
  "('p, 'cap, 'scap, 'sk, 'vk, 'sg, 'rng, 'im) actor_env \<Rightarrow> CapSelector \<Rightarrow> AccessMode \<Rightarrow> DelegateTo \<Rightarrow> bool
   \<Rightarrow> (('p, 'cap, 'scap, 'sk, 'sg) Store, ('cap, 'scap) CapabilityPack list) prog" where
  "store_delegate_caps v frm access_mode to store =
     rbind (gets (\<lambda>s. delegate_full_caps (av_meadowcap v) (mem_auth_storage (av_wdm v) (av_meadowcap v) (so_secrets s))
       frm access_mode to store (so_caps s))) (\<lambda>r.
     rbind (unwrap r) (\<lambda>res. on_caps (\<lambda>_. res)))"

definition store_resolve_interests ::
  "('p, 'cap, 'scap, 'sk, 'vk, 'sg, 'rng, 'im) actor_env \<Rightarrow> Interests
   \<Rightarrow> (('p, 'cap, 'scap, 'sk, 'sg) Store, ('cap, 'scap) InterestMap) prog" where
  "store_resolve_interests v interests =
     rbind (gets (\<lambda>s. resolve_interests (av_meadowcap v) (mem_auth_storage (av_wdm v) (av_meadowcap v) (so_secrets s)) interests (so_caps s))) (\<lambda>r.
     rbind (unwrap r) (\<lambda>res. try_res (map_err E_Auth res)))"

text \<open>\<open>rand::thread_rng\<close>: the generator is threaded through the state.  A creation that fails has
  drawn its numbers as well.\<close>

definition create_namespace_rng ::
  "('p, 'cap, 'scap, 'sk, 'vk, 'sg, 'rng, 'im) actor_env \<Rightarrow> NamespaceKind \<Rightarrow> UserId
   \<Rightarrow> (('conn, 'intent, 'p, 'cap, 'scap, 'sk, 'sg, 'rng) Actor, Error + NamespaceId) prog" where
  "create_namespace_rng v kind owner =
     rbind (gets ac_rng) (\<lambda>rng.
     rbind (on_store (create_namespace (av_scheme v) (av_wdm v) (av_meadowcap v) rng kind owner)) (\<lambda>r.
     rbind (modify (\<lambda>s. s\<lparr> ac_rng := (case nsk_generate (av_scheme v) rng kind of None \<Rightarrow> rng | Some (_, rng') \<Rightarrow> rng') \<rparr>)) (\<lambda>_.
     ret (case r of Inl e \<Rightarrow> Err e | Inr (i, _) \<Rightarrow> Ok i))))"

definition create_user_rng ::
  "('p, 'cap, 'scap, 'sk, 'vk, 'sg, 'rng, 'im) actor_env \<Rightarrow> (('conn, 'intent, 'p, 'cap, 'scap, 'sk, 'sg, 'rng) Actor, Error + UserId) prog" where
  "create_user_rng v =
     rbind (gets ac_rng) (\<lambda>rng.
     let (secret, rng') = usk_generate (av_scheme v) rng in
     rbind (modify (\<lambda>s. s\<lparr> ac_rng := rng' \<rparr>)) (\<lambda>_. on_store (secrets_insert_user (av_scheme v) secret)))"

text \<open>\<open>Shutdown\<close> is handled by the loop; its case here is \<open>unreachable!\<close>.\<close>

fun handle_message ::
  "('p, 'cap, 'scap, 'sk, 'vk, 'sg, 'rng, 'im) actor_env \<Rightarrow> (nat \<Rightarrow> bool) \<Rightarrow> ('conn, 'intent, 'cap, 'scap, 'sk, 'sg, 'im) Input
   \<Rightarrow> (('conn, 'intent, 'p, 'cap, 'scap, 'sk, 'sg, 'rng) Actor, bool) prog" where
  "handle_message v alive (Shutdown _) = unwrap None"
| "handle_message v alive (InitSession conn intents reply) =
     rbind next_session_id (\<lambda>session_id.
     rbind (spawn_task (RunSession session_id conn intents)) (\<lambda>_. send_reply alive reply (ReplySession session_id)))"
| "handle_message v alive (GetEntries namespace rg reply) =
     rbind (gets (\<lambda>s. mem_snapshot (so_entries (ac_store s)))) (\<lambda>snapshot.
     rbind (spawn_task (SendEntries snapshot namespace rg reply)) (\<lambda>_. ret True))"
| "handle_message v alive (GetEntry namespace subspace path reply) =
     rbind (gets (\<lambda>s. map_err E_Store (mem_get_entry (so_entries (ac_store s)) namespace subspace path))) (\<lambda>res.
     send_reply alive reply (ReplyEntry res))"
| "handle_message v alive (IngestEntry authorised_entry origin reply) =
     rbind (on_store (store_ingest (av_wdm v) authorised_entry origin)) (\<lambda>res. send_reply alive reply (ReplyIngested res))"
| "handle_message v alive (InsertEntry entry auth reply) =
     rbind (on_store (insert_entry (av_wdm v) (av_meadowcap v) (av_blobs v) (av_token v) (av_now v) entry auth)) (\<lambda>res.
     send_reply alive reply (ReplyInserted res))"
| "handle_message v alive (InsertSecret secret reply) =
     rbind (on_store (secrets_insert (av_scheme v) secret)) (\<lambda>res. send_reply alive reply (ReplyUnit res))"
| "handle_message v alive (CreateNamespace kind owner reply) =
     rbind (create_namespace_rng v kind owner) (\<lambda>res. send_reply alive reply (ReplyNamespace res))"
| "handle_message v alive (CreateUser reply) =
     rbind (create_user_rng v) (\<lambda>res. send_reply alive reply (ReplyUser res))"
| "handle_message v alive (ImportCaps caps reply) =
     rbind (on_store (store_import_caps v caps)) (\<lambda>res. send_reply alive reply (ReplyUnit res))"
| "handle_message v alive (DelegateCaps frm access_mode to store reply) =
     rbind (on_store (store_delegate_caps v frm access_mode to store)) (\<lambda>res. send_reply alive reply (ReplyCaps res))"
| "handle_message v alive (ResolveInterests interests reply) =
     rbind (on_store (store_resolve_interests v interests)) (\<lambda>res. send_reply alive reply (ReplyInterests res))"
| "handle_message v alive (SubscribeArea namespace area params sender) =
     rbind (spawn_task (ForwardArea namespace area params sender)) (\<lambda>_. ret True)"
| "handle_message v alive (ResumeSubscription progress_id namespace area params sender) =
     rbind (spawn_task (ForwardResumed progress_id namespace area params sender)) (\<lambda>_. ret True)"

text \<open>The loop over the inbox; the inbox ends when all handles are dropped.\<close>

fun run_async ::
  "('p, 'cap, 'scap, 'sk, 'vk, 'sg, 'rng, 'im) actor_env \<Rightarrow> (nat \<Rightarrow> bool) \<Rightarrow> ('conn, 'intent, 'cap, 'scap, 'sk, 'sg, 'im) Input list
   \<Rightarrow> (('conn, 'intent, 'p, 'cap, 'scap, 'sk, 'sg, 'rng) Actor, unit) prog" where
  "run_async v alive [] = ret ()"
| "run_async v alive (Shutdown reply # msgs) =
     rbind (modify (\<lambda>s. s\<lparr> ac_tasks := [] \<rparr>)) (\<lambda>_.
     case reply of None \<Rightarrow> ret () | Some r \<Rightarrow> rbind (send_reply alive r ReplyShutdown) (\<lambda>_. ret ()))"
| "run_async v alive (msg # msgs) = rbind (handle_message v alive msg) (\<lambda>_. run_async v alive msgs)"

section \<open>What every run keeps\<close>

text \<open>A program keeps a property of the state whether or not it finishes.\<close>

definition keeps :: "('s \<Rightarrow> bool) \<Rightarrow> ('s, 'a) prog \<Rightarrow> bool"
  where "keeps I m \<longleftrightarrow> (\<forall>s. I s \<longrightarrow> I (snd (m s)))"

named_theorems keeps_intros "programs that keep a property"

lemma keeps_unchanged [keeps_intros]:
  "keeps I (ret a)" "keeps I (gets f)" "keeps I (try_res r)" "keeps I (try_anyhow r')" "keeps I (unwrap x)" "keeps I (checked x)"
  by (simp_all add: keeps_def ret_def gets_def try_res_def try_anyhow_def unwrap_def checked_def split: sum.splits option.splits)

lemma keeps_rbind [keeps_intros]: "keeps I m \<Longrightarrow> (\<And>a. keeps I (f a)) \<Longrightarrow> keeps I (rbind m f)"
  unfolding keeps_def rbind_def by (fastforce split: prod.splits outcome.splits)

lemma keeps_rbind_try: "(\<And>a. r = Ok a \<Longrightarrow> keeps I (f a)) \<Longrightarrow> keeps I (rbind (try_anyhow r) f)"
  by (cases r) (simp_all add: keeps_def rbind_def try_anyhow_def try_res_def)

lemma keeps_modify: "(\<And>s. I s \<Longrightarrow> I (f s)) \<Longrightarrow> keeps I (modify f)"
  by (simp add: keeps_def modify_def)

subsection \<open>The store\<close>

definition store_sound ::
  "('sk, 'vk, 'sg, 'rng) ed25519 \<Rightarrow> (Entry \<Rightarrow> ('cap, 'sg) AuthorisationToken \<Rightarrow> bool) \<Rightarrow> ('p, 'cap, 'scap, 'sk, 'sg) Store \<Rightarrow> bool" where
  "store_sound d auth s \<longleftrightarrow>
     (\<forall>ns. \<forall>e \<in> set (ns_entries (ns_store (so_entries s) ns)). auth (ae_entry e) (ae_token e)) \<and>
     (\<forall>i k. map_of (ss_user (so_secrets s)) i = Some k \<longrightarrow> usk_id d k = i) \<and>
     (\<forall>i k. map_of (ss_namespace (so_secrets s)) i = Some k \<longrightarrow> nsk_id d k = i)"

lemma prune_loop_subset: "prune_loop e is ws s = Some (ws', s') \<Longrightarrow> set (ns_entries s') \<subseteq> set (ns_entries s)"
proof (induction e "is" ws s rule: prune_loop.induct)
  case (2 entry i "is" woken s)
  then show ?case
    by (fastforce simp: vec_remove_def split: option.splits prod.splits if_splits dest: in_set_takeD in_set_dropD)
qed simp

lemma mem_ingest_subset:
  assumes "mem_ingest_entry w e origin st = Some (b, ws, st')"
  shows "set (ns_entries (ns_store st' ns)) \<subseteq> insert e (set (ns_entries (ns_store st ns)))"
proof -
  let ?ns = "e_namespace_id (ae_entry e)"
  obtain s' where s': "ns_ingest_entry w e origin (ns_store st ?ns) = Some (b, ws, s')" and st': "st' = set_ns_store ?ns s' st"
    using assms by (auto simp: mem_ingest_entry_def Let_def)
  have "set (ns_entries s') \<subseteq> insert e (set (ns_entries (ns_store st ?ns)))"
    using s' prune_loop_subset [of e _ "[]" "ns_store st ?ns"]
    by (fastforce simp: ns_ingest_entry_def Let_def split: option.splits prod.splits)
  then show ?thesis by (auto simp: st' ns_store_def set_ns_store_def update_conv' split: option.splits)
qed

lemma keeps_store_ingest:
  "auth (ae_entry e) (ae_token e) \<Longrightarrow> keeps (store_sound d auth) (store_ingest w e origin)"
  using mem_ingest_subset [of w e origin]
  unfolding keeps_def store_ingest_def store_sound_def by (fastforce split: option.splits prod.splits)

lemma keeps_on_payloads [keeps_intros]: "keeps (store_sound d auth) (on_payloads f)"
  by (simp add: keeps_def on_payloads_def store_sound_def split: prod.splits)

lemma keeps_form [keeps_intros]: "keeps (store_sound d auth) (form_to_entry bs now f user)"
  unfolding form_to_entry_def Let_def by (auto intro!: keeps_intros split: prod.splits)

lemma keeps_select [keeps_intros]: "keeps (store_sound d auth) (select_capability w mc e a)"
  unfolding select_capability_def Let_def by (cases a) (auto intro!: keeps_intros)

lemma keeps_insert_entry:
  assumes "token_laws w mc auth token"
  shows "keeps (store_sound d auth) (insert_entry w mc bs token now x a)"
proof -
  have tok: "keeps (store_sound d auth) (rbind (try_anyhow (token cap e k)) (\<lambda>tok.
      rbind (store_ingest w \<lparr> ae_entry = e, ae_token = tok \<rparr> Local) (\<lambda>inserted. ret (\<lparr> ae_entry = e, ae_token = tok \<rparr>, inserted))))" for cap e k
    using assms by (intro keeps_rbind_try keeps_rbind keeps_store_ingest keeps_intros) (auto simp: token_laws_def)
  show ?thesis
    unfolding insert_entry_def Let_def
    by (intro tok keeps_rbind keeps_select keeps_unchanged) (auto intro!: keeps_intros split: EntryOrForm.splits)
qed

lemma store_sound_secrets:
  assumes "store_sound d auth s" "ss_insert d secret (so_secrets s) = Ok t"
  shows "store_sound d auth (s\<lparr> so_secrets := t \<rparr>)"
  using assms by (cases secret) (auto simp: store_sound_def ss_insert_def update_conv' split: if_splits)

lemma store_sound_caps [simp]: "store_sound d auth (s\<lparr> so_caps := c \<rparr>) \<longleftrightarrow> store_sound d auth s"
  by (simp add: store_sound_def)

lemma keeps_secrets_insert [keeps_intros]: "keeps (store_sound d auth) (secrets_insert d secret)"
  by (auto simp: keeps_def secrets_insert_def intro: store_sound_secrets split: sum.splits)

lemma keeps_secrets_insert_user [keeps_intros]: "keeps (store_sound d auth) (secrets_insert_user d secret)"
  by (auto simp: keeps_def secrets_insert_user_def insert_user_def Let_def res_bind_eq_Inr intro: store_sound_secrets split: sum.splits prod.splits)

lemma keeps_create_namespace [keeps_intros]: "keeps (store_sound d auth) (create_namespace d w mc rng kind owner)"
proof -
  have "store_sound d auth (s\<lparr> so_secrets := t, so_caps := c \<rparr>)"
    if "store_sound d auth s" "ss_insert d secret (so_secrets s) = Ok t" for s secret t c
    using store_sound_secrets [OF that] by simp
  then show ?thesis
    by (auto simp: keeps_def create_namespace_def insert_namespace_def Let_def res_bind_eq_Inr split: option.splits sum.splits prod.splits)
qed

lemma keeps_on_caps [keeps_intros]: "keeps (store_sound d auth) (on_caps f)"
  by (simp add: keeps_def on_caps_def split: prod.splits)

subsection \<open>The actor\<close>

definition actor_sound ::
  "('p, 'cap, 'scap, 'sk, 'vk, 'sg, 'rng, 'im) actor_env \<Rightarrow> (Entry \<Rightarrow> ('cap, 'sg) AuthorisationToken \<Rightarrow> bool)
   \<Rightarrow> ('conn, 'intent, 'p, 'cap, 'scap, 'sk, 'sg, 'rng) Actor \<Rightarrow> bool"
  where "actor_sound v auth s \<longleftrightarrow> store_sound (av_scheme v) auth (ac_store s)"

lemma keeps_actor_local [keeps_intros]:
  "keeps (actor_sound v auth) (send_reply alive reply r)" "keeps (actor_sound v auth) next_session_id" "keeps (actor_sound v auth) (spawn_task t)"
  by (auto simp: keeps_def send_reply_def next_session_id_def spawn_task_def actor_sound_def rbind_def gets_def checked_def modify_def ret_def)

lemma keeps_on_store: "keeps (store_sound (av_scheme v) auth) f \<Longrightarrow> keeps (actor_sound v auth) (on_store f)"
  unfolding keeps_def on_store_def actor_sound_def by (auto split: prod.splits)

lemma keeps_rng: "keeps (actor_sound v auth) (modify (\<lambda>s. s\<lparr> ac_rng := r \<rparr>))"
  by (rule keeps_modify) (simp add: actor_sound_def)

fun msg_authorised :: "(Entry \<Rightarrow> ('cap, 'sg) AuthorisationToken \<Rightarrow> bool) \<Rightarrow> ('conn, 'intent, 'cap, 'scap, 'sk, 'sg, 'im) Input \<Rightarrow> bool" where
  "msg_authorised auth (IngestEntry e origin reply) \<longleftrightarrow> auth (ae_entry e) (ae_token e)"
| "msg_authorised auth _ \<longleftrightarrow> True"

lemma keeps_handle_message:
  assumes "token_laws (av_wdm v) (av_meadowcap v) auth (av_token v)" "msg_authorised auth msg"
  shows "keeps (actor_sound v auth) (handle_message v alive msg)"
proof (cases msg)
  case (CreateNamespace kind owner reply)
  then show ?thesis
    by (auto simp: create_namespace_rng_def intro!: keeps_rbind keeps_on_store keeps_rng keeps_intros split: sum.splits)
next
  case (CreateUser reply)
  then show ?thesis
    by (auto simp: create_user_rng_def Let_def intro!: keeps_rbind keeps_on_store keeps_rng keeps_intros split: prod.splits)
qed (use assms in \<open>auto simp: store_import_caps_def store_delegate_caps_def store_resolve_interests_def
      intro!: keeps_rbind keeps_on_store keeps_store_ingest keeps_insert_entry keeps_intros\<close>)

lemma keeps_run_async:
  assumes "token_laws (av_wdm v) (av_meadowcap v) auth (av_token v)" "\<forall>m \<in> set msgs. msg_authorised auth m"
  shows "keeps (actor_sound v auth) (run_async v alive msgs)"
  using assms(2)
proof (induction msgs)
  case (Cons m msgs)
  have "keeps (actor_sound v auth) (handle_message v alive m)" "keeps (actor_sound v auth) (run_async v alive msgs)"
    using assms(1) Cons by (simp_all add: keeps_handle_message)
  moreover have "keeps (actor_sound v auth) (modify (\<lambda>s. s\<lparr> ac_tasks := [] \<rparr>))"
    by (rule keeps_modify) (simp add: actor_sound_def)
  ultimately show ?case by (cases m) (auto intro!: keeps_intros split: option.splits simp del: handle_message.simps)
qed (simp add: keeps_intros)

section \<open>Replies\<close>

text \<open>The reply channels that the handling of a message answers itself; entries of a range and events of a subscription
  are sent by the spawned tasks.\<close>

fun reply_channels :: "('conn, 'intent, 'cap, 'scap, 'sk, 'sg, 'im) Input \<Rightarrow> nat list" where
  "reply_channels (InitSession conn intents reply) = [reply]"
| "reply_channels (GetEntry namespace subspace path reply) = [reply]"
| "reply_channels (IngestEntry authorised_entry origin reply) = [reply]"
| "reply_channels (InsertEntry entry auth reply) = [reply]"
| "reply_channels (InsertSecret secret reply) = [reply]"
| "reply_channels (CreateNamespace kind owner reply) = [reply]"
| "reply_channels (CreateUser reply) = [reply]"
| "reply_channels (ImportCaps caps reply) = [reply]"
| "reply_channels (ResolveInterests interests reply) = [reply]"
| "reply_channels (DelegateCaps frm access_mode to store reply) = [reply]"
| "reply_channels (Shutdown reply) = (case reply of None \<Rightarrow> [] | Some r \<Rightarrow> [r])"
| "reply_channels _ = []"

fun answered :: "('conn, 'intent, 'cap, 'scap, 'sk, 'sg, 'im) Input list \<Rightarrow> nat list" where
  "answered [] = []"
| "answered (Shutdown reply # msgs) = reply_channels (Shutdown reply :: ('conn, 'intent, 'cap, 'scap, 'sk, 'sg, 'im) Input)"
| "answered (msg # msgs) = reply_channels msg @ answered msgs"

fun is_Done :: "'a outcome \<Rightarrow> bool" where
  "is_Done (Done a) = True"
| "is_Done _ = False"

definition answers :: "nat list \<Rightarrow> (('conn, 'intent, 'p, 'cap, 'scap, 'sk, 'sg, 'rng) Actor, 'a) prog \<Rightarrow> bool" where
  "answers l m \<longleftrightarrow> (\<forall>s. \<exists>k. map fst (ac_replies (snd (m s))) = map fst (ac_replies s) @ k \<and> prefix k l \<and>
     (is_Done (fst (m s)) \<longrightarrow> k = l))"

lemma answers_rbind:
  assumes "answers k m" "\<And>a. answers l (f a)"
  shows "answers (k @ l) (rbind m f)"
  unfolding answers_def
proof
  fix s
  obtain r t where m: "m s = (r, t)" by (cases "m s")
  obtain k' where k': "map fst (ac_replies t) = map fst (ac_replies s) @ k'" "prefix k' k" "is_Done r \<longrightarrow> k' = k"
    using assms(1) m unfolding answers_def by (metis fst_conv snd_conv)
  show "\<exists>k''. map fst (ac_replies (snd (rbind m f s))) = map fst (ac_replies s) @ k'' \<and> prefix k'' (k @ l) \<and>
     (is_Done (fst (rbind m f s)) \<longrightarrow> k'' = k @ l)"
  proof (cases r)
    case (Done a)
    obtain l' where "map fst (ac_replies (snd (f a t))) = map fst (ac_replies t) @ l'" "prefix l' l" "is_Done (fst (f a t)) \<longrightarrow> l' = l"
      using assms(2) [of a] unfolding answers_def by blast
    then show ?thesis using m k' Done by (intro exI [of _ "k @ l'"]) (auto simp: rbind_def)
  qed (use m k' in \<open>auto simp: rbind_def intro!: exI [of _ k']\<close>)
qed

named_theorems answers_intros "programs with the replies they send"

lemma answers_silent [answers_intros]:
  "answers [] (ret a)" "answers [] (gets f)" "answers [] (checked x)" "answers [] (spawn_task t)" "answers [] (on_store g)"
  "answers [] (modify (\<lambda>s. s\<lparr> ac_rng := r \<rparr>))" "answers [] (modify (\<lambda>s. s\<lparr> ac_tasks := ts \<rparr>))"
  "answers [] (modify (\<lambda>s. s\<lparr> ac_next_session_id := i \<rparr>))" "answers l (unwrap None)"
  by (auto simp: answers_def ret_def gets_def checked_def spawn_task_def modify_def on_store_def unwrap_def split: option.splits prod.splits)

lemma answers_then: "answers [] m \<Longrightarrow> (\<And>a. answers l (f a)) \<Longrightarrow> answers l (rbind m f)"
  using answers_rbind [of "[]" m l f] by simp

lemma answers_composed [answers_intros]:
  "answers [] next_session_id" "answers [] (create_namespace_rng v kind owner)" "answers [] (create_user_rng v)"
  unfolding next_session_id_def create_namespace_rng_def create_user_rng_def Let_def
  by (auto intro!: answers_then answers_silent split: sum.splits prod.splits)

lemma answers_send_reply [answers_intros]: "answers (filter alive [reply]) (send_reply alive reply r)"
  by (simp add: answers_def send_reply_def)

lemma answers_handle_message: "answers (filter alive (reply_channels msg)) (handle_message v alive msg)"
  by (cases msg; simp only: handle_message.simps reply_channels.simps filter.simps(1); intro answers_then answers_intros)

lemma answers_shutdown: "answers (filter alive [r]) (rbind (send_reply alive r ReplyShutdown) (\<lambda>_. ret ()))"
  using answers_rbind [where l = "[]", OF answers_send_reply [where alive = alive and reply = r and r = ReplyShutdown], of "\<lambda>_. ret ()"]
  by (simp add: answers_silent)

lemma not_shutdown:
  assumes "\<nexists>reply. msg = Shutdown reply"
  shows "run_async v alive (msg # msgs) = rbind (handle_message v alive msg) (\<lambda>_. run_async v alive msgs)"
    and "answered (msg # msgs) = reply_channels msg @ answered msgs"
  using assms by (cases msg; simp del: handle_message.simps)+

lemma answers_run_async: "answers (filter alive (answered msgs)) (run_async v alive msgs)"
proof (induction msgs)
  case (Cons msg msgs)
  have "answers (filter alive (reply_channels msg) @ filter alive (answered msgs)) (rbind (handle_message v alive msg) (\<lambda>_. run_async v alive msgs))"
    by (rule answers_rbind [OF answers_handle_message Cons])
  then have "answers (filter alive (answered (msg # msgs))) (run_async v alive (msg # msgs))" if "\<nexists>reply. msg = Shutdown reply"
    using that by (simp add: not_shutdown)
  moreover have "answers (filter alive (answered (Shutdown reply # msgs))) (run_async v alive (Shutdown reply # msgs))" for reply
    by (cases reply) (simp_all only: answered.simps run_async.simps reply_channels.simps option.case filter.simps(1) answers_then answers_silent answers_shutdown)
  ultimately show ?case by blast
qed (simp add: answers_intros)

section \<open>Properties\<close>

text \<open>C22: The store of the actor stays sound over every run of its loop, however the run ends: each stored entry is
  authorised by its stored token, and each secret is filed under its own public key.  The handler of an ingestion stores
  the entry it is given without a check of its own, so the entries in the inbox have to be authorised; for insertions the
  token is made by the store, and for the other messages nothing is needed.\<close>
theorem actor_store_sound:
  assumes "token_laws (av_wdm v) (av_meadowcap v) auth (av_token v)"
    and "\<forall>m \<in> set msgs. msg_authorised auth m"
    and "actor_sound v auth s"
  shows "actor_sound v auth (snd (run_async v alive msgs s))"
  using keeps_run_async [OF assms(1,2)] assms(3) unfolding keeps_def by blast

text \<open>C23: The actor answers its requests in the order of its inbox, each exactly once, and only on channels whose
  receiver is still there: the channels on which replies were sent are, in order, those of the messages up to the first
  shutdown, which is answered last.  A run that a panic ends has answered an initial part of them.\<close>
theorem actor_answers_in_order:
  assumes "run_async v alive msgs s = (r, s')"
  shows "\<exists>k. map fst (ac_replies s') = map fst (ac_replies s) @ k \<and> prefix k (filter alive (answered msgs)) \<and>
    (r = Done () \<longrightarrow> k = filter alive (answered msgs))"
proof -
  have "is_Done r" if "r = Done ()" using that by simp
  then show ?thesis using answers_run_async [of alive msgs v] assms unfolding answers_def by (metis fst_conv snd_conv)
qed

section \<open>A run\<close>

definition demo_env :: "(bytes list, demo_cap, unit, u8, u8, u8, nat, unit) actor_env" where
  "demo_env = \<lparr> av_scheme = demo_scheme, av_wdm = demo_wdm, av_meadowcap = demo_meadowcap, av_blobs = demo_blobs,
     av_token = demo_token, av_now = 20 \<rparr>"

definition demo_actor :: "(unit, unit, bytes list, demo_cap, unit, u8, u8, nat) Actor"
  where "demo_actor = actor_new demo_full_store 0"

definition demo_inbox :: "(unit, unit, demo_cap, unit, u8, u8, unit) Input list" where
  "demo_inbox = [InsertEntry (EOF_Form demo_form) (AF_Any (demo_user 5)) 1, InitSession () [] 2,
     GetEntry (e_namespace_id demo_entry) (demo_user 5) [[1]] 3, Shutdown (Some 4), CreateUser 5]"

lemma demo_actor_sound: "actor_sound demo_env demo_is_authorised demo_actor"
  by (auto simp: actor_sound_def store_sound_def demo_actor_def actor_new_def demo_full_store_def demo_env_def ns_store_def ns_default_def
      demo_secrets_def demo_user_def split: if_splits)

theorem actor_store_sound_witness:
  "actor_sound demo_env demo_is_authorised (snd (run_async demo_env (\<lambda>_. True) demo_inbox demo_actor))"
  by (rule actor_store_sound) (use demo_token_laws demo_actor_sound in \<open>simp_all add: demo_env_def demo_inbox_def\<close>)

lemma demo_inbox_run: "\<exists>s'. run_async demo_env (\<lambda>r. r \<noteq> 2) demo_inbox demo_actor = (Done (), s')"
proof -
  have run: "\<exists>ae s'. insert_entry demo_wdm demo_meadowcap demo_blobs demo_token 20 (EOF_Form demo_form) (AF_Any (demo_user 5)) demo_full_store =
     (Done (ae, True), s')" by (rule demo_insert_run)
  then show ?thesis
    by (auto simp: demo_env_def demo_inbox_def demo_actor_def actor_new_def rbind_def on_store_def send_reply_def next_session_id_def
        gets_def checked_def modify_def ret_def spawn_task_def)
qed

theorem actor_answers_in_order_witness:
  "\<exists>s'. run_async demo_env (\<lambda>r. r \<noteq> 2) demo_inbox demo_actor = (Done (), s') \<and> map fst (ac_replies s') = [1, 3, 4]"
proof -
  obtain s' where run: "run_async demo_env (\<lambda>r. r \<noteq> 2) demo_inbox demo_actor = (Done (), s')"
    using demo_inbox_run by blast
  show ?thesis using actor_answers_in_order [OF run] run by (auto simp: demo_inbox_def demo_actor_def actor_new_def)
qed

end
