(* ===== verification/Connection.thy ===== *)
theory Connection
  imports Util_Channel Session_Setup Outcome
begin

text \<open>
  Setting up and ending a connection (\<open>net.rs\<close>): the initial transmission, the streams of the channels, the senders
  and receivers of a session (\<open>session/channels.rs\<close>), the graceful end, and the streams that can be cancelled
  (\<open>util/stream.rs\<close>).  A QUIC stream is what can be read from it, or its identity; the loops that pipe between
  streams and channels are in \<open>Util_Channel\<close>.
\<close>

section \<open>The initial transmission\<close>

definition MAX_PAYLOAD_SIZE_POWER :: u8 where "MAX_PAYLOAD_SIZE_POWER = 18"

definition CHALLENGE_HASH_LENGTH :: nat where "CHALLENGE_HASH_LENGTH = 32"

text \<open>What is written on the unidirectional stream\<close>

definition initial_message :: "(bytes \<Rightarrow> bytes) \<Rightarrow> AccessChallenge \<Rightarrow> bytes"
  where "initial_message hash our_nonce = MAX_PAYLOAD_SIZE_POWER # challenge_hash hash our_nonce"

text \<open>
  \<open>incoming\<close> is what the other peer writes before it closes its stream.  \<open>2u64.pow\<close> overflows for the power 64,
  which the check lets through.
\<close>

definition initial_transmission :: "AccessChallenge \<Rightarrow> (bytes, InitialTransmission) prog" where
  "initial_transmission our_nonce = (\<lambda>incoming.
     case incoming of
       [] \<Rightarrow> (Failed (E_Net ''early eof''), incoming)
     | pw # rest \<Rightarrow>
         if \<not> pw \<le> 64 then (Failed (E_Net ''max payload size too large''), rest)
         else if unat pw = 64 then (Overflowed, rest)
         else if length rest < CHALLENGE_HASH_LENGTH then (Failed (E_Net ''early eof''), [])
         else (Done \<lparr> it_our_nonce = our_nonce, it_received_commitment = take CHALLENGE_HASH_LENGTH rest,
                 it_their_max_payload_size = 2 ^ unat pw \<rparr>, drop CHALLENGE_HASH_LENGTH rest))"

section \<open>The streams of the channels\<close>

text \<open>
  Alfie opens a stream for every channel and writes the id of the channel as its first byte; the streams may be
  opened in any order, \<open>sid c\<close> is the stream that is opened for \<open>c\<close>.
\<close>

definition open_channel_streams_alfie :: "(Channel \<Rightarrow> 's) \<Rightarrow> (Channel \<times> 's) list"
  where "open_channel_streams_alfie sid = map (\<lambda>c. (c, sid c)) channel_all"

text \<open>Betty accepts as many streams as there are channels, in the order in which they arrive, and reads the first byte of each.\<close>

fun open_channel_streams_betty :: "('s \<Rightarrow> u8) \<Rightarrow> 's list \<Rightarrow> Error + (Channel \<times> 's) list" where
  "open_channel_streams_betty first_byte [] = Ok []"
| "open_channel_streams_betty first_byte (s # ss) =
     res_bind (map_err (\<lambda>_. E_Net ''invalid channel id'') (channel_from_id (first_byte s))) (\<lambda>channel.
     res_bind (open_channel_streams_betty first_byte ss) (\<lambda>rest. Ok ((channel, s) # rest)))"

definition CHANNEL_CAP :: nat where "CHANNEL_CAP = 1024 * 64"

text \<open>One end of a channel of the session, with the stream that its loop serves\<close>

type_synonym 's channel_end = "Shared \<times> 's"

definition prepare_channel :: "Channel \<Rightarrow> 's \<Rightarrow> 's channel_end \<times> 's channel_end" where
  "prepare_channel ch stream =
     (let guarantees = (case ch of Control \<Rightarrow> Unlimited | Logical _ \<Rightarrow> Limited 0); cap = CHANNEL_CAP
      in ((outbound_channel cap guarantees, stream), (inbound_channel cap, stream)))"

record 'e LogicalChannelSenders =
  intersection_send :: 'e
  reconciliation_send :: 'e
  static_tokens_send :: 'e
  aoi_send :: 'e
  capability_send :: 'e
  data_send :: 'e

record 'e LogicalChannelReceivers =
  intersection_recv :: 'e
  reconciliation_recv :: 'e
  static_tokens_recv :: 'e
  capability_recv :: 'e
  aoi_recv :: 'e
  data_recv :: 'e

record 'e ChannelSenders =
  control_send :: 'e
  logical_send :: "'e LogicalChannelSenders"

record 'e ChannelReceivers =
  control_recv :: 'e
  logical_recv :: "'e LogicalChannelReceivers"

record 'e Channels =
  ch_send :: "'e ChannelSenders"
  ch_recv :: "'e ChannelReceivers"

text \<open>The closure \<open>find\<close> of \<open>prepare_channels\<close> takes the streams of the first entry of a channel.\<close>

fun take_channel :: "Channel \<Rightarrow> (Channel \<times> 'x option) list \<Rightarrow> 'x option \<times> (Channel \<times> 'x option) list" where
  "take_channel c [] = (None, [])"
| "take_channel c ((ch, x) # xs) =
     (if ch = c then (x, (ch, None) # xs) else (let (r, xs') = take_channel c xs in (r, (ch, x) # xs')))"

definition find_channel :: "Channel \<Rightarrow> ((Channel \<times> 'x option) list, 'x) prog" where
  "find_channel c = (\<lambda>st. case take_channel c st of
     (None, st') \<Rightarrow> (Failed (E_Net ''missing channel''), st')
   | (Some x, st') \<Rightarrow> (Done x, st'))"

definition collect_channels :: "((Channel \<times> ('e \<times> 'e) option) list, 'e Channels) prog" where
  "collect_channels =
     rbind (find_channel Control) (\<lambda>ctrl.
     rbind (find_channel (Logical LC_Intersection)) (\<lambda>pai.
     rbind (find_channel (Logical LC_Reconciliation)) (\<lambda>recon.
     rbind (find_channel (Logical LC_StaticToken)) (\<lambda>stt.
     rbind (find_channel (Logical LC_AreaOfInterest)) (\<lambda>aoi.
     rbind (find_channel (Logical LC_Capability)) (\<lambda>cap.
     rbind (find_channel (Logical LC_Data)) (\<lambda>dat.
     ret \<lparr> ch_send = \<lparr> control_send = fst ctrl,
             logical_send = \<lparr> intersection_send = fst pai, reconciliation_send = fst recon, static_tokens_send = fst stt,
               aoi_send = fst aoi, capability_send = fst cap, data_send = fst dat \<rparr> \<rparr>,
           ch_recv = \<lparr> control_recv = snd ctrl,
             logical_recv = \<lparr> intersection_recv = snd pai, reconciliation_recv = snd recon, static_tokens_recv = snd stt,
               capability_recv = snd cap, aoi_recv = snd aoi, data_recv = snd dat \<rparr> \<rparr> \<rparr>)))))))"

definition prepare_channels :: "(Channel \<times> 's) list \<Rightarrow> 's channel_end Channels outcome" where
  "prepare_channels streams = fst (collect_channels (map (\<lambda>(ch, s). (ch, Some (prepare_channel ch s))) streams))"

section \<open>Senders\<close>

fun logical_get :: "'e LogicalChannelSenders \<Rightarrow> LogicalChannel \<Rightarrow> 'e" where
  "logical_get s LC_Intersection = intersection_send s"
| "logical_get s LC_Reconciliation = reconciliation_send s"
| "logical_get s LC_StaticToken = static_tokens_send s"
| "logical_get s LC_Capability = capability_send s"
| "logical_get s LC_AreaOfInterest = aoi_send s"
| "logical_get s LC_Data = data_send s"

definition get_logical :: "'e ChannelSenders \<Rightarrow> LogicalChannel \<Rightarrow> 'e"
  where "get_logical s c = logical_get (logical_send s) c"

fun senders_get :: "'e ChannelSenders \<Rightarrow> Channel \<Rightarrow> 'e" where
  "senders_get s Control = control_send s"
| "senders_get s (Logical c) = get_logical s c"

text \<open>The receiver that a message of a channel arrives at\<close>

fun receivers_get :: "'e ChannelReceivers \<Rightarrow> Channel \<Rightarrow> 'e" where
  "receivers_get r Control = control_recv r"
| "receivers_get r (Logical LC_Intersection) = intersection_recv (logical_recv r)"
| "receivers_get r (Logical LC_Reconciliation) = reconciliation_recv (logical_recv r)"
| "receivers_get r (Logical LC_StaticToken) = static_tokens_recv (logical_recv r)"
| "receivers_get r (Logical LC_Capability) = capability_recv (logical_recv r)"
| "receivers_get r (Logical LC_AreaOfInterest) = aoi_recv (logical_recv r)"
| "receivers_get r (Logical LC_Data) = data_recv (logical_recv r)"

definition logical_close :: "('e \<Rightarrow> 'e) \<Rightarrow> 'e LogicalChannelSenders \<Rightarrow> 'e LogicalChannelSenders" where
  "logical_close close s =
     \<lparr> intersection_send = close (intersection_send s), reconciliation_send = close (reconciliation_send s),
       static_tokens_send = close (static_tokens_send s), aoi_send = close (aoi_send s),
       capability_send = close (capability_send s), data_send = close (data_send s) \<rparr>"

definition close_all :: "('e \<Rightarrow> 'e) \<Rightarrow> 'e ChannelSenders \<Rightarrow> 'e ChannelSenders" where
  "close_all close s = \<lparr> control_send = close (control_send s), logical_send = logical_close close (logical_send s) \<rparr>"

text \<open>\<open>Sender::close\<close>, with the wakers dropped\<close>

definition sender_close :: "Shared \<Rightarrow> Shared"
  where "sender_close s = s\<lparr> inner := snd (ch_close (inner s)) \<rparr>"

text \<open>A sender is shared state; its new state is written back.\<close>

fun logical_set :: "'e \<Rightarrow> LogicalChannel \<Rightarrow> 'e LogicalChannelSenders \<Rightarrow> 'e LogicalChannelSenders" where
  "logical_set x LC_Intersection s = s\<lparr> intersection_send := x \<rparr>"
| "logical_set x LC_Reconciliation s = s\<lparr> reconciliation_send := x \<rparr>"
| "logical_set x LC_StaticToken s = s\<lparr> static_tokens_send := x \<rparr>"
| "logical_set x LC_Capability s = s\<lparr> capability_send := x \<rparr>"
| "logical_set x LC_AreaOfInterest s = s\<lparr> aoi_send := x \<rparr>"
| "logical_set x LC_Data s = s\<lparr> data_send := x \<rparr>"

fun senders_set :: "'e \<Rightarrow> Channel \<Rightarrow> 'e ChannelSenders \<Rightarrow> 'e ChannelSenders" where
  "senders_set x Control s = s\<lparr> control_send := x \<rparr>"
| "senders_set x (Logical c) s = s\<lparr> logical_send := logical_set x c (logical_send s) \<rparr>"

definition senders_send ::
  "(('cap, 'scap, 'sg) Message \<Rightarrow> nat) \<Rightarrow> (('cap, 'scap, 'sg) Message \<Rightarrow> bytes \<Rightarrow> bytes option) \<Rightarrow> waker \<Rightarrow> ('cap, 'scap, 'sg) Message
   \<Rightarrow> Shared ChannelSenders \<Rightarrow> (WriteError + unit) poll \<times> waker list \<times> Shared ChannelSenders" where
  "senders_send encoded_len encode_into cx message s =
     (let channel = message_channel message; sender = senders_get s channel in
      case poll_send_message encoded_len encode_into cx message (inner sender) of
        (r, ws, c) \<Rightarrow> (r, ws, senders_set (sender\<lparr> inner := c \<rparr>) channel s))"

definition message_poll_recv ::
  "(bytes \<Rightarrow> string + 'msg DecodeOutcome) \<Rightarrow> ('msg \<Rightarrow> 'm option) \<Rightarrow> waker \<Rightarrow> Inner
   \<Rightarrow> ((Error + 'm) option poll \<times> waker list \<times> Inner) option" where
  "message_poll_recv decode_from try_from cx c =
     map_option (\<lambda>(p, ws, c').
       (case p of
          Pending \<Rightarrow> Pending
        | Ready None \<Rightarrow> Ready None
        | Ready (Some (Inl err)) \<Rightarrow> Ready (Some (Err (E_Receive err)))
        | Ready (Some (Inr message)) \<Rightarrow> Ready (Some (ok_or E_WrongChannel (try_from message))), ws, c'))
       (poll_recv_message decode_from cx c)"

lemma senders_get_set [simp]: "senders_get (senders_set x c s) d = (if d = c then x else senders_get s d)"
proof (cases c)
  case (Logical l)
  show ?thesis
  proof (cases d)
    case (Logical l')
    with \<open>c = _\<close> show ?thesis by (cases l; cases l') (simp_all add: get_logical_def)
  qed (use Logical in \<open>cases l; simp add: get_logical_def\<close>)
next
  case Control
  then show ?thesis by (cases d) (simp_all add: get_logical_def)
qed

lemma senders_get_close_all: "senders_get (close_all close s) c = close (senders_get s c)"
proof (cases c)
  case (Logical l)
  then show ?thesis by (cases l) (simp_all add: close_all_def get_logical_def logical_close_def)
qed (simp add: close_all_def)

text \<open>
  A message goes to the sender of its channel and leaves all others alone; once all senders are closed, every
  message is refused.
\<close>

lemma senders_send_routes:
  assumes "senders_send encoded_len encode_into cx m s = (r, ws, s')"
  shows "(\<forall>c. c \<noteq> message_channel m \<longrightarrow> senders_get s' c = senders_get s c) \<and>
    inner (senders_get s' (message_channel m)) = snd (snd (poll_send_message encoded_len encode_into cx m (inner (senders_get s (message_channel m)))))"
  using assms by (auto simp: senders_send_def Let_def split: prod.splits)

lemma send_after_close: "fst (senders_send encoded_len encode_into cx m (close_all sender_close s)) = Ready (Err WE_Closed)"
  by (simp add: senders_send_def Let_def senders_get_close_all sender_close_def ch_close_def wake_defs poll_send_message_def split: prod.splits)

section \<open>Matching of channels\<close>

definition channel_view :: "(Channel \<times> 'x option) list \<Rightarrow> Channel \<Rightarrow> 'x option"
  where "channel_view st c = Option.bind (map_of st c) (\<lambda>x. x)"

lemma take_channel_view:
  "fst (take_channel c st) = channel_view st c"
  "channel_view (snd (take_channel c st)) = (channel_view st)(c := None)"
proof -
  show "fst (take_channel c st) = channel_view st c"
    by (induction st) (auto simp: channel_view_def split: prod.splits)
  show "channel_view (snd (take_channel c st)) = (channel_view st)(c := None)"
    by (induction st) (auto simp: channel_view_def fun_eq_iff split: prod.splits)
qed

lemma find_channel_Done:
  "channel_view st c = Some x \<Longrightarrow> \<exists>st'. find_channel c st = (Done x, st') \<and> channel_view st' = (channel_view st)(c := None)"
  using take_channel_view [of c st] by (cases "take_channel c st") (simp add: find_channel_def)

lemma find_channel_None:
  "channel_view st c = None \<Longrightarrow> \<exists>st'. find_channel c st = (Failed (E_Net ''missing channel''), st')"
  using take_channel_view [of c st] by (cases "take_channel c st") (simp add: find_channel_def)

text \<open>The entries that are not taken yet\<close>

definition untaken :: "(Channel \<times> 'x option) list \<Rightarrow> Channel set \<Rightarrow> (Channel \<Rightarrow> 'x) \<Rightarrow> bool"
  where "untaken st D h \<longleftrightarrow> (\<forall>c. c \<notin> D \<longrightarrow> channel_view st c = Some (h c))"

lemma find_next: "untaken st D h \<Longrightarrow> c \<notin> D \<Longrightarrow> \<exists>st'. find_channel c st = (Done (h c), st') \<and> untaken st' (insert c D) h"
  using find_channel_Done [of st c "h c"] by (fastforce simp: untaken_def)

lemma channel_cases:
  "c = Control \<or> c = Logical LC_Intersection \<or> c = Logical LC_Reconciliation \<or> c = Logical LC_StaticToken \<or>
    c = Logical LC_AreaOfInterest \<or> c = Logical LC_Capability \<or> c = Logical LC_Data"
proof (cases c)
  case (Logical l)
  then show ?thesis by (cases l) simp_all
qed simp

lemma all_channels: "(\<forall>c. P c) \<longleftrightarrow> P Control \<and> P (Logical LC_Intersection) \<and> P (Logical LC_Reconciliation) \<and> P (Logical LC_StaticToken) \<and>
    P (Logical LC_AreaOfInterest) \<and> P (Logical LC_Capability) \<and> P (Logical LC_Data)"
proof -
  have "P c" if "P Control" "P (Logical LC_Intersection)" "P (Logical LC_Reconciliation)" "P (Logical LC_StaticToken)"
    "P (Logical LC_AreaOfInterest)" "P (Logical LC_Capability)" "P (Logical LC_Data)" for c
    using that channel_cases [of c] by (elim disjE) simp_all
  then show ?thesis by blast
qed

lemma collect_channels_Done:
  assumes "untaken st {} h"
  shows "\<exists>chans st'. collect_channels st = (Done chans, st') \<and>
    (\<forall>c. senders_get (ch_send chans) c = fst (h c) \<and> receivers_get (ch_recv chans) c = snd (h c))"
proof -
  obtain s1 where s1: "find_channel Control st = (Done (h Control), s1)" "untaken s1 {Control} h"
    using find_next [OF assms, of "Control"] by auto
  obtain s2 where s2: "find_channel (Logical LC_Intersection) s1 = (Done (h (Logical LC_Intersection)), s2)" "untaken s2 {Logical LC_Intersection, Control} h"
    using find_next [OF s1(2), of "Logical LC_Intersection"] by auto
  obtain s3 where s3: "find_channel (Logical LC_Reconciliation) s2 = (Done (h (Logical LC_Reconciliation)), s3)" "untaken s3 {Logical LC_Reconciliation, Logical LC_Intersection, Control} h"
    using find_next [OF s2(2), of "Logical LC_Reconciliation"] by auto
  obtain s4 where s4: "find_channel (Logical LC_StaticToken) s3 = (Done (h (Logical LC_StaticToken)), s4)" "untaken s4 {Logical LC_StaticToken, Logical LC_Reconciliation, Logical LC_Intersection, Control} h"
    using find_next [OF s3(2), of "Logical LC_StaticToken"] by auto
  obtain s5 where s5: "find_channel (Logical LC_AreaOfInterest) s4 = (Done (h (Logical LC_AreaOfInterest)), s5)" "untaken s5 {Logical LC_AreaOfInterest, Logical LC_StaticToken, Logical LC_Reconciliation, Logical LC_Intersection, Control} h"
    using find_next [OF s4(2), of "Logical LC_AreaOfInterest"] by auto
  obtain s6 where s6: "find_channel (Logical LC_Capability) s5 = (Done (h (Logical LC_Capability)), s6)" "untaken s6 {Logical LC_Capability, Logical LC_AreaOfInterest, Logical LC_StaticToken, Logical LC_Reconciliation, Logical LC_Intersection, Control} h"
    using find_next [OF s5(2), of "Logical LC_Capability"] by auto
  obtain s7 where s7: "find_channel (Logical LC_Data) s6 = (Done (h (Logical LC_Data)), s7)" "untaken s7 {Logical LC_Data, Logical LC_Capability, Logical LC_AreaOfInterest, Logical LC_StaticToken, Logical LC_Reconciliation, Logical LC_Intersection, Control} h"
    using find_next [OF s6(2), of "Logical LC_Data"] by auto
  show ?thesis
    by (simp add: collect_channels_def rbind_def s1(1) s2(1) s3(1) s4(1) s5(1) s6(1) s7(1) ret_def all_channels get_logical_def)
qed

lemma find_missing:
  assumes "channel_view st c = None"
    and "\<And>x st'. c \<noteq> d \<Longrightarrow> channel_view st' c = None \<Longrightarrow> fst (f x st') = Failed (E_Net ''missing channel'')"
  shows "fst (rbind (find_channel d) f st) = Failed (E_Net ''missing channel'')"
proof (cases "channel_view st d")
  case None
  obtain st' where "find_channel d st = (Failed (E_Net ''missing channel''), st')" using find_channel_None [OF None] by blast
  then show ?thesis by (simp add: rbind_def)
next
  case (Some x)
  obtain st' where st': "find_channel d st = (Done x, st')" "channel_view st' = (channel_view st)(d := None)"
    using find_channel_Done [OF Some] by blast
  have "c \<noteq> d" using assms(1) Some by auto
  then show ?thesis using assms(1) assms(2) [of st' x] st' by (simp add: rbind_def)
qed

lemma collect_channels_missing:
  assumes "channel_view st c = None"
  shows "fst (collect_channels st) = Failed (E_Net ''missing channel'')"
  unfolding collect_channels_def
  by (rule find_missing [OF assms], (rule find_missing, assumption)+) (use channel_cases [of c] in simp)

lemma prepare_view:
  "channel_view (map (\<lambda>(ch, s). (ch, Some (prepare_channel ch s))) cs) c = map_option (prepare_channel c) (map_of cs c)"
  by (induction cs) (auto simp: channel_view_def)

lemma prepare_channels_result:
  assumes "\<And>c. map_of cs c = Some (f c)"
  shows "\<exists>chans. prepare_channels cs = Done chans \<and>
    (\<forall>c. senders_get (ch_send chans) c = fst (prepare_channel c (f c)) \<and> receivers_get (ch_recv chans) c = snd (prepare_channel c (f c)))"
proof -
  have "untaken (map (\<lambda>(ch, s). (ch, Some (prepare_channel ch s))) cs) {} (\<lambda>c. prepare_channel c (f c))"
    unfolding untaken_def prepare_view by (simp add: assms)
  from collect_channels_Done [OF this] show ?thesis by (auto simp: prepare_channels_def)
qed

lemma prepare_channels_missing:
  assumes "c \<notin> fst ` set cs"
  shows "prepare_channels cs = Failed (E_Net ''missing channel'')"
  unfolding prepare_channels_def
  by (rule collect_channels_missing [of _ c]) (use assms in \<open>simp add: prepare_view map_of_eq_None_iff\<close>)

lemma open_betty:
  assumes "\<And>c. first_byte (sid c) = channel_id c" "set arrivals \<subseteq> range sid"
  shows "\<exists>cs. open_channel_streams_betty first_byte arrivals = Ok cs \<and> snd ` set cs = set arrivals \<and> (\<forall>(c, s) \<in> set cs. s = sid c)"
  using assms(2)
proof (induction arrivals)
  case (Cons s ss)
  then obtain c where "s = sid c" by auto
  with Cons show ?case by (auto simp: assms(1) channel_from_id_id)
qed simp

text \<open>
  C25: The channels of the two peers are connected: whatever streams Alfie opened for the channels and in whatever
  order they arrive at Betty, both peers prepare all channels, and for every channel the sender of each peer feeds the
  stream that the receiver of the other peer reads, with unlimited guarantees on the control channel and none yet on
  the others.
\<close>

theorem channels_connected:
  assumes "inj sid" "\<And>c. first_byte (sid c) = channel_id c" "set arrivals = range sid"
  shows "\<exists>cs a b. open_channel_streams_betty first_byte arrivals = Ok cs \<and>
    prepare_channels (open_channel_streams_alfie sid) = Done a \<and> prepare_channels cs = Done b \<and>
    (\<forall>c. snd (senders_get (ch_send a) c) = snd (receivers_get (ch_recv b) c) \<and>
         snd (senders_get (ch_send b) c) = snd (receivers_get (ch_recv a) c) \<and>
         fst (senders_get (ch_send a) c) = outbound_channel CHANNEL_CAP (if c = Control then Unlimited else Limited 0) \<and>
         fst (senders_get (ch_send b) c) = outbound_channel CHANNEL_CAP (if c = Control then Unlimited else Limited 0))"
proof -
  obtain cs where cs: "open_channel_streams_betty first_byte arrivals = Ok cs" "snd ` set cs = set arrivals" "\<forall>(c, s) \<in> set cs. s = sid c"
    using open_betty [of first_byte sid arrivals] assms(2,3) by auto
  have betty: "map_of cs c = Some (sid c)" for c
  proof -
    obtain c' where "(c', sid c) \<in> set cs" using cs(2) assms(3) by fastforce
    moreover from this have "sid c = sid c'" using cs(3) by fastforce
    ultimately have "(c, sid c) \<in> set cs" using injD [OF assms(1)] by metis
    then obtain s where "map_of cs c = Some s" by (cases "map_of cs c") (auto simp: map_of_eq_None_iff image_iff)
    then show ?thesis using cs(3) by (auto dest: map_of_SomeD)
  qed
  have alfie: "map_of (open_channel_streams_alfie sid) c = Some (sid c)" for c
    by (simp add: open_channel_streams_alfie_def map_of_map_restrict channel_all_complete)
  obtain a where a: "prepare_channels (open_channel_streams_alfie sid) = Done a"
    "\<forall>c. senders_get (ch_send a) c = fst (prepare_channel c (sid c)) \<and> receivers_get (ch_recv a) c = snd (prepare_channel c (sid c))"
    using prepare_channels_result [of "open_channel_streams_alfie sid" sid, OF alfie] by auto
  obtain b where b: "prepare_channels cs = Done b"
    "\<forall>c. senders_get (ch_send b) c = fst (prepare_channel c (sid c)) \<and> receivers_get (ch_recv b) c = snd (prepare_channel c (sid c))"
    using prepare_channels_result [of cs sid, OF betty] by auto
  have g: "(case c of Control \<Rightarrow> Unlimited | Logical x \<Rightarrow> Limited 0) = (if c = Control then Unlimited else Limited 0)" for c
    by (cases c) simp_all
  show ?thesis
    using cs(1) a b by (auto simp: prepare_channel_def Let_def g)
qed

text \<open>The initial transmission gives each peer the commitment of the other, and the payload size of \<open>2 ^ 18\<close>.\<close>

lemma initial_transmission_exchange:
  assumes "\<And>x. length (hash x) = 32"
  shows "initial_transmission na (initial_message hash nb) =
    (Done \<lparr> it_our_nonce = na, it_received_commitment = challenge_hash hash nb, it_their_max_payload_size = 2 ^ 18 \<rparr>, [])"
  using assms [of nb]
  by (simp add: initial_transmission_def initial_message_def MAX_PAYLOAD_SIZE_POWER_def CHALLENGE_HASH_LENGTH_def challenge_hash_def)

text \<open>A peer that announces the power 64 passes the check and overflows the multiplication.\<close>

lemma payload_power_overflows: "fst (initial_transmission na (64 # rest)) = Overflowed"
  by (simp add: initial_transmission_def)

section \<open>The end of a connection\<close>

definition ERROR_CODE_FAIL :: nat where "ERROR_CODE_FAIL = 1"
definition ERROR_CODE_OK :: nat where "ERROR_CODE_OK = 2"
definition ERROR_CODE_DUPLICATE_CONN :: nat where "ERROR_CODE_DUPLICATE_CONN = 3"
definition ERROR_CODE_SHUTDOWN :: nat where "ERROR_CODE_SHUTDOWN = 4"

text \<open>What a peer that waits observes: the connection ends, or a stream arrives from which a byte is read or not.\<close>

datatype ConnectionError = ApplicationClosed nat | OtherConnectionError

datatype ReadExact = ReadByte u8 | ReadConnectionLost ConnectionError | ReadOther

datatype accepted = AcceptError ConnectionError | AcceptStream ReadExact

fun wait_for_goodbye_or_graceful_close :: "accepted \<Rightarrow> Error + unit" where
  "wait_for_goodbye_or_graceful_close (AcceptError (ApplicationClosed code)) =
     (if code = ERROR_CODE_OK then Ok () else Err (E_ConnectionClosed ''closed''))"
| "wait_for_goodbye_or_graceful_close (AcceptError OtherConnectionError) = Err (E_ConnectionClosed ''lost'')"
| "wait_for_goodbye_or_graceful_close (AcceptStream (ReadByte b)) =
     (if b = 1 then Ok () else Err (E_Net ''Received unexpected closing byte from peer.''))"
| "wait_for_goodbye_or_graceful_close (AcceptStream (ReadConnectionLost (ApplicationClosed code))) =
     (if code = ERROR_CODE_OK then Ok () else Err (E_ConnectionClosed ''closed''))"
| "wait_for_goodbye_or_graceful_close (AcceptStream (ReadConnectionLost OtherConnectionError)) = Err (E_ConnectionClosed ''lost'')"
| "wait_for_goodbye_or_graceful_close (AcceptStream ReadOther) = Err (E_Net ''read failed'')"

text \<open>
  \<open>terminate_gracefully\<close> after the goodbye byte was sent: \<open>None\<close> is the timeout.  The code that the connection
  is closed with, and the result.
\<close>

definition terminate_gracefully :: "accepted option \<Rightarrow> nat \<times> (Error + unit)" where
  "terminate_gracefully seen =
     (case seen of
        None \<Rightarrow> (ERROR_CODE_FAIL, Err (E_Net ''deadline has elapsed''))
      | Some a \<Rightarrow>
          (case wait_for_goodbye_or_graceful_close a of
             Inr _ \<Rightarrow> (ERROR_CODE_OK, Ok ())
           | Inl err \<Rightarrow> (ERROR_CODE_FAIL, Err err)))"

text \<open>
  Two peers that end their connection.  A peer is busy, or has sent its goodbye byte and waits, or has closed the
  connection, or could not open the stream for its goodbye byte.  A waiting peer sees the goodbye byte of the other
  once it was sent, and the end of the connection once the other has closed it, before or while it reads from the
  stream.
\<close>

datatype ending = Busy | Waiting | Ended nat "Error + unit" | Refused

fun has_sent :: "ending \<Rightarrow> bool" where
  "has_sent Waiting \<longleftrightarrow> True"
| "has_sent (Ended _ _) \<longleftrightarrow> True"
| "has_sent _ \<longleftrightarrow> False"

fun connection_open :: "ending \<Rightarrow> bool" where
  "connection_open (Ended _ _) \<longleftrightarrow> False"
| "connection_open _ \<longleftrightarrow> True"

inductive observes :: "ending \<Rightarrow> accepted \<Rightarrow> bool" where
  goodbye: "has_sent other \<Longrightarrow> observes other (AcceptStream (ReadByte 1))"
| closed: "observes (Ended code r) (AcceptError (ApplicationClosed code))"
| closed_reading: "observes (Ended code r) (AcceptStream (ReadConnectionLost (ApplicationClosed code)))"

text \<open>One step of a peer while the other is in a given state\<close>

inductive peer_step :: "bool \<Rightarrow> ending \<Rightarrow> ending \<Rightarrow> ending \<Rightarrow> bool" for may_time_out :: bool where
  send_goodbye: "connection_open other \<Longrightarrow> peer_step may_time_out other Busy Waiting"
| cannot_send: "\<not> connection_open other \<Longrightarrow> peer_step may_time_out other Busy Refused"
| see: "observes other seen \<Longrightarrow> terminate_gracefully (Some seen) = (code, r) \<Longrightarrow> peer_step may_time_out other Waiting (Ended code r)"
| time_out: "may_time_out \<Longrightarrow> terminate_gracefully None = (code, r) \<Longrightarrow> peer_step may_time_out other Waiting (Ended code r)"

inductive end_step :: "bool \<Rightarrow> ending \<times> ending \<Rightarrow> ending \<times> ending \<Rightarrow> bool" for may_time_out :: bool where
  left_step: "peer_step may_time_out b a a' \<Longrightarrow> end_step may_time_out (a, b) (a', b)"
| right_step: "peer_step may_time_out a b b' \<Longrightarrow> end_step may_time_out (a, b) (a, b')"

inductive_cases peer_stepE: "peer_step mt other a a'"
inductive_cases observesE: "observes other seen"
inductive_cases end_stepE: "end_step mt (a, b) s'"

definition ending_ok :: "bool \<Rightarrow> ending \<Rightarrow> ending \<Rightarrow> bool" where
  "ending_ok mt other a \<longleftrightarrow>
     (case a of
        Ended code r \<Rightarrow> code = ERROR_CODE_OK \<and> r = Ok () \<and> has_sent other \<or> code = ERROR_CODE_FAIL \<and> r \<noteq> Ok () \<and> mt
      | Refused \<Rightarrow> mt
      | _ \<Rightarrow> True)"

lemma error_codes [simp]: "ERROR_CODE_OK \<noteq> ERROR_CODE_FAIL" "ERROR_CODE_FAIL \<noteq> ERROR_CODE_OK"
  by (simp_all add: ERROR_CODE_OK_def ERROR_CODE_FAIL_def)

lemma terminate_cases:
  assumes "observes other seen" "terminate_gracefully (Some seen) = (code, r)" "ending_ok mt a other"
  shows "ending_ok mt other (Ended code r)"
  using assms(1)
proof cases
  case goodbye
  then show ?thesis using assms(2) by (auto simp: terminate_gracefully_def ending_ok_def)
next
  case (closed c r')
  then show ?thesis using assms(2,3) by (auto simp: terminate_gracefully_def ending_ok_def split: if_splits)
next
  case (closed_reading c r')
  then show ?thesis using assms(2,3) by (auto simp: terminate_gracefully_def ending_ok_def split: if_splits)
qed

lemma peer_step_ok:
  assumes "peer_step mt other a a'" "ending_ok mt a other" "ending_ok mt other a"
  shows "ending_ok mt other a' \<and> ending_ok mt a' other"
  using assms
proof cases
  case (see seen code r)
  then show ?thesis using terminate_cases [of other seen code r mt a] assms by (auto simp: ending_ok_def split: ending.splits)
next
  case cannot_send
  then show ?thesis using assms by (auto simp: ending_ok_def split: ending.splits)
qed (auto simp: ending_ok_def terminate_gracefully_def split: ending.splits)

lemma end_reach_ok:
  "(end_step mt)\<^sup>*\<^sup>* (Busy, Busy) s \<Longrightarrow> ending_ok mt (snd s) (fst s) \<and> ending_ok mt (fst s) (snd s)"
proof (induction rule: rtranclp_induct)
  case (step s s')
  from step.hyps(2) show ?case
    by cases (use step.IH peer_step_ok in auto)
qed (simp add: ending_ok_def)


section \<open>Streams that can be cancelled\<close>

text \<open>\<open>poll\<close> is the inner stream; \<open>token\<close> tells whether the token is cancelled at the time of the poll.\<close>

record 's Cancelable =
  cl_stream :: 's
  cl_is_cancelled :: bool

definition cancelable_new :: "'s \<Rightarrow> 's Cancelable"
  where "cancelable_new stream = \<lparr> cl_stream = stream, cl_is_cancelled = False \<rparr>"

definition cancelable_into_inner :: "'s Cancelable \<Rightarrow> 's"
  where "cancelable_into_inner self = cl_stream self"

definition cancelable_poll_next :: "('s \<Rightarrow> 'a option poll \<times> 's) \<Rightarrow> bool \<Rightarrow> 's Cancelable \<Rightarrow> 'a option poll \<times> 's Cancelable" where
  "cancelable_poll_next poll token self =
     (case poll (cl_stream self) of
        (Ready r, stream) \<Rightarrow> (Ready r, self\<lparr> cl_stream := stream \<rparr>)
      | (Pending, stream) \<Rightarrow>
          (let self' = self\<lparr> cl_stream := stream \<rparr> in
           if cl_is_cancelled self then (Ready None, self')
           else if token then (Ready None, self'\<lparr> cl_is_cancelled := True \<rparr>)
           else (Pending, self')))"

record 's CancelableReceiver =
  cr_receiver :: 's
  cr_is_cancelled :: bool

definition cancelable_receiver_new :: "bool \<Rightarrow> 's \<Rightarrow> 's CancelableReceiver"
  where "cancelable_receiver_new token receiver = \<lparr> cr_receiver = receiver, cr_is_cancelled = token \<rparr>"

definition cancelable_receiver_poll_next ::
  "('s \<Rightarrow> 'a option poll \<times> 's) \<Rightarrow> ('s \<Rightarrow> 's) \<Rightarrow> bool \<Rightarrow> 's CancelableReceiver \<Rightarrow> 'a option poll \<times> 's CancelableReceiver" where
  "cancelable_receiver_poll_next poll close token self =
     (case poll (cr_receiver self) of
        (Ready r, receiver) \<Rightarrow> (Ready r, self\<lparr> cr_receiver := receiver \<rparr>)
      | (Pending, receiver) \<Rightarrow>
          (if \<not> cr_is_cancelled self
           then if token then (Ready None, self\<lparr> cr_receiver := close receiver, cr_is_cancelled := True \<rparr>)
                else (Pending, self\<lparr> cr_receiver := receiver \<rparr>)
           else (Pending, self\<lparr> cr_receiver := receiver \<rparr>)))"

text \<open>A receiver of a channel whose sender is still there: the items that wait, and whether it is closed\<close>

fun queue_poll :: "'a list \<times> bool \<Rightarrow> 'a option poll \<times> 'a list \<times> bool" where
  "queue_poll (x # xs, closed) = (Ready (Some x), xs, closed)"
| "queue_poll ([], True) = (Ready None, [], True)"
| "queue_poll ([], False) = (Pending, [], False)"

fun drain :: "('s \<Rightarrow> 'a option poll \<times> 's) \<Rightarrow> nat \<Rightarrow> 's \<Rightarrow> 'a option poll list" where
  "drain poll 0 s = []"
| "drain poll (Suc n) s = (case poll s of (p, s') \<Rightarrow> p # drain poll n s')"

text \<open>A cancelled stream yields what is ready, and then ends.\<close>

lemma cancelable_drains:
  "drain (cancelable_poll_next queue_poll True) (Suc (length xs)) \<lparr> cl_stream = (xs, closed), cl_is_cancelled = c \<rparr> =
     map (\<lambda>x. Ready (Some x)) xs @ [Ready None]"
  by (induction xs) (cases closed; simp add: cancelable_poll_next_def Let_def)+

text \<open>A receiver whose token was cancelled before it was made is never closed: when nothing waits it stays pending.\<close>

lemma cancelled_before_never_ends:
  "cancelable_receiver_poll_next queue_poll (\<lambda>(xs, _). (xs, True)) True (cancelable_receiver_new True ([], False)) =
     (Pending, cancelable_receiver_new True ([], False))"
  by (simp add: cancelable_receiver_poll_next_def cancelable_receiver_new_def)

section \<open>Instances\<close>

theorem channels_connected_witness:
  "\<exists>cs a b. open_channel_streams_betty id (rev (map channel_id channel_all)) = Ok cs \<and>
     prepare_channels (open_channel_streams_alfie channel_id) = Done a \<and> prepare_channels cs = Done b \<and>
     (\<forall>c. snd (senders_get (ch_send a) c) = snd (receivers_get (ch_recv b) c))"
proof -
  have "inj channel_id" using channel_from_id_id by (metis injI sum.inject(2))
  moreover have "set (rev (map channel_id channel_all)) = range channel_id" using channel_all_complete by simp
  ultimately show ?thesis using channels_connected [of channel_id id "rev (map channel_id channel_all)"] by auto
qed


end
