(* ===== verification/Spec2Isabelle.thy ===== *)
theory Spec2Isabelle
  imports Reconciliation Pai_Exchange Data_Channel Peer_Manager Persistent_Caps Engine_Actor Connection
begin

text \<open>
  \<^bold>\<open>Verification of iroh-willow.\<close>  The program synchronises Willow namespaces between two peers over the
  Willow General Purpose Sync Protocol.  A peer keeps entries, payloads, secrets and capabilities in a
  store; a session sets up capabilities and static tokens over a challenge, finds the areas that both peers
  may and want to read (private area intersection, then areas of interest), reconciles these areas by
  comparing fingerprints of ranges, and transmits entries and payloads over bounded channels.

  \<^bold>\<open>Conventions.\<close>  Structs are records, enums are datatypes, integers are words of their width, results are
  sums (\<open>Inl\<close> is \<open>Err\<close>), a panic is \<open>None\<close> or the outcome \<open>Panicked\<close>.  \<open>RefCell\<close> and \<open>Mutex\<close> state is
  passed explicitly; a future is polled, and a \<open>Pending\<close> poll returns the waker lists it changed.  A
  \<open>HashMap\<close> is an association list in the order of its iteration, a \<open>HashSet\<close> a list without repetitions.
  The crates that the sources call are arguments with their documented behaviour as named hypotheses:
  \<open>ed25519_dalek\<close> (\<open>ed25519\<close>, \<open>ed25519_laws\<close>), \<open>willow_data_model\<close> (\<open>wdm\<close>, with \<open>path_laws\<close>, \<open>range_laws\<close>,
  \<open>area_laws\<close> and \<open>newer_laws\<close>), \<open>blake3\<close> (the hash arguments), \<open>curve25519_dalek\<close> (\<open>psi_env\<close>), \<open>meadowcap\<close>
  (\<open>meadowcap_fns\<close>), the database \<open>redb\<close> and the trees of \<open>willow_store\<close> (\<open>redb_laws\<close>, \<open>table_laws\<close>,
  \<open>multimap_laws\<close>, \<open>node_laws\<close>, \<open>subseq_law\<close>).  Witnesses instantiate them with concrete functions (\<open>demo_wdm\<close> and the like).

  \<^bold>\<open>Theories.\<close>
  \<^item> \<open>Prelude\<close>: words, hash maps, results, big-endian numbers.
  \<^item> \<open>Util_Bytes\<close> (\<open>util.rs\<close>, \<open>util/codec.rs\<close>, \<open>util/codec2.rs\<close>): the successor of a byte string, compact-width
    integers and their round trip.
  \<^item> \<open>Keys\<close> (\<open>proto/keys.rs\<close>): keys, ids, signatures, parsing, the successor of a user id.
  \<^item> \<open>Data_Model\<close> (\<open>proto/data_model.rs\<close>, \<open>proto/grouping.rs\<close>): paths, entries, areas, ranges; an area is turned
    into a range with the same entries.
  \<^item> \<open>Handles\<close>, \<open>Resource_Map\<close> (\<open>proto/wgps/handles.rs\<close>, \<open>session/error.rs\<close>, \<open>session/resource.rs\<close>): handles as the
    locale \<open>is_handle\<close>, maps of bound resources as the locale \<open>resource_store\<close>; no wake-up is lost.
  \<^item> \<open>Fingerprint\<close> (\<open>proto/wgps/fingerprint.rs\<close>): fingerprints are a homomorphism from multisets of entries.
  \<^item> \<open>Store_Glue\<close> (\<open>store/willow_store_glue.rs\<close>): conversions to and from the stored form.
  \<^item> \<open>Store_Traits\<close>, \<open>Event_Queue\<close>, \<open>Memory_Store\<close> (\<open>store/traits.rs\<close>, \<open>store/memory.rs\<close>): splitting of ranges
    (locale \<open>entry_reader\<close>), ingestion with prefix pruning, subscriptions.
  \<^item> \<open>Caps_Auth\<close> (\<open>interest.rs\<close>, \<open>store/auth.rs\<close>, \<open>proto/meadowcap.rs\<close>, \<open>CapsStore\<close> of \<open>store/memory.rs\<close>): selectors,
    interests, capability packs, the store of capabilities (locale \<open>caps_storage\<close>, interpreted on the in-memory
    store), import, selection of the widest capability, delegation that never widens, resolution of interests.
  \<^item> \<open>Store_Ops\<close> (\<open>store.rs\<close>, \<open>form.rs\<close>): forms, insertion of authorised entries, creation of namespaces.
  \<^item> \<open>Engine_Actor\<close> (\<open>engine/actor.rs\<close>): the actor that owns the store; its store stays sound, and it answers in order.
  \<^item> \<open>Persistent_Store\<close> (\<open>store/persistent.rs\<close>, \<open>store/persistent/tables.rs\<close>): the current transaction refines the
    tables; ingestion, tokens with reference counts, snapshots; what an ingestion changes, that every held entry
    has its token, and that a range query returns exactly what is held.
  \<^item> \<open>Persistent_Caps\<close> (\<open>store/persistent.rs\<close>): secrets, equivalent to those of the in-memory store, and capabilities.
  \<^item> \<open>Messages\<close> (\<open>proto/wgps/messages.rs\<close>, \<open>proto/wgps/channels.rs\<close>): messages, channels, framing.
  \<^item> \<open>Util_Channel\<close> (\<open>util/channel.rs\<close>, \<open>util/pipe.rs\<close>, \<open>util/queue.rs\<close>, the stream loops of \<open>net.rs\<close>): the bounded
    byte channel with guarantees, and a link of two peers that delivers in order.
  \<^item> \<open>Connection\<close> (\<open>net.rs\<close>, \<open>session/channels.rs\<close>, \<open>util/stream.rs\<close>): the initial transmission, the channels of two peers,
    which are connected whatever order their streams arrive in, the routing of messages, the graceful end as a step
    relation in which neither peer closes too early, streams that can be cancelled.
  \<^item> \<open>Session_Setup\<close> (\<open>session/challenge.rs\<close>, \<open>session/capabilities.rs\<close>, \<open>session/static_tokens.rs\<close>): agreement on
    the challenge, authenticated capabilities, mirrored token maps.
  \<^item> \<open>Aoi_Finder\<close> (\<open>session/aoi_finder.rs\<close>): exactly the overlapping pairs are reported, on both sides alike.
  \<^item> \<open>Pai\<close>, \<open>Pai_Exchange\<close> (\<open>proto/pai.rs\<close>, \<open>session/pai_finder.rs\<close>): the finder and the exchange of two finders as a
    step relation; the intersections found are those of the capabilities, and no message is refused.
  \<^item> \<open>Intents\<close> (\<open>session/intents.rs\<close>): intents, their events, and the dispatcher; the runs of the dispatcher as an
    inductive predicate that observes the channels of intents; an intent is told that all is reconciled exactly
    when it is.
  \<^item> \<open>Session_Run\<close> (parts of \<open>session/run.rs\<close>): the control loop, reception of capabilities and areas, the end of a
    session; no intent is lost there.
  \<^item> \<open>Payload\<close>, \<open>Data_Channel\<close> (\<open>session/payload.rs\<close>, \<open>session/data.rs\<close>): chunked transmission and reception of
    payloads, and the data channel that forwards entries ingested during a session; what is sent arrives.
  \<^item> \<open>Peer_Manager\<close> (\<open>engine/peer_manager.rs\<close>): the handlers and the loop of the manager of connections and
    sessions as transitions of a step relation; it refines a ledger in which every intent waits or is settled
    once, and it stops only in the cases listed there.
  \<^item> \<open>Outcome\<close>, \<open>Reconciler\<close>, \<open>Recon_Batches\<close>, \<open>Recon_Invariant\<close>, \<open>Reconciliation\<close> (\<open>session/reconciler.rs\<close>): handlers
    as programs with weakest preconditions, the reconciler of one peer, the system of two peers over FIFO
    channels as a step relation with its invariant, and the three theorems about it: reconciled ranges have
    all entries of both peers, no handler fails, and no state is stuck before the end.  The laws of the
    storage are the locale interpreted on the in-memory store (\<open>mem_storage\<close>).

  \<^bold>\<open>Bounds and fuel.\<close>  Loops recurse on the list they consume.  The splitting of a range recurses on the
  number of entries in it.  Key generation repeats until a key of the wanted kind is found, with fuel; some
  fuel is shown to be enough.  Handles count up to \<open>2 ^ 64\<close>, a hypothesis of the statements about them.

  \<^bold>\<open>Not modelled.\<close>  Serialisation by \<open>serde\<close> and the encoders of \<open>willow_encoding\<close> (generated or third-party
  code), also as formats of the values in the database; the handle of the actor and the RPC layer (message
  forwarding), the interleaving of the actor with the tasks it spawns, and QUIC itself; the forwarder of events of accepted intents; in \<open>session/run.rs\<close>, the routing of
  outputs between inboxes and the joining of the loops.
\<close>

end
